(* ===== verification/Prelude.thy ===== *)
theory Prelude
  imports Main "HOL-Library.Word"
begin

text \<open>
  Shared vocabulary of the development: the machine types of the C sources, the
  result type of code that may leave through Perl's \<open>croak\<close> (a \<open>longjmp\<close>: the
  state changes made so far stay) or run into undefined behaviour, and the
  generic lemmas on lists and words that the components use.
\<close>

unbundle bit_operations_syntax

named_theorems xs_simps "unfolding of the state-and-fault combinators"
named_theorems wire_simps "evaluation of the byte-level routines"

section \<open>Machine types\<close>

type_synonym byte = "8 word"
type_synonym u16 = "16 word"
type_synonym u32 = "32 word"
type_synonym u64 = "64 word"
type_synonym size_t = "64 word"
type_synonym ptr = "64 word"

abbreviation NULL :: ptr where
  "NULL \<equiv> 0"

text \<open>
  \<open>NvFin m e\<close> is the finite double \<open>m * 2 ^ e\<close> (with \<open>e\<close> possibly negative),
  \<open>NvInf\<close> carries the sign (\<open>True\<close> for minus infinity).
\<close>

datatype nv = NvFin int int | NvInf bool | NvNaN

section \<open>Computations that may croak or fault\<close>

text \<open>
  \<open>Croak fmt args\<close> is a call of \<open>croak\<close> with that format; \<open>Fault what\<close> marks a
  point where the C code would run into undefined behaviour (a null dereference,
  a double free, a write past an allocation).
\<close>

datatype carg = CStr string | CInt int | CNv nv

datatype fault = Croak string "carg list" | Fault string

type_synonym ('s, 'a) xs = "'s \<Rightarrow> (fault + 'a) \<times> 's"

definition ret :: "'a \<Rightarrow> ('s, 'a) xs" where
  "ret x = (\<lambda>s. (Inr x, s))"

definition raise :: "fault \<Rightarrow> ('s, 'a) xs" where
  "raise e = (\<lambda>s. (Inl e, s))"

definition bind_xs :: "('s, 'a) xs \<Rightarrow> ('a \<Rightarrow> ('s, 'b) xs) \<Rightarrow> ('s, 'b) xs" where
  "bind_xs m k = (\<lambda>s. case m s of (Inl e, s') \<Rightarrow> (Inl e, s') | (Inr x, s') \<Rightarrow> k x s')"

definition then_xs :: "('s, 'a) xs \<Rightarrow> ('s, 'b) xs \<Rightarrow> ('s, 'b) xs" where
  "then_xs m k = bind_xs m (\<lambda>_. k)"

definition gets_xs :: "('s \<Rightarrow> 'a) \<Rightarrow> ('s, 'a) xs" where
  "gets_xs f = (\<lambda>s. (Inr (f s), s))"

definition modify_xs :: "('s \<Rightarrow> 's) \<Rightarrow> ('s, unit) xs" where
  "modify_xs f = (\<lambda>s. (Inr (), f s))"

text \<open>A state transformer that cannot fail.\<close>

definition lift_xs :: "('s \<Rightarrow> 'a \<times> 's) \<Rightarrow> ('s, 'a) xs" where
  "lift_xs f = (\<lambda>s. (Inr (fst (f s)), snd (f s)))"

abbreviation croak :: "string \<Rightarrow> carg list \<Rightarrow> ('s, 'a) xs" where
  "croak fmt args \<equiv> raise (Croak fmt args)"

abbreviation fault :: "string \<Rightarrow> ('s, 'a) xs" where
  "fault what \<equiv> raise (Fault what)"

text \<open>
  Loops over a list: \<open>map_xs\<close> collects the results, \<open>all_xs\<close> stops at the first body
  that returns false, \<open>iter_xs\<close> only runs the bodies.
\<close>

fun map_xs :: "('a \<Rightarrow> ('s, 'b) xs) \<Rightarrow> 'a list \<Rightarrow> ('s, 'b list) xs" where
  "map_xs f [] = ret []"
| "map_xs f (x # xs) = bind_xs (f x) (\<lambda>y. bind_xs (map_xs f xs) (\<lambda>ys. ret (y # ys)))"

fun all_xs :: "('a \<Rightarrow> ('s, bool) xs) \<Rightarrow> 'a list \<Rightarrow> ('s, bool) xs" where
  "all_xs f [] = ret True"
| "all_xs f (x # xs) = bind_xs (f x) (\<lambda>ok. if ok then all_xs f xs else ret False)"

fun iter_xs :: "('a \<Rightarrow> ('s, unit) xs) \<Rightarrow> 'a list \<Rightarrow> ('s, unit) xs" where
  "iter_xs f [] = ret ()"
| "iter_xs f (x # xs) = then_xs (f x) (iter_xs f xs)"

lemma ret_apply [simp, xs_simps]: "ret x s = (Inr x, s)"
  by (simp add: ret_def)

lemma raise_apply [simp, xs_simps]: "raise e s = (Inl e, s)"
  by (simp add: raise_def)

lemma gets_xs_apply [simp, xs_simps]: "gets_xs f s = (Inr (f s), s)"
  by (simp add: gets_xs_def)

lemma modify_xs_apply [simp, xs_simps]: "modify_xs f s = (Inr (), f s)"
  by (simp add: modify_xs_def)

lemma lift_xs_apply [simp, xs_simps]: "lift_xs f s = (Inr (fst (f s)), snd (f s))"
  by (simp add: lift_xs_def)

lemma bind_xs_lift [simp]: "bind_xs (lift_xs f) k s = k (fst (f s)) (snd (f s))"
  by (simp add: bind_xs_def)

lemma bind_xs_ret [simp]: "bind_xs (ret x) k = k x"
  by (simp add: bind_xs_def)

lemma bind_xs_raise [simp]: "bind_xs (raise e) k = raise e"
  by (simp add: bind_xs_def fun_eq_iff)

lemma bind_xs_Inr: "m s = (Inr x, s') \<Longrightarrow> bind_xs m k s = k x s'"
  by (simp add: bind_xs_def)

lemma bind_xs_Inl: "m s = (Inl e, s') \<Longrightarrow> bind_xs m k s = (Inl e, s')"
  by (simp add: bind_xs_def)

lemma then_xs_Inr: "m s = (Inr x, s') \<Longrightarrow> then_xs m k s = k s'"
  by (simp add: then_xs_def bind_xs_def)

lemma then_xs_Inl: "m s = (Inl e, s') \<Longrightarrow> then_xs m k s = (Inl e, s')"
  by (simp add: then_xs_def bind_xs_def)

lemma bind_xs_assoc: "bind_xs (bind_xs m f) g = bind_xs m (\<lambda>x. bind_xs (f x) g)"
  by (auto simp: bind_xs_def fun_eq_iff split: prod.split sum.split)

lemma bind_xs_gets [simp]: "bind_xs (gets_xs f) k s = k (f s) s"
  by (simp add: bind_xs_def)

lemma then_xs_modify [simp]: "then_xs (modify_xs f) k s = k (f s)"
  by (simp add: then_xs_def bind_xs_def)

lemma bind_xs_return_iff:
  "bind_xs m k s = (Inr y, t) \<longleftrightarrow> (\<exists>x s'. m s = (Inr x, s') \<and> k x s' = (Inr y, t))"
  by (auto simp: bind_xs_def split: prod.split sum.split)

lemma then_xs_return_iff:
  "then_xs m k s = (Inr y, t) \<longleftrightarrow> (\<exists>x s'. m s = (Inr x, s') \<and> k s' = (Inr y, t))"
  by (simp add: then_xs_def bind_xs_return_iff)

lemmas xs_return_iff = bind_xs_return_iff then_xs_return_iff

text \<open>A predicate on states that a computation keeps on every exit, faults included.\<close>

definition keeps :: "('s \<Rightarrow> bool) \<Rightarrow> ('s, 'a) xs \<Rightarrow> bool" where
  "keeps P m \<longleftrightarrow> (\<forall>s. P s \<longrightarrow> P (snd (m s)))"

lemma keepsD: "keeps P m \<Longrightarrow> P s \<Longrightarrow> P (snd (m s))"
  by (simp add: keeps_def)

lemma keeps_ret [simp, intro]: "keeps P (ret x)"
  by (simp add: keeps_def)

lemma keeps_raise [simp, intro]: "keeps P (raise e)"
  by (simp add: keeps_def)

lemma keeps_gets [simp, intro]: "keeps P (gets_xs f)"
  by (simp add: keeps_def)

lemma keeps_modify: "(\<And>s. P s \<Longrightarrow> P (f s)) \<Longrightarrow> keeps P (modify_xs f)"
  by (simp add: keeps_def)

lemma keeps_bind [intro]:
  assumes "keeps P m" and "\<And>x. keeps P (k x)"
  shows "keeps P (bind_xs m k)"
  using assms by (auto simp: keeps_def bind_xs_def split: prod.split sum.split)

lemma keeps_then [intro]: "keeps P m \<Longrightarrow> keeps P k \<Longrightarrow> keeps P (then_xs m k)"
  by (auto simp: then_xs_def)

section \<open>Words\<close>

lemma unat_lt64: "unat (w :: u64) < 2 ^ 64"
  using unsigned_less [of w] by simp

section \<open>Lists\<close>

lemma horner_sum_of_bool_eq_0_iff:
  assumes "length bs \<le> LENGTH('a)"
  shows "horner_sum of_bool 2 bs = (0 :: 'a :: len word) \<longleftrightarrow> (\<forall>b \<in> set bs. \<not> b)"
proof -
  have "(horner_sum of_bool 2 bs = (0 :: 'a word)) \<longleftrightarrow> (\<forall>n < LENGTH('a). \<not> bit (horner_sum of_bool 2 bs :: 'a word) n)"
    by (auto simp: bit_eq_iff bit_imp_le_length dest: bit_imp_le_length)
  also have "\<dots> \<longleftrightarrow> (\<forall>n < length bs. \<not> bs ! n)"
    using assms by (auto simp: bit_horner_sum_bit_word_iff)
  also have "\<dots> \<longleftrightarrow> (\<forall>b \<in> set bs. \<not> b)"
    by (auto simp: in_set_conv_nth)
  finally show ?thesis .
qed

text \<open>The last \<open>n\<close> elements of a list, and how appending moves that window.\<close>

definition last_n :: "nat \<Rightarrow> 'a list \<Rightarrow> 'a list" where
  "last_n n xs = drop (length xs - n) xs"

lemma length_last_n [simp]: "length (last_n n xs) = min n (length xs)"
  by (simp add: last_n_def)

lemma last_n_all [simp]: "length xs \<le> n \<Longrightarrow> last_n n xs = xs"
  by (simp add: last_n_def)

lemma last_n_0 [simp]: "last_n 0 xs = []"
  by (simp add: last_n_def)

lemma last_n_snoc: "0 < n \<Longrightarrow> last_n n (xs @ [x]) = last_n (n - 1) xs @ [x]"
  by (auto simp: last_n_def Suc_diff_le)

lemma last_n_last_n_snoc: "last_n n (last_n n xs @ [x]) = last_n n (xs @ [x])"
proof (cases "n \<le> length xs")
  case True
  then show ?thesis
    by (cases n) (auto simp: last_n_def Suc_diff_le Suc_diff_Suc)
qed (auto simp: last_n_def)

lemma set_last_n_subset: "set (last_n n xs) \<subseteq> set xs"
  by (auto simp: last_n_def dest: in_set_dropD)

lemma distinct_last_n: "distinct xs \<Longrightarrow> distinct (last_n n xs)"
  by (simp add: last_n_def)

end
