(* ===== verification/Perl_Api.thy ===== *)
theory Perl_Api
  imports Prelude
begin

text \<open>
  The part of the Perl interpreter's C interface that the XS sources use: scalars
  with their flag slots, blessed and magical referents on a heap, hashes, arrays
  and \<open>\<at>ISA\<close> look-up. Scalars are values; a reference (\<open>SvROK\<close>) names a referent
  by its heap address. Hashes keep their entries in iteration order. Reference
  counts are not part of the model: the death of a referent is the explicit event
  \<open>sv_dies\<close>, which the caller of a theorem may place anywhere.
\<close>

section \<open>Scalars\<close>

type_synonym addr = nat

record sv =
  sv_iok :: "(bool \<times> u64) option"
  sv_nok :: "nv option"
  sv_pok :: "(bool \<times> byte list) option"
  sv_rok :: "addr option"

definition PL_sv_undef :: sv where
  "PL_sv_undef = \<lparr>sv_iok = None, sv_nok = None, sv_pok = None, sv_rok = None\<rparr>"

definition SvIOK :: "sv \<Rightarrow> bool" where
  "SvIOK v \<longleftrightarrow> sv_iok v \<noteq> None"

definition SvUOK :: "sv \<Rightarrow> bool" where
  "SvUOK v \<longleftrightarrow> (case sv_iok v of Some (isuv, _) \<Rightarrow> isuv | None \<Rightarrow> False)"

definition SvNOK :: "sv \<Rightarrow> bool" where
  "SvNOK v \<longleftrightarrow> sv_nok v \<noteq> None"

definition SvPOK :: "sv \<Rightarrow> bool" where
  "SvPOK v \<longleftrightarrow> sv_pok v \<noteq> None"

definition SvROK :: "sv \<Rightarrow> bool" where
  "SvROK v \<longleftrightarrow> sv_rok v \<noteq> None"

definition SvOK :: "sv \<Rightarrow> bool" where
  "SvOK v \<longleftrightarrow> SvIOK v \<or> SvNOK v \<or> SvPOK v \<or> SvROK v"

definition newSViv :: "u64 \<Rightarrow> sv" where
  "newSViv w = PL_sv_undef\<lparr>sv_iok := Some (False, w)\<rparr>"

text \<open>
  \<open>newSVuv\<close> stores a value that fits \<open>IV\<close> as an \<open>IV\<close> and sets the unsigned flag
  only above \<open>IV_MAX\<close>.
\<close>

definition newSVuv :: "u64 \<Rightarrow> sv" where
  "newSVuv w = PL_sv_undef\<lparr>sv_iok := Some (2 ^ 63 \<le> uint w, w)\<rparr>"

definition newSVnv :: "nv \<Rightarrow> sv" where
  "newSVnv x = PL_sv_undef\<lparr>sv_nok := Some x\<rparr>"

definition newSVpvn :: "byte list \<Rightarrow> sv" where
  "newSVpvn bs = PL_sv_undef\<lparr>sv_pok := Some (False, bs)\<rparr>"

text \<open>The immortal booleans have all three slots set.\<close>

definition PL_sv_yes :: sv where
  "PL_sv_yes = \<lparr>sv_iok = Some (False, 1), sv_nok = Some (NvFin 1 0), sv_pok = Some (False, [49]), sv_rok = None\<rparr>"

definition PL_sv_no :: sv where
  "PL_sv_no = \<lparr>sv_iok = Some (False, 0), sv_nok = Some (NvFin 0 0), sv_pok = Some (False, []), sv_rok = None\<rparr>"

definition newRV :: "addr \<Rightarrow> sv" where
  "newRV a = PL_sv_undef\<lparr>sv_rok := Some a\<rparr>"

definition SvUTF8_on :: "sv \<Rightarrow> sv" where
  "SvUTF8_on v = v\<lparr>sv_pok := map_option (\<lambda>(_, bs). (True, bs)) (sv_pok v)\<rparr>"

text \<open>C strings of the sources are NUL-terminated byte strings.\<close>

definition bytes_of :: "string \<Rightarrow> byte list" where
  "bytes_of s = map (\<lambda>c. of_nat (of_char c)) s"

definition string_of :: "byte list \<Rightarrow> string" where
  "string_of bs = map (\<lambda>b. char_of (unat b)) bs"

definition newSVpv :: "string \<Rightarrow> sv" where
  "newSVpv s = newSVpvn (bytes_of s)"

text \<open>
  \<open>SvTRUE\<close> of a scalar without overloading: a string is true unless it is empty or
  \<open>"0"\<close>, a number unless it is zero, a reference always.
\<close>

definition SvTRUE :: "sv \<Rightarrow> bool" where
  "SvTRUE v =
     (if SvROK v then True
      else case sv_pok v of
        Some (_, bs) \<Rightarrow> bs \<noteq> [] \<and> bs \<noteq> bytes_of ''0''
      | None \<Rightarrow>
          (case sv_iok v of
             Some (_, w) \<Rightarrow> w \<noteq> 0
           | None \<Rightarrow> (case sv_nok v of None \<Rightarrow> False | Some x \<Rightarrow> (case x of NvFin m _ \<Rightarrow> m \<noteq> 0 | _ \<Rightarrow> True))))"

text \<open>\<open>INT2PTR(SvIV(sv))\<close> of a scalar whose integer slot is set.\<close>

definition iv_ptr :: "sv option \<Rightarrow> ptr option" where
  "iv_ptr v = (case v of None \<Rightarrow> None | Some v \<Rightarrow> map_option snd (sv_iok v))"

lemma newSVpvn_inject [simp]: "newSVpvn a = newSVpvn b \<longleftrightarrow> a = b"
  by (auto simp: newSVpvn_def PL_sv_undef_def)

lemmas sv_defs =
  PL_sv_undef_def SvIOK_def SvUOK_def SvNOK_def SvPOK_def SvROK_def SvOK_def
  newSViv_def newSVuv_def newSVnv_def newSVpvn_def newRV_def SvUTF8_on_def newSVpv_def

lemma sv_flags [simp]:
  "SvROK (newRV a)" "\<not> SvROK (newSViv w)" "SvIOK (newSViv w)" "\<not> SvOK PL_sv_undef"
  "sv_rok (newRV a) = Some a" "sv_iok (newSViv w) = Some (False, w)" "SvOK (newRV a)"
  "SvOK (newSViv w)" "\<not> SvROK PL_sv_undef" "sv_rok PL_sv_undef = None"
  "sv_rok (newSViv w) = None" "newRV a \<noteq> PL_sv_undef"
  by (simp_all add: sv_defs)

section \<open>Referents, magic and the heap\<close>

datatype vtbl = Wrapper_vtbl | Arena_vtbl

record magic =
  mg_vtbl :: vtbl
  mg_ptr :: ptr
  mg_private :: u16

datatype sv_body = PVHV "(string \<times> sv) list" | PVAV "sv option list" | PVMG sv

record referent =
  ref_body :: sv_body
  ref_stash :: "string option"
  ref_magic :: "magic list"
  ref_tied :: "sv option"

record perl_st =
  heap :: "addr \<Rightarrow> referent option"
  next_addr :: addr
  PL_dirty :: bool
  clock :: int
  isa :: "string \<Rightarrow> string list"

definition is_HV :: "referent \<Rightarrow> bool" where
  "is_HV r \<longleftrightarrow> (case ref_body r of PVHV _ \<Rightarrow> True | _ \<Rightarrow> False)"

definition is_AV :: "referent \<Rightarrow> bool" where
  "is_AV r \<longleftrightarrow> (case ref_body r of PVAV _ \<Rightarrow> True | _ \<Rightarrow> False)"

definition SvTYPE_num :: "referent \<Rightarrow> int" where
  "SvTYPE_num r = (case ref_body r of PVHV _ \<Rightarrow> 12 | PVAV _ \<Rightarrow> 11 | PVMG _ \<Rightarrow> 7)"

fun kv_store :: "'k \<Rightarrow> 'v \<Rightarrow> ('k \<times> 'v) list \<Rightarrow> ('k \<times> 'v) list" where
  "kv_store k v [] = [(k, v)]"
| "kv_store k v ((k', v') # kvs) = (if k = k' then (k, v) # kvs else (k', v') # kv_store k v kvs)"

definition kv_delete :: "'k \<Rightarrow> ('k \<times> 'v) list \<Rightarrow> ('k \<times> 'v) list" where
  "kv_delete k kvs = filter (\<lambda>(k', _). k' \<noteq> k) kvs"

lemma map_of_kv_store [simp]: "map_of (kv_store k v kvs) = (map_of kvs)(k \<mapsto> v)"
  by (induction kvs rule: kv_store.induct) auto

lemma map_of_kv_delete [simp]: "map_of (kv_delete k kvs) = (map_of kvs)(k := None)"
  by (induction kvs) (auto simp: kv_delete_def fun_eq_iff)

lemma keys_kv_store: "fst ` set (kv_store k v kvs) = insert k (fst ` set kvs)"
  by (induction kvs rule: kv_store.induct) auto

lemma distinct_kv_store: "distinct (map fst kvs) \<Longrightarrow> distinct (map fst (kv_store k v kvs))"
proof (induction kvs rule: kv_store.induct)
  case (2 k v k' v' kvs)
  then show ?case
    using keys_kv_store [of k v kvs] by (auto simp: image_iff)
qed simp

lemma distinct_kv_delete: "distinct (map fst kvs) \<Longrightarrow> distinct (map fst (kv_delete k kvs))"
  by (induction kvs) (auto simp: kv_delete_def)

text \<open>Hash entries of a referent; a referent that is no hash has none.\<close>

definition hv_fetch :: "referent \<Rightarrow> string \<Rightarrow> sv option" where
  "hv_fetch r k = (case ref_body r of PVHV kvs \<Rightarrow> map_of kvs k | _ \<Rightarrow> None)"

definition hv_store :: "string \<Rightarrow> sv \<Rightarrow> referent \<Rightarrow> referent" where
  "hv_store k v r = (case ref_body r of PVHV kvs \<Rightarrow> r\<lparr>ref_body := PVHV (kv_store k v kvs)\<rparr> | _ \<Rightarrow> r)"

definition hv_delete :: "string \<Rightarrow> referent \<Rightarrow> referent" where
  "hv_delete k r = (case ref_body r of PVHV kvs \<Rightarrow> r\<lparr>ref_body := PVHV (kv_delete k kvs)\<rparr> | _ \<Rightarrow> r)"

definition newHV :: referent where
  "newHV = \<lparr>ref_body = PVHV [], ref_stash = None, ref_magic = [], ref_tied = None\<rparr>"

definition newAV :: "sv list \<Rightarrow> referent" where
  "newAV vs = \<lparr>ref_body = PVAV (map Some vs), ref_stash = None, ref_magic = [], ref_tied = None\<rparr>"

definition sv_bless :: "string \<Rightarrow> referent \<Rightarrow> referent" where
  "sv_bless cls r = r\<lparr>ref_stash := Some cls\<rparr>"

definition sv_magicext :: "vtbl \<Rightarrow> ptr \<Rightarrow> referent \<Rightarrow> referent" where
  "sv_magicext t p r = r\<lparr>ref_magic := \<lparr>mg_vtbl = t, mg_ptr = p, mg_private = 0\<rparr> # ref_magic r\<rparr>"

definition mg_findext :: "referent \<Rightarrow> vtbl \<Rightarrow> magic option" where
  "mg_findext r t = find (\<lambda>m. mg_vtbl m = t) (ref_magic r)"

text \<open>Writing through the \<open>MAGIC*\<close> that \<open>mg_findext\<close> returned.\<close>

fun mg_write :: "vtbl \<Rightarrow> (magic \<Rightarrow> magic) \<Rightarrow> magic list \<Rightarrow> magic list" where
  "mg_write t f [] = []"
| "mg_write t f (m # ms) = (if mg_vtbl m = t then f m # ms else m # mg_write t f ms)"

definition mg_update :: "vtbl \<Rightarrow> (magic \<Rightarrow> magic) \<Rightarrow> referent \<Rightarrow> referent" where
  "mg_update t f r = r\<lparr>ref_magic := mg_write t f (ref_magic r)\<rparr>"

lemmas referent_defs =
  hv_fetch_def hv_store_def hv_delete_def newHV_def newAV_def sv_bless_def sv_magicext_def
  mg_findext_def mg_update_def is_HV_def is_AV_def

lemma hv_fetch_store [simp]:
  "is_HV r \<Longrightarrow> hv_fetch (hv_store k v r) k' = (if k' = k then Some v else hv_fetch r k')"
  by (auto simp: referent_defs split: sv_body.splits)

lemma hv_fetch_delete [simp]:
  "hv_fetch (hv_delete k r) k' = (if k' = k then None else hv_fetch r k')"
  by (auto simp: referent_defs split: sv_body.splits)

lemma is_HV_simps [simp]:
  "is_HV (hv_store k v r) = is_HV r" "is_HV (hv_delete k r) = is_HV r"
  "is_HV (sv_bless c r) = is_HV r" "is_HV (sv_magicext t p r) = is_HV r"
  "is_HV (mg_update t f r) = is_HV r" "is_HV newHV"
  by (auto simp: referent_defs split: sv_body.splits)

lemma hv_fetch_simps [simp]:
  "hv_fetch (sv_bless c r) k = hv_fetch r k" "hv_fetch (sv_magicext t p r) k = hv_fetch r k"
  "hv_fetch (mg_update t f r) k = hv_fetch r k" "hv_fetch newHV k = None"
  by (auto simp: referent_defs)

lemma ref_stash_simps [simp]:
  "ref_stash (hv_store k v r) = ref_stash r" "ref_stash (hv_delete k r) = ref_stash r"
  "ref_stash (sv_magicext t p r) = ref_stash r" "ref_stash (sv_bless c r) = Some c"
  "ref_stash (mg_update t f r) = ref_stash r" "ref_stash newHV = None"
  by (auto simp: referent_defs split: sv_body.splits)

lemma ref_magic_simps [simp]:
  "ref_magic (hv_store k v r) = ref_magic r" "ref_magic (hv_delete k r) = ref_magic r"
  "ref_magic (sv_bless c r) = ref_magic r" "ref_magic newHV = []"
  by (auto simp: referent_defs split: sv_body.splits)

lemma mg_findext_simps [simp]:
  "mg_findext (hv_store k v r) t = mg_findext r t" "mg_findext (hv_delete k r) t = mg_findext r t"
  "mg_findext (sv_bless c r) t = mg_findext r t" "mg_findext newHV t = None"
  "mg_findext (sv_magicext t p r) t' =
     (if t' = t then Some \<lparr>mg_vtbl = t, mg_ptr = p, mg_private = 0\<rparr> else mg_findext r t')"
  by (auto simp: mg_findext_def) (simp_all add: sv_magicext_def)

lemma find_mg_write:
  "(\<And>m. mg_vtbl (f m) = mg_vtbl m) \<Longrightarrow>
   find (\<lambda>m. mg_vtbl m = t') (mg_write t f ms) =
     (if t' = t then map_option f (find (\<lambda>m. mg_vtbl m = t) ms)
      else find (\<lambda>m. mg_vtbl m = t') ms)"
  by (induction ms) auto

lemma mg_findext_update [simp]:
  "(\<And>m. mg_vtbl (f m) = mg_vtbl m) \<Longrightarrow>
   mg_findext (mg_update t f r) t' =
     (if t' = t then map_option f (mg_findext r t) else mg_findext r t')"
  by (simp add: mg_findext_def mg_update_def find_mg_write)

section \<open>Heap operations\<close>

definition alloc :: "referent \<Rightarrow> ('z perl_st_scheme, addr) xs" where
  "alloc r = (\<lambda>s. (Inr (next_addr s),
     s\<lparr>heap := (heap s)(next_addr s \<mapsto> r), next_addr := Suc (next_addr s)\<rparr>))"

definition write_ref :: "addr \<Rightarrow> (referent \<Rightarrow> referent) \<Rightarrow> 'z perl_st_scheme \<Rightarrow> 'z perl_st_scheme" where
  "write_ref a f s = s\<lparr>heap := (heap s)(a := map_option f (heap s a))\<rparr>"

text \<open>\<open>SvRV\<close>: the referent an \<open>SV*\<close> points to, \<open>None\<close> for a null or non-reference \<open>SV*\<close>.\<close>

definition deref :: "'z perl_st_scheme \<Rightarrow> sv option \<Rightarrow> referent option" where
  "deref s v = (case v of None \<Rightarrow> None | Some v \<Rightarrow> Option.bind (sv_rok v) (heap s))"

text \<open>
  \<open>sv_derived_from\<close> walks \<open>\<at>ISA\<close>; Perl gives up at an inheritance depth of 100.
\<close>

fun derives :: "(string \<Rightarrow> string list) \<Rightarrow> nat \<Rightarrow> string \<Rightarrow> string \<Rightarrow> bool" where
  "derives parents 0 c d = (c = d)"
| "derives parents (Suc n) c d = (c = d \<or> list_ex (\<lambda>p. derives parents n p d) (parents c))"

definition sv_derived_from :: "'z perl_st_scheme \<Rightarrow> sv option \<Rightarrow> string \<Rightarrow> bool" where
  "sv_derived_from s v cls =
     (case deref s v of
        None \<Rightarrow> False
      | Some r \<Rightarrow> (case ref_stash r of None \<Rightarrow> False | Some c \<Rightarrow> derives (isa s) 100 c cls))"

definition sv_isa :: "'z perl_st_scheme \<Rightarrow> sv option \<Rightarrow> string \<Rightarrow> bool" where
  "sv_isa s v cls = (case deref s v of None \<Rightarrow> False | Some r \<Rightarrow> ref_stash r = Some cls)"

lemma derives_refl [simp]: "derives parents n c c"
  by (cases n) auto

lemma deref_simps [simp]:
  "deref s None = None" "deref s (Some (newRV a)) = heap s a" "deref s (Some PL_sv_undef) = None"
  by (auto simp: deref_def sv_defs)

lemma heap_write_ref [simp]: "heap (write_ref a f s) = (heap s)(a := map_option f (heap s a))"
  by (simp add: write_ref_def)

lemma write_ref_frame [simp]:
  "PL_dirty (write_ref a f s) = PL_dirty s" "isa (write_ref a f s) = isa s"
  "next_addr (write_ref a f s) = next_addr s" "clock (write_ref a f s) = clock s"
  by (simp_all add: write_ref_def)

text \<open>Addresses handed out so far bound the heap: the allocator never reuses one.\<close>

definition heap_ok :: "'z perl_st_scheme \<Rightarrow> bool" where
  "heap_ok s \<longleftrightarrow> (\<forall>a. heap s a \<noteq> None \<longrightarrow> a < next_addr s)"

lemma alloc_apply [xs_simps]:
  "alloc r s = (Inr (next_addr s), s\<lparr>heap := (heap s)(next_addr s \<mapsto> r), next_addr := Suc (next_addr s)\<rparr>)"
  by (simp add: alloc_def)

lemma keeps_heap_ok_alloc: "keeps heap_ok (alloc r)"
  by (auto simp: keeps_def alloc_def heap_ok_def less_Suc_eq)

text \<open>
  The sources cast the referent of a reference to \<open>HV*\<close> without looking at its type;
  on any other body the following hash access is undefined behaviour.
\<close>

definition rv_hv :: "sv option \<Rightarrow> ('z perl_st_scheme, referent) xs" where
  "rv_hv v = (\<lambda>s. case deref s v of
     None \<Rightarrow> (Inl (Fault ''SvRV of a dangling or non-reference SV''), s)
   | Some r \<Rightarrow> if is_HV r then (Inr r, s) else (Inl (Fault ''hash access on an SV that is not a hash''), s))"

text \<open>Updating the referent of a reference.\<close>

definition rv_update :: "sv option \<Rightarrow> (referent \<Rightarrow> referent) \<Rightarrow> 'z perl_st_scheme \<Rightarrow> 'z perl_st_scheme" where
  "rv_update v f s = (case Option.bind v sv_rok of None \<Rightarrow> s | Some a \<Rightarrow> write_ref a f s)"

lemma rv_update_newRV [simp]: "rv_update (Some (newRV a)) f s = write_ref a f s"
  by (simp add: rv_update_def)

section \<open>Printing pointers\<close>

text \<open>\<open>sprintf("%p")\<close> as the C library of the supported platforms prints it.\<close>

definition hex_digit :: "nat \<Rightarrow> char" where
  "hex_digit d = (if d < 10 then char_of (48 + d) else char_of (87 + d))"

fun hex_digits :: "nat \<Rightarrow> string" where
  "hex_digits n = (if n < 16 then [hex_digit n] else hex_digits (n div 16) @ [hex_digit (n mod 16)])"

declare hex_digits.simps [simp del]

definition fmt_ptr :: "ptr \<Rightarrow> string" where
  "fmt_ptr p = (if p = 0 then ''(nil)'' else ''0x'' @ hex_digits (unat p))"

end
