(* ===== verification/Registry.thy ===== *)
theory Registry
  imports Perl_Api
begin

text \<open>
  The per-interpreter registry (\<open>xs/protobuf/registry.c\<close>) and the mutexes of the
  object cache (\<open>xs/protobuf/port.h\<close>, the locking part of
  \<open>xs/protobuf/obj_cache.c\<close>). Lock and unlock calls are recorded in \<open>lock_trace\<close>,
  which the deadlock analysis reads; the outcomes of successive
  \<open>pthread_mutex_trylock\<close> calls are supplied in \<open>trylock_busy\<close> (an exhausted list
  means the lock was free).
\<close>

section \<open>State\<close>

record chaos_config =
  fail_probability :: nv
  delay_probability :: nv
  max_delay_ms :: u32
  seed :: u32
  enabled :: bool

text \<open>
  \<open>reg_obj_cache\<close> and \<open>reg_obj_lru\<close> say whether the registry's pointers are set;
  the containers themselves belong to the package variables
  \<open>$Protobuf::_obj_cache\<close> and \<open>$Protobuf::_obj_lru\<close> and are part of the state.
  Stashes are named by their class.
\<close>

record PerlUpb_Registry =
  reg_obj_cache :: bool
  reg_obj_lru :: bool
  descriptor_fingerprints :: "(u64 \<times> sv) list"
  stash_cache :: "(ptr \<times> string) list"
  stash_message :: string
  stash_repeated :: string
  stash_map :: string
  stash_arena :: string
  stash_unknown_fields :: string
  stash_repeated_public :: string
  stash_map_public :: string
  max_cache_capacity :: size_t
  cached_transient_arena :: ptr
  chaos :: chaos_config
  idle_time_arena_hook :: bool

datatype mutex = M_stripe nat | M_lru | M_audit

datatype lock_event = Acq mutex | Rel mutex

record contention_stat_t =
  acquisitions :: u64
  contentions :: u64

record audit_entry_t =
  ae_type :: int
  ae_ptr :: ptr
  ae_timestamp :: int

record audit_log_t =
  entries :: "audit_entry_t list"
  head :: nat
  count :: nat
  init :: bool

text \<open>
  \<open>registry_iok\<close> is the integer flag of the registry's scalar in \<open>PL_modglobal\<close> and
  \<open>registry\<close> the structure its value points to (\<open>None\<close> for a null pointer). A cache
  entry is a weak reference: \<open>Some a\<close> while the referent lives, \<open>None\<close> once Perl has
  cleared it.
\<close>

record cache_st = perl_st +
  registry_iok :: bool
  registry :: "PerlUpb_Registry option"
  obj_cache_hv :: "(ptr \<times> addr option) list option"
  obj_lru_av :: "ptr list option"
  global_audit_log :: audit_log_t
  cache_mutexes_init :: bool
  stripe_stats :: "contention_stat_t list"
  lru_stat :: contention_stat_t
  use_ithreads :: bool
  trylock_busy :: "bool list"
  lock_trace :: "lock_event list"

section \<open>Registry\<close>

definition PerlUpb_Registry_Init :: "'z cache_st_scheme \<Rightarrow> 'z cache_st_scheme" where
  "PerlUpb_Registry_Init s =
     (if registry_iok s then s
      else s\<lparr>registry_iok := True, registry := Some
          \<lparr>reg_obj_cache = False, reg_obj_lru = False,
           descriptor_fingerprints = [], stash_cache = [],
           stash_message = ''Protobuf::Message'',
           stash_repeated = ''Protobuf::Internal::Repeated'',
           stash_map = ''Protobuf::Internal::Map'',
           stash_arena = ''Protobuf::Arena'',
           stash_unknown_fields = ''Protobuf::UnknownFieldSet'',
           stash_repeated_public = ''Protobuf::Internal::Repeated::Public'',
           stash_map_public = ''Protobuf::Internal::Map::Public'',
           max_cache_capacity = 100000,
           cached_transient_arena = NULL,
           chaos = \<lparr>fail_probability = NvFin 0 0, delay_probability = NvFin 0 0,
                    max_delay_ms = 0, seed = of_int (clock s), enabled = False\<rparr>,
           idle_time_arena_hook = False\<rparr>\<rparr>)"

text \<open>Returns no registry during global destruction, and creates it on first use.\<close>

definition PerlUpb_Registry_Get ::
    "'z cache_st_scheme \<Rightarrow> PerlUpb_Registry option \<times> 'z cache_st_scheme" where
  "PerlUpb_Registry_Get s =
     (if PL_dirty s then (None, s)
      else if registry_iok s then (registry s, s)
      else let s' = PerlUpb_Registry_Init s in (registry s', s'))"

text \<open>
  \<open>registry_cleanup\<close> is the magic callback on the registry's scalar; the structure
  is released and the scalar reset to 0, which still is an integer, so a later
  \<open>PerlUpb_Registry_Get\<close> would return a null registry.
\<close>

definition registry_cleanup :: "'z cache_st_scheme \<Rightarrow> 'z cache_st_scheme" where
  "registry_cleanup s =
     (if PL_dirty s then s
      else case registry s of
             None \<Rightarrow> s
           | Some _ \<Rightarrow> s\<lparr>registry := None, registry_iok := True\<rparr>)"

section \<open>Mutexes\<close>

definition NUM_CACHE_STRIPES :: nat where
  "NUM_CACHE_STRIPES = 16"

definition MUTEX_LOCK :: "mutex \<Rightarrow> 'z cache_st_scheme \<Rightarrow> 'z cache_st_scheme" where
  "MUTEX_LOCK m s = (if use_ithreads s then s\<lparr>lock_trace := lock_trace s @ [Acq m]\<rparr> else s)"

definition MUTEX_UNLOCK :: "mutex \<Rightarrow> 'z cache_st_scheme \<Rightarrow> 'z cache_st_scheme" where
  "MUTEX_UNLOCK m s = (if use_ithreads s then s\<lparr>lock_trace := lock_trace s @ [Rel m]\<rparr> else s)"

definition stat_update ::
    "mutex \<Rightarrow> (contention_stat_t \<Rightarrow> contention_stat_t) \<Rightarrow> 'z cache_st_scheme \<Rightarrow> 'z cache_st_scheme" where
  "stat_update m f s =
     (case m of
        M_stripe i \<Rightarrow> s\<lparr>stripe_stats := (stripe_stats s)[i := f (stripe_stats s ! i)]\<rparr>
      | _ \<Rightarrow> s\<lparr>lru_stat := f (lru_stat s)\<rparr>)"

definition LOCK_AND_PROFILE :: "mutex \<Rightarrow> 'z cache_st_scheme \<Rightarrow> 'z cache_st_scheme" where
  "LOCK_AND_PROFILE m s =
     (if use_ithreads s then
        let busy = (case trylock_busy s of [] \<Rightarrow> False | b # _ \<Rightarrow> b);
            s = s\<lparr>trylock_busy := tl (trylock_busy s)\<rparr>
        in if \<not> busy
           then MUTEX_LOCK m (stat_update m (\<lambda>c. c\<lparr>acquisitions := acquisitions c + 1\<rparr>) s)
           else MUTEX_LOCK m (stat_update m
                  (\<lambda>c. c\<lparr>contentions := contentions c + 1, acquisitions := acquisitions c + 1\<rparr>) s)
      else stat_update m (\<lambda>c. c\<lparr>acquisitions := acquisitions c + 1\<rparr>) s)"

definition ensure_mutexes_init :: "'z cache_st_scheme \<Rightarrow> 'z cache_st_scheme" where
  "ensure_mutexes_init s =
     (if cache_mutexes_init s then s
      else s\<lparr>stripe_stats := replicate NUM_CACHE_STRIPES \<lparr>acquisitions = 0, contentions = 0\<rparr>,
             lru_stat := \<lparr>acquisitions = 0, contentions = 0\<rparr>,
             global_audit_log := (global_audit_log s)\<lparr>init := True\<rparr>,
             cache_mutexes_init := True\<rparr>)"

definition get_stripe :: "ptr \<Rightarrow> nat" where
  "get_stripe p = unat (drop_bit 4 p) mod NUM_CACHE_STRIPES"

lemma get_stripe_bound: "get_stripe p < NUM_CACHE_STRIPES"
  by (simp add: get_stripe_def NUM_CACHE_STRIPES_def)

section \<open>Frame facts\<close>

text \<open>The locking layer writes statistics and the trace only.\<close>

definition same_cache :: "'z cache_st_scheme \<Rightarrow> 'z cache_st_scheme \<Rightarrow> bool" where
  "same_cache s t \<longleftrightarrow>
     heap t = heap s \<and> next_addr t = next_addr s \<and> PL_dirty t = PL_dirty s \<and> clock t = clock s \<and>
     isa t = isa s \<and> registry_iok t = registry_iok s \<and> registry t = registry s \<and> obj_cache_hv t = obj_cache_hv s \<and>
     obj_lru_av t = obj_lru_av s \<and> use_ithreads t = use_ithreads s \<and>
     cache_mutexes_init t = cache_mutexes_init s \<and> cache_st.more t = cache_st.more s"

lemma same_cache_refl [simp]: "same_cache s s"
  by (simp add: same_cache_def)

lemma same_cache_trans: "same_cache s t \<Longrightarrow> same_cache t u \<Longrightarrow> same_cache s u"
  by (simp add: same_cache_def)

lemmas lock_defs = MUTEX_LOCK_def MUTEX_UNLOCK_def LOCK_AND_PROFILE_def stat_update_def Let_def

lemma lock_frames [simp]:
  "same_cache s (MUTEX_LOCK m s)" "same_cache s (MUTEX_UNLOCK m s)" "same_cache s (LOCK_AND_PROFILE m s)"
  by (auto simp: lock_defs same_cache_def split: mutex.split)

lemma lock_audit [simp]:
  "global_audit_log (MUTEX_LOCK m s) = global_audit_log s"
  "global_audit_log (MUTEX_UNLOCK m s) = global_audit_log s"
  "global_audit_log (LOCK_AND_PROFILE m s) = global_audit_log s"
  by (auto simp: lock_defs split: mutex.split)

lemma lock_fields [simp]:
  "heap (MUTEX_LOCK m s) = heap s" "heap (MUTEX_UNLOCK m s) = heap s" "heap (LOCK_AND_PROFILE m s) = heap s"
  "registry (MUTEX_LOCK m s) = registry s" "registry (MUTEX_UNLOCK m s) = registry s"
  "registry (LOCK_AND_PROFILE m s) = registry s"
  "registry_iok (MUTEX_LOCK m s) = registry_iok s" "registry_iok (MUTEX_UNLOCK m s) = registry_iok s"
  "registry_iok (LOCK_AND_PROFILE m s) = registry_iok s"
  "obj_cache_hv (MUTEX_LOCK m s) = obj_cache_hv s" "obj_cache_hv (MUTEX_UNLOCK m s) = obj_cache_hv s"
  "obj_cache_hv (LOCK_AND_PROFILE m s) = obj_cache_hv s"
  "obj_lru_av (MUTEX_LOCK m s) = obj_lru_av s" "obj_lru_av (MUTEX_UNLOCK m s) = obj_lru_av s"
  "obj_lru_av (LOCK_AND_PROFILE m s) = obj_lru_av s"
  "PL_dirty (MUTEX_LOCK m s) = PL_dirty s" "PL_dirty (MUTEX_UNLOCK m s) = PL_dirty s"
  "PL_dirty (LOCK_AND_PROFILE m s) = PL_dirty s"
  "clock (MUTEX_LOCK m s) = clock s" "clock (MUTEX_UNLOCK m s) = clock s"
  "clock (LOCK_AND_PROFILE m s) = clock s"
  "use_ithreads (MUTEX_LOCK m s) = use_ithreads s" "use_ithreads (MUTEX_UNLOCK m s) = use_ithreads s"
  "use_ithreads (LOCK_AND_PROFILE m s) = use_ithreads s"
  "cache_mutexes_init (MUTEX_LOCK m s) = cache_mutexes_init s"
  "cache_mutexes_init (MUTEX_UNLOCK m s) = cache_mutexes_init s"
  "cache_mutexes_init (LOCK_AND_PROFILE m s) = cache_mutexes_init s"
  "next_addr (MUTEX_LOCK m s) = next_addr s" "next_addr (MUTEX_UNLOCK m s) = next_addr s"
  "next_addr (LOCK_AND_PROFILE m s) = next_addr s"
  "isa (MUTEX_LOCK m s) = isa s" "isa (MUTEX_UNLOCK m s) = isa s" "isa (LOCK_AND_PROFILE m s) = isa s"
  "cache_st.more (MUTEX_LOCK m s) = cache_st.more s" "cache_st.more (MUTEX_UNLOCK m s) = cache_st.more s"
  "cache_st.more (LOCK_AND_PROFILE m s) = cache_st.more s"
  by (auto simp: lock_defs split: mutex.split)

lemma ensure_mutexes_fields [simp]:
  "heap (ensure_mutexes_init s) = heap s" "registry (ensure_mutexes_init s) = registry s"
  "registry_iok (ensure_mutexes_init s) = registry_iok s"
  "obj_cache_hv (ensure_mutexes_init s) = obj_cache_hv s" "obj_lru_av (ensure_mutexes_init s) = obj_lru_av s"
  "PL_dirty (ensure_mutexes_init s) = PL_dirty s" "clock (ensure_mutexes_init s) = clock s"
  "use_ithreads (ensure_mutexes_init s) = use_ithreads s" "cache_mutexes_init (ensure_mutexes_init s)"
  "next_addr (ensure_mutexes_init s) = next_addr s" "isa (ensure_mutexes_init s) = isa s"
  "lock_trace (ensure_mutexes_init s) = lock_trace s"
  "cache_st.more (ensure_mutexes_init s) = cache_st.more s"
  by (simp_all add: ensure_mutexes_init_def)

lemma lock_trace_simps [simp]:
  "lock_trace (MUTEX_LOCK m s) = lock_trace s @ (if use_ithreads s then [Acq m] else [])"
  "lock_trace (MUTEX_UNLOCK m s) = lock_trace s @ (if use_ithreads s then [Rel m] else [])"
  "lock_trace (LOCK_AND_PROFILE m s) = lock_trace s @ (if use_ithreads s then [Acq m] else [])"
  by (auto simp: lock_defs split: mutex.split)

end
