(* ===== verification/Obj_Cache.thy ===== *)
theory Obj_Cache
  imports Registry
begin

text \<open>
  The object cache (\<open>xs/protobuf/obj_cache.c\<close>): a hash from C pointers to weak
  references of their Perl wrappers, a queue of keys that drives eviction, and a
  ring buffer of audit events. The theorems show that the queue bounds the hash,
  which entries a look-up finds, that eviction is first-in first-out, and that the
  ring buffer refines a log truncated to its last 2048 events.
\<close>

section \<open>Audit log\<close>

definition AUDIT_LOG_SIZE :: nat where
  "AUDIT_LOG_SIZE = 2048"

abbreviation "OBJ_CACHE_EVENT_ADD \<equiv> 1 :: int"
abbreviation "OBJ_CACHE_EVENT_HIT \<equiv> 2 :: int"
abbreviation "OBJ_CACHE_EVENT_MISS \<equiv> 3 :: int"
abbreviation "OBJ_CACHE_EVENT_DELETE \<equiv> 4 :: int"
abbreviation "OBJ_CACHE_EVENT_EVICT \<equiv> 5 :: int"
abbreviation "ALLOC_EVENT_MALLOC \<equiv> 10 :: int"
abbreviation "ALLOC_EVENT_FREE \<equiv> 11 :: int"
abbreviation "ALLOC_EVENT_REALLOC \<equiv> 12 :: int"

definition audit_push :: "audit_entry_t \<Rightarrow> audit_log_t \<Rightarrow> audit_log_t" where
  "audit_push e l =
     (let idx = (head l + count l) mod AUDIT_LOG_SIZE;
          l = (if count l = AUDIT_LOG_SIZE
               then l\<lparr>head := (head l + 1) mod AUDIT_LOG_SIZE\<rparr>
               else l\<lparr>count := count l + 1\<rparr>)
      in l\<lparr>entries := (entries l)[idx := e]\<rparr>)"

definition PerlUpb_ObjCache_LogEvent :: "int \<Rightarrow> ptr \<Rightarrow> 'z cache_st_scheme \<Rightarrow> 'z cache_st_scheme" where
  "PerlUpb_ObjCache_LogEvent ty p s =
     (if \<not> init (global_audit_log s) then s
      else let s = MUTEX_LOCK M_audit s;
               s = s\<lparr>global_audit_log :=
                      audit_push \<lparr>ae_type = ty, ae_ptr = p, ae_timestamp = clock s\<rparr> (global_audit_log s)\<rparr>
           in MUTEX_UNLOCK M_audit s)"

text \<open>What the log holds, oldest event first: the entries \<open>GetAuditLog\<close> reads.\<close>

definition audit_read :: "audit_log_t \<Rightarrow> audit_entry_t list" where
  "audit_read l = map (\<lambda>i. entries l ! ((head l + i) mod AUDIT_LOG_SIZE)) [0..<count l]"

definition PerlUpb_ObjCache_GetAuditLog :: "('z cache_st_scheme, sv) xs" where
  "PerlUpb_ObjCache_GetAuditLog =
     then_xs (modify_xs ensure_mutexes_init)
     (then_xs (modify_xs (MUTEX_LOCK M_audit))
     (bind_xs (gets_xs (\<lambda>s. audit_read (global_audit_log s))) (\<lambda>es.
      let hv = (\<lambda>e. hv_store ''timestamp'' (newSViv (of_int (ae_timestamp e)))
                    (hv_store ''ptr'' (newSVpv (fmt_ptr (ae_ptr e)))
                    (hv_store ''type'' (newSViv (of_int (ae_type e))) newHV)))
      in bind_xs (foldr (\<lambda>e k. bind_xs (alloc (hv e)) (\<lambda>a. bind_xs k (\<lambda>as. ret (a # as)))) es (ret []))
         (\<lambda>as. bind_xs (alloc (newAV (map newRV as)))
         (\<lambda>av. then_xs (modify_xs (MUTEX_UNLOCK M_audit)) (ret (newRV av)))))))"

section \<open>Cache operations\<close>

definition PerlUpb_ObjCache_Init :: "('z cache_st_scheme, unit) xs" where
  "PerlUpb_ObjCache_Init =
     then_xs (modify_xs ensure_mutexes_init)
     (bind_xs (\<lambda>s. let (reg, s) = PerlUpb_Registry_Get s in (Inr reg, s)) (\<lambda>reg.
      case reg of
        None \<Rightarrow> fault ''reg->obj_cache of a null registry''
      | Some reg \<Rightarrow> modify_xs (\<lambda>s.
          s\<lparr>obj_cache_hv :=
              (if reg_obj_cache reg then obj_cache_hv s
               else case obj_cache_hv s of None \<Rightarrow> Some [] | Some h \<Rightarrow> Some h),
            obj_lru_av :=
              (if reg_obj_lru reg then obj_lru_av s
               else case obj_lru_av s of None \<Rightarrow> Some [] | Some l \<Rightarrow> Some l),
            registry := Some (reg\<lparr>reg_obj_cache := True, reg_obj_lru := True\<rparr>)\<rparr>)))"

definition PerlUpb_ObjCache_SetCapacity :: "size_t \<Rightarrow> ('z cache_st_scheme, unit) xs" where
  "PerlUpb_ObjCache_SetCapacity capacity =
     then_xs (modify_xs ensure_mutexes_init)
     (bind_xs (\<lambda>s. let (reg, s) = PerlUpb_Registry_Get s in (Inr reg, s)) (\<lambda>reg.
      then_xs (modify_xs (LOCK_AND_PROFILE M_lru))
      (case reg of
         None \<Rightarrow> fault ''reg->max_cache_capacity of a null registry''
       | Some reg \<Rightarrow>
           then_xs (modify_xs (\<lambda>s. s\<lparr>registry := Some (reg\<lparr>max_cache_capacity := capacity\<rparr>)\<rparr>))
                   (modify_xs (MUTEX_UNLOCK M_lru)))))"

definition PerlUpb_ObjCache_GetCapacity :: "('z cache_st_scheme, size_t) xs" where
  "PerlUpb_ObjCache_GetCapacity =
     bind_xs (\<lambda>s. let (reg, s) = PerlUpb_Registry_Get s in (Inr reg, s)) (\<lambda>reg.
       case reg of None \<Rightarrow> fault ''reg->max_cache_capacity of a null registry''
       | Some reg \<Rightarrow> ret (max_cache_capacity reg))"

text \<open>The registry's view of the hash: a null pointer holds nothing and stores nothing.\<close>

definition cache_of :: "PerlUpb_Registry \<Rightarrow> 'z cache_st_scheme \<Rightarrow> (ptr \<times> addr option) list" where
  "cache_of reg s = (if reg_obj_cache reg then (case obj_cache_hv s of None \<Rightarrow> [] | Some h \<Rightarrow> h) else [])"

definition set_cache ::
    "PerlUpb_Registry \<Rightarrow> (ptr \<times> addr option) list \<Rightarrow> 'z cache_st_scheme \<Rightarrow> 'z cache_st_scheme" where
  "set_cache reg h s = (if reg_obj_cache reg then s\<lparr>obj_cache_hv := Some h\<rparr> else s)"

definition evict_key :: "PerlUpb_Registry \<Rightarrow> ptr \<Rightarrow> 'z cache_st_scheme \<Rightarrow> 'z cache_st_scheme" where
  "evict_key reg k s =
     (let s = LOCK_AND_PROFILE (M_stripe (get_stripe k)) s;
          s = set_cache reg (kv_delete k (cache_of reg s)) s;
          s = PerlUpb_ObjCache_LogEvent OBJ_CACHE_EVENT_EVICT k s
      in MUTEX_UNLOCK (M_stripe (get_stripe k)) s)"

text \<open>
  The \<open>while\<close> loop of \<open>PerlUpb_ObjCache_Add\<close>: shift the oldest key off the queue
  while it is longer than the capacity. The queue is private to the holder of
  \<open>lru_mutex\<close> and is threaded as an argument.
\<close>

fun evict_loop ::
    "PerlUpb_Registry \<Rightarrow> ptr list \<Rightarrow> 'z cache_st_scheme \<Rightarrow> ptr list \<times> 'z cache_st_scheme" where
  "evict_loop reg [] s = ([], s)"
| "evict_loop reg (k # ks) s =
     (if length (k # ks) > unat (max_cache_capacity reg)
      then evict_loop reg ks (evict_key reg k s)
      else (k # ks, s))"

definition PerlUpb_ObjCache_Add :: "ptr \<Rightarrow> sv option \<Rightarrow> ('z cache_st_scheme, unit) xs" where
  "PerlUpb_ObjCache_Add p obj =
     (case Option.bind obj sv_rok of
        None \<Rightarrow> ret ()
      | Some target \<Rightarrow>
          if p = NULL then ret ()
          else
            then_xs (modify_xs ensure_mutexes_init)
            (bind_xs (\<lambda>s. let (reg, s) = PerlUpb_Registry_Get s in (Inr reg, s)) (\<lambda>reg.
             case reg of
               None \<Rightarrow> ret ()
             | Some reg \<Rightarrow>
                 then_xs (modify_xs (LOCK_AND_PROFILE (M_stripe (get_stripe p))))
                 (then_xs (modify_xs (\<lambda>s. set_cache reg (kv_store p (Some target) (cache_of reg s)) s))
                 (then_xs (modify_xs (MUTEX_UNLOCK (M_stripe (get_stripe p))))
                 (then_xs (modify_xs (PerlUpb_ObjCache_LogEvent OBJ_CACHE_EVENT_ADD p))
                 (then_xs (modify_xs (LOCK_AND_PROFILE M_lru))
                 (bind_xs (gets_xs (\<lambda>s. if reg_obj_lru reg then obj_lru_av s else None)) (\<lambda>lru.
                  case lru of
                    None \<Rightarrow> fault ''av_push on a null AV''
                  | Some lru \<Rightarrow>
                      then_xs (modify_xs (\<lambda>s. let (lru', s') = evict_loop reg (lru @ [p]) s
                                              in s'\<lparr>obj_lru_av := Some lru'\<rparr>))
                              (modify_xs (MUTEX_UNLOCK M_lru)))))))))))"

definition PerlUpb_ObjCache_Get :: "ptr \<Rightarrow> 'z cache_st_scheme \<Rightarrow> sv option \<times> 'z cache_st_scheme" where
  "PerlUpb_ObjCache_Get p s =
     (if p = NULL then (None, s)
      else
        let s = ensure_mutexes_init s;
            (reg, s) = PerlUpb_Registry_Get s
        in case reg of
             None \<Rightarrow> (None, s)
           | Some reg \<Rightarrow>
               let s = LOCK_AND_PROFILE (M_stripe (get_stripe p)) s;
                   (result, s) =
                     (case map_of (cache_of reg s) p of
                        Some (Some target) \<Rightarrow>
                          (Some (newRV target), PerlUpb_ObjCache_LogEvent OBJ_CACHE_EVENT_HIT p s)
                      | Some None \<Rightarrow>
                          (None, PerlUpb_ObjCache_LogEvent OBJ_CACHE_EVENT_MISS p
                                   (set_cache reg (kv_delete p (cache_of reg s)) s))
                      | None \<Rightarrow> (None, PerlUpb_ObjCache_LogEvent OBJ_CACHE_EVENT_MISS p s))
               in (result, MUTEX_UNLOCK (M_stripe (get_stripe p)) s))"

definition PerlUpb_ObjCache_Delete :: "ptr \<Rightarrow> 'z cache_st_scheme \<Rightarrow> 'z cache_st_scheme" where
  "PerlUpb_ObjCache_Delete p s =
     (if p = NULL then s
      else
        let s = ensure_mutexes_init s;
            (reg, s) = PerlUpb_Registry_Get s
        in case reg of
             None \<Rightarrow> s
           | Some reg \<Rightarrow>
               let s = LOCK_AND_PROFILE (M_stripe (get_stripe p)) s;
                   s = (if map_of (cache_of reg s) p \<noteq> None
                        then PerlUpb_ObjCache_LogEvent OBJ_CACHE_EVENT_DELETE p
                               (set_cache reg (kv_delete p (cache_of reg s)) s)
                        else s)
               in MUTEX_UNLOCK (M_stripe (get_stripe p)) s)"

text \<open>The key bytes are those of a pointer in memory order (little endian).\<close>

definition key_ptr :: "byte list \<Rightarrow> ptr" where
  "key_ptr bs = word_rcat (rev bs)"

definition PerlUpb_ObjCache_DeleteEntry :: "byte list option \<Rightarrow> 'z cache_st_scheme \<Rightarrow> 'z cache_st_scheme" where
  "PerlUpb_ObjCache_DeleteEntry key s =
     (case key of
        None \<Rightarrow> s
      | Some bs \<Rightarrow> if length bs \<noteq> 8 then s else PerlUpb_ObjCache_Delete (key_ptr bs) s)"

definition PerlUpb_ObjCache_Clear :: "('z cache_st_scheme, unit) xs" where
  "PerlUpb_ObjCache_Clear =
     then_xs (modify_xs ensure_mutexes_init)
     (bind_xs (\<lambda>s. let (reg, s) = PerlUpb_Registry_Get s in (Inr reg, s)) (\<lambda>reg.
      then_xs (modify_xs (\<lambda>s. fold (\<lambda>i. LOCK_AND_PROFILE (M_stripe i)) [0..<NUM_CACHE_STRIPES] s))
      (then_xs (modify_xs (LOCK_AND_PROFILE M_lru))
      (then_xs (bind_xs (gets_xs PL_dirty) (\<lambda>dirty.
         if dirty then ret ()
         else case reg of
                None \<Rightarrow> fault ''reg->obj_cache of a null registry''
              | Some reg \<Rightarrow> modify_xs (\<lambda>s.
                  s\<lparr>obj_cache_hv := (if reg_obj_cache reg then Some [] else obj_cache_hv s),
                    obj_lru_av := (if reg_obj_lru reg then Some [] else obj_lru_av s)\<rparr>)))
      (modify_xs (\<lambda>s.
         let s = MUTEX_LOCK M_audit s;
             s = s\<lparr>global_audit_log := (global_audit_log s)\<lparr>head := 0, count := 0\<rparr>\<rparr>;
             s = MUTEX_UNLOCK M_audit s;
             s = MUTEX_UNLOCK M_lru s
         in fold (\<lambda>i. MUTEX_UNLOCK (M_stripe i)) (rev [0..<NUM_CACHE_STRIPES]) s))))))"

text \<open>
  \<open>PerlUpb_ObjCache_GetContentionStats\<close> copies the counters into nested hashes; the
  counters are what it reads.
\<close>

definition PerlUpb_ObjCache_GetContentionStats :: "('z cache_st_scheme, sv) xs" where
  "PerlUpb_ObjCache_GetContentionStats =
     then_xs (modify_xs ensure_mutexes_init)
     (let stat_hv = (\<lambda>c. hv_store ''contentions'' (newSVuv (contentions c))
                         (hv_store ''acquisitions'' (newSVuv (acquisitions c)) newHV))
      in bind_xs (gets_xs stripe_stats) (\<lambda>cs.
         bind_xs (foldr (\<lambda>c k. bind_xs (alloc (stat_hv c)) (\<lambda>a. bind_xs k (\<lambda>as. ret (a # as)))) cs (ret []))
         (\<lambda>as. bind_xs (alloc (newAV (map newRV as))) (\<lambda>av.
         bind_xs (gets_xs lru_stat) (\<lambda>l. bind_xs (alloc (stat_hv l)) (\<lambda>lh.
         bind_xs (alloc (hv_store ''lru'' (newRV lh) (hv_store ''stripes'' (newRV av) newHV)))
         (\<lambda>h. ret (newRV h))))))))"

section \<open>Death of a wrapper\<close>

text \<open>
  \<open>wrapper_cleanup\<close> is the magic callback of every wrapper object
  (\<open>xs/protobuf/utils.c\<close>): it removes the wrapper's pointer from the cache.
\<close>

definition wrapper_cleanup :: "magic \<Rightarrow> 'z cache_st_scheme \<Rightarrow> 'z cache_st_scheme" where
  "wrapper_cleanup mg s =
     (if PL_dirty s then s
      else if mg_ptr mg = NULL then s
      else PerlUpb_ObjCache_Delete (mg_ptr mg) s)"

text \<open>
  Perl frees a referent: its magic callbacks run, then every weak reference to it is
  cleared and the memory is gone. (Arena magic is handled in the arena theory.)
\<close>

definition clear_weak :: "addr \<Rightarrow> (ptr \<times> addr option) list \<Rightarrow> (ptr \<times> addr option) list" where
  "clear_weak a h = map (\<lambda>(k, w). (k, if w = Some a then None else w)) h"

definition sv_dies :: "addr \<Rightarrow> 'z cache_st_scheme \<Rightarrow> 'z cache_st_scheme" where
  "sv_dies a s =
     (case heap s a of
        None \<Rightarrow> s
      | Some r \<Rightarrow>
          let s = fold wrapper_cleanup (filter (\<lambda>m. mg_vtbl m = Wrapper_vtbl) (ref_magic r)) s
          in s\<lparr>obj_cache_hv := map_option (clear_weak a) (obj_cache_hv s),
               heap := (heap s)(a := None)\<rparr>)"

section \<open>The audit ring buffer\<close>

text \<open>
  The contract of a bounded log: reading after a push gives the last \<open>cap\<close> events of
  the old reading and the new one.
\<close>

locale bounded_log =
  fixes push :: "'e \<Rightarrow> 'l \<Rightarrow> 'l"
    and read :: "'l \<Rightarrow> 'e list"
    and ok :: "'l \<Rightarrow> bool"
    and cap :: nat
  assumes ok_push: "ok l \<Longrightarrow> ok (push e l)"
    and read_push: "ok l \<Longrightarrow> read (push e l) = last_n cap (read l @ [e])"
begin

lemma ok_fold: "ok l \<Longrightarrow> ok (fold push es l)"
  by (induction es arbitrary: l) (simp_all add: ok_push)

lemma read_fold: "ok l \<Longrightarrow> length (read l) \<le> cap \<Longrightarrow> read (fold push es l) = last_n cap (read l @ es)"
proof (induction es rule: rev_induct)
  case (snoc e es)
  then have "read (fold push (es @ [e]) l) = last_n cap (last_n cap (read l @ es) @ [e])"
    by (simp add: read_push ok_fold)
  then show ?case
    by (simp add: last_n_last_n_snoc)
qed simp

end

definition audit_ok :: "audit_log_t \<Rightarrow> bool" where
  "audit_ok l \<longleftrightarrow> length (entries l) = AUDIT_LOG_SIZE \<and> head l < AUDIT_LOG_SIZE \<and> count l \<le> AUDIT_LOG_SIZE"

lemma AUDIT_LOG_SIZE_pos [simp]: "0 < AUDIT_LOG_SIZE"
  by (simp add: AUDIT_LOG_SIZE_def)

lemma audit_ok_push: "audit_ok l \<Longrightarrow> audit_ok (audit_push e l)"
  by (auto simp: audit_ok_def audit_push_def Let_def)

lemma length_audit_read [simp]: "length (audit_read l) = count l"
  by (simp add: audit_read_def)

lemma ring_index_inj:
  fixes h i j n :: nat
  assumes "i < n" "j < n" "(h + i) mod n = (h + j) mod n"
  shows "i = j"
proof -
  have False if "a < b" "b < n" "(h + a) mod n = (h + b) mod n" for a b
  proof -
    from that have "n dvd (h + b) - (h + a)"
      by (metis add_le_cancel_left less_imp_le mod_eq_dvd_iff_nat)
    with that show False
      by (auto dest: dvd_imp_le)
  qed
  with assms show ?thesis
    by (metis linorder_neqE_nat)
qed

lemma audit_read_push_grow:
  assumes ok: "audit_ok l" and c: "count l < AUDIT_LOG_SIZE"
  shows "audit_read (audit_push e l) = audit_read l @ [e]"
proof (rule nth_equalityI)
  show "length (audit_read (audit_push e l)) = length (audit_read l @ [e])"
    using c by (simp add: audit_push_def Let_def)
next
  fix i
  assume "i < length (audit_read (audit_push e l))"
  then have i: "i < Suc (count l)"
    using c by (simp add: audit_push_def Let_def)
  have "(head l + i) mod AUDIT_LOG_SIZE = (head l + count l) mod AUDIT_LOG_SIZE \<longleftrightarrow> i = count l"
    using i c ring_index_inj [of i AUDIT_LOG_SIZE "count l" "head l"] by auto
  moreover have "(head l + count l) mod AUDIT_LOG_SIZE < length (entries l)"
    using ok by (simp add: audit_ok_def)
  ultimately show "audit_read (audit_push e l) ! i = (audit_read l @ [e]) ! i"
    using i c by (auto simp: audit_read_def audit_push_def Let_def nth_append less_Suc_eq simp del: upt_Suc)
qed

lemma audit_read_push_full:
  assumes ok: "audit_ok l" and c: "count l = AUDIT_LOG_SIZE"
  shows "audit_read (audit_push e l) = tl (audit_read l) @ [e]"
proof (rule nth_equalityI)
  show "length (audit_read (audit_push e l)) = length (tl (audit_read l) @ [e])"
    using c by (simp add: audit_push_def Let_def)
next
  fix i
  assume "i < length (audit_read (audit_push e l))"
  then have i: "i < AUDIT_LOG_SIZE"
    using c by (simp add: audit_push_def Let_def)
  have step: "((head l + 1) mod AUDIT_LOG_SIZE + i) mod AUDIT_LOG_SIZE = (head l + Suc i) mod AUDIT_LOG_SIZE"
    by (simp add: mod_simps)
  have hd: "head l < AUDIT_LOG_SIZE" and len: "length (entries l) = AUDIT_LOG_SIZE"
    using ok by (simp_all add: audit_ok_def)
  have wrap: "(head l + Suc i) mod AUDIT_LOG_SIZE = head l \<longleftrightarrow> Suc i = AUDIT_LOG_SIZE"
  proof
    assume "(head l + Suc i) mod AUDIT_LOG_SIZE = head l"
    then show "Suc i = AUDIT_LOG_SIZE"
      using i hd ring_index_inj [of "Suc i" AUDIT_LOG_SIZE 0 "head l"] by (cases "Suc i < AUDIT_LOG_SIZE") auto
  qed (use hd in simp)
  show "audit_read (audit_push e l) ! i = (tl (audit_read l) @ [e]) ! i"
    using i c hd len wrap step
    by (auto simp: audit_read_def audit_push_def Let_def nth_append nth_tl simp del: upt_Suc)
qed

interpretation alog: bounded_log audit_push audit_read audit_ok AUDIT_LOG_SIZE
proof unfold_locales
  fix l e
  assume ok: "audit_ok l"
  then have "count l < AUDIT_LOG_SIZE \<or> count l = AUDIT_LOG_SIZE"
    by (auto simp: audit_ok_def)
  then show "audit_read (audit_push e l) = last_n AUDIT_LOG_SIZE (audit_read l @ [e])"
  proof
    assume "count l < AUDIT_LOG_SIZE"
    with ok show ?thesis by (simp add: audit_read_push_grow)
  next
    assume c: "count l = AUDIT_LOG_SIZE"
    then have "last_n AUDIT_LOG_SIZE (audit_read l @ [e]) = tl (audit_read l) @ [e]"
      using length_audit_read [of l] AUDIT_LOG_SIZE_pos by (cases "audit_read l") (auto simp: last_n_def)
    with ok c show ?thesis by (simp add: audit_read_push_full)
  qed
qed (rule audit_ok_push)

section \<open>Frame facts of the log\<close>

lemma log_fields [simp]:
  "heap (PerlUpb_ObjCache_LogEvent t p s) = heap s"
  "next_addr (PerlUpb_ObjCache_LogEvent t p s) = next_addr s"
  "PL_dirty (PerlUpb_ObjCache_LogEvent t p s) = PL_dirty s"
  "clock (PerlUpb_ObjCache_LogEvent t p s) = clock s"
  "isa (PerlUpb_ObjCache_LogEvent t p s) = isa s"
  "registry (PerlUpb_ObjCache_LogEvent t p s) = registry s"
  "registry_iok (PerlUpb_ObjCache_LogEvent t p s) = registry_iok s"
  "obj_cache_hv (PerlUpb_ObjCache_LogEvent t p s) = obj_cache_hv s"
  "obj_lru_av (PerlUpb_ObjCache_LogEvent t p s) = obj_lru_av s"
  "use_ithreads (PerlUpb_ObjCache_LogEvent t p s) = use_ithreads s"
  "cache_mutexes_init (PerlUpb_ObjCache_LogEvent t p s) = cache_mutexes_init s"
  "cache_st.more (PerlUpb_ObjCache_LogEvent t p s) = cache_st.more s"
  by (simp_all add: PerlUpb_ObjCache_LogEvent_def Let_def)

lemma log_audit:
  "global_audit_log (PerlUpb_ObjCache_LogEvent t p s) =
     (if init (global_audit_log s)
      then audit_push \<lparr>ae_type = t, ae_ptr = p, ae_timestamp = clock s\<rparr> (global_audit_log s)
      else global_audit_log s)"
  by (simp add: PerlUpb_ObjCache_LogEvent_def Let_def)

lemma set_cache_fields [simp]:
  "heap (set_cache reg h s) = heap s" "next_addr (set_cache reg h s) = next_addr s"
  "PL_dirty (set_cache reg h s) = PL_dirty s" "clock (set_cache reg h s) = clock s"
  "isa (set_cache reg h s) = isa s" "registry (set_cache reg h s) = registry s"
  "registry_iok (set_cache reg h s) = registry_iok s" "obj_lru_av (set_cache reg h s) = obj_lru_av s"
  "use_ithreads (set_cache reg h s) = use_ithreads s"
  "cache_mutexes_init (set_cache reg h s) = cache_mutexes_init s"
  "global_audit_log (set_cache reg h s) = global_audit_log s"
  "lock_trace (set_cache reg h s) = lock_trace s" "cache_st.more (set_cache reg h s) = cache_st.more s"
  by (simp_all add: set_cache_def)

section \<open>The cache as a map\<close>

text \<open>
  A ready interpreter has run \<open>PerlUpb_ObjCache_Init\<close> and is not in global
  destruction. \<open>hash\<close>, \<open>lru\<close> and \<open>cap\<close> read the three parts of the cache.
\<close>

abbreviation hash :: "'z cache_st_scheme \<Rightarrow> (ptr \<times> addr option) list" where
  "hash s \<equiv> the (obj_cache_hv s)"

abbreviation lru :: "'z cache_st_scheme \<Rightarrow> ptr list" where
  "lru s \<equiv> the (obj_lru_av s)"

abbreviation cap :: "'z cache_st_scheme \<Rightarrow> nat" where
  "cap s \<equiv> unat (max_cache_capacity (the (registry s)))"

definition ready :: "'z cache_st_scheme \<Rightarrow> bool" where
  "ready s \<longleftrightarrow> \<not> PL_dirty s \<and> registry_iok s \<and> obj_cache_hv s \<noteq> None \<and> obj_lru_av s \<noteq> None \<and>
     (case registry s of None \<Rightarrow> False | Some reg \<Rightarrow> reg_obj_cache reg \<and> reg_obj_lru reg)"

definition cache_inv :: "'z cache_st_scheme \<Rightarrow> bool" where
  "cache_inv s \<longleftrightarrow> ready s \<and> distinct (map fst (hash s)) \<and> fst ` set (hash s) \<subseteq> set (lru s)"

lemma readyE:
  assumes "ready s"
  obtains reg h l where "\<not> PL_dirty s" "registry_iok s" "registry s = Some reg" "reg_obj_cache reg"
    "reg_obj_lru reg" "obj_cache_hv s = Some h" "obj_lru_av s = Some l"
  using assms by (auto simp: ready_def split: option.splits)

lemma ready_cong:
  "\<lbrakk>PL_dirty t = PL_dirty s; registry_iok t = registry_iok s; registry t = registry s;
    obj_cache_hv t \<noteq> None \<longleftrightarrow> obj_cache_hv s \<noteq> None; obj_lru_av t \<noteq> None \<longleftrightarrow> obj_lru_av s \<noteq> None\<rbrakk>
   \<Longrightarrow> ready t = ready s"
  by (simp add: ready_def)

text \<open>What an operation of the cache leaves alone.\<close>

definition frame :: "'z cache_st_scheme \<Rightarrow> 'z cache_st_scheme \<Rightarrow> bool" where
  "frame s t \<longleftrightarrow> heap t = heap s \<and> next_addr t = next_addr s \<and> PL_dirty t = PL_dirty s \<and>
     clock t = clock s \<and> isa t = isa s \<and> registry t = registry s \<and> registry_iok t = registry_iok s \<and>
     use_ithreads t = use_ithreads s \<and> cache_st.more t = cache_st.more s"

lemma frame_refl [simp]: "frame s s"
  by (simp add: frame_def)

lemma frame_trans: "frame s t \<Longrightarrow> frame t u \<Longrightarrow> frame s u"
  by (simp add: frame_def)

lemma frame_lock [simp]: "frame s (LOCK_AND_PROFILE m s)" "frame s (MUTEX_LOCK m s)" "frame s (MUTEX_UNLOCK m s)"
  by (simp_all add: frame_def)

lemma evict_key_spec:
  assumes "reg_obj_cache reg" "obj_cache_hv s = Some h"
  shows "obj_cache_hv (evict_key reg k s) = Some (kv_delete k h) \<and> obj_lru_av (evict_key reg k s) = obj_lru_av s \<and>
    frame s (evict_key reg k s)"
  using assms by (simp add: evict_key_def Let_def cache_of_def set_cache_def frame_def)

lemma evict_loop_spec:
  assumes "reg_obj_cache reg" "obj_cache_hv s = Some h"
  shows "fst (evict_loop reg ks s) = last_n (unat (max_cache_capacity reg)) ks \<and>
    obj_cache_hv (snd (evict_loop reg ks s)) =
      Some (filter (\<lambda>(k, _). k \<notin> set (take (length ks - unat (max_cache_capacity reg)) ks)) h) \<and>
    obj_lru_av (snd (evict_loop reg ks s)) = obj_lru_av s \<and> frame s (snd (evict_loop reg ks s))"
  using assms(2)
proof (induction ks arbitrary: s h)
  case Nil
  then show ?case by simp
next
  case (Cons k ks)
  let ?c = "unat (max_cache_capacity reg)"
  show ?case
  proof (cases "length (k # ks) > ?c")
    case True
    from evict_key_spec [OF assms(1) Cons.prems, of k]
    have ek: "obj_cache_hv (evict_key reg k s) = Some (kv_delete k h)"
      "obj_lru_av (evict_key reg k s) = obj_lru_av s" "frame s (evict_key reg k s)"
      by auto
    from True have *: "length (k # ks) - ?c = Suc (length ks - ?c)"
      by simp
    have "filter (\<lambda>(k', _). k' \<notin> set (take (length ks - ?c) ks)) (kv_delete k h) =
        filter (\<lambda>(k', _). k' \<notin> set (take (length (k # ks) - ?c) (k # ks))) h"
      unfolding * kv_delete_def by (auto intro!: filter_cong simp: case_prod_beta)
    moreover have "last_n ?c (k # ks) = last_n ?c ks"
      unfolding last_n_def * by simp
    ultimately show ?thesis
      using True Cons.IH [OF ek(1)] ek(2,3) by (auto elim: frame_trans)
  next
    case False
    with Cons.prems show ?thesis by simp
  qed
qed

lemma ready_Registry_Get: "ready s \<Longrightarrow> PerlUpb_Registry_Get s = (registry s, s)"
  by (simp add: ready_def PerlUpb_Registry_Get_def)

lemma ready_ensure [simp]: "ready (ensure_mutexes_init s) = ready s"
  by (rule ready_cong) simp_all

lemma frame_ensure [simp]: "frame s (ensure_mutexes_init s)"
  by (simp add: frame_def)

text \<open>The keys evicted by an \<open>Add\<close> of \<open>p\<close>.\<close>

definition evicted :: "ptr \<Rightarrow> 'z cache_st_scheme \<Rightarrow> ptr set" where
  "evicted p s = set (take (Suc (length (lru s)) - cap s) (lru s @ [p]))"

lemma Add_spec:
  assumes "ready s" "p \<noteq> NULL" "sv_rok v = Some a"
  obtains t where "PerlUpb_ObjCache_Add p (Some v) s = (Inr (), t)" "ready t" "frame s t"
    "lru t = last_n (cap s) (lru s @ [p])"
    "hash t = filter (\<lambda>(k, _). k \<notin> evicted p s) (kv_store p (Some a) (hash s))"
proof -
  from assms(1) obtain reg h l where s: "\<not> PL_dirty s" "registry_iok s" "registry s = Some reg"
    "reg_obj_cache reg" "reg_obj_lru reg" "obj_cache_hv s = Some h" "obj_lru_av s = Some l"
    by (rule readyE)
  let ?s0 = "LOCK_AND_PROFILE (M_stripe (get_stripe p)) (ensure_mutexes_init s)"
  let ?s1 = "set_cache reg (kv_store p (Some a) (cache_of reg ?s0)) ?s0"
  let ?s2 = "LOCK_AND_PROFILE M_lru (PerlUpb_ObjCache_LogEvent OBJ_CACHE_EVENT_ADD p
      (MUTEX_UNLOCK (M_stripe (get_stripe p)) ?s1))"
  let ?e = "evict_loop reg (l @ [p]) ?s2"
  let ?t = "MUTEX_UNLOCK M_lru ((snd ?e)\<lparr>obj_lru_av := Some (fst ?e)\<rparr>)"
  have s2: "obj_cache_hv ?s2 = Some (kv_store p (Some a) h)" "obj_lru_av ?s2 = Some l" "frame s ?s2"
    using s by (simp_all add: set_cache_def cache_of_def frame_def)
  note e = evict_loop_spec [OF s(4) s2(1), of "l @ [p]"]
  have "PerlUpb_ObjCache_Add p (Some v) s = (Inr (), ?t)"
    using assms s s2(2) by (simp add: PerlUpb_ObjCache_Add_def ready_Registry_Get bind_xs_def case_prod_beta Let_def)
  moreover have "ready ?t"
    using e s s2(3) by (simp add: ready_def frame_def)
  moreover have "frame s ?t"
    using e s2(3) by (simp add: frame_def)
  moreover have "lru ?t = last_n (cap s) (lru s @ [p])"
    "hash ?t = filter (\<lambda>(k, _). k \<notin> evicted p s) (kv_store p (Some a) (hash s))"
    using e s by (simp_all add: evicted_def)
  ultimately show thesis by (rule that)
qed

lemma Get_spec:
  assumes "ready s" "p \<noteq> NULL"
  shows "fst (PerlUpb_ObjCache_Get p s) =
      (case map_of (hash s) p of Some (Some a) \<Rightarrow> Some (newRV a) | _ \<Rightarrow> None)"
    and "ready (snd (PerlUpb_ObjCache_Get p s))" and "frame s (snd (PerlUpb_ObjCache_Get p s))"
    and "lru (snd (PerlUpb_ObjCache_Get p s)) = lru s"
    and "hash (snd (PerlUpb_ObjCache_Get p s)) =
      (if map_of (hash s) p = Some None then kv_delete p (hash s) else hash s)"
  using assms(1)
  by (auto elim!: readyE simp: PerlUpb_ObjCache_Get_def assms(2) ready_Registry_Get Let_def case_prod_beta
      cache_of_def set_cache_def frame_def ready_def split: option.splits)

lemma Delete_spec:
  assumes "ready s" "p \<noteq> NULL"
  shows "ready (PerlUpb_ObjCache_Delete p s)" and "frame s (PerlUpb_ObjCache_Delete p s)"
    and "lru (PerlUpb_ObjCache_Delete p s) = lru s"
    and "map_of (hash (PerlUpb_ObjCache_Delete p s)) = (map_of (hash s))(p := None)"
    and "hash (PerlUpb_ObjCache_Delete p s) = (if map_of (hash s) p = None then hash s else kv_delete p (hash s))"
  using assms(1)
  by (auto elim!: readyE simp: PerlUpb_ObjCache_Delete_def assms(2) ready_Registry_Get Let_def case_prod_beta
      cache_of_def set_cache_def frame_def ready_def split: option.splits)

lemma Delete_NULL [simp]: "PerlUpb_ObjCache_Delete NULL s = s"
  by (simp add: PerlUpb_ObjCache_Delete_def)

lemma fold_lock_fields:
  "frame s (fold (\<lambda>i. LOCK_AND_PROFILE (f i)) is s) \<and>
   obj_cache_hv (fold (\<lambda>i. LOCK_AND_PROFILE (f i)) is s) = obj_cache_hv s \<and>
   obj_lru_av (fold (\<lambda>i. LOCK_AND_PROFILE (f i)) is s) = obj_lru_av s \<and>
   global_audit_log (fold (\<lambda>i. LOCK_AND_PROFILE (f i)) is s) = global_audit_log s"
  by (induction "is" arbitrary: s) (auto simp: frame_def)

lemma fold_unlock_fields:
  "frame s (fold (\<lambda>i. MUTEX_UNLOCK (f i)) is s) \<and>
   obj_cache_hv (fold (\<lambda>i. MUTEX_UNLOCK (f i)) is s) = obj_cache_hv s \<and>
   obj_lru_av (fold (\<lambda>i. MUTEX_UNLOCK (f i)) is s) = obj_lru_av s \<and>
   global_audit_log (fold (\<lambda>i. MUTEX_UNLOCK (f i)) is s) = global_audit_log s"
  by (induction "is" arbitrary: s) (auto simp: frame_def)

lemma Clear_spec:
  assumes "ready s"
  obtains t where "PerlUpb_ObjCache_Clear s = (Inr (), t)" "ready t" "frame s t" "hash t = []" "lru t = []"
    "audit_read (global_audit_log t) = []"
proof -
  let ?s0 = "fold (\<lambda>i. LOCK_AND_PROFILE (M_stripe i)) [0..<NUM_CACHE_STRIPES] (ensure_mutexes_init s)"
  let ?s1 = "(LOCK_AND_PROFILE M_lru ?s0)\<lparr>obj_cache_hv := Some [], obj_lru_av := Some []\<rparr>"
  let ?s2 = "MUTEX_LOCK M_audit ?s1"
  let ?s3 = "MUTEX_UNLOCK M_lru (MUTEX_UNLOCK M_audit
    (?s2\<lparr>global_audit_log := (global_audit_log ?s2)\<lparr>head := 0, count := 0\<rparr>\<rparr>))"
  let ?t = "fold (\<lambda>i. MUTEX_UNLOCK (M_stripe i)) (rev [0..<NUM_CACHE_STRIPES]) ?s3"
  note f0 = fold_lock_fields [of "ensure_mutexes_init s" M_stripe "[0..<NUM_CACHE_STRIPES]"]
  note f1 = fold_unlock_fields [of ?s3 M_stripe "rev [0..<NUM_CACHE_STRIPES]"]
  have "PerlUpb_ObjCache_Clear s = (Inr (), ?t)"
    using assms f0 by (auto elim!: readyE simp: PerlUpb_ObjCache_Clear_def ready_Registry_Get bind_xs_def then_xs_def
        frame_def Let_def)
  moreover have "frame s ?t"
    using f0 f1 by (simp add: frame_def)
  moreover have "ready ?t"
    using assms f0 f1 by (simp add: ready_def frame_def)
  moreover have "hash ?t = []" "lru ?t = []" "audit_read (global_audit_log ?t) = []"
    using f1 by (simp_all add: audit_read_def)
  ultimately show thesis by (blast intro: that)
qed

section \<open>Invariants\<close>

lemma cache_inv_Delete:
  assumes "cache_inv s"
  shows "cache_inv (PerlUpb_ObjCache_Delete p s)"
proof (cases "p = NULL")
  case False
  from assms have r: "ready s" by (simp add: cache_inv_def)
  from assms show ?thesis
    by (auto simp: cache_inv_def Delete_spec(1,3,5) [OF r False] distinct_kv_delete) (auto simp: kv_delete_def)
qed (use assms in simp)

lemma cache_inv_Get:
  assumes "cache_inv s"
  shows "cache_inv (snd (PerlUpb_ObjCache_Get p s))"
proof (cases "p = NULL")
  case False
  from assms have r: "ready s" by (simp add: cache_inv_def)
  from assms show ?thesis
    by (auto simp: cache_inv_def Get_spec(2,4,5) [OF r False] distinct_kv_delete) (auto simp: kv_delete_def)
qed (use assms in \<open>simp add: PerlUpb_ObjCache_Get_def\<close>)

lemma distinct_keys_filter: "distinct (map fst h) \<Longrightarrow> distinct (map fst (filter P h))"
  by (induction h) auto

lemma set_take_drop_Un: "set xs = set (take n xs) \<union> set (drop n xs)"
  by (metis append_take_drop_id set_append)

lemma kept_keys:
  "fst ` set (filter (\<lambda>(k, _). k \<notin> evicted p s) (kv_store p w (hash s))) =
     insert p (fst ` set (hash s)) - evicted p s"
proof -
  have "fst ` set (filter (\<lambda>(k, _). k \<notin> E) h) = fst ` set h - E" for E and h :: "(ptr \<times> addr option) list"
    by force
  then show ?thesis by (simp add: keys_kv_store)
qed

lemma lru_split: "set (lru s @ [p]) = evicted p s \<union> set (last_n (cap s) (lru s @ [p]))"
proof -
  have "length (lru s @ [p]) = Suc (length (lru s))" by simp
  then show ?thesis
    unfolding evicted_def last_n_def by (metis set_take_drop_Un)
qed

lemma cache_inv_Add_Some:
  assumes inv: "cache_inv s" and "p \<noteq> NULL" "sv_rok v = Some a"
  obtains t where "PerlUpb_ObjCache_Add p (Some v) s = (Inr (), t)" "cache_inv t" "frame s t"
    "length (hash t) \<le> cap t"
proof -
  from inv have "ready s" by (simp add: cache_inv_def)
  from this assms(2,3) obtain t where t: "PerlUpb_ObjCache_Add p (Some v) s = (Inr (), t)" "ready t" "frame s t"
    "lru t = last_n (cap s) (lru s @ [p])"
    "hash t = filter (\<lambda>(k, _). k \<notin> evicted p s) (kv_store p (Some a) (hash s))"
    by (rule Add_spec)
  have sub: "fst ` set (hash t) \<subseteq> set (lru t)"
    using inv lru_split [of s p] unfolding t(4,5) kept_keys by (auto simp: cache_inv_def)
  have dist: "distinct (map fst (hash t))"
    using inv unfolding t(5) by (intro distinct_keys_filter distinct_kv_store) (simp add: cache_inv_def)
  have "length (hash t) = card (fst ` set (hash t))"
    using distinct_card [OF dist] by simp
  also have "\<dots> \<le> card (set (lru t))"
    using sub by (simp add: card_mono)
  also have "\<dots> \<le> length (lru t)"
    by (rule card_length)
  also have "\<dots> \<le> cap t"
    using t(3,4) by (simp add: frame_def)
  finally show thesis
    using t(1,2,3) sub dist by (intro that [of t]) (simp_all add: cache_inv_def)
qed

section \<open>Eviction order\<close>

lemma map_of_filter_keys:
  "map_of (filter (\<lambda>(k, _). k \<notin> E) h) k = (if k \<in> E then None else map_of h k)"
  by (induction h) auto

lemma map_of_drop_distinct:
  "distinct (map fst ys) \<Longrightarrow>
   map_of (drop n ys) k = (if k \<in> fst ` set (take n ys) then None else map_of ys k)"
proof (induction ys arbitrary: n)
  case (Cons y ys)
  show ?case
  proof (cases n)
    case (Suc m)
    have "fst y \<notin> fst ` set (take m ys)"
      using Cons.prems set_take_subset [of m ys] by auto
    moreover have "map_of (drop m ys) (fst y) = None"
      using Cons.prems set_drop_subset [of m ys] by (auto simp: map_of_eq_None_iff)
    ultimately show ?thesis
      using Cons Suc by (cases y) auto
  qed simp
qed simp

lemma map_of_append_fresh:
  "p \<notin> fst ` set xs \<Longrightarrow> map_of (xs @ [(p, w)]) = (map_of xs)(p \<mapsto> w)"
  by (induction xs) (auto simp: fun_eq_iff)

lemma map_last_n: "map f (last_n n xs) = last_n n (map f xs)"
  by (simp add: last_n_def drop_map)

text \<open>A run of \<open>Add\<close> calls, each with the wrapper it registers.\<close>

definition add_all :: "(ptr \<times> sv) list \<Rightarrow> 'z cache_st_scheme \<Rightarrow> 'z cache_st_scheme" where
  "add_all pvs s = fold (\<lambda>(p, v) s. snd (PerlUpb_ObjCache_Add p (Some v) s)) pvs s"

lemma add_all_spec:
  assumes "ready s" "hash s = []" "lru s = []" "distinct (map fst pvs)"
    "\<forall>(p, v) \<in> set pvs. p \<noteq> NULL \<and> SvROK v"
  shows "ready (add_all pvs s) \<and> frame s (add_all pvs s) \<and>
    lru (add_all pvs s) = last_n (cap s) (map fst pvs) \<and>
    map_of (hash (add_all pvs s)) = map_of (last_n (cap s) (map (\<lambda>(p, v). (p, sv_rok v)) pvs))"
  using assms(4,5)
proof (induction pvs rule: rev_induct)
  case Nil
  then show ?case using assms(1-3) by (simp add: add_all_def)
next
  case (snoc pv pvs)
  obtain p v where pv: "pv = (p, v)" by (cases pv)
  let ?f = "\<lambda>(p, v). (p, sv_rok v)" and ?t = "add_all pvs s"
  let ?xs = "last_n (cap s) (map ?f pvs)"
  from snoc have IH: "ready ?t" "frame s ?t" "lru ?t = last_n (cap s) (map fst pvs)"
    "map_of (hash ?t) = map_of ?xs"
    by auto
  from snoc.prems(2) obtain a where p: "p \<noteq> NULL" "sv_rok v = Some a"
    by (auto simp: pv SvROK_def)
  from IH(1) p obtain u where u: "PerlUpb_ObjCache_Add p (Some v) ?t = (Inr (), u)" "ready u" "frame ?t u"
    "lru u = last_n (cap ?t) (lru ?t @ [p])"
    "hash u = filter (\<lambda>(k, _). k \<notin> evicted p ?t) (kv_store p (Some a) (hash ?t))"
    by (rule Add_spec)
  have cap: "cap ?t = cap s" using IH(2) by (simp add: frame_def)
  let ?ys = "?xs @ [(p, Some a)]"
  have keys: "map fst ?xs = lru ?t"
    unfolding IH(3) map_last_n by (simp add: comp_def case_prod_beta)
  have "distinct (map fst pvs)" "p \<notin> fst ` set pvs"
    using snoc.prems(1) pv by simp_all
  moreover have "set (map fst ?xs) \<subseteq> set (map fst pvs)"
    unfolding keys IH(3) by (rule set_last_n_subset)
  ultimately have fresh: "p \<notin> fst ` set ?xs"
    by auto
  moreover have "distinct (map fst ?xs)"
    unfolding keys IH(3) using \<open>distinct (map fst pvs)\<close> by (rule distinct_last_n)
  ultimately have dist: "distinct (map fst ?ys)" by simp
  have ev: "evicted p ?t = fst ` set (take (length ?ys - cap s) ?ys)"
  proof -
    have m: "map fst ?ys = lru ?t @ [p]"
      using keys by simp
    have "length ?ys = length (map fst ?ys)"
      by (rule length_map [symmetric])
    then have "length ?ys = Suc (length (lru ?t))"
      unfolding m by simp
    then show ?thesis
      unfolding evicted_def cap m [symmetric] by (simp only: take_map set_map)
  qed
  have "map_of (hash u) k = map_of (drop (length ?ys - cap s) ?ys) k" for k
    unfolding u(5) map_of_filter_keys ev map_of_drop_distinct [OF dist] map_of_append_fresh [OF fresh]
    by (simp add: IH(4))
  then have "map_of (hash u) = map_of (last_n (cap s) ?ys)"
    by (simp add: last_n_def fun_eq_iff)
  also have "last_n (cap s) ?ys = last_n (cap s) (map ?f (pvs @ [pv]))"
    using last_n_last_n_snoc [of "cap s" "map ?f pvs"] pv p(2) by simp
  finally have h: "map_of (hash u) = map_of (last_n (cap s) (map ?f (pvs @ [pv])))" .
  have l: "lru u = last_n (cap s) (map fst (pvs @ [pv]))"
    unfolding u(4) cap IH(3) by (simp add: last_n_last_n_snoc pv)
  have "add_all (pvs @ [pv]) s = u"
    using u(1) by (simp add: add_all_def pv)
  then show ?case
    using h l u(2) frame_trans [OF IH(2) u(3)] by simp
qed

section \<open>Runs of the cache\<close>

datatype cache_op =
    Op_Add ptr "sv option"
  | Op_Get ptr
  | Op_Delete ptr
  | Op_DeleteEntry "byte list option"
  | Op_Clear
  | Op_SetCapacity size_t
  | Op_Alloc referent
  | Op_Dies addr

fun cache_exec :: "cache_op \<Rightarrow> 'z cache_st_scheme \<Rightarrow> 'z cache_st_scheme" where
  "cache_exec (Op_Add p v) s = snd (PerlUpb_ObjCache_Add p v s)"
| "cache_exec (Op_Get p) s = snd (PerlUpb_ObjCache_Get p s)"
| "cache_exec (Op_Delete p) s = PerlUpb_ObjCache_Delete p s"
| "cache_exec (Op_DeleteEntry k) s = PerlUpb_ObjCache_DeleteEntry k s"
| "cache_exec Op_Clear s = snd (PerlUpb_ObjCache_Clear s)"
| "cache_exec (Op_SetCapacity c) s = snd (PerlUpb_ObjCache_SetCapacity c s)"
| "cache_exec (Op_Alloc r) s = snd (alloc r s)"
| "cache_exec (Op_Dies a) s = sv_dies a s"

text \<open>A Perl reference passed to \<open>Add\<close> names a live referent.\<close>

fun cache_op_ok :: "cache_op \<Rightarrow> 'z cache_st_scheme \<Rightarrow> bool" where
  "cache_op_ok (Op_Add p (Some v)) s = (\<forall>a. sv_rok v = Some a \<longrightarrow> heap s a \<noteq> None)"
| "cache_op_ok _ s = True"

inductive cache_reach :: "'z cache_st_scheme \<Rightarrow> 'z cache_st_scheme \<Rightarrow> bool" for s0 where
  start: "cache_reach s0 s0"
| step: "cache_reach s0 s \<Longrightarrow> cache_op_ok op s \<Longrightarrow> cache_reach s0 (cache_exec op s)"

definition weak_ok :: "'z cache_st_scheme \<Rightarrow> bool" where
  "weak_ok s \<longleftrightarrow> (\<forall>k a. (k, Some a) \<in> set (hash s) \<longrightarrow> heap s a \<noteq> None)"

lemma weak_ok_sub: "weak_ok s \<Longrightarrow> set (hash t) \<subseteq> set (hash s) \<Longrightarrow> heap t = heap s \<Longrightarrow> weak_ok t"
  by (auto simp: weak_ok_def)

lemma set_kv_delete: "set (kv_delete k h) \<subseteq> set h"
  by (auto simp: kv_delete_def)

lemma set_kv_store: "set (kv_store k v h) \<subseteq> insert (k, v) (set h)"
  by (induction h rule: kv_store.induct) auto

lemma weak_ok_Delete:
  assumes "cache_inv s" "weak_ok s"
  shows "weak_ok (PerlUpb_ObjCache_Delete p s)"
proof (cases "p = NULL")
  case False
  have r: "ready s" using assms(1) by (simp add: cache_inv_def)
  show ?thesis
    using Delete_spec(2,5) [OF r False] set_kv_delete [of p "hash s"]
    by (intro weak_ok_sub [OF assms(2)]) (auto simp: frame_def)
qed (use assms in simp)

lemma weak_ok_Get:
  assumes "cache_inv s" "weak_ok s"
  shows "weak_ok (snd (PerlUpb_ObjCache_Get p s))"
proof (cases "p = NULL")
  case False
  have r: "ready s" using assms(1) by (simp add: cache_inv_def)
  show ?thesis
    using Get_spec(3,5) [OF r False] set_kv_delete [of p "hash s"]
    by (intro weak_ok_sub [OF assms(2)]) (auto simp: frame_def)
qed (use assms in \<open>simp add: PerlUpb_ObjCache_Get_def\<close>)

lemma Add_ignored: "p = NULL \<or> Option.bind v sv_rok = None \<Longrightarrow> PerlUpb_ObjCache_Add p v s = (Inr (), s)"
  by (auto simp: PerlUpb_ObjCache_Add_def split: option.split)

lemma safe_Add:
  assumes "cache_inv s" "weak_ok s" "cache_op_ok (Op_Add p v) s"
  shows "cache_inv (snd (PerlUpb_ObjCache_Add p v s)) \<and> weak_ok (snd (PerlUpb_ObjCache_Add p v s))"
proof (cases "p = NULL \<or> Option.bind v sv_rok = None")
  case False
  then obtain w a where v: "v = Some w" "sv_rok w = Some a" and p: "p \<noteq> NULL"
    by (cases v) auto
  have r: "ready s" using assms(1) by (simp add: cache_inv_def)
  obtain t where t: "PerlUpb_ObjCache_Add p (Some w) s = (Inr (), t)" "ready t" "frame s t"
    "lru t = last_n (cap s) (lru s @ [p])"
    "hash t = filter (\<lambda>(k, _). k \<notin> evicted p s) (kv_store p (Some a) (hash s))"
    using r p v(2) by (rule Add_spec)
  have "weak_ok t"
    using assms(2,3) t(3) set_kv_store [of p "Some a" "hash s"]
    unfolding weak_ok_def t(5) by (auto simp: frame_def v)
  moreover have "cache_inv t"
    using cache_inv_Add_Some [OF assms(1) p v(2)] t(1) by (metis Pair_inject)
  ultimately show ?thesis using t(1) v(1) by simp
qed (use assms in \<open>simp add: Add_ignored\<close>)

lemma safe_wrapper_cleanup:
  assumes "cache_inv s" "weak_ok s"
  shows "cache_inv (wrapper_cleanup m s) \<and> weak_ok (wrapper_cleanup m s) \<and> frame s (wrapper_cleanup m s)"
proof -
  have r: "ready s" using assms(1) by (simp add: cache_inv_def)
  show ?thesis
    using assms cache_inv_Delete [of s] weak_ok_Delete [of s] Delete_spec(2) [OF r]
    by (cases "mg_ptr m = NULL") (auto simp: wrapper_cleanup_def)
qed

lemma safe_fold_cleanup:
  "cache_inv s \<Longrightarrow> weak_ok s \<Longrightarrow>
   cache_inv (fold wrapper_cleanup ms s) \<and> weak_ok (fold wrapper_cleanup ms s) \<and>
   frame s (fold wrapper_cleanup ms s)"
proof (induction ms arbitrary: s)
  case (Cons m ms)
  note m = safe_wrapper_cleanup [OF Cons.prems, of m]
  then have "cache_inv (fold wrapper_cleanup ms (wrapper_cleanup m s))"
    "weak_ok (fold wrapper_cleanup ms (wrapper_cleanup m s))"
    "frame (wrapper_cleanup m s) (fold wrapper_cleanup ms (wrapper_cleanup m s))"
    using Cons.IH [of "wrapper_cleanup m s"] by simp_all
  then show ?case
    using m frame_trans [of s "wrapper_cleanup m s"] by simp
qed simp

lemma map_fst_clear_weak [simp]: "map fst (clear_weak a h) = map fst h"
  by (auto simp: clear_weak_def)

lemma keys_clear_weak [simp]: "fst ` set (clear_weak a h) = fst ` set h"
  by (metis map_fst_clear_weak set_map)

lemma clear_weak_live: "(k, Some b) \<in> set (clear_weak a h) \<Longrightarrow> b \<noteq> a \<and> (k, Some b) \<in> set h"
  by (auto simp: clear_weak_def split: if_splits)

lemma clear_weak_safe:
  assumes "cache_inv t" "weak_ok t"
  shows "cache_inv (t\<lparr>obj_cache_hv := map_option (clear_weak a) (obj_cache_hv t), heap := (heap t)(a := None)\<rparr>) \<and>
    weak_ok (t\<lparr>obj_cache_hv := map_option (clear_weak a) (obj_cache_hv t), heap := (heap t)(a := None)\<rparr>)"
proof -
  obtain h where h: "obj_cache_hv t = Some h"
    using assms(1) by (auto simp: cache_inv_def elim: readyE)
  show ?thesis
    using assms h by (auto simp: cache_inv_def ready_def weak_ok_def dest: clear_weak_live)
qed

lemma safe_dies:
  assumes "cache_inv s" "weak_ok s"
  shows "cache_inv (sv_dies a s) \<and> weak_ok (sv_dies a s)"
proof (cases "heap s a")
  case (Some r)
  then show ?thesis
    using safe_fold_cleanup [OF assms] by (simp add: sv_dies_def Let_def clear_weak_safe)
qed (use assms in \<open>simp add: sv_dies_def\<close>)

lemma safe_Clear:
  assumes "cache_inv s"
  shows "cache_inv (snd (PerlUpb_ObjCache_Clear s)) \<and> weak_ok (snd (PerlUpb_ObjCache_Clear s))"
proof -
  obtain t where "PerlUpb_ObjCache_Clear s = (Inr (), t)" "ready t" "frame s t" "hash t = []" "lru t = []"
    using assms Clear_spec by (metis cache_inv_def)
  then show ?thesis by (simp add: cache_inv_def weak_ok_def)
qed

lemma SetCapacity_ready:
  assumes "ready s"
  shows "PerlUpb_ObjCache_SetCapacity c s =
    (Inr (), MUTEX_UNLOCK M_lru ((LOCK_AND_PROFILE M_lru (ensure_mutexes_init s))
      \<lparr>registry := Some ((the (registry s))\<lparr>max_cache_capacity := c\<rparr>)\<rparr>))"
  using assms by (auto elim!: readyE simp: PerlUpb_ObjCache_SetCapacity_def ready_Registry_Get bind_xs_def)

lemma safe_SetCapacity:
  assumes "cache_inv s" "weak_ok s"
  shows "cache_inv (snd (PerlUpb_ObjCache_SetCapacity c s)) \<and> weak_ok (snd (PerlUpb_ObjCache_SetCapacity c s))"
  using assms by (auto simp: cache_inv_def SetCapacity_ready weak_ok_def ready_def split: option.splits)

lemma safe_alloc:
  assumes "cache_inv s" "weak_ok s"
  shows "cache_inv (snd (alloc r s)) \<and> weak_ok (snd (alloc r s))"
  using assms by (auto simp: alloc_def cache_inv_def ready_def weak_ok_def)

lemma safe_DeleteEntry:
  assumes "cache_inv s" "weak_ok s"
  shows "cache_inv (PerlUpb_ObjCache_DeleteEntry k s) \<and> weak_ok (PerlUpb_ObjCache_DeleteEntry k s)"
  using assms by (auto simp: PerlUpb_ObjCache_DeleteEntry_def cache_inv_Delete weak_ok_Delete split: option.split)

lemma cache_exec_safe:
  "cache_op_ok op s \<Longrightarrow> cache_inv s \<Longrightarrow> weak_ok s \<Longrightarrow> cache_inv (cache_exec op s) \<and> weak_ok (cache_exec op s)"
  by (cases op)
     (simp_all add: safe_Add safe_dies safe_Clear safe_SetCapacity safe_alloc safe_DeleteEntry cache_inv_Get
        weak_ok_Get cache_inv_Delete weak_ok_Delete del: cache_op_ok.simps)

section \<open>Properties\<close>

text \<open>
  An interpreter before \<open>PerlUpb_ObjCache_Init\<close>: no registry and no package
  variables yet. The witnesses run the operations from here.
\<close>

definition perl_boot :: cache_st where
  "perl_boot =
     \<lparr>heap = Map.empty, next_addr = 0, PL_dirty = False, clock = 1000, isa = (\<lambda>_. []),
      registry_iok = False, registry = None, obj_cache_hv = None, obj_lru_av = None,
      global_audit_log = \<lparr>entries = replicate AUDIT_LOG_SIZE \<lparr>ae_type = 0, ae_ptr = NULL, ae_timestamp = 0\<rparr>,
        head = 0, count = 0, init = False\<rparr>,
      cache_mutexes_init = False, stripe_stats = [], lru_stat = \<lparr>acquisitions = 0, contentions = 0\<rparr>,
      use_ithreads = True, trylock_busy = [], lock_trace = []\<rparr>"

definition cache_boot :: cache_st where
  "cache_boot = snd (PerlUpb_ObjCache_Init perl_boot)"

definition fresh_interp :: "'z cache_st_scheme \<Rightarrow> bool" where
  "fresh_interp s \<longleftrightarrow> \<not> PL_dirty s \<and> \<not> registry_iok s \<and> obj_cache_hv s = None \<and> obj_lru_av s = None"

lemma Init_fresh:
  assumes "fresh_interp b"
  obtains s where "PerlUpb_ObjCache_Init b = (Inr (), s)" "cache_inv s" "weak_ok s" "hash s = []" "lru s = []"
    "cap s = 100000" "heap s = heap b"
  using assms that
  by (auto simp: fresh_interp_def PerlUpb_ObjCache_Init_def PerlUpb_Registry_Get_def PerlUpb_Registry_Init_def
      bind_xs_def then_xs_def Let_def cache_inv_def ready_def weak_ok_def)

lemma fresh_perl_boot [simp]: "fresh_interp perl_boot"
  by (simp add: fresh_interp_def perl_boot_def)

lemma cache_boot_facts:
  "PerlUpb_ObjCache_Init perl_boot = (Inr (), cache_boot)" "cache_inv cache_boot" "weak_ok cache_boot"
  "hash cache_boot = []" "lru cache_boot = []" "cap cache_boot = 100000" "heap cache_boot = Map.empty"
  by (rule Init_fresh [OF fresh_perl_boot]; simp add: cache_boot_def perl_boot_def)+

lemma cache_boot_ready: "ready cache_boot"
  using cache_boot_facts(2) by (simp add: cache_inv_def)

lemma cache_reach_safe:
  assumes "cache_reach s0 s" "cache_inv s0" "weak_ok s0"
  shows "cache_inv s \<and> weak_ok s"
  using assms by (induction rule: cache_reach.induct) (use cache_exec_safe in blast)+

text \<open>
  C9: Whatever sequence of cache operations, allocations and deaths of Perl objects
  follows \<open>PerlUpb_ObjCache_Init\<close>, a hit of \<open>PerlUpb_ObjCache_Get\<close> is a reference to
  a referent that is still alive: the cache never hands out a dangling wrapper.
\<close>

theorem cache_hit_is_live:
  assumes "fresh_interp b" "PerlUpb_ObjCache_Init b = (Inr (), s0)" "cache_reach s0 s"
    and "fst (PerlUpb_ObjCache_Get p s) = Some v"
  shows "\<exists>r. deref s (Some v) = Some r"
proof -
  have inv: "cache_inv s" "weak_ok s"
    using cache_reach_safe [OF assms(3)] Init_fresh [OF assms(1)] assms(2) by (metis Pair_inject)+
  have p: "p \<noteq> NULL"
    using assms(4) by (auto simp: PerlUpb_ObjCache_Get_def)
  from inv(1) have "ready s" by (simp add: cache_inv_def)
  with assms(4) p obtain a where "map_of (hash s) p = Some (Some a)" "v = newRV a"
    by (auto simp: Get_spec(1) split: option.splits)
  with inv(2) show ?thesis
    by (auto simp: weak_ok_def dest: map_of_SomeD)
qed

text \<open>
  C30: In every reachable state, an accepted \<open>PerlUpb_ObjCache_Add\<close> returns normally
  and leaves at most \<open>max_cache_capacity\<close> entries in the hash.
\<close>

theorem cache_add_bounded:
  assumes "fresh_interp b" "PerlUpb_ObjCache_Init b = (Inr (), s0)" "cache_reach s0 s"
    and "p \<noteq> NULL" "SvROK v"
  shows "\<exists>t. PerlUpb_ObjCache_Add p (Some v) s = (Inr (), t) \<and> length (the (obj_cache_hv t)) \<le> cap t"
proof -
  have "cache_inv s"
    using cache_reach_safe [OF assms(3)] Init_fresh [OF assms(1)] assms(2) by (metis Pair_inject)
  moreover obtain a where "sv_rok v = Some a"
    using assms(5) by (auto simp: SvROK_def)
  ultimately show ?thesis
    using cache_inv_Add_Some assms(4) by metis
qed

lemma cache_boot_one:
  obtains t where "cache_reach cache_boot t" "fst (PerlUpb_ObjCache_Get 64 t) = Some (newRV 0)"
proof -
  let ?s = "snd (alloc newHV cache_boot)"
  let ?t = "cache_exec (Op_Add 64 (Some (newRV 0))) ?s"
  have na: "next_addr cache_boot = 0"
    by (simp add: cache_boot_def perl_boot_def PerlUpb_ObjCache_Init_def PerlUpb_Registry_Get_def
        PerlUpb_Registry_Init_def bind_xs_def then_xs_def Let_def)
  have r: "cache_reach cache_boot ?s"
    using cache_reach.step [OF cache_reach.start, of "Op_Alloc newHV" cache_boot] by simp
  have rs: "ready ?s"
    using cache_boot_ready by (simp add: alloc_def ready_def)
  have l: "lru ?s = []" "hash ?s = []" "cap ?s = 100000"
    using cache_boot_facts by (simp_all add: alloc_def)
  have "cache_reach cache_boot ?t"
    by (rule cache_reach.step [OF r]) (simp add: alloc_def na)
  moreover obtain t where t: "PerlUpb_ObjCache_Add 64 (Some (newRV 0)) ?s = (Inr (), t)" "ready t"
    "hash t = filter (\<lambda>(k, _). k \<notin> evicted 64 ?s) (kv_store 64 (Some 0) (hash ?s))"
    using Add_spec [OF rs, of 64 "newRV 0" 0] by auto
  moreover have "evicted 64 ?s = {}"
    unfolding evicted_def l by simp
  ultimately show thesis
    using that [of ?t] Get_spec(1) [OF t(2), of 64] l by simp
qed

theorem cache_hit_is_live_witness:
  "\<exists>t. fst (PerlUpb_ObjCache_Get 64 t) = Some (newRV 0) \<and> (\<exists>r. deref t (Some (newRV 0)) = Some r) \<and>
     cache_reach cache_boot t"
  using cache_boot_one cache_hit_is_live [OF fresh_perl_boot cache_boot_facts(1)] by metis

theorem cache_add_bounded_witness:
  "\<exists>t. PerlUpb_ObjCache_Add 64 (Some (newRV 7)) cache_boot = (Inr (), t) \<and> length (the (obj_cache_hv t)) \<le> cap t"
  by (rule cache_add_bounded [OF fresh_perl_boot cache_boot_facts(1) cache_reach.start]) simp_all

text \<open>
  C17: Insert and look up: in a ready cache of capacity at least 1,
  \<open>PerlUpb_ObjCache_Get p\<close> right after \<open>PerlUpb_ObjCache_Add p v\<close> returns a reference to
  what \<open>v\<close> refers to, provided \<open>p\<close> is not queued from an earlier registration or the
  queue has room (otherwise the stale key may evict the new entry, see below).
\<close>

theorem cache_add_then_get:
  assumes "ready s" "p \<noteq> NULL" "sv_rok v = Some a" "p \<notin> set (the (obj_lru_av s)) \<or> Suc (length (the (obj_lru_av s))) \<le> cap s"
    and "1 \<le> cap s"
  shows "\<exists>t. PerlUpb_ObjCache_Add p (Some v) s = (Inr (), t) \<and> fst (PerlUpb_ObjCache_Get p t) = Some (newRV a)"
proof -
  from assms(1-3) obtain t where t: "PerlUpb_ObjCache_Add p (Some v) s = (Inr (), t)" "ready t"
    "hash t = filter (\<lambda>(k, _). k \<notin> evicted p s) (kv_store p (Some a) (hash s))"
    by (rule Add_spec)
  have "p \<notin> evicted p s"
    using assms(4,5) by (auto simp: evicted_def dest: in_set_takeD)
  then have "map_of (hash t) p = Some (Some a)"
    by (simp add: t(3) map_of_filter_keys)
  then show ?thesis
    using t(1) Get_spec(1) [OF t(2) assms(2)] by auto
qed

theorem cache_add_then_get_witness:
  "\<exists>t. PerlUpb_ObjCache_Add 64 (Some (newRV 3)) cache_boot = (Inr (), t) \<and>
     fst (PerlUpb_ObjCache_Get 64 t) = Some (newRV 3)"
  by (rule cache_add_then_get [OF cache_boot_ready]) (simp_all add: cache_boot_facts)


text \<open>A cache of capacity 1.\<close>

definition cache_boot1 :: cache_st where
  "cache_boot1 = snd (PerlUpb_ObjCache_SetCapacity 1 cache_boot)"

lemma cache_boot1_facts:
  "ready cache_boot1" "hash cache_boot1 = []" "lru cache_boot1 = []" "cap cache_boot1 = 1"
  using cache_boot_ready cache_boot_facts(4,5)
  by (auto simp: cache_boot1_def SetCapacity_ready [OF cache_boot_ready] ready_def split: option.splits)


text \<open>
  \<open>PerlUpb_ObjCache_Delete\<close> does not remove the key from the eviction queue, and
  \<open>PerlUpb_ObjCache_Add\<close> queues a key it already holds again. So with the queue at its
  capacity \<open>n\<close> and \<open>p\<close> its oldest key, registering \<open>p\<close> once more evicts the
  registration just made: the immediately following look-up misses.
\<close>

theorem cache_readd_evicts_itself:
  assumes "ready s" "p \<noteq> NULL" "sv_rok v = Some a" "the (obj_lru_av s) = p # ks" "length ks + 1 = cap s"
  shows "\<exists>t. PerlUpb_ObjCache_Add p (Some v) s = (Inr (), t) \<and> fst (PerlUpb_ObjCache_Get p t) = None"
proof -
  from assms(1-3) obtain t where t: "PerlUpb_ObjCache_Add p (Some v) s = (Inr (), t)" "ready t"
    "hash t = filter (\<lambda>(k, _). k \<notin> evicted p s) (kv_store p (Some a) (hash s))"
    by (rule Add_spec)
  have "p \<in> evicted p s"
    using assms(4,5) by (simp add: evicted_def Suc_diff_le)
  then have "map_of (hash t) p = None"
    by (simp add: t(3) map_of_filter_keys)
  then show ?thesis
    using t(1) Get_spec(1) [OF t(2) assms(2)] by simp
qed

theorem cache_readd_evicts_itself_witness:
  "\<exists>s t. PerlUpb_ObjCache_Add 64 (Some (newRV 3)) cache_boot1 = (Inr (), s) \<and>
     PerlUpb_ObjCache_Add 64 (Some (newRV 3)) s = (Inr (), t) \<and> fst (PerlUpb_ObjCache_Get 64 t) = None"
proof -
  obtain s where s: "PerlUpb_ObjCache_Add 64 (Some (newRV 3)) cache_boot1 = (Inr (), s)" "ready s" "frame cache_boot1 s"
    "lru s = last_n (cap cache_boot1) (lru cache_boot1 @ [64])"
    using Add_spec [OF cache_boot1_facts(1), of 64 "newRV 3" 3] by auto
  have "lru s = [64]" "cap s = 1"
    using s(3,4) cache_boot1_facts by (simp_all add: frame_def)
  with s(1,2) show ?thesis
    using cache_readd_evicts_itself [of s 64 "newRV 3" 3 "[]"] by auto
qed

lemma Delete_hash:
  assumes "ready s"
  shows "ready (PerlUpb_ObjCache_Delete p s)" and "set (hash (PerlUpb_ObjCache_Delete p s)) \<subseteq> set (hash s)"
    and "p \<noteq> NULL \<Longrightarrow> p \<notin> fst ` set (hash (PerlUpb_ObjCache_Delete p s))"
proof -
  show "ready (PerlUpb_ObjCache_Delete p s)"
    using assms Delete_spec(1) [OF assms, of p] by (cases "p = NULL") simp_all
  show "set (hash (PerlUpb_ObjCache_Delete p s)) \<subseteq> set (hash s)"
    using Delete_spec(5) [OF assms, of p] set_kv_delete [of p "hash s"] by (cases "p = NULL") simp_all
  assume "p \<noteq> NULL"
  from Delete_spec(4) [OF assms this] have "map_of (hash (PerlUpb_ObjCache_Delete p s)) p = None"
    by simp
  then show "p \<notin> fst ` set (hash (PerlUpb_ObjCache_Delete p s))"
    unfolding map_of_eq_None_iff .
qed

lemma wrapper_cleanup_hash:
  assumes "ready s"
  shows "ready (wrapper_cleanup m s)" and "set (hash (wrapper_cleanup m s)) \<subseteq> set (hash s)"
    and "mg_ptr m \<noteq> NULL \<Longrightarrow> mg_ptr m \<notin> fst ` set (hash (wrapper_cleanup m s))"
proof -
  have e: "wrapper_cleanup m s = PerlUpb_ObjCache_Delete (mg_ptr m) s"
    using assms by (simp add: wrapper_cleanup_def ready_def)
  show "ready (wrapper_cleanup m s)" "set (hash (wrapper_cleanup m s)) \<subseteq> set (hash s)"
    "mg_ptr m \<noteq> NULL \<Longrightarrow> mg_ptr m \<notin> fst ` set (hash (wrapper_cleanup m s))"
    unfolding e by (fact Delete_hash [OF assms])+
qed

lemma fold_cleanup_hash:
  "ready s \<Longrightarrow> ready (fold wrapper_cleanup ms s) \<and> set (hash (fold wrapper_cleanup ms s)) \<subseteq> set (hash s)"
proof (induction ms arbitrary: s)
  case (Cons m ms)
  have "set (hash (fold wrapper_cleanup ms (wrapper_cleanup m s))) \<subseteq> set (hash s)"
    using Cons.IH [OF wrapper_cleanup_hash(1) [OF Cons.prems]] wrapper_cleanup_hash(2) [OF Cons.prems]
    by (meson order_trans)
  then show ?case
    using Cons.IH [OF wrapper_cleanup_hash(1) [OF Cons.prems]] by simp
qed simp

lemma fold_cleanup_misses:
  assumes "ready s" "p \<noteq> NULL" "\<exists>m \<in> set ms. mg_ptr m = p"
  shows "p \<notin> fst ` set (hash (fold wrapper_cleanup ms s))"
  using assms(1,3)
proof (induction ms arbitrary: s)
  case (Cons m ms)
  note m = wrapper_cleanup_hash [OF Cons.prems(1), of m]
  show ?case
  proof (cases "mg_ptr m = p")
    case True
    then have "p \<notin> fst ` set (hash (wrapper_cleanup m s))"
      using m(3) assms(2) by simp
    then show ?thesis
      using fold_cleanup_hash [OF m(1), of ms] by (simp, blast)
  next
    case False
    then show ?thesis
      using Cons.IH [OF m(1)] Cons.prems(2) by simp
  qed
qed simp

text \<open>
  C32: When a wrapper object dies, its magic callback removes the cache entry of the C
  pointer it wraps: the next look-up of that pointer misses, and no look-up of any
  other pointer can return the dead object.
\<close>

theorem dead_wrapper_not_cached:
  assumes "ready s" "heap s a = Some r" "m \<in> set (ref_magic r)" "mg_vtbl m = Wrapper_vtbl" "mg_ptr m \<noteq> NULL"
  shows "fst (PerlUpb_ObjCache_Get (mg_ptr m) (sv_dies a s)) = None \<and>
     fst (PerlUpb_ObjCache_Get q (sv_dies a s)) \<noteq> Some (newRV a)"
proof -
  let ?t = "fold wrapper_cleanup (filter (\<lambda>m. mg_vtbl m = Wrapper_vtbl) (ref_magic r)) s"
  have t: "ready ?t" "mg_ptr m \<notin> fst ` set (hash ?t)"
    using assms(3,4) by (auto intro!: fold_cleanup_misses [OF assms(1,5)] fold_cleanup_hash [OF assms(1), THEN conjunct1])
  have d: "sv_dies a s = ?t\<lparr>obj_cache_hv := map_option (clear_weak a) (obj_cache_hv ?t), heap := (heap ?t)(a := None)\<rparr>"
    using assms(2) by (simp add: sv_dies_def Let_def)
  have rd: "ready (sv_dies a s)" and h: "hash (sv_dies a s) = clear_weak a (hash ?t)"
    using t(1) by (auto simp: d ready_def)
  have "map_of (clear_weak a (hash ?t)) (mg_ptr m) = None"
    using t(2) by (simp add: map_of_eq_None_iff)
  moreover have "map_of (clear_weak a (hash ?t)) q \<noteq> Some (Some a)"
    by (metis clear_weak_live map_of_SomeD)
  ultimately show ?thesis
    using Get_spec(1) [OF rd assms(5)] Get_spec(1) [OF rd, of q] h
    by (cases "q = NULL") (auto simp: PerlUpb_ObjCache_Get_def newRV_def PL_sv_undef_def split: option.splits)
qed

theorem dead_wrapper_not_cached_witness:
  "fst (PerlUpb_ObjCache_Get 64 (sv_dies 0 (snd (alloc (sv_magicext Wrapper_vtbl 64 newHV) (cache_boot\<lparr>next_addr := 0\<rparr>))))) = None"
proof -
  let ?r = "sv_magicext Wrapper_vtbl 64 newHV"
  let ?s = "snd (alloc ?r (cache_boot\<lparr>next_addr := 0\<rparr>))"
  have "ready ?s"
    using cache_boot_ready by (simp add: alloc_def ready_def)
  then show ?thesis
    using dead_wrapper_not_cached [of ?s 0 ?r "\<lparr>mg_vtbl = Wrapper_vtbl, mg_ptr = 64, mg_private = 0\<rparr>"]
    by (simp add: alloc_def sv_magicext_def)
qed

definition log_events :: "(int \<times> ptr) list \<Rightarrow> 'z cache_st_scheme \<Rightarrow> 'z cache_st_scheme" where
  "log_events evs s = fold (\<lambda>(t, p). PerlUpb_ObjCache_LogEvent t p) evs s"

lemma log_events_push:
  "init (global_audit_log s) \<Longrightarrow>
   global_audit_log (log_events evs s) =
     fold audit_push (map (\<lambda>(t, p). \<lparr>ae_type = t, ae_ptr = p, ae_timestamp = clock s\<rparr>) evs) (global_audit_log s)"
  unfolding log_events_def
proof (induction evs arbitrary: s)
  case (Cons ev evs)
  obtain t p where ev: "ev = (t, p)" by (cases ev)
  have "init (global_audit_log (PerlUpb_ObjCache_LogEvent t p s))"
    using Cons.prems by (simp add: log_audit audit_push_def Let_def)
  then show ?case
    using Cons.IH [of "PerlUpb_ObjCache_LogEvent t p s"] Cons.prems ev by (simp add: log_audit)
qed simp

text \<open>
  C33: The audit ring buffer refines a bounded log: once initialised, after any number
  of \<open>PerlUpb_ObjCache_LogEvent\<close> calls the entries that \<open>PerlUpb_ObjCache_GetAuditLog\<close>
  reads (oldest first, from \<open>head\<close> round the end of the array) are the last 2048 of
  the events it held before followed by the new ones.
\<close>

theorem audit_log_refines_bounded_log:
  assumes "audit_ok (global_audit_log s)" "init (global_audit_log s)"
  shows "audit_read (global_audit_log (log_events evs s)) =
     last_n 2048 (audit_read (global_audit_log s) @
       map (\<lambda>(t, p). \<lparr>ae_type = t, ae_ptr = p, ae_timestamp = clock s\<rparr>) evs)"
  using alog.read_fold [OF assms(1)] assms
  by (simp add: log_events_push audit_ok_def AUDIT_LOG_SIZE_def)

theorem audit_log_refines_bounded_log_witness:
  "audit_read (global_audit_log (log_events [(1, 64), (2, 64)] (ensure_mutexes_init perl_boot))) =
     [\<lparr>ae_type = 1, ae_ptr = 64, ae_timestamp = 1000\<rparr>, \<lparr>ae_type = 2, ae_ptr = 64, ae_timestamp = 1000\<rparr>]"
  using audit_log_refines_bounded_log [of "ensure_mutexes_init perl_boot" "[(1, 64), (2, 64)]"]
  by (simp add: perl_boot_def ensure_mutexes_init_def audit_ok_def audit_read_def)

lemma global_destruction_facts:
  assumes "PL_dirty s"
  shows "fst (PerlUpb_ObjCache_Add p v s) = Inr ()" "fst (PerlUpb_ObjCache_Get p s) = None"
    "obj_cache_hv (snd (PerlUpb_ObjCache_Add p v s)) = obj_cache_hv s"
    "obj_lru_av (snd (PerlUpb_ObjCache_Add p v s)) = obj_lru_av s"
    "obj_cache_hv (PerlUpb_ObjCache_DeleteEntry k (PerlUpb_ObjCache_Delete p s)) = obj_cache_hv s"
    "wrapper_cleanup m s = s" "fst (PerlUpb_ObjCache_Clear s) = Inr ()"
    "fst (PerlUpb_ObjCache_SetCapacity c s) = Inl (Fault ''reg->max_cache_capacity of a null registry'')"
    "use_ithreads s \<Longrightarrow> lock_trace (snd (PerlUpb_ObjCache_SetCapacity c s)) = lock_trace s @ [Acq M_lru]"
    "fst (PerlUpb_ObjCache_GetCapacity s) = Inl (Fault ''reg->max_cache_capacity of a null registry'')"
proof -
  have get: "PerlUpb_Registry_Get t = (None, t)" if "PL_dirty t" for t :: "'a cache_st_scheme"
    using that by (simp add: PerlUpb_Registry_Get_def)
  note defs = bind_xs_def then_xs_def Let_def get assms
  show "fst (PerlUpb_ObjCache_Add p v s) = Inr ()"
    "obj_cache_hv (snd (PerlUpb_ObjCache_Add p v s)) = obj_cache_hv s"
    "obj_lru_av (snd (PerlUpb_ObjCache_Add p v s)) = obj_lru_av s"
    by (auto simp: PerlUpb_ObjCache_Add_def defs split: option.split)
  show "fst (PerlUpb_ObjCache_Get p s) = None"
    by (simp add: PerlUpb_ObjCache_Get_def defs)
  show "obj_cache_hv (PerlUpb_ObjCache_DeleteEntry k (PerlUpb_ObjCache_Delete p s)) = obj_cache_hv s"
    by (auto simp: PerlUpb_ObjCache_DeleteEntry_def PerlUpb_ObjCache_Delete_def defs split: option.split)
  show "wrapper_cleanup m s = s"
    by (simp add: wrapper_cleanup_def assms)
  have "PL_dirty (fold (\<lambda>i. LOCK_AND_PROFILE (M_stripe i)) [0..<NUM_CACHE_STRIPES] (ensure_mutexes_init s))"
    using fold_lock_fields [of "ensure_mutexes_init s" M_stripe "[0..<NUM_CACHE_STRIPES]"] assms
    by (simp add: frame_def)
  then show "fst (PerlUpb_ObjCache_Clear s) = Inr ()"
    by (simp add: PerlUpb_ObjCache_Clear_def defs)
  show "fst (PerlUpb_ObjCache_SetCapacity c s) = Inl (Fault ''reg->max_cache_capacity of a null registry'')"
    "use_ithreads s \<Longrightarrow> lock_trace (snd (PerlUpb_ObjCache_SetCapacity c s)) = lock_trace s @ [Acq M_lru]"
    by (simp_all add: PerlUpb_ObjCache_SetCapacity_def defs)
  show "fst (PerlUpb_ObjCache_GetCapacity s) = Inl (Fault ''reg->max_cache_capacity of a null registry'')"
    by (simp add: PerlUpb_ObjCache_GetCapacity_def defs)
qed

text \<open>
  During global destruction the registry is gone. \<open>Add\<close>, \<open>Get\<close>, \<open>Delete\<close>,
  \<open>DeleteEntry\<close> and \<open>wrapper_cleanup\<close> then return without touching the hash or the
  queue and \<open>Clear\<close> returns normally, but \<open>SetCapacity\<close> and \<open>GetCapacity\<close>
  dereference the null registry (\<open>SetCapacity\<close> while it holds \<open>lru_mutex\<close>).
\<close>

theorem cache_in_global_destruction:
  assumes "PL_dirty s" "use_ithreads s"
  shows "fst (PerlUpb_ObjCache_Add p v s) = Inr () \<and> fst (PerlUpb_ObjCache_Get p s) = None \<and>
    obj_cache_hv (snd (PerlUpb_ObjCache_Add p v s)) = obj_cache_hv s \<and>
    obj_lru_av (snd (PerlUpb_ObjCache_Add p v s)) = obj_lru_av s \<and>
    obj_cache_hv (PerlUpb_ObjCache_DeleteEntry k (PerlUpb_ObjCache_Delete p s)) = obj_cache_hv s \<and>
    wrapper_cleanup m s = s \<and> fst (PerlUpb_ObjCache_Clear s) = Inr () \<and>
    fst (PerlUpb_ObjCache_SetCapacity c s) = Inl (Fault ''reg->max_cache_capacity of a null registry'') \<and>
    lock_trace (snd (PerlUpb_ObjCache_SetCapacity c s)) = lock_trace s @ [Acq M_lru] \<and>
    fst (PerlUpb_ObjCache_GetCapacity s) = Inl (Fault ''reg->max_cache_capacity of a null registry'')"
  using assms by (intro conjI) (rule global_destruction_facts; assumption)+

theorem cache_in_global_destruction_witness:
  "fst (PerlUpb_ObjCache_SetCapacity 5 (perl_boot\<lparr>PL_dirty := True\<rparr>)) =
     Inl (Fault ''reg->max_cache_capacity of a null registry'')"
  using cache_in_global_destruction [of "perl_boot\<lparr>PL_dirty := True\<rparr>"] by (simp add: perl_boot_def)

end
