(* ===== verification/Names.thy ===== *)
theory Names
  imports Prelude
begin

text \<open>
  Name conversion of \<open>xs/protobuf/utils.c\<close>: Perl class names to protobuf full names
  and back, with their AVX2 and SSE fast paths, and the helpers that build a class
  name from a file and a package name. A C string is the list of its characters
  without the terminating NUL; a function that fills a freshly allocated buffer
  returns the characters it writes before the terminator.
\<close>

section \<open>Definitions\<close>

subsection \<open>Vector scans\<close>

text \<open>
  \<open>_mm256_cmpeq_epi8\<close>, \<open>_mm256_or_si256\<close> and \<open>_mm256_movemask_epi8\<close> on a chunk: bit
  \<open>i\<close> of the mask says whether byte \<open>i\<close> is a dot or a colon.
\<close>

definition special_mask :: "string \<Rightarrow> u32" where
  "special_mask chunk =
     (let dots = map (\<lambda>c. c = CHR ''.'') chunk;
          colons = map (\<lambda>c. c = CHR '':'') chunk
      in horner_sum of_bool 2 (map2 (\<or>) dots colons))"

definition find_special_chars_avx2 :: "string \<Rightarrow> u32" where
  "find_special_chars_avx2 s = special_mask (take 32 s)"

text \<open>
  The copying loops: chunks of the given width are copied while they hold neither dot
  nor colon. The result is what was written and where \<open>s\<close> then points.
\<close>

function avx2_copy :: "string \<Rightarrow> string \<times> string" where
  "avx2_copy s =
     (if 32 \<le> length s
      then if find_special_chars_avx2 s = 0
           then let (d, rest) = avx2_copy (drop 32 s) in (take 32 s @ d, rest)
           else ([], s)
      else ([], s))"
  by pat_completeness auto
termination
  by (relation "measure length") auto

function sse_copy :: "string \<Rightarrow> string \<times> string" where
  "sse_copy s =
     (if 16 \<le> length s
      then if special_mask (take 16 s) = 0
           then let (d, rest) = sse_copy (drop 16 s) in (take 16 s @ d, rest)
           else ([], s)
      else ([], s))"
  by pat_completeness auto
termination
  by (relation "measure length") auto

declare avx2_copy.simps [simp del] sse_copy.simps [simp del]

subsection \<open>Class names and full names\<close>

fun class_to_full_scalar :: "string \<Rightarrow> string" where
  "class_to_full_scalar [] = []"
| "class_to_full_scalar [c] = [c]"
| "class_to_full_scalar (c # c' # cs) =
     (if c = CHR '':'' \<and> c' = CHR '':'' then CHR ''.'' # class_to_full_scalar cs
      else c # class_to_full_scalar (c' # cs))"

definition PerlUpb_ClassNameToFullName :: "bool \<Rightarrow> string option \<Rightarrow> string option" where
  "PerlUpb_ClassNameToFullName has_x86 class_name =
     (case class_name of
        None \<Rightarrow> None
      | Some s \<Rightarrow>
          if has_x86
          then let (d1, s) = avx2_copy s;
                   (d2, s) = sse_copy s
               in Some (d1 @ d2 @ class_to_full_scalar s)
          else Some (class_to_full_scalar s))"

fun full_to_class_scalar :: "string \<Rightarrow> string" where
  "full_to_class_scalar [] = []"
| "full_to_class_scalar (c # cs) =
     (if c = CHR ''.'' then ''::'' @ full_to_class_scalar cs else c # full_to_class_scalar cs)"

definition PerlUpb_FullNameToClassName :: "bool \<Rightarrow> string option \<Rightarrow> string option" where
  "PerlUpb_FullNameToClassName has_x86 full_name =
     (case full_name of
        None \<Rightarrow> None
      | Some s \<Rightarrow>
          if has_x86
          then let (d, s) = avx2_copy s in Some (d @ full_to_class_scalar s)
          else Some (full_to_class_scalar s))"

text \<open>
  The sizes the two functions pass to \<open>safemalloc\<close>; \<open>dots\<close> is an \<open>int\<close> that is
  converted to \<open>STRLEN\<close> when added.
\<close>

definition class_to_full_alloc :: "string \<Rightarrow> size_t" where
  "class_to_full_alloc s = of_nat (length s) + 1"

definition full_to_class_alloc :: "string \<Rightarrow> size_t" where
  "full_to_class_alloc s =
     (let dots = of_nat (length (filter (\<lambda>c. c = CHR ''.'') s)) :: 32 word
      in of_nat (length s) + scast dots + 1)"

subsection \<open>Building class names\<close>

definition upcase :: "char \<Rightarrow> char" where
  "upcase c = (let n = of_char c :: nat in if 97 \<le> n \<and> n \<le> 122 then char_of (n - 32) else c)"

text \<open>
  The loop of \<open>capitalize_path\<close>; \<open>prev\<close> is \<open>None\<close> while \<open>first\<close> holds and otherwise
  the character at \<open>s - 1\<close>.
\<close>

fun capitalize_loop :: "char option \<Rightarrow> string \<Rightarrow> string" where
  "capitalize_loop prev [] = []"
| "capitalize_loop prev (c # cs) =
     (if prev = None \<or> prev = Some (CHR ''.'') then [upcase c]
      else if c = CHR ''.'' then ''::''
      else [c]) @ capitalize_loop (Some c) cs"

definition capitalize_path :: "string option \<Rightarrow> string option" where
  "capitalize_path s =
     (case s of None \<Rightarrow> None | Some s \<Rightarrow> if s = [] then None else Some (capitalize_loop None s))"

definition capitalize_alloc :: "string \<Rightarrow> size_t" where
  "capitalize_alloc s = of_nat (length s) * 2 + 1"

text \<open>
  \<open>get_file_module\<close>: the part after the last slash, cut at its first dot, in camel
  case. In the loop, \<open>first\<close> stays set while leading underscores are skipped by
  \<open>continue\<close>, and \<open>prev\<close> is the character at \<open>s - 1\<close>.
\<close>

definition after_last_slash :: "string \<Rightarrow> string" where
  "after_last_slash s = rev (takeWhile (\<lambda>c. c \<noteq> CHR ''/'') (rev s))"

fun camel_loop :: "bool \<Rightarrow> char \<Rightarrow> string \<Rightarrow> string" where
  "camel_loop first prev [] = []"
| "camel_loop first prev (c # cs) =
     (if first \<or> prev = CHR ''_''
      then if c = CHR ''_'' then camel_loop first c cs
           else upcase c # camel_loop False c cs
      else if c = CHR ''_'' then camel_loop False c cs
      else c # camel_loop False c cs)"

definition get_file_module :: "string \<Rightarrow> string" where
  "get_file_module proto_file =
     (let base = takeWhile (\<lambda>c. c \<noteq> CHR ''.'') (after_last_slash proto_file)
      in camel_loop True (CHR 0x00) base)"

section \<open>The vector paths copy what the scalar loops would\<close>

lemma special_mask_eq_0_iff:
  "length chunk \<le> 32 \<Longrightarrow> special_mask chunk = 0 \<longleftrightarrow> CHR ''.'' \<notin> set chunk \<and> CHR '':'' \<notin> set chunk"
proof -
  assume "length chunk \<le> 32"
  then have len: "length (map2 (\<or>) (map (\<lambda>c. c = CHR ''.'') chunk) (map (\<lambda>c. c = CHR '':'') chunk)) \<le> LENGTH(32)"
    by simp
  have "map2 (\<or>) (map (\<lambda>c. c = CHR ''.'') chunk) (map (\<lambda>c. c = CHR '':'') chunk) =
      map (\<lambda>c. c = CHR ''.'' \<or> c = CHR '':'') chunk"
    by (induction chunk) auto
  then show ?thesis
    using horner_sum_of_bool_eq_0_iff [OF len] by (auto simp: special_mask_def)
qed

text \<open>
  A reader of the rest of the string: a function that copies characters other than
  dots and colons one by one does not notice when a prefix without them has been
  copied already.
\<close>

locale plain_copier =
  fixes conv :: "string \<Rightarrow> string"
  assumes conv_plain: "c \<noteq> CHR ''.'' \<Longrightarrow> c \<noteq> CHR '':'' \<Longrightarrow> conv (c # cs) = c # conv cs"
begin

lemma conv_append: "CHR ''.'' \<notin> set xs \<Longrightarrow> CHR '':'' \<notin> set xs \<Longrightarrow> conv (xs @ ys) = xs @ conv ys"
  by (induction xs) (auto simp: conv_plain)

lemma avx2_copy_conv: "avx2_copy s = (d, rest) \<Longrightarrow> d @ conv rest = conv s"
proof (induction s arbitrary: d rest rule: avx2_copy.induct)
  case (1 s)
  show ?case
  proof (cases "32 \<le> length s \<and> find_special_chars_avx2 s = 0")
    case True
    obtain d' r' where e: "avx2_copy (drop 32 s) = (d', r')" by (cases "avx2_copy (drop 32 s)")
    have "d' @ conv r' = conv (drop 32 s)"
      using 1(1) True e by blast
    moreover have "conv (take 32 s @ drop 32 s) = take 32 s @ conv (drop 32 s)"
      using True by (intro conv_append) (auto simp: find_special_chars_avx2_def special_mask_eq_0_iff)
    moreover have "d = take 32 s @ d'" "rest = r'"
      using 1(2) True e by (subst (asm) avx2_copy.simps, simp)+
    ultimately show ?thesis by simp
  next
    case False
    with 1(2) show ?thesis by (subst (asm) avx2_copy.simps) (auto split: if_splits)
  qed
qed

lemma sse_copy_conv: "sse_copy s = (d, rest) \<Longrightarrow> d @ conv rest = conv s"
proof (induction s arbitrary: d rest rule: sse_copy.induct)
  case (1 s)
  show ?case
  proof (cases "16 \<le> length s \<and> special_mask (take 16 s) = 0")
    case True
    obtain d' r' where e: "sse_copy (drop 16 s) = (d', r')" by (cases "sse_copy (drop 16 s)")
    have "d' @ conv r' = conv (drop 16 s)"
      using 1(1) True e by blast
    moreover have "conv (take 16 s @ drop 16 s) = take 16 s @ conv (drop 16 s)"
      using True by (intro conv_append) (auto simp: special_mask_eq_0_iff)
    moreover have "d = take 16 s @ d'" "rest = r'"
      using 1(2) True e by (subst (asm) sse_copy.simps, simp)+
    ultimately show ?thesis by simp
  next
    case False
    with 1(2) show ?thesis by (subst (asm) sse_copy.simps) (auto split: if_splits)
  qed
qed

end

interpretation c2f: plain_copier class_to_full_scalar
proof
  fix c :: char and cs
  assume "c \<noteq> CHR ''.''" "c \<noteq> CHR '':''"
  then show "class_to_full_scalar (c # cs) = c # class_to_full_scalar cs"
    by (cases cs) auto
qed

interpretation f2c: plain_copier full_to_class_scalar
  by unfold_locales simp

lemma ClassNameToFullName_scalar: "PerlUpb_ClassNameToFullName x (Some s) = Some (class_to_full_scalar s)"
  using c2f.avx2_copy_conv c2f.sse_copy_conv
  by (auto simp: PerlUpb_ClassNameToFullName_def split: prod.split)

lemma FullNameToClassName_scalar: "PerlUpb_FullNameToClassName x (Some s) = Some (full_to_class_scalar s)"
  using f2c.avx2_copy_conv by (auto simp: PerlUpb_FullNameToClassName_def split: prod.split)

section \<open>Properties\<close>

text \<open>
  C34: The AVX2 and SSE paths of \<open>PerlUpb_ClassNameToFullName\<close> and
  \<open>PerlUpb_FullNameToClassName\<close> compute, on every string, what the build without
  vector instructions computes, and a null argument gives a null result.
\<close>

theorem name_conversion_vector_equiv:
  "PerlUpb_ClassNameToFullName True n = PerlUpb_ClassNameToFullName False n \<and>
   PerlUpb_FullNameToClassName True n = PerlUpb_FullNameToClassName False n \<and>
   (PerlUpb_ClassNameToFullName x n = None \<longleftrightarrow> n = None) \<and>
   (PerlUpb_FullNameToClassName x n = None \<longleftrightarrow> n = None)"
proof (cases n)
  case None
  then show ?thesis by (simp add: PerlUpb_ClassNameToFullName_def PerlUpb_FullNameToClassName_def)
qed (simp add: ClassNameToFullName_scalar FullNameToClassName_scalar)

lemma c2f_f2c: "CHR '':'' \<notin> set s \<Longrightarrow> class_to_full_scalar (full_to_class_scalar s) = s"
proof (induction s)
  case (Cons c cs)
  then show ?case by (cases "c = CHR ''.''") (auto simp: c2f.conv_plain)
qed simp

lemma f2c_c2f: "CHR ''.'' \<notin> set s \<Longrightarrow> full_to_class_scalar (class_to_full_scalar s) = s"
  by (induction s rule: class_to_full_scalar.induct) auto

text \<open>
  C35: The two conversions are inverse to each other: a full name without colons comes
  back from its class name, and a class name without dots (single and odd colons
  included) from its full name, in either build.
\<close>

theorem name_conversion_roundtrip:
  assumes "CHR '':'' \<notin> set full" "CHR ''.'' \<notin> set cls"
  shows "PerlUpb_ClassNameToFullName x (PerlUpb_FullNameToClassName y (Some full)) = Some full \<and>
    PerlUpb_FullNameToClassName x (PerlUpb_ClassNameToFullName y (Some cls)) = Some cls"
  using assms by (simp add: ClassNameToFullName_scalar FullNameToClassName_scalar c2f_f2c f2c_c2f)

theorem name_conversion_roundtrip_witness:
  "PerlUpb_FullNameToClassName True (Some ''google.protobuf.compiler.CodeGeneratorResponse'') =
     Some ''google::protobuf::compiler::CodeGeneratorResponse'' \<and>
   PerlUpb_ClassNameToFullName True (PerlUpb_FullNameToClassName False (Some ''google.protobuf.Any'')) =
     Some ''google.protobuf.Any''"
  using name_conversion_roundtrip [of "''google.protobuf.Any''" "''Any''"]
  by (simp add: FullNameToClassName_scalar ClassNameToFullName_scalar)

lemma length_class_to_full: "length (class_to_full_scalar s) \<le> length s"
  by (induction s rule: class_to_full_scalar.induct) auto

lemma length_full_to_class:
  "length (full_to_class_scalar s) = length s + length (filter (\<lambda>c. c = CHR ''.'') s)"
  by (induction s) auto

lemma length_capitalize: "length (capitalize_loop p s) \<le> 2 * length s"
  by (induction p s rule: capitalize_loop.induct) auto

lemma unat_scast_small:
  "n < 2 ^ 31 \<Longrightarrow> unat (scast (of_nat n :: 32 word) :: 64 word) = n"
proof -
  assume n: "n < 2 ^ 31"
  then have "sint (of_nat n :: 32 word) = int n"
    by (simp add: signed_of_nat signed_take_bit_int_eq_self)
  then have "(scast (of_nat n :: 32 word) :: 64 word) = of_nat n"
    by (metis of_int_of_nat_eq scast_eq)
  then show ?thesis
    using n by (simp add: unsigned_of_nat take_bit_nat_eq_self)
qed

text \<open>
  C36: No name conversion writes past its buffer: the characters written and the
  terminating NUL fit the size passed to \<open>safemalloc\<close>, and \<open>FullNameToClassName\<close> fills
  its buffer exactly. The strings are shorter than 2 GiB, so that the \<open>int\<close> counter of
  dots does not overflow.
\<close>

theorem name_buffers_suffice:
  assumes "length s < 2 ^ 31"
  shows "length (the (PerlUpb_ClassNameToFullName x (Some s))) + 1 \<le> unat (class_to_full_alloc s) \<and>
    length (the (PerlUpb_FullNameToClassName x (Some s))) + 1 = unat (full_to_class_alloc s) \<and>
    (\<forall>r. capitalize_path (Some s) = Some r \<longrightarrow> length r + 1 \<le> unat (capitalize_alloc s))"
proof -
  let ?d = "length (filter (\<lambda>c. c = CHR ''.'') s)"
  have d: "?d < 2 ^ 31"
    using assms length_filter_le [of "\<lambda>c. c = CHR ''.''" s] by linarith
  have "unat (of_nat (length s) + 1 :: 64 word) = length s + 1"
    using assms by (simp add: unsigned_of_nat take_bit_nat_eq_self unat_word_ariths)
  moreover have "unat (of_nat (length s) + scast (of_nat ?d :: 32 word) + 1 :: 64 word) = length s + ?d + 1"
    using assms d unat_scast_small [OF d] by (simp add: unsigned_of_nat take_bit_nat_eq_self unat_word_ariths)
  moreover have "unat (of_nat (length s) * 2 + 1 :: 64 word) = 2 * length s + 1"
    using assms by (simp add: unsigned_of_nat take_bit_nat_eq_self unat_word_ariths)
  ultimately show ?thesis
    using length_class_to_full [of s] length_capitalize [of None s]
    by (auto simp: ClassNameToFullName_scalar FullNameToClassName_scalar length_full_to_class class_to_full_alloc_def
        full_to_class_alloc_def capitalize_alloc_def capitalize_path_def Let_def)
qed

theorem name_buffers_suffice_witness:
  "length (the (PerlUpb_FullNameToClassName True (Some ''a.b.C''))) + 1 = unat (full_to_class_alloc ''a.b.C'') \<and>
   unat (full_to_class_alloc ''a.b.C'') = 8"
  using name_buffers_suffice [of "''a.b.C''" True]
  by (simp add: FullNameToClassName_scalar)

end
