(* ===== verification/Wire.thy ===== *)
theory Wire
  imports Prelude
begin

text \<open>
  Byte-level routines: the varint reader, the skipper and the scrubbing loop of
  \<open>xs/unknown_fields/set.c\<close> and the varint writer and reader of
  \<open>xs/message/serialize.c\<close>. A pair of pointers \<open>ptr\<close>, \<open>end\<close> into a chunk is the list
  of the bytes between them; a routine that moves \<open>ptr\<close> returns the remaining bytes.
\<close>

section \<open>Definitions\<close>

subsection \<open>Varints\<close>

fun decode_varint_loop :: "byte list \<Rightarrow> u64 \<Rightarrow> nat \<Rightarrow> (u64 \<times> byte list) option" where
  "decode_varint_loop [] res shift = None"
| "decode_varint_loop (b # bs) res shift =
     (let res = res OR push_bit shift (ucast (b AND 0x7f))
      in if b AND 0x80 = 0 then Some (res, bs)
         else if 64 \<le> shift + 7 then None
         else decode_varint_loop bs res (shift + 7))"

definition decode_varint :: "byte list \<Rightarrow> (u64 \<times> byte list) option" where
  "decode_varint bs = decode_varint_loop bs 0 0"

lemma unat_drop_bit_7: "unat (drop_bit 7 (v :: u64)) = unat v div 128"
  unfolding unat_drop_bit_eq by (simp add: drop_bit_eq_div)

lemma drop_bit_7_less: "drop_bit 7 (v :: u64) \<noteq> 0 \<Longrightarrow> unat (drop_bit 7 v) < unat v"
proof -
  assume a: "drop_bit 7 v \<noteq> 0"
  note e = unat_drop_bit_7 [of v]
  with a have "unat v \<noteq> 0"
    by (metis div_0 unat_eq_zero)
  with e show ?thesis by simp
qed

text \<open>The bytes \<open>WriteVarint\<close> puts into \<open>buf\<close> and writes.\<close>

function varint_bytes :: "u64 \<Rightarrow> byte list" where
  "varint_bytes val =
     (let b = ucast (val AND 0x7F);
          val' = drop_bit 7 val
      in if val' \<noteq> 0 then (b OR 0x80) # varint_bytes val' else [b])"
  by pat_completeness auto
termination
  by (relation "measure unat") (auto simp: drop_bit_7_less)

declare varint_bytes.simps [simp del]

text \<open>
  \<open>ReadVarint\<close> on a handle with the given bytes left before end of file: the value,
  the \<open>ok\<close> flag and the bytes left afterwards.
\<close>

fun read_varint_loop :: "byte list \<Rightarrow> u64 \<Rightarrow> nat \<Rightarrow> nat \<Rightarrow> u64 \<times> bool \<times> byte list" where
  "read_varint_loop bs val shift 0 = (0, False, bs)"
| "read_varint_loop bs val shift (Suc fuel) =
     (if shift < 64 then
        (case bs of
           [] \<Rightarrow> (0, False, [])
         | b # bs \<Rightarrow>
             let val = val OR push_bit shift (ucast (b AND 0x7F))
             in if b AND 0x80 = 0 then (val, True, bs)
                else read_varint_loop bs val (shift + 7) fuel)
      else (0, False, bs))"

text \<open>The loop runs at most ten times (shifts 0, 7, ..., 63), so eleven rounds of fuel cover it.\<close>

definition ReadVarint :: "byte list \<Rightarrow> u64 \<times> bool \<times> byte list" where
  "ReadVarint bs = read_varint_loop bs 0 0 11"

subsection \<open>Skipping and scrubbing\<close>

definition skip_value :: "byte list \<Rightarrow> u64 \<Rightarrow> byte list option" where
  "skip_value bs wire_type =
     (if wire_type = 0 then map_option snd (decode_varint bs)
      else if wire_type = 1 then (if length bs < 8 then None else Some (drop 8 bs))
      else if wire_type = 2 then
        (case decode_varint bs of
           None \<Rightarrow> None
         | Some (len, bs) \<Rightarrow> if (of_nat (length bs) :: size_t) < len then None else Some (drop (unat len) bs))
      else if wire_type = 5 then (if length bs < 4 then None else Some (drop 4 bs))
      else None)"

lemma decode_varint_loop_length:
  "decode_varint_loop bs res shift = Some (v, rest) \<Longrightarrow> length rest < length bs"
  by (induction bs res shift rule: decode_varint_loop.induct) (auto simp: Let_def split: if_splits)

lemma decode_varint_length: "decode_varint bs = Some (v, rest) \<Longrightarrow> length rest < length bs"
  by (simp add: decode_varint_def decode_varint_loop_length)

lemma skip_value_length: "skip_value bs w = Some rest \<Longrightarrow> length rest \<le> length bs"
  by (auto simp: skip_value_def split: if_splits option.splits dest!: decode_varint_length)

text \<open>The inner \<open>while\<close> loop of \<open>PerlUpb_UnknownFieldSet_DeleteTag\<close>: what it keeps of a chunk.\<close>

function scrub_chunk :: "u32 \<Rightarrow> byte list \<Rightarrow> byte list" where
  "scrub_chunk tag bs =
     (if bs = [] then []
      else case decode_varint bs of
        None \<Rightarrow> []
      | Some (entry_tag, tag_end) \<Rightarrow>
          (case skip_value tag_end (entry_tag AND 7) of
             None \<Rightarrow> []
           | Some entry_end \<Rightarrow>
               (if drop_bit 3 entry_tag \<noteq> ucast tag
                then take (length bs - length entry_end) bs else [])
               @ scrub_chunk tag entry_end))"
  by pat_completeness auto
termination
  by (relation "measure (\<lambda>(_, bs). length bs)") (auto dest!: decode_varint_length skip_value_length)

declare scrub_chunk.simps [simp del]

section \<open>Varint round trip\<close>

lemma bit_127: "bit (127 :: int) n \<longleftrightarrow> n < 7"
  using bit_mask_iff [where 'a = int, of 7 n] by (simp add: mask_eq_exp_minus_1)

lemma bit_128: "bit (128 :: int) n \<longleftrightarrow> n = 7"
  using bit_exp_iff [where 'a = int, of 7 n] by auto

lemma low_seven:
  fixes v :: u64
  shows "(ucast ((ucast (v AND 0x7F) :: byte) AND 0x7F) :: u64) = v AND 0x7F"
    and "(ucast (((ucast (v AND 0x7F) :: byte) OR 0x80) AND 0x7F) :: u64) = v AND 0x7F"
    and "(ucast (v AND 0x7F) :: byte) AND 0x80 = 0"
    and "((ucast (v AND 0x7F) :: byte) OR 0x80) AND 0x80 \<noteq> 0"
proof -
  show "(ucast ((ucast (v AND 0x7F) :: byte) AND 0x7F) :: u64) = v AND 0x7F"
    "(ucast (((ucast (v AND 0x7F) :: byte) OR 0x80) AND 0x7F) :: u64) = v AND 0x7F"
    "(ucast (v AND 0x7F) :: byte) AND 0x80 = 0"
    by (rule bit_word_eqI; auto simp: bit_simps bit_127 bit_128)+
  have "bit (((ucast (v AND 0x7F) :: byte) OR 0x80) AND 0x80) 7"
    by (simp add: bit_simps bit_128)
  then show "((ucast (v AND 0x7F) :: byte) OR 0x80) AND 0x80 \<noteq> 0"
    by force
qed

lemma split_seven:
  fixes v :: u64
  shows "push_bit shift (v AND 0x7F) OR push_bit (shift + 7) (drop_bit 7 v) = push_bit shift v"
proof (rule bit_word_eqI)
  fix n
  assume "n < LENGTH(64)"
  moreover have "7 + (n - (shift + 7)) = n - shift" if "shift + 7 \<le> n"
    using that by simp
  ultimately show "bit (push_bit shift (v AND 0x7F) OR push_bit (shift + 7) (drop_bit 7 v)) n = bit (push_bit shift v) n"
    by (cases "n < shift + 7") (auto simp: bit_push_bit_iff bit_drop_bit_eq bit_or_iff bit_and_iff bit_127)
qed

lemma decode_varint_loop_bytes:
  assumes "unat v < 2 ^ (64 - shift)" "shift < 64"
  shows "decode_varint_loop (varint_bytes v @ rest) res shift = Some (res OR push_bit shift v, rest)"
  using assms
proof (induction v arbitrary: shift res rule: varint_bytes.induct)
  case (1 v)
  show ?case
  proof (cases "drop_bit 7 v = 0")
    case True
    then have "v AND 0x7F = v"
      using split_seven [of 0 v] by simp
    then show ?thesis
      using True low_seven [of v] by (subst varint_bytes.simps) (simp add: Let_def)
  next
    case False
    then have "unat v div 128 \<noteq> 0"
      using unat_drop_bit_7 [of v] by (metis unat_eq_zero)
    then have "(2::nat) ^ 7 \<le> unat v" by simp
    with 1(2) have "(2::nat) ^ 7 < 2 ^ (64 - shift)" by simp
    then have "7 < 64 - shift" by (rule power_less_imp_less_exp [rotated]) simp
    then have sh: "shift + 7 < 64" by simp
    have "unat (drop_bit 7 v) < 2 ^ (64 - (shift + 7))"
    proof -
      have "(2::nat) ^ (64 - shift) = 128 * 2 ^ (64 - (shift + 7))"
        using sh power_add [of "2::nat" 7 "64 - (shift + 7)"] by simp
      then show ?thesis
        using 1(2) unat_drop_bit_7 [of v] by (simp add: less_mult_imp_div_less mult.commute)
    qed
    then have "decode_varint_loop (varint_bytes (drop_bit 7 v) @ rest) (res OR push_bit shift (v AND 0x7F)) (shift + 7) =
        Some ((res OR push_bit shift (v AND 0x7F)) OR push_bit (shift + 7) (drop_bit 7 v), rest)"
      using 1(1) False sh by blast
    then show ?thesis
      using False low_seven [of v] sh split_seven [of shift v]
      by (subst varint_bytes.simps) (simp add: Let_def or.assoc)
  qed
qed

lemma decode_varint_bytes: "decode_varint (varint_bytes v @ rest) = Some (v, rest)"
  using decode_varint_loop_bytes [of v 0 rest 0] unsigned_less [of v] by (simp add: decode_varint_def)

lemma length_varint_bytes_le: "unat v < 128 ^ k \<Longrightarrow> 0 < k \<Longrightarrow> length (varint_bytes v) \<le> k"
proof (induction v arbitrary: k rule: varint_bytes.induct)
  case (1 v)
  show ?case
  proof (cases "drop_bit 7 v = 0")
    case True
    then show ?thesis
      using 1(3) by (subst varint_bytes.simps) (simp add: Let_def)
  next
    case False
    obtain j where k: "k = Suc j" using 1(3) by (cases k) auto
    have div: "unat (drop_bit 7 v) < 128 ^ j"
      using 1(2) unat_drop_bit_7 [of v] by (simp add: k less_mult_imp_div_less mult.commute)
    have "0 < j"
      using False div by (cases j) (auto simp: unat_eq_zero)
    then show ?thesis
      using 1(1) [OF refl refl] False div k by (subst varint_bytes.simps) (simp add: Let_def)
  qed
qed

lemma length_varint_bytes: "length (varint_bytes v) \<le> 10"
proof (rule length_varint_bytes_le)
  show "unat v < 128 ^ 10"
    using unsigned_less [of v, where ?'a = nat] by simp
qed simp

text \<open>The reader of \<open>serialize.c\<close> and the one of \<open>set.c\<close> agree.\<close>

lemma read_varint_loop_eq:
  assumes "shift = 7 * k" "k + fuel = 11" "k < 10"
  shows "read_varint_loop bs val shift fuel =
    (case decode_varint_loop bs val shift of
       Some (v, rest) \<Rightarrow> (v, True, rest) | None \<Rightarrow> (0, False, drop (10 - k) bs))"
  using assms
proof (induction bs val shift arbitrary: k fuel rule: decode_varint_loop.induct)
  case (1 res shift)
  then show ?case by (cases fuel) auto
next
  case (2 b bs res shift)
  from 2(3,4) obtain f where f: "fuel = Suc f" by (cases fuel) auto
  show ?case
  proof (cases "b AND 0x80 = 0 \<or> 64 \<le> shift + 7")
    case True
    show ?thesis
    proof (cases "b AND 0x80 = 0")
      case False
      with True have "64 \<le> shift + 7" by simp
      then have "k = 9" "f = 1" using 2(2-4) f by simp_all
      then show ?thesis using False 2(2) f by (simp add: Let_def)
    qed (use 2(2,4) in \<open>simp add: f Let_def\<close>)
  next
    case False
    then have "Suc k < 10" using 2(2) by simp
    then have "read_varint_loop bs (res OR push_bit shift (ucast (b AND 0x7f))) (shift + 7) f =
      (case decode_varint_loop bs (res OR push_bit shift (ucast (b AND 0x7f))) (shift + 7) of
         Some (v, rest) \<Rightarrow> (v, True, rest) | None \<Rightarrow> (0, False, drop (10 - Suc k) bs))"
      using False 2(2,3) f by (intro 2(1)) auto
    moreover have "drop (10 - k) (b # bs) = drop (10 - Suc k) bs"
      using 2(4) by (simp add: drop_Cons')
    ultimately show ?thesis
      using False by (simp add: f Let_def split: option.split)
  qed
qed

lemma ReadVarint_decode:
  "ReadVarint bs = (case decode_varint bs of Some (v, rest) \<Rightarrow> (v, True, rest) | None \<Rightarrow> (0, False, drop 10 bs))"
  using read_varint_loop_eq [of 0 0 11 bs 0] by (simp add: ReadVarint_def decode_varint_def split: option.split)

section \<open>Fields on the wire\<close>

text \<open>
  The specification of a chunk that holds no groups: a sequence of fields, each with
  its number and a value of one of the four simple wire types.
\<close>

datatype wire_val = W_Varint u64 | W_I64 "byte list" | W_Len "byte list" | W_I32 "byte list"

fun wire_type_of :: "wire_val \<Rightarrow> u64" where
  "wire_type_of (W_Varint _) = 0"
| "wire_type_of (W_I64 _) = 1"
| "wire_type_of (W_Len _) = 2"
| "wire_type_of (W_I32 _) = 5"

fun wire_payload :: "wire_val \<Rightarrow> byte list" where
  "wire_payload (W_Varint v) = varint_bytes v"
| "wire_payload (W_I64 bs) = bs"
| "wire_payload (W_Len bs) = varint_bytes (of_nat (length bs)) @ bs"
| "wire_payload (W_I32 bs) = bs"

fun wire_val_ok :: "wire_val \<Rightarrow> bool" where
  "wire_val_ok (W_Varint v) = True"
| "wire_val_ok (W_I64 bs) = (length bs = 8)"
| "wire_val_ok (W_Len bs) = (length bs < 2 ^ 63)"
| "wire_val_ok (W_I32 bs) = (length bs = 4)"

definition wire_tag :: "u32 \<Rightarrow> u64 \<Rightarrow> u64" where
  "wire_tag n w = push_bit 3 (ucast n) OR w"

fun wire_field_bytes :: "u32 \<times> wire_val \<Rightarrow> byte list" where
  "wire_field_bytes (n, v) = varint_bytes (wire_tag n (wire_type_of v)) @ wire_payload v"

definition wire_bytes :: "(u32 \<times> wire_val) list \<Rightarrow> byte list" where
  "wire_bytes fs = concat (map wire_field_bytes fs)"

lemma bit_7: "bit (7 :: int) n \<longleftrightarrow> n < 3"
  using bit_mask_iff [where 'a = int, of 3 n] by (simp add: mask_eq_exp_minus_1)

lemma wire_tag_number: "w AND 7 = w \<Longrightarrow> drop_bit 3 (wire_tag n w) = ucast n"
proof (rule bit_word_eqI)
  fix i
  assume w: "w AND 7 = w" and i: "i < LENGTH(64)"
  have "\<not> bit w (i + 3)"
    by (subst w [symmetric]) (simp add: bit_simps bit_7)
  then show "bit (drop_bit 3 (wire_tag n w)) i = bit (ucast n :: u64) i"
    using i bit_imp_le_length [of n i] by (auto simp: wire_tag_def bit_simps add.commute)
qed

lemma wire_tag_type: "w AND 7 = w \<Longrightarrow> wire_tag n w AND 7 = w"
proof (rule bit_word_eqI)
  fix i
  assume w: "w AND 7 = w"
  have "bit w i \<Longrightarrow> i < 3"
    by (subst (asm) w [symmetric]) (simp add: bit_simps bit_7)
  then show "bit (wire_tag n w AND 7) i = bit w i"
    by (auto simp: wire_tag_def bit_simps bit_7)
qed

lemma wire_type_small [simp]: "wire_type_of v AND 7 = wire_type_of v"
  by (cases v) simp_all

lemma skip_wire_payload:
  "wire_val_ok v \<Longrightarrow> length (wire_payload v @ rest) < 2 ^ 64 \<Longrightarrow>
   skip_value (wire_payload v @ rest) (wire_type_of v) = Some rest"
  by (cases v) (auto simp: skip_value_def decode_varint_bytes word_less_nat_alt unsigned_of_nat take_bit_nat_eq_self)

lemma varint_bytes_nonempty [simp]: "varint_bytes v \<noteq> []"
  by (subst varint_bytes.simps) (simp add: Let_def)

lemma ucast_32_64_inj: "(ucast (n :: u32) :: u64) = ucast t \<longleftrightarrow> n = t"
proof
  assume e: "(ucast n :: u64) = ucast t"
  show "n = t"
  proof (rule bit_word_eqI)
    fix i
    assume "i < LENGTH(32)"
    then show "bit n i = bit t i"
      using arg_cong [OF e, of "\<lambda>w. bit w i"] by (simp add: bit_simps)
  qed
qed simp

lemma scrub_chunk_field:
  assumes "wire_val_ok v" "length (wire_field_bytes (n, v) @ rest) < 2 ^ 64"
  shows "scrub_chunk t (wire_field_bytes (n, v) @ rest) =
    (if n = t then [] else wire_field_bytes (n, v)) @ scrub_chunk t rest"
proof -
  have "skip_value (wire_payload v @ rest) (wire_type_of v) = Some rest"
    using assms by (intro skip_wire_payload) auto
  moreover have "(ucast n :: u64) = ucast t \<longleftrightarrow> n = t"
    by (simp add: ucast_32_64_inj)
  ultimately show ?thesis
    by (subst scrub_chunk.simps) (auto simp: decode_varint_bytes wire_tag_number wire_tag_type)
qed

lemma scrub_chunk_fields:
  assumes "\<forall>(n, v) \<in> set fs. wire_val_ok v" "length (wire_bytes fs @ rest) < 2 ^ 64"
  shows "scrub_chunk t (wire_bytes fs @ rest) = wire_bytes (filter (\<lambda>(n, _). n \<noteq> t) fs) @ scrub_chunk t rest"
  using assms
proof (induction fs)
  case (Cons f fs)
  obtain n v where f: "f = (n, v)" by (cases f)
  have "scrub_chunk t (wire_bytes (f # fs) @ rest) = scrub_chunk t (wire_field_bytes (n, v) @ (wire_bytes fs @ rest))"
    by (simp add: wire_bytes_def f)
  also have "\<dots> = (if n = t then [] else wire_field_bytes (n, v)) @ scrub_chunk t (wire_bytes fs @ rest)"
    using Cons.prems by (intro scrub_chunk_field) (auto simp: f wire_bytes_def)
  also have "scrub_chunk t (wire_bytes fs @ rest) = wire_bytes (filter (\<lambda>(n, _). n \<noteq> t) fs) @ scrub_chunk t rest"
    using Cons.prems by (intro Cons.IH) (auto simp: wire_bytes_def)
  finally show ?case
    by (simp add: wire_bytes_def f)
qed (simp add: wire_bytes_def)

lemma scrub_chunk_Nil [simp]: "scrub_chunk t [] = []"
  by (subst scrub_chunk.simps) simp

text \<open>A field of any other wire type (the group markers 3 and 4 among them) ends the loop.\<close>

lemma scrub_chunk_other:
  assumes "w \<in> {3, 4, 6, 7}"
  shows "scrub_chunk t (varint_bytes (wire_tag n w) @ rest) = []"
proof -
  have "w AND 7 = w" using assms by auto
  then show ?thesis
    using assms
    by (subst scrub_chunk.simps) (auto simp: decode_varint_bytes wire_tag_type skip_value_def)
qed

lemma length_scrub_chunk: "length (scrub_chunk t bs) \<le> length bs"
proof (induction t bs rule: scrub_chunk.induct)
  case (1 t bs)
  show ?case
    using 1 by (subst scrub_chunk.simps)
      (fastforce split: option.split prod.split dest: decode_varint_length skip_value_length)
qed

section \<open>Properties\<close>

text \<open>
  C18: Varint round trip: what \<open>WriteVarint\<close> writes for a 64-bit value fits its 10-byte
  buffer, and both \<open>ReadVarint\<close> and \<open>decode_varint\<close> read it back as that value,
  consuming exactly those bytes of whatever follows.
\<close>

theorem varint_roundtrip:
  "length (varint_bytes v) \<le> 10 \<and> ReadVarint (varint_bytes v @ rest) = (v, True, rest) \<and>
   decode_varint (varint_bytes v @ rest) = Some (v, rest)"
  by (simp add: length_varint_bytes ReadVarint_decode decode_varint_bytes)

end
