(* ===== verification/Block_Alloc.thy ===== *)
theory Block_Alloc
  imports Prelude
begin

text \<open>
  The linear block allocator of \<open>xs/protobuf/arena_tmpfs.c\<close> with the canaries of
  \<open>xs/protobuf/arena.h\<close>, over a byte-addressed memory with 64-bit addresses. All sizes
  and addresses wrap at 64 bits as in the C code. What the operating system answers to
  \<open>mmap\<close> and \<open>mprotect\<close> is supplied by the state: the results of successive \<open>mmap\<close>
  calls in \<open>mmap_outcomes\<close> (\<open>None\<close> for \<open>MAP_FAILED\<close>, also when exhausted), those of
  \<open>mprotect\<close> in \<open>mprotect_outcomes\<close> (exhausted means success).
\<close>

section \<open>State\<close>

record os_st =
  mem :: "ptr \<Rightarrow> byte"
  guard_env :: "string option"
  sc_pagesize :: size_t
  mmap_outcomes :: "ptr option list"
  mprotect_outcomes :: "bool list"
  mappings :: "(ptr \<times> size_t) list"
  warnings :: "string list"

datatype PerlUpb_BlockType = PERL_UPB_BLOCK_MMAP | PERL_UPB_BLOCK_MALLOC

record PerlUpb_BlockAlloc =
  bl_type :: PerlUpb_BlockType
  bl_fd :: int
  bl_path :: "string option"
  bl_region :: ptr
  bl_size :: size_t
  bl_offset :: size_t
  bl_poisoned :: bool
  bl_mmap_size :: size_t

record block_st = os_st +
  blk :: PerlUpb_BlockAlloc

section \<open>Operations\<close>

text \<open>\<open>_use_guard_pages\<close>: the environment variable is set and does not start with a zero.\<close>

definition use_guard_pages_env :: "'z os_st_scheme \<Rightarrow> bool" where
  "use_guard_pages_env s =
     (case guard_env s of
        None \<Rightarrow> False
      | Some env \<Rightarrow> (case env of [] \<Rightarrow> True | c # _ \<Rightarrow> c \<noteq> CHR ''0''))"

definition page_size :: "'z os_st_scheme \<Rightarrow> size_t" where
  "page_size s = (if sc_pagesize s = 0 then 4096 else sc_pagesize s)"

text \<open>Eight bytes in memory order (little endian).\<close>

definition le_word :: "byte list \<Rightarrow> u64" where
  "le_word bs = foldr (\<lambda>b acc. ucast b OR push_bit 8 acc) bs 0"

definition load64 :: "(ptr \<Rightarrow> byte) \<Rightarrow> ptr \<Rightarrow> u64" where
  "load64 m p = le_word (map (\<lambda>i. m (p + of_nat i)) [0..<8])"

definition store64 :: "ptr \<Rightarrow> u64 \<Rightarrow> (ptr \<Rightarrow> byte) \<Rightarrow> (ptr \<Rightarrow> byte)" where
  "store64 p v m = (\<lambda>q. if unat (q - p) < 8 then ucast (drop_bit (8 * unat (q - p)) v) else m q)"

definition memcpy :: "ptr \<Rightarrow> ptr \<Rightarrow> size_t \<Rightarrow> (ptr \<Rightarrow> byte) \<Rightarrow> (ptr \<Rightarrow> byte)" where
  "memcpy dst src n m = (\<lambda>q. if q - dst < n then m (src + (q - dst)) else m q)"

definition PERL_UPB_CANARY_SIZE :: size_t where
  "PERL_UPB_CANARY_SIZE = 16"

definition PERL_UPB_CANARY_PATTERN :: u64 where
  "PERL_UPB_CANARY_PATTERN = 0xDEADBEEFCAFEBABE"

definition PerlUpb_WriteCanaries :: "ptr \<Rightarrow> size_t \<Rightarrow> (ptr \<Rightarrow> byte) \<Rightarrow> (ptr \<Rightarrow> byte)" where
  "PerlUpb_WriteCanaries p sz m =
     (let e = p + PERL_UPB_CANARY_SIZE + sz;
          m = store64 p PERL_UPB_CANARY_PATTERN m;
          m = store64 (p + 8) PERL_UPB_CANARY_PATTERN m;
          m = store64 e PERL_UPB_CANARY_PATTERN m
      in store64 (e + 8) PERL_UPB_CANARY_PATTERN m)"

definition PerlUpb_VerifyCanaries :: "ptr \<Rightarrow> size_t \<Rightarrow> string \<Rightarrow> (block_st, unit) xs" where
  "PerlUpb_VerifyCanaries p sz msg =
     bind_xs (gets_xs mem) (\<lambda>m.
      let st = p - PERL_UPB_CANARY_SIZE;
          e = p + sz
      in if load64 m st \<noteq> PERL_UPB_CANARY_PATTERN \<or> load64 m (st + 8) \<noteq> PERL_UPB_CANARY_PATTERN
         then then_xs (modify_xs (blk_update (bl_poisoned_update (\<lambda>_. True))))
                (croak ''MEMORY CORRUPTION DETECTED (Underflow): %s'' [CStr msg])
         else if load64 m e \<noteq> PERL_UPB_CANARY_PATTERN \<or> load64 m (e + 8) \<noteq> PERL_UPB_CANARY_PATTERN
         then then_xs (modify_xs (blk_update (bl_poisoned_update (\<lambda>_. True))))
                (croak ''MEMORY CORRUPTION DETECTED (Overflow): %s'' [CStr msg])
         else ret ())"

definition mmap_anon :: "size_t \<Rightarrow> ('z os_st_scheme, ptr option) xs" where
  "mmap_anon len = (\<lambda>s.
     case mmap_outcomes s of
       Some p # os \<Rightarrow> (Inr (Some p), s\<lparr>mmap_outcomes := os, mappings := (p, len) # mappings s\<rparr>)
     | None # os \<Rightarrow> (Inr None, s\<lparr>mmap_outcomes := os\<rparr>)
     | [] \<Rightarrow> (Inr None, s))"

definition munmap :: "ptr \<Rightarrow> size_t \<Rightarrow> ('z os_st_scheme, unit) xs" where
  "munmap p len = modify_xs (\<lambda>s. s\<lparr>mappings := filter (\<lambda>pl. pl \<noteq> (p, len)) (mappings s)\<rparr>)"

definition mprotect :: "('z os_st_scheme, bool) xs" where
  "mprotect = (\<lambda>s.
     case mprotect_outcomes s of
       ok # os \<Rightarrow> (Inr ok, s\<lparr>mprotect_outcomes := os\<rparr>)
     | [] \<Rightarrow> (Inr True, s))"

definition warn :: "string \<Rightarrow> ('z os_st_scheme, unit) xs" where
  "warn w = modify_xs (\<lambda>s. s\<lparr>warnings := warnings s @ [w]\<rparr>)"

text \<open>
  The three parts of \<open>PerlUpb_BlockAlloc_Func\<close>: freeing a block (\<open>size = 0\<close>), a fresh
  allocation, and the whole function. The realloc branch calls the function again
  with a null pointer, which is a fresh allocation. A null result is \<open>NULL\<close>.
\<close>

definition block_free :: "bool \<Rightarrow> ptr \<Rightarrow> size_t \<Rightarrow> (block_st, ptr) xs" where
  "block_free guard p oldsize =
     (if p \<noteq> NULL then
        if guard then
          bind_xs (gets_xs (\<lambda>s. (p - page_size s, bl_mmap_size (blk s)))) (\<lambda>(start, len).
          then_xs (bind_xs mprotect (\<lambda>ok.
            if ok then ret () else warn ''mprotect failed during guard page free''))
          (then_xs (munmap start len) (ret NULL)))
        else then_xs (PerlUpb_VerifyCanaries p oldsize ''BlockAlloc free'') (ret NULL)
      else ret NULL)"

definition block_alloc_guarded :: "size_t \<Rightarrow> (block_st, ptr) xs" where
  "block_alloc_guarded data_size =
     bind_xs (gets_xs page_size) (\<lambda>pg.
     let total_alloc = pg * 2 + data_size in
     then_xs (modify_xs (blk_update (bl_mmap_size_update (\<lambda>_. total_alloc))))
     (bind_xs (mmap_anon total_alloc) (\<lambda>m.
      case m of
        None \<Rightarrow> then_xs (warn ''mmap failed for guard page alloc'') (ret NULL)
      | Some m \<Rightarrow>
          bind_xs mprotect (\<lambda>ok.
          if \<not> ok
          then then_xs (warn ''mprotect failed for start guard page'') (then_xs (munmap m total_alloc) (ret NULL))
          else bind_xs mprotect (\<lambda>ok.
          if \<not> ok
          then then_xs (warn ''mprotect failed for end guard page'') (then_xs (munmap m total_alloc) (ret NULL))
          else then_xs (modify_xs (blk_update (\<lambda>b. b\<lparr>bl_region := m, bl_size := data_size\<rparr>)))
                 (ret (m + pg)))))))"

definition aligned_size :: "size_t \<Rightarrow> size_t" where
  "aligned_size sz =
     (let requested_size = sz + 2 * PERL_UPB_CANARY_SIZE
      in (requested_size + 15) AND NOT 15)"

definition block_alloc_canary :: "size_t \<Rightarrow> (block_st, ptr) xs" where
  "block_alloc_canary sz =
     bind_xs (gets_xs blk) (\<lambda>b.
     if bl_size b < bl_offset b + aligned_size sz then ret NULL
     else let raw = bl_region b + bl_offset b in
       then_xs (modify_xs (mem_update (PerlUpb_WriteCanaries raw sz)))
       (then_xs (modify_xs (blk_update (bl_offset_update (\<lambda>off. off + aligned_size sz))))
         (ret (raw + PERL_UPB_CANARY_SIZE))))"

definition block_alloc_fresh :: "size_t \<Rightarrow> (block_st, ptr) xs" where
  "block_alloc_fresh sz =
     bind_xs (gets_xs (\<lambda>s. use_guard_pages_env s \<and> bl_type (blk s) = PERL_UPB_BLOCK_MALLOC)) (\<lambda>guard.
     bind_xs (gets_xs (bl_poisoned \<circ> blk)) (\<lambda>poisoned.
       if poisoned then ret NULL
       else if guard then block_alloc_guarded sz
       else block_alloc_canary sz))"

definition PerlUpb_BlockAlloc_Func :: "ptr \<Rightarrow> size_t \<Rightarrow> size_t \<Rightarrow> (block_st, ptr) xs" where
  "PerlUpb_BlockAlloc_Func p oldsize sz =
     bind_xs (gets_xs (bl_poisoned \<circ> blk)) (\<lambda>poisoned.
     if poisoned then ret NULL
     else bind_xs (gets_xs (\<lambda>s. use_guard_pages_env s \<and> bl_type (blk s) = PERL_UPB_BLOCK_MALLOC)) (\<lambda>guard.
     if sz = 0 then block_free guard p oldsize
     else if p \<noteq> NULL then
       if guard then croak ''Realloc not supported with guard pages in BlockAllocator'' []
       else then_xs (PerlUpb_VerifyCanaries p oldsize ''BlockAlloc realloc'')
         (bind_xs (block_alloc_fresh sz) (\<lambda>new_ptr.
           if new_ptr \<noteq> NULL \<and> oldsize > 0
           then then_xs (modify_xs (mem_update (memcpy new_ptr p (min oldsize sz)))) (ret new_ptr)
           else ret new_ptr))
     else block_alloc_fresh sz))"

section \<open>Canaries\<close>

lemma bit_le_word:
  "bit (le_word bs) n \<longleftrightarrow> n < 64 \<and> n div 8 < length bs \<and> bit (bs ! (n div 8)) (n mod 8)"
proof (induction bs arbitrary: n)
  case (Cons b bs)
  show ?case
  proof (cases "n < 8")
    case True
    then show ?thesis
      by (auto simp: le_word_def bit_simps)
  next
    case False
    then have d: "n div 8 = Suc ((n - 8) div 8)" "n mod 8 = (n - 8) mod 8"
      by (simp_all add: le_div_geq le_mod_geq)
    have "\<not> bit (ucast b :: u64) n"
      using False bit_imp_le_length [of b n] by (auto simp: bit_simps)
    then have "bit (le_word (b # bs)) n \<longleftrightarrow> n < 64 \<and> bit (le_word bs) (n - 8)"
      using False by (auto simp: le_word_def bit_simps)
    then show ?thesis
      unfolding Cons.IH d by auto
  qed
qed (simp add: le_word_def)

lemma load64_eq_iff: "load64 m p = v \<longleftrightarrow> (\<forall>i < 8. m (p + of_nat i) = ucast (drop_bit (8 * i) v))"
proof
  assume v: "load64 m p = v"
  show "\<forall>i < 8. m (p + of_nat i) = ucast (drop_bit (8 * i) v)"
  proof (intro allI impI bit_word_eqI)
    fix i n :: nat
    assume "i < 8" "n < LENGTH(8)"
    then have "(8 * i + n) div 8 = i" "(8 * i + n) mod 8 = n" "8 * i + n < 64" by simp_all
    then show "bit (m (p + of_nat i)) n = bit (ucast (drop_bit (8 * i) v) :: byte) n"
      using \<open>i < 8\<close> \<open>n < LENGTH(8)\<close> by (simp add: bit_simps load64_def bit_le_word flip: v)
  qed
next
  assume *: "\<forall>i < 8. m (p + of_nat i) = ucast (drop_bit (8 * i) v)"
  show "load64 m p = v"
  proof (rule bit_word_eqI)
    fix n
    assume n: "n < LENGTH(64)"
    then have "n div 8 < 8" "8 * (n div 8) + n mod 8 = n" by auto
    then show "bit (load64 m p) n = bit v n"
      using * n by (simp add: load64_def bit_le_word bit_simps)
  qed
qed

lemma store64_at: "i < 8 \<Longrightarrow> store64 p v m (p + of_nat i) = ucast (drop_bit (8 * i) v)"
  by (simp add: store64_def unsigned_of_nat take_bit_nat_eq_self)

lemma store64_other: "8 \<le> unat (q - p) \<Longrightarrow> store64 p v m q = m q"
  by (simp add: store64_def)

lemma unat_diff_cases:
  "unat (q - p :: ptr) = (if unat p \<le> unat q then unat q - unat p else 2 ^ 64 - (unat p - unat q))"
proof (cases "unat p \<le> unat q")
  case True
  then show ?thesis by (simp add: unat_sub_if_size word_le_nat_alt word_size)
next
  case False
  then show ?thesis
    using unsigned_less [of p] by (simp add: unat_sub_if_size word_le_nat_alt word_size)
qed

lemma unat_add_small: "unat p + unat q < 2 ^ 64 \<Longrightarrow> unat (p + q :: ptr) = unat p + unat q"
  by (simp add: unat_word_ariths)

lemma unat_of_small: "n < 2 ^ 64 \<Longrightarrow> unat (of_nat n :: ptr) = n"
  by (simp add: unsigned_of_nat take_bit_nat_eq_self)

lemma store64_outside:
  assumes "unat p + 8 \<le> 2 ^ 64" "unat q < unat p \<or> unat p + 8 \<le> unat q"
  shows "store64 p v m q = m q"
proof (rule store64_other)
  show "8 \<le> unat (q - p)"
    using assms unsigned_less [of q] by (auto simp: unat_diff_cases)
qed

lemma load64_cong:
  assumes "unat p + 8 \<le> 2 ^ 64" "\<And>q. unat p \<le> unat q \<Longrightarrow> unat q < unat p + 8 \<Longrightarrow> m' q = m q"
  shows "load64 m' p = load64 m p"
proof -
  have "m' (p + of_nat i) = m (p + of_nat i)" if "i < 8" for i
  proof -
    have "unat (p + of_nat i) = unat p + i"
      using that assms(1) by (subst unat_add_small) (simp_all add: unat_of_small)
    with that show ?thesis by (intro assms(2)) simp_all
  qed
  then show ?thesis
    unfolding load64_def by (intro arg_cong [of _ _ le_word] map_cong refl) simp
qed

lemma load64_store64 [simp]: "load64 (store64 p v m) p = v"
  by (simp add: load64_eq_iff store64_at)

lemma load64_store64_other:
  assumes "unat p + 8 \<le> 2 ^ 64" "unat p' + 8 \<le> 2 ^ 64" "unat p' + 8 \<le> unat p \<or> unat p + 8 \<le> unat p'"
  shows "load64 (store64 p' v m) p = load64 m p"
  using assms by (intro load64_cong) (auto intro!: store64_outside)

text \<open>A block whose user area of \<open>sz\<close> bytes starts at \<open>p\<close> has its four canary words.\<close>

definition canaries_ok :: "(ptr \<Rightarrow> byte) \<Rightarrow> ptr \<Rightarrow> size_t \<Rightarrow> bool" where
  "canaries_ok m p sz \<longleftrightarrow>
     load64 m (p - 16) = PERL_UPB_CANARY_PATTERN \<and> load64 m (p - 16 + 8) = PERL_UPB_CANARY_PATTERN \<and>
     load64 m (p + sz) = PERL_UPB_CANARY_PATTERN \<and> load64 m (p + sz + 8) = PERL_UPB_CANARY_PATTERN"

lemma VerifyCanaries_ok:
  "PerlUpb_VerifyCanaries p sz msg s = (Inr (), s) \<longleftrightarrow> canaries_ok (mem s) p sz"
  by (auto simp: PerlUpb_VerifyCanaries_def canaries_ok_def PERL_UPB_CANARY_SIZE_def Let_def)

lemma VerifyCanaries_bad:
  "\<not> canaries_ok (mem s) p sz \<Longrightarrow>
   \<exists>fmt. PerlUpb_VerifyCanaries p sz msg s = (Inl (Croak fmt [CStr msg]), blk_update (bl_poisoned_update (\<lambda>_. True)) s)"
  by (auto simp: PerlUpb_VerifyCanaries_def canaries_ok_def PERL_UPB_CANARY_SIZE_def Let_def)

text \<open>
  The addresses of a block that starts at \<open>raw\<close>: 16 bytes of canary, the user area,
  16 bytes of canary.
\<close>

lemma WriteCanaries_frame:
  assumes "unat raw + unat sz + 32 \<le> 2 ^ 64" "unat q < unat raw \<or> unat raw + unat sz + 32 \<le> unat q"
  shows "PerlUpb_WriteCanaries raw sz m q = m q"
proof -
  have a: "unat (raw + 8) = unat raw + 8" "unat (raw + 16 + sz) = unat raw + 16 + unat sz"
    "unat (raw + 16 + sz + 8) = unat raw + 16 + unat sz + 8"
    using assms(1) by (simp_all add: unat_word_ariths)
  show ?thesis
    using assms by (simp add: PerlUpb_WriteCanaries_def PERL_UPB_CANARY_SIZE_def Let_def)
      (subst store64_outside; (use a in \<open>simp; linarith\<close>)?)+
qed

lemma WriteCanaries_ok:
  assumes "unat raw + unat sz + 32 \<le> 2 ^ 64"
  shows "canaries_ok (PerlUpb_WriteCanaries raw sz m) (raw + 16) sz"
proof -
  have a: "unat (raw + 8) = unat raw + 8" "unat (raw + 16 + sz) = unat raw + 16 + unat sz"
    "unat (raw + 16 + sz + 8) = unat raw + 16 + unat sz + 8"
    using assms(1) by (simp_all add: unat_word_ariths)
  have e: "raw + 16 - 16 = raw" by simp
  show ?thesis
    unfolding canaries_ok_def e PerlUpb_WriteCanaries_def PERL_UPB_CANARY_SIZE_def Let_def
    using a assms by (simp add: load64_store64_other)
qed

section \<open>Allocation\<close>

lemma aligned_size_eq:
  assumes "unat sz + 47 < 2 ^ 64"
  shows "unat (aligned_size sz) = 16 * ((unat sz + 47) div 16)"
proof -
  have x: "unat (sz + 32 + 15) = unat sz + 47"
    using assms by (simp add: unat_word_ariths)
  have "(x AND NOT 15 :: size_t) = push_bit 4 (drop_bit 4 x)" for x
  proof (rule bit_word_eqI)
    fix n
    have "bit (15 :: int) n \<longleftrightarrow> n < 4"
      using bit_mask_iff [where 'a = int, of 4 n] by (simp add: mask_eq_exp_minus_1)
    then show "n < LENGTH(64) \<Longrightarrow> bit (x AND NOT 15) n = bit (push_bit 4 (drop_bit 4 x)) n"
      by (auto simp: bit_simps)
  qed
  then have "aligned_size sz + take_bit 4 (sz + 32 + 15) = sz + 32 + 15"
    by (simp add: aligned_size_def PERL_UPB_CANARY_SIZE_def bits_ident)
  then have "aligned_size sz = (sz + 32 + 15) - take_bit 4 (sz + 32 + 15)"
    by (metis add_diff_cancel_right')
  moreover have t: "unat (take_bit 4 (sz + 32 + 15)) = (unat sz + 47) mod 16"
    by (simp only: unsigned_take_bit_eq x) (simp add: take_bit_eq_mod)
  ultimately have "unat (aligned_size sz) = (unat sz + 47) - (unat sz + 47) mod 16"
    by (simp only: unat_diff_cases x) simp
  then show ?thesis
    by (simp only: minus_mod_eq_mult_div)
qed

lemma aligned_size_bounds:
  assumes "unat sz + 47 < 2 ^ 64"
  shows "unat sz + 32 \<le> unat (aligned_size sz)" "unat (aligned_size sz) \<le> unat sz + 47"
    "unat (aligned_size sz) mod 16 = 0"
  unfolding aligned_size_eq [OF assms] by simp_all

text \<open>
  A region that does not run over the end of the address space, with the offset inside
  it and on a 16-byte boundary.
\<close>

definition block_ok :: "PerlUpb_BlockAlloc \<Rightarrow> bool" where
  "block_ok b \<longleftrightarrow> unat (bl_region b) + unat (bl_size b) < 2 ^ 64 \<and> unat (bl_offset b) \<le> unat (bl_size b) \<and>
     unat (bl_offset b) mod 16 = 0"

definition canary_mode :: "block_st \<Rightarrow> bool" where
  "canary_mode s \<longleftrightarrow> \<not> bl_poisoned (blk s) \<and> \<not> (use_guard_pages_env s \<and> bl_type (blk s) = PERL_UPB_BLOCK_MALLOC)"

lemma BlockAlloc_fresh_spec:
  assumes "block_ok (blk s)" "canary_mode s" "0 < sz" "unat sz + unat (bl_size (blk s)) + 47 < 2 ^ 64"
  shows "PerlUpb_BlockAlloc_Func NULL old sz s =
    (let b = blk s; raw = bl_region b + bl_offset b in
     if unat (bl_offset b) + unat (aligned_size sz) \<le> unat (bl_size b)
     then (Inr (raw + 16), s\<lparr>mem := PerlUpb_WriteCanaries raw sz (mem s),
                             blk := b\<lparr>bl_offset := bl_offset b + aligned_size sz\<rparr>\<rparr>)
     else (Inr NULL, s))"
proof -
  have "unat sz + 47 < 2 ^ 64" using assms(4) by linarith
  note al = aligned_size_bounds [OF this]
  have "unat (bl_offset (blk s) + aligned_size sz) = unat (bl_offset (blk s)) + unat (aligned_size sz)"
    using al assms(1,4) by (intro unat_add_small) (auto simp: block_ok_def)
  then show ?thesis
    using assms(2,3)
    by (auto simp: PerlUpb_BlockAlloc_Func_def block_alloc_fresh_def block_alloc_canary_def canary_mode_def Let_def
        word_less_nat_alt PERL_UPB_CANARY_SIZE_def)
qed

section \<open>Runs of a well-behaved client\<close>

definition block_in :: "PerlUpb_BlockAlloc \<Rightarrow> ptr \<times> size_t \<Rightarrow> bool" where
  "block_in b = (\<lambda>(p, sz). unat (bl_region b) + 16 \<le> unat p \<and>
     unat p + unat sz + 16 \<le> unat (bl_region b) + unat (bl_offset b))"

definition apart :: "ptr \<times> size_t \<Rightarrow> ptr \<times> size_t \<Rightarrow> bool" where
  "apart = (\<lambda>(p, sz) (q, tz). unat p + unat sz + 32 \<le> unat q \<or> unat q + unat tz + 32 \<le> unat p)"

definition heap_inv :: "(ptr \<times> size_t) list \<Rightarrow> block_st \<Rightarrow> bool" where
  "heap_inv L s \<longleftrightarrow> block_ok (blk s) \<and> canary_mode s \<and> sorted_wrt apart L \<and>
     (\<forall>(p, sz) \<in> set L. block_in (blk s) (p, sz) \<and> canaries_ok (mem s) p sz)"

text \<open>
  A client that only writes inside the user areas of its live blocks and frees each
  block with the size it asked for. The list holds the live blocks.
\<close>

inductive heap_run :: "block_st \<Rightarrow> (ptr \<times> size_t) list \<Rightarrow> block_st \<Rightarrow> bool" for s0 where
  run_start: "heap_run s0 [] s0"
| run_alloc: "heap_run s0 L s \<Longrightarrow> 0 < sz \<Longrightarrow> unat sz + unat (bl_size (blk s)) + 47 < 2 ^ 64 \<Longrightarrow>
    PerlUpb_BlockAlloc_Func NULL 0 sz s = (Inr p, t) \<Longrightarrow> heap_run s0 (if p = NULL then L else (p, sz) # L) t"
| run_write: "heap_run s0 L s \<Longrightarrow> (p, sz) \<in> set L \<Longrightarrow> unat p \<le> unat q \<Longrightarrow> unat q < unat p + unat sz \<Longrightarrow>
    heap_run s0 L (s\<lparr>mem := (mem s)(q := v)\<rparr>)"
| run_free: "heap_run s0 L s \<Longrightarrow> (p, sz) \<in> set L \<Longrightarrow> PerlUpb_BlockAlloc_Func p sz 0 s = (r, t) \<Longrightarrow>
    heap_run s0 (remove1 (p, sz) L) t"

lemma canaries_ok_cong:
  assumes "16 \<le> unat p" "unat p + unat sz + 16 \<le> 2 ^ 64"
    "\<And>q. unat p \<le> unat q + 16 \<Longrightarrow> unat q < unat p + unat sz + 16 \<Longrightarrow>
      \<not> (unat p \<le> unat q \<and> unat q < unat p + unat sz) \<Longrightarrow> m' q = m q"
  shows "canaries_ok m' p sz = canaries_ok m p sz"
proof -
  have a: "unat (p - 16) = unat p - 16" "unat (p - 16 + 8) = unat p - 16 + 8" "unat (p + sz) = unat p + unat sz"
    "unat (p + sz + 8) = unat p + unat sz + 8"
    using assms(1,2) unsigned_less [of p] by (simp_all add: unat_diff_cases unat_word_ariths)
  have "load64 m' (p - 16) = load64 m (p - 16)" "load64 m' (p - 16 + 8) = load64 m (p - 16 + 8)"
    "load64 m' (p + sz) = load64 m (p + sz)" "load64 m' (p + sz + 8) = load64 m (p + sz + 8)"
    using assms(1,2) unsigned_less [of p] by (intro load64_cong assms(3); (simp only: a)?; linarith)+
  then show ?thesis by (simp add: canaries_ok_def)
qed

lemma heap_inv_free:
  assumes "heap_inv L s" "(p, sz) \<in> set L"
  shows "PerlUpb_BlockAlloc_Func p sz 0 s = (Inr NULL, s)"
proof -
  have "canaries_ok (mem s) p sz" "canary_mode s"
    using assms by (auto simp: heap_inv_def)
  then show ?thesis
    using VerifyCanaries_ok [of p sz "''BlockAlloc free''" s]
    by (auto simp: PerlUpb_BlockAlloc_Func_def block_free_def canary_mode_def then_xs_def bind_xs_def)
qed

lemma sorted_wrt_remove1: "sorted_wrt P L \<Longrightarrow> sorted_wrt P (remove1 x L)"
  by (induction L) (auto dest: notin_set_remove1)

lemma heap_inv_remove: "heap_inv L s \<Longrightarrow> heap_inv (remove1 x L) s"
  using set_remove1_subset [of x L] by (auto simp: heap_inv_def sorted_wrt_remove1)

lemma apart_sym: "apart x y = apart y x"
  by (auto simp: apart_def)

lemma sorted_wrt_apart_cases:
  "sorted_wrt apart L \<Longrightarrow> x \<in> set L \<Longrightarrow> y \<in> set L \<Longrightarrow> x = y \<or> apart x y"
  by (induction L) (auto simp: apart_sym)

lemma heap_inv_write:
  assumes "heap_inv L s" "(p, sz) \<in> set L" "unat p \<le> unat q" "unat q < unat p + unat sz"
  shows "heap_inv L (s\<lparr>mem := (mem s)(q := v)\<rparr>)"
proof -
  have "canaries_ok ((mem s)(q := v)) p' sz'" if L: "(p', sz') \<in> set L" for p' sz'
  proof -
    have b: "16 \<le> unat p'" "unat p' + unat sz' + 16 \<le> 2 ^ 64" "canaries_ok (mem s) p' sz'"
      using assms(1) L by (auto simp: heap_inv_def block_in_def block_ok_def)
    have "(p', sz') = (p, sz) \<or> apart (p', sz') (p, sz)"
      using assms(1,2) L by (intro sorted_wrt_apart_cases) (auto simp: heap_inv_def)
    then have "\<not> (unat p' \<le> unat q + 16 \<and> unat q < unat p' + unat sz' + 16 \<and>
        \<not> (unat p' \<le> unat q \<and> unat q < unat p' + unat sz'))"
      using assms(3,4) by (auto simp: apart_def)
    then show ?thesis
      using b by (subst canaries_ok_cong [where m = "mem s"]) (auto simp: fun_upd_def)
  qed
  then show ?thesis
    using assms(1) by (auto simp: heap_inv_def canary_mode_def use_guard_pages_env_def)
qed

text \<open>What a successful allocation adds: a block in the part of the region not handed out before.\<close>

lemma heap_inv_fresh:
  assumes "heap_inv L s" "unat sz + unat (bl_size (blk s)) + 47 < 2 ^ 64"
    and fits: "unat (bl_offset (blk s)) + unat (aligned_size sz) \<le> unat (bl_size (blk s))"
  defines "raw \<equiv> bl_region (blk s) + bl_offset (blk s)"
  defines "t \<equiv> s\<lparr>mem := PerlUpb_WriteCanaries raw sz (mem s),
                 blk := (blk s)\<lparr>bl_offset := bl_offset (blk s) + aligned_size sz\<rparr>\<rparr>"
  shows "heap_inv ((raw + 16, sz) # L) t" "raw + 16 \<noteq> NULL"
proof -
  let ?R = "unat (bl_region (blk s))" and ?o = "unat (bl_offset (blk s))" and ?S = "unat (bl_size (blk s))"
  from assms(1) have ok: "?R + ?S < 2 ^ 64" "?o \<le> ?S" "?o mod 16 = 0"
    by (simp_all add: heap_inv_def block_ok_def)
  have "unat sz + 47 < 2 ^ 64" using assms(2) by linarith
  note al = aligned_size_bounds [OF this]
  have raw: "unat raw = ?R + ?o"
    unfolding raw_def using ok by (intro unat_add_small) linarith
  have raw16: "unat (raw + 16) = ?R + ?o + 16"
    using raw ok fits al by (subst unat_add_small) simp_all
  have off: "unat (bl_offset (blk s) + aligned_size sz) = ?o + unat (aligned_size sz)"
    using ok fits by (intro unat_add_small) linarith
  have room: "unat raw + unat sz + 32 \<le> 2 ^ 64"
    using raw ok fits al by linarith
  show "raw + 16 \<noteq> NULL"
    using raw16 by force
  have old: "block_in (blk t) (p, z) \<and> canaries_ok (mem t) p z \<and> apart (raw + 16, sz) (p, z)"
    if "(p, z) \<in> set L" for p z
  proof -
    have b: "?R + 16 \<le> unat p" "unat p + unat z + 16 \<le> ?R + ?o" "canaries_ok (mem s) p z"
      using assms(1) that by (auto simp: heap_inv_def block_in_def)
    have "canaries_ok (mem t) p z = canaries_ok (mem s) p z"
      using b ok raw room unfolding t_def
      by (intro canaries_ok_cong) (auto intro!: WriteCanaries_frame)
    then show ?thesis
      using b off raw16 by (simp add: block_in_def apart_def t_def)
  qed
  have "canaries_ok (mem t) (raw + 16) sz"
    unfolding t_def using WriteCanaries_ok [OF room] by simp
  moreover have "block_in (blk t) (raw + 16, sz)"
    using raw16 off al fits by (simp add: block_in_def t_def)
  moreover have "block_ok (blk t)"
    using ok off fits al(3) by (simp add: block_ok_def t_def mod_add_eq [symmetric])
  moreover have "canary_mode t"
    using assms(1) by (simp add: heap_inv_def canary_mode_def t_def use_guard_pages_env_def)
  ultimately show "heap_inv ((raw + 16, sz) # L) t"
    using old assms(1) by (auto simp: heap_inv_def)
qed

lemma heap_run_inv:
  assumes "heap_run s0 L s" "block_ok (blk s0)" "canary_mode s0"
  shows "heap_inv L s"
  using assms
proof (induction rule: heap_run.induct)
  case run_start
  then show ?case by (simp add: heap_inv_def)
next
  case (run_alloc L s sz p t)
  then have inv: "heap_inv L s" by simp
  then have ok: "block_ok (blk s)" "canary_mode s" by (simp_all add: heap_inv_def)
  show ?case
    using run_alloc.hyps(4) heap_inv_fresh [OF inv run_alloc.hyps(3)] inv
    unfolding BlockAlloc_fresh_spec [OF ok run_alloc.hyps(2,3)] Let_def
    by (auto split: if_splits)
next
  case (run_write L s p sz q v)
  then show ?case by (intro heap_inv_write) simp_all
next
  case (run_free L s p sz r t)
  then show ?case
    using heap_inv_free [of L s p sz] heap_inv_remove [of L s] by simp
qed

section \<open>Properties\<close>


definition block_boot :: block_st where
  "block_boot =
     \<lparr>mem = (\<lambda>_. 0), guard_env = None, sc_pagesize = 4096, mmap_outcomes = [], mprotect_outcomes = [],
      mappings = [], warnings = [],
      blk = \<lparr>bl_type = PERL_UPB_BLOCK_MALLOC, bl_fd = -1, bl_path = None, bl_region = 0x10000, bl_size = 256,
             bl_offset = 0, bl_poisoned = False, bl_mmap_size = 256\<rparr>\<rparr>"

lemma block_boot_ok: "block_ok (blk block_boot)" "canary_mode block_boot"
  by (simp_all add: block_boot_def block_ok_def canary_mode_def use_guard_pages_env_def)

lemma block_boot_alloc:
  obtains t where "PerlUpb_BlockAlloc_Func NULL 0 24 block_boot = (Inr 0x10010, t)" "heap_run block_boot [(0x10010, 24)] t"
proof -
  have al: "unat (aligned_size 24) = 64"
    by (subst aligned_size_eq) simp_all
  have "PerlUpb_BlockAlloc_Func NULL 0 24 block_boot =
      (Inr 0x10010, snd (PerlUpb_BlockAlloc_Func NULL 0 24 block_boot))"
    by (subst (1 2) BlockAlloc_fresh_spec [OF block_boot_ok]) (simp_all add: block_boot_def Let_def al)
  then show thesis
    using that run_alloc [OF run_start, of 24 block_boot "0x10010"] by (simp add: block_boot_def)
qed


text \<open>
  C37: Detection: if any byte of the 16 canary bytes before or after a block differs
  from the pattern, freeing or reallocating the block croaks with a corruption
  message and poisons the allocator, and a poisoned allocator answers every later
  request with a null pointer and touches nothing.
\<close>

theorem block_alloc_detects_corruption:
  assumes "canary_mode s" "p \<noteq> NULL" "i < 16"
    and "mem s (p - 16 + of_nat i) \<noteq> ucast (drop_bit (8 * (i mod 8)) PERL_UPB_CANARY_PATTERN) \<or>
         mem s (p + old + of_nat i) \<noteq> ucast (drop_bit (8 * (i mod 8)) PERL_UPB_CANARY_PATTERN)"
  shows "\<exists>fmt msg t. PerlUpb_BlockAlloc_Func p old sz s = (Inl (Croak fmt [CStr msg]), t) \<and> bl_poisoned (blk t) \<and>
    PerlUpb_BlockAlloc_Func p' old' sz' t = (Inr NULL, t)"
proof -
  have "\<not> canaries_ok (mem s) p old"
  proof
    assume c: "canaries_ok (mem s) p old"
    have *: "load64 (mem s) b = PERL_UPB_CANARY_PATTERN \<Longrightarrow> load64 (mem s) (b + 8) = PERL_UPB_CANARY_PATTERN \<Longrightarrow>
        mem s (b + of_nat i) = ucast (drop_bit (8 * (i mod 8)) PERL_UPB_CANARY_PATTERN)" for b
    proof (cases "i < 8")
      case False
      assume "load64 (mem s) (b + 8) = PERL_UPB_CANARY_PATTERN"
      then have "mem s (b + 8 + of_nat (i - 8)) = ucast (drop_bit (8 * (i - 8)) PERL_UPB_CANARY_PATTERN)"
        unfolding load64_eq_iff using assms(3) by simp
      moreover have "i mod 8 = i - 8" "b + 8 + of_nat (i - 8) = b + of_nat i"
        using False assms(3) by (simp_all add: le_mod_geq of_nat_diff)
      ultimately show ?thesis by simp
    qed (simp add: load64_eq_iff)
    show False
      using c assms(4) * [of "p - 16"] * [of "p + old"] by (auto simp: canaries_ok_def)
  qed
  note bad = VerifyCanaries_bad [OF this]
  let ?t = "blk_update (bl_poisoned_update (\<lambda>_. True)) s"
  have "\<exists>fmt msg. PerlUpb_BlockAlloc_Func p old sz s = (Inl (Croak fmt [CStr msg]), ?t)"
  proof (cases "sz = 0")
    case True
    then show ?thesis
      using assms(1,2) bad [of "''BlockAlloc free''"]
      by (auto simp: PerlUpb_BlockAlloc_Func_def block_free_def canary_mode_def then_xs_Inl)
  next
    case False
    then show ?thesis
      using assms(1,2) bad [of "''BlockAlloc realloc''"]
      by (auto simp: PerlUpb_BlockAlloc_Func_def canary_mode_def then_xs_Inl)
  qed
  moreover have "PerlUpb_BlockAlloc_Func p' old' sz' ?t = (Inr NULL, ?t)"
    by (simp add: PerlUpb_BlockAlloc_Func_def)
  ultimately show ?thesis by auto
qed

text \<open>
  The size computation wraps: a request within 47 bytes of \<open>SIZE_MAX\<close> yields an
  aligned size of at most 48 bytes, passes the room check of an almost empty region,
  and returns a non-null pointer to a block far smaller than the request.
\<close>

theorem block_alloc_size_wraps:
  assumes "block_ok (blk s)" "canary_mode s" "2 ^ 64 - 47 \<le> unat sz" "unat (bl_offset (blk s)) + 48 \<le> unat (bl_size (blk s))"
  shows "\<exists>t. PerlUpb_BlockAlloc_Func NULL 0 sz s = (Inr (bl_region (blk s) + bl_offset (blk s) + 16), t) \<and>
    unat (aligned_size sz) \<le> 48"
proof -
  have small: "unat (sz + 32 + 15) \<le> 46"
  proof -
    have "unat (sz + 32 + 15) = (unat sz + 47) mod 2 ^ 64"
      by (simp add: unat_word_ariths mod_simps add.assoc)
    also have "\<dots> = unat sz + 47 - 2 ^ 64"
      using assms(3) unat_lt64 [of sz] by (simp add: le_mod_geq)
    finally show ?thesis
      using unat_lt64 [of sz] by simp
  qed
  have sub: "unat (x AND y) \<le> unat x" for x y :: size_t
    by (simp add: word_le_nat_alt [symmetric] word_and_le2)
  have "aligned_size sz = (sz + 32 + 15) AND NOT 15"
    by (simp add: aligned_size_def PERL_UPB_CANARY_SIZE_def)
  then have a: "unat (aligned_size sz) \<le> 46"
    using order_trans [OF sub [of "sz + 32 + 15" "NOT 15"] small] by (simp only:)
  have "unat (bl_offset (blk s) + aligned_size sz) = unat (bl_offset (blk s)) + unat (aligned_size sz)"
    using a assms(1,4) by (intro unat_add_small) (auto simp: block_ok_def)
  then have room: "\<not> bl_size (blk s) < bl_offset (blk s) + aligned_size sz"
    using a assms(4) by (simp add: word_less_nat_alt)
  have nz: "sz \<noteq> 0"
    using assms(3) by auto
  have "fst (PerlUpb_BlockAlloc_Func NULL 0 sz s) = Inr (bl_region (blk s) + bl_offset (blk s) + 16)"
    using assms(2) room nz
    by (auto simp: PerlUpb_BlockAlloc_Func_def block_alloc_fresh_def block_alloc_canary_def canary_mode_def
        PERL_UPB_CANARY_SIZE_def Let_def)
  with a show ?thesis
    by (intro exI [of _ "snd (PerlUpb_BlockAlloc_Func NULL 0 sz s)"]) (simp add: prod_eq_iff)
qed

theorem block_alloc_size_wraps_witness:
  "\<exists>t. PerlUpb_BlockAlloc_Func NULL 0 0xFFFFFFFFFFFFFFE0 block_boot = (Inr 0x10010, t)"
  using block_alloc_size_wraps [OF block_boot_ok, of "0xFFFFFFFFFFFFFFE0"] by (auto simp: block_boot_def)

theorem block_alloc_detects_corruption_witness:
  "\<exists>fmt msg t. PerlUpb_BlockAlloc_Func 0x10010 8 0 block_boot = (Inl (Croak fmt [CStr msg]), t) \<and> bl_poisoned (blk t)"
proof -
  have "mem block_boot (0x10010 - 16 + of_nat 0) \<noteq> ucast (drop_bit (8 * (0 mod 8)) PERL_UPB_CANARY_PATTERN)"
    by (simp add: block_boot_def PERL_UPB_CANARY_PATTERN_def)
  then show ?thesis
    using block_alloc_detects_corruption [OF block_boot_ok(2), where p = "0x10010" and i = 0 and old = 8 and sz = 0
        and p' = 0 and old' = 0 and sz' = 0] by auto
qed

end
