(* ===== verification/Arena.thy ===== *)
theory Arena
  imports Obj_Cache Block_Alloc
begin

text \<open>
  Arena wrappers (\<open>xs/protobuf/arena.c\<close>, \<open>arena.h\<close>, the wrapper part of
  \<open>arena_tmpfs.c\<close>) and \<open>PerlUpb_Registry_PreallocateArena\<close>: a Perl object
  \<open>Protobuf::Arena\<close> owns a C structure that owns a upb arena. The state tracks which
  structures, arenas, mappings and descriptors are live, so that freeing one twice or
  using it after it was freed is a fault of the model. \<open>safemalloc\<close> ends the process
  when memory is exhausted, so it always returns a fresh pointer here; \<open>upb_Arena_Init\<close>
  may fail, and which calls do is supplied by \<open>arena_init_ok\<close> (exhausted means success).
\<close>

section \<open>State\<close>

record PerlUpb_StatsAlloc =
  total_reserved :: size_t
  total_blocks :: size_t
  historical_max_size :: size_t
  numa_node :: int
  use_chaos :: bool
  poisoned :: bool
  sa_fail_probability :: nv
  sa_delay_probability :: nv

definition zero_stats :: PerlUpb_StatsAlloc where
  "zero_stats = \<lparr>total_reserved = 0, total_blocks = 0, historical_max_size = 0, numa_node = 0,
     use_chaos = False, poisoned = False, sa_fail_probability = NvFin 0 0, sa_delay_probability = NvFin 0 0\<rparr>"

record PerlUpb_Arena =
  pa_arena :: ptr
  pa_stats_alloc :: PerlUpb_StatsAlloc

text \<open>
  A \<open>void*\<close> to an arena wrapper points to a plain \<open>PerlUpb_Arena\<close> or to the larger
  \<open>PerlUpb_Arena_Custom\<close>, which also holds its block allocator.
\<close>

datatype raw_arena = Raw_Arena PerlUpb_Arena | Raw_Custom PerlUpb_Arena ptr

datatype PerlUpb_ArenaLifecycle = PERL_UPB_LIFECYCLE_PERMANENT | PERL_UPB_LIFECYCLE_TRANSIENT

text \<open>\<open>files_open\<close> answers the successive \<open>open\<close> calls (a negative value is a failure).\<close>

record arena_st = cache_st +
  raw_arenas :: "ptr \<Rightarrow> raw_arena option"
  upb_arenas :: "ptr set"
  block_allocs :: "ptr \<Rightarrow> PerlUpb_BlockAlloc option"
  open_fds :: "int list"
  mapped :: "(ptr \<times> size_t) list"
  next_ptr :: ptr
  arena_init_ok :: "bool list"
  open_results :: "int list"
  ftruncate_results :: "bool list"
  mmap_results :: "ptr option list"
  regular_files :: "string \<Rightarrow> bool option"
  guard_pages :: bool
  realloc_results :: "ptr list"
  chaos_draws :: "bool list"
  hv_bucket_type :: int

section \<open>C allocation\<close>

text \<open>Every structure is handed out on its own 256-byte slot.\<close>

definition safemalloc :: "('z arena_st_scheme, ptr) xs" where
  "safemalloc = (\<lambda>s. (Inr (next_ptr s), s\<lparr>next_ptr := next_ptr s + 256\<rparr>))"

definition upb_Arena_Init :: "('z arena_st_scheme, ptr) xs" where
  "upb_Arena_Init = (\<lambda>s.
     case arena_init_ok s of
       False # os \<Rightarrow> (Inr NULL, s\<lparr>arena_init_ok := os\<rparr>)
     | _ \<Rightarrow> (Inr (next_ptr s), s\<lparr>next_ptr := next_ptr s + 256, arena_init_ok := tl (arena_init_ok s),
                               upb_arenas := insert (next_ptr s) (upb_arenas s)\<rparr>))"

abbreviation upb_Arena_New :: "('z arena_st_scheme, ptr) xs" where
  "upb_Arena_New \<equiv> upb_Arena_Init"

definition upb_Arena_Free :: "ptr \<Rightarrow> ('z arena_st_scheme, unit) xs" where
  "upb_Arena_Free a = (\<lambda>s.
     if a \<in> upb_arenas s then (Inr (), s\<lparr>upb_arenas := upb_arenas s - {a}\<rparr>)
     else (Inl (Fault ''upb_Arena_Free of a dead arena''), s))"

definition load_raw :: "ptr \<Rightarrow> ('z arena_st_scheme, raw_arena) xs" where
  "load_raw p = (\<lambda>s. case raw_arenas s p of
     None \<Rightarrow> (Inl (Fault ''access to a dead arena wrapper''), s)
   | Some r \<Rightarrow> (Inr r, s))"

definition safefree_raw :: "ptr \<Rightarrow> ('z arena_st_scheme, unit) xs" where
  "safefree_raw p = (\<lambda>s. case raw_arenas s p of
     None \<Rightarrow> (Inl (Fault ''safefree of a dead arena wrapper''), s)
   | Some _ \<Rightarrow> (Inr (), s\<lparr>raw_arenas := (raw_arenas s)(p := None)\<rparr>))"

fun raw_base :: "raw_arena \<Rightarrow> PerlUpb_Arena" where
  "raw_base (Raw_Arena a) = a"
| "raw_base (Raw_Custom a _) = a"

section \<open>The statistics allocator\<close>

definition nv_positive :: "nv \<Rightarrow> bool" where
  "nv_positive x = (case x of NvFin m _ \<Rightarrow> 0 < m | NvInf neg \<Rightarrow> \<not> neg | NvNaN \<Rightarrow> False)"

text \<open>
  \<open>stats_alloc_func\<close> returns the pointer, what it stored in \<open>*actual_size\<close> (if
  anything) and the updated statistics. \<open>chaos_draws\<close> answers the comparisons
  \<open>rand() / RAND_MAX < fail_probability\<close>, \<open>realloc_results\<close> the calls of \<open>realloc\<close>.
\<close>

definition note_max :: "PerlUpb_StatsAlloc \<Rightarrow> PerlUpb_StatsAlloc" where
  "note_max st = (if historical_max_size st < total_reserved st
                  then st\<lparr>historical_max_size := total_reserved st\<rparr> else st)"

definition stats_account ::
    "ptr \<Rightarrow> size_t \<Rightarrow> size_t \<Rightarrow> PerlUpb_StatsAlloc \<Rightarrow> 'z cache_st_scheme \<Rightarrow> PerlUpb_StatsAlloc \<times> 'z cache_st_scheme" where
  "stats_account r oldsize sz st s =
     (if oldsize = 0 then
        (note_max (st\<lparr>total_reserved := total_reserved st + sz, total_blocks := total_blocks st + 1\<rparr>),
         PerlUpb_ObjCache_LogEvent ALLOC_EVENT_MALLOC r s)
      else if oldsize < sz then
        (note_max (st\<lparr>total_reserved := total_reserved st + (sz - oldsize)\<rparr>),
         PerlUpb_ObjCache_LogEvent ALLOC_EVENT_REALLOC r s)
      else (st\<lparr>total_reserved := total_reserved st - (oldsize - sz)\<rparr>, s))"

definition stats_alloc_func ::
    "PerlUpb_StatsAlloc \<Rightarrow> ptr \<Rightarrow> size_t \<Rightarrow> size_t \<Rightarrow> 'z arena_st_scheme \<Rightarrow>
     (ptr \<times> size_t option \<times> PerlUpb_StatsAlloc) \<times> 'z arena_st_scheme" where
  "stats_alloc_func st p oldsize sz s =
     (if poisoned st \<and> sz > 0 then ((NULL, None, st), s)
      else if sz = 0 then
        ((NULL, None, st), if p \<noteq> NULL then PerlUpb_ObjCache_LogEvent ALLOC_EVENT_FREE p s else s)
      else
        let draw = nv_positive (sa_fail_probability st);
            fails = draw \<and> (case chaos_draws s of [] \<Rightarrow> False | b # _ \<Rightarrow> b);
            s = (if draw then s\<lparr>chaos_draws := tl (chaos_draws s)\<rparr> else s)
        in if fails then ((NULL, None, st), s)
           else
             let r = (case realloc_results s of [] \<Rightarrow> NULL | r # _ \<Rightarrow> r);
                 s = s\<lparr>realloc_results := tl (realloc_results s)\<rparr>
             in if r \<noteq> NULL then
                  let (st, s) = stats_account r oldsize sz st s in ((r, Some sz, st), s)
                else ((NULL, None, st), s))"

section \<open>Acquiring and releasing\<close>

definition PerlUpb_Arena_Acquire :: "PerlUpb_ArenaLifecycle \<Rightarrow> ('z arena_st_scheme, ptr) xs" where
  "PerlUpb_Arena_Acquire lifecycle =
     (if lifecycle = PERL_UPB_LIFECYCLE_TRANSIENT then
        bind_xs (lift_xs PerlUpb_Registry_Get) (\<lambda>reg.
        case reg of
          Some reg \<Rightarrow>
            if cached_transient_arena reg \<noteq> NULL
            then then_xs (modify_xs (\<lambda>s. s\<lparr>registry := Some (reg\<lparr>cached_transient_arena := NULL\<rparr>)\<rparr>))
                   (ret (cached_transient_arena reg))
            else upb_Arena_New
        | None \<Rightarrow> upb_Arena_New)
      else upb_Arena_New)"

definition PerlUpb_Arena_Release :: "ptr \<Rightarrow> PerlUpb_ArenaLifecycle \<Rightarrow> ('z arena_st_scheme, unit) xs" where
  "PerlUpb_Arena_Release arena lifecycle =
     (if arena = NULL then ret ()
      else if lifecycle = PERL_UPB_LIFECYCLE_TRANSIENT then
        bind_xs (lift_xs PerlUpb_Registry_Get) (\<lambda>reg.
        case reg of
          Some reg \<Rightarrow> if cached_transient_arena reg = NULL then upb_Arena_Free arena else upb_Arena_Free arena
        | None \<Rightarrow> upb_Arena_Free arena)
      else upb_Arena_Free arena)"

definition PerlUpb_Arena_AcquireWithStats :: "('z arena_st_scheme, ptr \<times> PerlUpb_StatsAlloc) xs" where
  "PerlUpb_Arena_AcquireWithStats = bind_xs upb_Arena_Init (\<lambda>a. ret (a, zero_stats))"

text \<open>\<open>idle_time_arena_hook\<close> is a callback; its effect is the argument \<open>hook\<close>.\<close>

definition PerlUpb_Registry_PreallocateArena ::
    "('z arena_st_scheme, unit) xs \<Rightarrow> ('z arena_st_scheme, unit) xs" where
  "PerlUpb_Registry_PreallocateArena hook =
     bind_xs (gets_xs PL_dirty) (\<lambda>dirty.
     if dirty then ret ()
     else bind_xs (lift_xs PerlUpb_Registry_Get) (\<lambda>reg.
     case reg of
       None \<Rightarrow> ret ()
     | Some reg \<Rightarrow>
         then_xs (if idle_time_arena_hook reg then hook else ret ())
         (bind_xs (gets_xs registry) (\<lambda>reg.
          case reg of
            None \<Rightarrow> ret ()
          | Some reg \<Rightarrow>
              if cached_transient_arena reg = NULL
              then bind_xs upb_Arena_New (\<lambda>a.
                     modify_xs (\<lambda>s. s\<lparr>registry := Some (reg\<lparr>cached_transient_arena := a\<rparr>)\<rparr>))
              else ret ()))))"

section \<open>Raw wrappers\<close>

definition store_raw :: "ptr \<Rightarrow> raw_arena \<Rightarrow> ('z arena_st_scheme, unit) xs" where
  "store_raw p r = modify_xs (\<lambda>s. s\<lparr>raw_arenas := (raw_arenas s)(p \<mapsto> r)\<rparr>)"

definition PerlUpb_Arena_CreateRaw :: "('z arena_st_scheme, ptr) xs" where
  "PerlUpb_Arena_CreateRaw =
     bind_xs safemalloc (\<lambda>w.
     bind_xs PerlUpb_Arena_AcquireWithStats (\<lambda>(a, st).
     if a = NULL then croak ''Failed to acquire upb_Arena'' []
     else then_xs (store_raw w (Raw_Arena \<lparr>pa_arena = a, pa_stats_alloc = st\<rparr>)) (ret w)))"

definition PerlUpb_Arena_CreateRawFromUpb :: "ptr \<Rightarrow> ('z arena_st_scheme, ptr) xs" where
  "PerlUpb_Arena_CreateRawFromUpb arena =
     bind_xs safemalloc (\<lambda>w.
     then_xs (store_raw w (Raw_Arena \<lparr>pa_arena = arena, pa_stats_alloc = zero_stats\<rparr>)) (ret w))"

definition PerlUpb_Arena_GetRaw :: "ptr \<Rightarrow> ('z arena_st_scheme, ptr) xs" where
  "PerlUpb_Arena_GetRaw p =
     (if p \<noteq> NULL then bind_xs (load_raw p) (\<lambda>r. ret (pa_arena (raw_base r))) else ret NULL)"

definition PerlUpb_Arena_DestroyRaw :: "ptr \<Rightarrow> ('z arena_st_scheme, unit) xs" where
  "PerlUpb_Arena_DestroyRaw p =
     (if p \<noteq> NULL then
        bind_xs (load_raw p) (\<lambda>r.
        then_xs (if pa_arena (raw_base r) \<noteq> NULL then upb_Arena_Free (pa_arena (raw_base r)) else ret ())
          (safefree_raw p))
      else ret ())"

text \<open>
  \<open>PerlUpb_Arena_DestroyRaw_Tmpfs\<close>. Casting a plain wrapper to
  \<open>PerlUpb_Arena_Custom*\<close> reads past the end of the structure.
\<close>

definition close_fd :: "int \<Rightarrow> ('z arena_st_scheme, unit) xs" where
  "close_fd fd = modify_xs (\<lambda>s. s\<lparr>open_fds := remove1 fd (open_fds s)\<rparr>)"

definition unmap :: "ptr \<Rightarrow> size_t \<Rightarrow> ('z arena_st_scheme, unit) xs" where
  "unmap p n = modify_xs (\<lambda>s. s\<lparr>mapped := remove1 (p, n) (mapped s)\<rparr>)"

definition load_block :: "ptr \<Rightarrow> ('z arena_st_scheme, PerlUpb_BlockAlloc) xs" where
  "load_block p = (\<lambda>s. case block_allocs s p of
     None \<Rightarrow> (Inl (Fault ''access to a dead block allocator''), s)
   | Some b \<Rightarrow> (Inr b, s))"

definition safefree_block :: "ptr \<Rightarrow> ('z arena_st_scheme, unit) xs" where
  "safefree_block p = modify_xs (\<lambda>s. s\<lparr>block_allocs := (block_allocs s)(p := None)\<rparr>)"

definition as_custom :: "raw_arena \<Rightarrow> ('z arena_st_scheme, PerlUpb_Arena \<times> ptr) xs" where
  "as_custom r = (case r of Raw_Custom a b \<Rightarrow> ret (a, b)
                  | Raw_Arena _ \<Rightarrow> fault ''plain arena wrapper used as PerlUpb_Arena_Custom'')"

definition PerlUpb_Arena_DestroyRaw_Tmpfs :: "ptr \<Rightarrow> bool \<Rightarrow> ('z arena_st_scheme, unit) xs" where
  "PerlUpb_Arena_DestroyRaw_Tmpfs p is_tmpfs =
     (if \<not> is_tmpfs then PerlUpb_Arena_DestroyRaw p
      else if p = NULL then ret ()
      else
        bind_xs (load_raw p) (\<lambda>r. bind_xs (as_custom r) (\<lambda>(base, alloc).
        then_xs (if pa_arena base \<noteq> NULL
                 then PerlUpb_Arena_Release (pa_arena base) PERL_UPB_LIFECYCLE_PERMANENT else ret ())
        (then_xs (if alloc \<noteq> NULL then
             bind_xs (load_block alloc) (\<lambda>b.
             then_xs (if bl_type b = PERL_UPB_BLOCK_MMAP
                      then then_xs (unmap (bl_region b) (bl_size b)) (close_fd (bl_fd b))
                      else ret ())
               (safefree_block alloc))
           else ret ())
          (safefree_raw p)))))"

section \<open>Perl objects\<close>

text \<open>
  \<open>arena_cleanup\<close> runs when the object's hash dies; \<open>sv\<close> is that hash. The callback
  applies \<open>SvRV\<close> to the hash itself, which yields its bucket array, and reads a type
  from there: \<open>hv_bucket_type\<close> is what it finds (12 is \<open>SVt_PVHV\<close>), and taking the
  array for a hash is a fault.
\<close>

definition arena_cleanup :: "addr \<Rightarrow> ('z arena_st_scheme, unit) xs" where
  "arena_cleanup a =
     bind_xs (gets_xs PL_dirty) (\<lambda>dirty.
     if dirty then ret ()
     else bind_xs (gets_xs (\<lambda>s. Option.bind (heap s a) (\<lambda>r. mg_findext r Arena_vtbl))) (\<lambda>mg.
     case mg of
       None \<Rightarrow> ret ()
     | Some mg \<Rightarrow>
         if mg_ptr mg = NULL then ret ()
         else then_xs (modify_xs (write_ref a (mg_update Arena_vtbl (\<lambda>m. m\<lparr>mg_ptr := NULL\<rparr>))))
           (bind_xs (gets_xs hv_bucket_type) (\<lambda>ty.
            if ty = 12 then fault ''hv_fetch on the bucket array of the hash''
            else PerlUpb_Arena_DestroyRaw_Tmpfs (mg_ptr mg) False))))"

definition wrap_arena_internal :: "ptr \<Rightarrow> bool \<Rightarrow> ('z arena_st_scheme, sv) xs" where
  "wrap_arena_internal raw is_tmpfs =
     (let hv = hv_store ''_arena_ptr'' (newSViv raw) newHV;
          hv = (if is_tmpfs then hv_store ''_is_tmpfs'' (newSViv 1) hv else hv)
      in bind_xs (lift_xs PerlUpb_Registry_Get) (\<lambda>reg.
         let stash = (case reg of Some reg \<Rightarrow> stash_arena reg | None \<Rightarrow> ''Protobuf::Arena'')
         in bind_xs (alloc (sv_magicext Arena_vtbl raw (sv_bless stash hv))) (\<lambda>a. ret (newRV a))))"

definition PerlUpb_Arena_New :: "('z arena_st_scheme, sv) xs" where
  "PerlUpb_Arena_New = bind_xs PerlUpb_Arena_CreateRaw (\<lambda>raw. wrap_arena_internal raw False)"

definition PerlUpb_Arena_WrapRaw :: "ptr \<Rightarrow> ('z arena_st_scheme, sv) xs" where
  "PerlUpb_Arena_WrapRaw arena =
     bind_xs (PerlUpb_Arena_CreateRawFromUpb arena) (\<lambda>raw. wrap_arena_internal raw False)"

definition PerlUpb_Arena_Get :: "sv option \<Rightarrow> ('z arena_st_scheme, ptr) xs" where
  "PerlUpb_Arena_Get v =
     bind_xs (gets_xs (\<lambda>s. (sv_isa s v ''Protobuf::Arena'', deref s v))) (\<lambda>(arena_obj, r).
     if \<not> arena_obj then croak ''Argument is not a blessed Protobuf::Arena object'' []
     else case r of
       None \<Rightarrow> ret NULL
     | Some r \<Rightarrow>
         if is_HV r then
           (case iv_ptr (hv_fetch r ''_arena_ptr'') of
              Some w \<Rightarrow> if w \<noteq> NULL then bind_xs (load_raw w) (\<lambda>x. ret (pa_arena (raw_base x))) else ret NULL
            | None \<Rightarrow> ret NULL)
         else ret NULL)"

definition PerlUpb_Arena_Destroy :: "sv option \<Rightarrow> ('z arena_st_scheme, unit) xs" where
  "PerlUpb_Arena_Destroy v =
     bind_xs (gets_xs (\<lambda>s. deref s v)) (\<lambda>r.
     case r of
       None \<Rightarrow> ret ()
     | Some r \<Rightarrow>
         (case mg_findext r Arena_vtbl of
            None \<Rightarrow> ret ()
          | Some _ \<Rightarrow>
              then_xs (modify_xs (rv_update v (mg_update Arena_vtbl (\<lambda>m. m\<lparr>mg_ptr := NULL\<rparr>))))
              (bind_xs (rv_hv v) (\<lambda>hv.
               case iv_ptr (hv_fetch hv ''_arena_ptr'') of
                 None \<Rightarrow> ret ()
               | Some p \<Rightarrow>
                   let tmpfs = (case hv_fetch hv ''_is_tmpfs'' of None \<Rightarrow> False | Some t \<Rightarrow> SvTRUE t)
                   in then_xs (PerlUpb_Arena_DestroyRaw_Tmpfs p tmpfs)
                        (modify_xs (rv_update v (hv_delete ''_arena_ptr'')))))))"

definition PerlUpb_Arena_Free :: "sv option \<Rightarrow> ('z arena_st_scheme, unit) xs" where
  "PerlUpb_Arena_Free v = PerlUpb_Arena_Destroy v"

definition PerlUpb_Arena_Detach :: "sv option \<Rightarrow> ('z arena_st_scheme, ptr) xs" where
  "PerlUpb_Arena_Detach v =
     bind_xs (gets_xs (\<lambda>s. sv_isa s v ''Protobuf::Arena'')) (\<lambda>arena_obj.
     if \<not> arena_obj then croak ''Argument to detach() must be a Protobuf::Arena object'' []
     else bind_xs (rv_hv v) (\<lambda>hv.
     case iv_ptr (hv_fetch hv ''_arena_ptr'') of
       None \<Rightarrow> ret NULL
     | Some raw \<Rightarrow>
         then_xs (modify_xs (rv_update v (mg_update Arena_vtbl (\<lambda>m. m\<lparr>mg_ptr := NULL\<rparr>))))
         (then_xs (modify_xs (rv_update v (hv_delete ''_arena_ptr''))) (ret raw))))"

definition PerlUpb_Arena_Attach :: "ptr \<Rightarrow> ('z arena_st_scheme, sv) xs" where
  "PerlUpb_Arena_Attach raw = (if raw = NULL then ret PL_sv_undef else wrap_arena_internal raw False)"

record PerlUpb_ArenaStats =
  as_allocated :: size_t
  as_reserved :: size_t
  as_blocks :: size_t

text \<open>\<open>stats\<close> is \<open>None\<close> where the function returns before it writes the caller's structure.\<close>

definition PerlUpb_Arena_GetStats :: "sv option \<Rightarrow> ('z arena_st_scheme, PerlUpb_ArenaStats option) xs" where
  "PerlUpb_Arena_GetStats v =
     (let zero = \<lparr>as_allocated = 0, as_reserved = 0, as_blocks = 0\<rparr> in
      case Option.bind v sv_rok of
        None \<Rightarrow> ret None
      | Some _ \<Rightarrow>
          bind_xs (rv_hv v) (\<lambda>hv.
          case iv_ptr (hv_fetch hv ''_arena_ptr'') of
            None \<Rightarrow> ret (Some zero)
          | Some p \<Rightarrow>
              if (case hv_fetch hv ''_is_tmpfs'' of None \<Rightarrow> False | Some t \<Rightarrow> SvTRUE t)
              then bind_xs (load_raw p) (\<lambda>r. bind_xs (as_custom r) (\<lambda>(_, alloc).
                   bind_xs (load_block alloc) (\<lambda>b.
                   ret (Some \<lparr>as_allocated = bl_offset b, as_reserved = bl_size b, as_blocks = 1\<rparr>))))
              else bind_xs (load_raw p) (\<lambda>r.
                   let st = pa_stats_alloc (raw_base r)
                   in ret (Some \<lparr>as_allocated = total_reserved st, as_reserved = total_reserved st,
                                as_blocks = total_blocks st\<rparr>))))"

text \<open>\<open>space\<close> stands for \<open>upb_Arena_SpaceAllocated(arena, NULL)\<close>.\<close>

definition PerlUpb_Arena_SpaceAllocated :: "(ptr \<Rightarrow> size_t) \<Rightarrow> sv option \<Rightarrow> ('z arena_st_scheme, u64) xs" where
  "PerlUpb_Arena_SpaceAllocated space v =
     bind_xs (PerlUpb_Arena_Get v) (\<lambda>arena. if arena = NULL then ret 0 else ret (space arena))"

text \<open>
  \<open>PerlUpb_Arena_SpaceReserved\<close> reads its local \<open>stats\<close> even when \<open>GetStats\<close> returned
  without writing it.
\<close>

definition PerlUpb_Arena_SpaceReserved :: "sv option \<Rightarrow> ('z arena_st_scheme, u64) xs" where
  "PerlUpb_Arena_SpaceReserved v =
     bind_xs (PerlUpb_Arena_GetStats v) (\<lambda>st.
     case st of None \<Rightarrow> fault ''read of uninitialised statistics'' | Some st \<Rightarrow> ret (as_reserved st))"

section \<open>Tmpfs and block arenas\<close>

text \<open>The operating system calls, answered from the state; an exhausted list is a failure.\<close>

definition sys_open :: "('z arena_st_scheme, int) xs" where
  "sys_open = (\<lambda>s. case open_results s of
     [] \<Rightarrow> (Inr (-1), s)
   | fd # fds \<Rightarrow> (Inr fd, s\<lparr>open_results := fds, open_fds := (if fd < 0 then open_fds s else fd # open_fds s)\<rparr>))"

definition sys_ftruncate :: "('z arena_st_scheme, bool) xs" where
  "sys_ftruncate = (\<lambda>s. case ftruncate_results s of
     [] \<Rightarrow> (Inr False, s) | ok # oks \<Rightarrow> (Inr ok, s\<lparr>ftruncate_results := oks\<rparr>))"

definition sys_mmap :: "size_t \<Rightarrow> ('z arena_st_scheme, ptr option) xs" where
  "sys_mmap n = (\<lambda>s. case mmap_results s of
     Some p # rs \<Rightarrow> (Inr (Some p), s\<lparr>mmap_results := rs, mapped := (p, n) # mapped s\<rparr>)
   | None # rs \<Rightarrow> (Inr None, s\<lparr>mmap_results := rs\<rparr>)
   | [] \<Rightarrow> (Inr None, s))"

definition store_block :: "ptr \<Rightarrow> PerlUpb_BlockAlloc \<Rightarrow> ('z arena_st_scheme, unit) xs" where
  "store_block p b = modify_xs (\<lambda>s. s\<lparr>block_allocs := (block_allocs s)(p \<mapsto> b)\<rparr>)"

text \<open>
  \<open>PerlUpb_Arena_NewTmpfs\<close>. The object carries the two hash entries but, unlike
  \<open>wrap_arena_internal\<close>, no magic. The fields of the embedded \<open>stats_alloc\<close> stay
  uninitialised; nothing reads them for a tmpfs arena, and they are zero here.
\<close>

definition PerlUpb_Arena_NewTmpfs :: "string \<Rightarrow> size_t \<Rightarrow> ('z arena_st_scheme, sv) xs" where
  "PerlUpb_Arena_NewTmpfs path sz =
     bind_xs sys_open (\<lambda>fd.
     if fd < 0 then croak ''Failed to open tmpfs file %s: %s'' [CStr path]
     else bind_xs sys_ftruncate (\<lambda>ok.
     if \<not> ok then then_xs (close_fd fd) (croak ''Failed to truncate tmpfs file %s: %s'' [CStr path])
     else bind_xs (sys_mmap sz) (\<lambda>region.
     case region of
       None \<Rightarrow> then_xs (close_fd fd) (croak ''Failed to mmap tmpfs file %s: %s'' [CStr path])
     | Some region \<Rightarrow>
         bind_xs safemalloc (\<lambda>b_alloc.
         then_xs (store_block b_alloc
           \<lparr>bl_type = PERL_UPB_BLOCK_MMAP, bl_fd = fd, bl_path = Some path, bl_region = region, bl_size = sz,
            bl_offset = 0, bl_poisoned = False, bl_mmap_size = sz\<rparr>)
         (bind_xs upb_Arena_Init (\<lambda>arena.
          if arena = NULL
          then then_xs (unmap region sz) (then_xs (close_fd fd) (then_xs (safefree_block b_alloc)
                 (croak ''Failed to initialize upb_Arena with block allocator'' [])))
          else bind_xs safemalloc (\<lambda>w.
            then_xs (store_raw w (Raw_Custom \<lparr>pa_arena = arena, pa_stats_alloc = zero_stats\<rparr> b_alloc))
            (bind_xs (alloc (sv_bless ''Protobuf::Arena''
                (hv_store ''_is_tmpfs'' (newSViv 1) (hv_store ''_arena_ptr'' (newSViv w) newHV))))
              (\<lambda>a. ret (newRV a))))))))))"

definition PerlUpb_Arena_NewBlock :: "size_t \<Rightarrow> ('z arena_st_scheme, ptr \<times> ptr) xs" where
  "PerlUpb_Arena_NewBlock sz =
     bind_xs safemalloc (\<lambda>b_alloc.
     bind_xs (gets_xs guard_pages) (\<lambda>guard.
     bind_xs (if guard then ret NULL else safemalloc) (\<lambda>region.
     then_xs (store_block b_alloc
       \<lparr>bl_type = PERL_UPB_BLOCK_MALLOC, bl_fd = -1, bl_path = None, bl_region = region,
        bl_size = (if guard then 0 else sz), bl_offset = 0, bl_poisoned = False,
        bl_mmap_size = (if guard then 0 else sz)\<rparr>)
     (bind_xs upb_Arena_Init (\<lambda>arena.
      if arena = NULL then then_xs (safefree_block b_alloc) (ret (NULL, NULL))
      else ret (arena, b_alloc))))))"

definition PerlUpb_Arena_AttachTmpfs :: "string \<Rightarrow> size_t \<Rightarrow> ('z arena_st_scheme, sv) xs" where
  "PerlUpb_Arena_AttachTmpfs path sz =
     bind_xs sys_open (\<lambda>fd.
     if fd < 0 then croak ''Failed to open existing tmpfs file %s: %s'' [CStr path]
     else bind_xs (sys_mmap sz) (\<lambda>region.
     case region of
       None \<Rightarrow> then_xs (close_fd fd) (croak ''Failed to mmap tmpfs file (read-only) %s: %s'' [CStr path])
     | Some region \<Rightarrow>
         bind_xs safemalloc (\<lambda>b_alloc.
         then_xs (store_block b_alloc
           \<lparr>bl_type = PERL_UPB_BLOCK_MMAP, bl_fd = fd, bl_path = Some path, bl_region = region, bl_size = sz,
            bl_offset = sz, bl_poisoned = False, bl_mmap_size = sz\<rparr>)
         (bind_xs upb_Arena_Init (\<lambda>arena.
          if arena = NULL
          then then_xs (unmap region sz) (then_xs (close_fd fd) (then_xs (safefree_block b_alloc)
                 (croak ''Failed to create upb_Arena for attachment'' [])))
          else bind_xs safemalloc (\<lambda>w.
            then_xs (store_raw w (Raw_Custom \<lparr>pa_arena = arena, pa_stats_alloc = zero_stats\<rparr> b_alloc))
            (bind_xs (alloc (sv_bless ''Protobuf::Arena''
                (hv_store ''_read_only'' (newSViv 1)
                (hv_store ''_is_tmpfs'' (newSViv 1) (hv_store ''_arena_ptr'' (newSViv w) newHV)))))
              (\<lambda>a. ret (newRV a)))))))))"

text \<open>\<open>SvIV\<close> of the entry is only relevant for being non-zero; the sources store 1 there.\<close>

definition PerlUpb_Arena_IsTmpfs :: "sv option \<Rightarrow> ('z arena_st_scheme, bool) xs" where
  "PerlUpb_Arena_IsTmpfs v =
     (case Option.bind v sv_rok of
        None \<Rightarrow> ret False
      | Some _ \<Rightarrow> bind_xs (rv_hv v) (\<lambda>hv.
          ret (case hv_fetch hv ''_is_tmpfs'' of None \<Rightarrow> False | Some t \<Rightarrow> iv_ptr (Some t) \<notin> {None, Some 0})))"

text \<open>The block allocator behind the object's \<open>_arena_ptr\<close> entry, which the callers do not check for null.\<close>

definition arena_block :: "sv option \<Rightarrow> ('z arena_st_scheme, PerlUpb_BlockAlloc option) xs" where
  "arena_block v =
     bind_xs (rv_hv v) (\<lambda>hv.
     case hv_fetch hv ''_arena_ptr'' of
       None \<Rightarrow> ret None
     | Some p \<Rightarrow>
         bind_xs (load_raw (case iv_ptr (Some p) of None \<Rightarrow> NULL | Some w \<Rightarrow> w)) (\<lambda>r.
         bind_xs (as_custom r) (\<lambda>(_, alloc). bind_xs (load_block alloc) (\<lambda>b. ret (Some b)))))"

definition PerlUpb_Arena_GetPath :: "sv option \<Rightarrow> ('z arena_st_scheme, string option) xs" where
  "PerlUpb_Arena_GetPath v =
     bind_xs (PerlUpb_Arena_IsTmpfs v) (\<lambda>tmpfs.
     if \<not> tmpfs then ret None
     else bind_xs (arena_block v) (\<lambda>b. ret (Option.bind b bl_path)))"

definition PerlUpb_Arena_VerifySELinux :: "sv option \<Rightarrow> ('z arena_st_scheme, bool) xs" where
  "PerlUpb_Arena_VerifySELinux v =
     bind_xs (PerlUpb_Arena_GetPath v) (\<lambda>path.
     case path of
       None \<Rightarrow> ret True
     | Some path \<Rightarrow> bind_xs (gets_xs regular_files) (\<lambda>st.
         ret (case st path of None \<Rightarrow> False | Some reg \<Rightarrow> reg)))"

definition PerlUpb_Arena_GetOffset :: "sv option \<Rightarrow> ptr \<Rightarrow> ('z arena_st_scheme, size_t) xs" where
  "PerlUpb_Arena_GetOffset v p =
     bind_xs (PerlUpb_Arena_IsTmpfs v) (\<lambda>tmpfs.
     if \<not> tmpfs then ret 0
     else bind_xs (arena_block v) (\<lambda>b.
     case b of
       None \<Rightarrow> ret 0
     | Some b \<Rightarrow> ret (if p < bl_region b \<or> bl_region b + bl_size b \<le> p then 0 else p - bl_region b)))"

section \<open>Ownership\<close>

text \<open>
  The wrapper an object owns is the pointer in its magic; \<open>D\<close> holds the wrappers that
  were detached and not attached again.
\<close>

definition owner :: "'z arena_st_scheme \<Rightarrow> addr \<Rightarrow> ptr option" where
  "owner s a = (case heap s a of
     None \<Rightarrow> None
   | Some r \<Rightarrow> (case mg_findext r Arena_vtbl of
       None \<Rightarrow> None
     | Some m \<Rightarrow> if mg_ptr m = NULL then None else Some (mg_ptr m)))"

definition objects_ok :: "'z arena_st_scheme \<Rightarrow> bool" where
  "objects_ok s \<longleftrightarrow> (\<forall>a r. heap s a = Some r \<longrightarrow>
     (mg_findext r Arena_vtbl \<noteq> None \<or> ref_stash r = Some ''Protobuf::Arena'') \<longrightarrow>
     is_HV r \<and> hv_fetch r ''_is_tmpfs'' = None \<and> hv_fetch r ''_arena_ptr'' = map_option newSViv (owner s a))"

definition raws_ok :: "'z arena_st_scheme \<Rightarrow> bool" where
  "raws_ok s \<longleftrightarrow>
     (\<forall>p r. raw_arenas s p = Some r \<longrightarrow> p \<noteq> NULL \<and> (\<exists>w. r = Raw_Arena w \<and> pa_arena w \<noteq> NULL \<and> pa_arena w \<in> upb_arenas s)) \<and>
     (\<forall>p q w v. raw_arenas s p = Some (Raw_Arena w) \<longrightarrow> raw_arenas s q = Some (Raw_Arena v) \<longrightarrow>
        pa_arena w = pa_arena v \<longrightarrow> p = q) \<and>
     (\<forall>x \<in> upb_arenas s. \<exists>p w. raw_arenas s p = Some (Raw_Arena w) \<and> pa_arena w = x)"

definition owned_ok :: "ptr set \<Rightarrow> 'z arena_st_scheme \<Rightarrow> bool" where
  "owned_ok D s \<longleftrightarrow>
     (\<forall>a b p. owner s a = Some p \<longrightarrow> owner s b = Some p \<longrightarrow> a = b) \<and>
     (\<forall>a p. owner s a = Some p \<longrightarrow> p \<notin> D) \<and>
     (\<forall>p. raw_arenas s p \<noteq> None \<longleftrightarrow> p \<in> D \<or> (\<exists>a. owner s a = Some p))"

definition arena_inv :: "ptr set \<Rightarrow> 'z arena_st_scheme \<Rightarrow> bool" where
  "arena_inv D s \<longleftrightarrow> heap_ok s \<and> objects_ok s \<and> raws_ok s \<and> owned_ok D s \<and>
     (case registry s of None \<Rightarrow> True | Some reg \<Rightarrow> stash_arena reg = ''Protobuf::Arena'')"

text \<open>The C allocator hands out memory that is not in use.\<close>

definition fresh_ptrs :: "'z arena_st_scheme \<Rightarrow> bool" where
  "fresh_ptrs s \<longleftrightarrow> (\<forall>p \<in> {next_ptr s, next_ptr s + 256}. p \<noteq> NULL \<and> p \<notin> upb_arenas s \<and> raw_arenas s p = None)"

subsection \<open>Destroying a wrapper\<close>

lemma DestroyRaw_owned:
  assumes "raws_ok s" "raw_arenas s p = Some (Raw_Arena w)"
  shows "PerlUpb_Arena_DestroyRaw_Tmpfs p False s =
    (Inr (), s\<lparr>upb_arenas := upb_arenas s - {pa_arena w}, raw_arenas := (raw_arenas s)(p := None)\<rparr>)"
proof -
  have "p \<noteq> NULL" "pa_arena w \<noteq> NULL" "pa_arena w \<in> upb_arenas s"
    using assms by (force simp: raws_ok_def)+
  then show ?thesis
    using assms(2) by (simp add: PerlUpb_Arena_DestroyRaw_Tmpfs_def PerlUpb_Arena_DestroyRaw_def load_raw_def
        upb_Arena_Free_def safefree_raw_def bind_xs_def then_xs_def)
qed

lemma raws_ok_destroy:
  assumes "raws_ok s" "raw_arenas s p = Some (Raw_Arena w)"
    "raw_arenas t = (raw_arenas s)(p := None)" "upb_arenas t = upb_arenas s - {pa_arena w}"
  shows "raws_ok t"
proof -
  have inj: "q = p" if "raw_arenas s q = Some (Raw_Arena v)" "pa_arena v = pa_arena w" for q v
    using assms(1,2) that unfolding raws_ok_def by blast
  have live: "q \<noteq> NULL \<and> (\<exists>v. r = Raw_Arena v \<and> pa_arena v \<noteq> NULL \<and> pa_arena v \<in> upb_arenas s)"
    if "raw_arenas s q = Some r" for q r
    using assms(1) that unfolding raws_ok_def by blast
  show ?thesis
    unfolding raws_ok_def
  proof (intro conjI allI impI ballI)
    fix q r
    assume "raw_arenas t q = Some r"
    then have q: "q \<noteq> p" "raw_arenas s q = Some r" by (simp_all add: assms(3) split: if_splits)
    then show "q \<noteq> NULL" "\<exists>v. r = Raw_Arena v \<and> pa_arena v \<noteq> NULL \<and> pa_arena v \<in> upb_arenas t"
      using live [OF q(2)] inj assms(4) by auto
  next
    fix q q' v v'
    assume "raw_arenas t q = Some (Raw_Arena v)" "raw_arenas t q' = Some (Raw_Arena v')" "pa_arena v = pa_arena v'"
    moreover from this have "raw_arenas s q = Some (Raw_Arena v)" "raw_arenas s q' = Some (Raw_Arena v')"
      by (simp_all add: assms(3) split: if_splits)
    ultimately show "q = q'"
      using assms(1) unfolding raws_ok_def by blast
  next
    fix x
    assume "x \<in> upb_arenas t"
    then have x: "x \<in> upb_arenas s" "x \<noteq> pa_arena w" by (simp_all add: assms(4))
    then obtain q v where "raw_arenas s q = Some (Raw_Arena v)" "pa_arena v = x"
      using assms(1) unfolding raws_ok_def by blast
    then show "\<exists>q v. raw_arenas t q = Some (Raw_Arena v) \<and> pa_arena v = x"
      using x(2) assms(2,3) by (intro exI [of _ q] exI [of _ v]) auto
  qed
qed

text \<open>Clearing the owner of one object, with its wrapper gone or detached.\<close>

lemma owned_ok_release:
  assumes "owned_ok D s" "owner s a = Some p"
    "owner t = (owner s)(a := None)" "\<forall>q. raw_arenas t q \<noteq> None \<longleftrightarrow> raw_arenas s q \<noteq> None \<and> (q = p \<longrightarrow> p \<in> D')"
    "D' = D \<or> D' = insert p D"
  shows "owned_ok D' t"
  unfolding owned_ok_def
proof (intro conjI allI impI)
  fix b c q
  assume "owner t b = Some q" "owner t c = Some q"
  then show "b = c" using assms(1,3) by (auto simp: owned_ok_def split: if_splits)
next
  fix b q
  assume "owner t b = Some q"
  then show "q \<notin> D'" using assms by (auto simp: owned_ok_def split: if_splits)
next
  fix q
  have "p \<notin> D" using assms(1,2) by (auto simp: owned_ok_def)
  show "raw_arenas t q \<noteq> None \<longleftrightarrow> q \<in> D' \<or> (\<exists>b. owner t b = Some q)"
  proof (cases "q = p")
    case True
    have "raw_arenas s p \<noteq> None"
      using assms(1,2) unfolding owned_ok_def by blast
    moreover have "owner t b \<noteq> Some p" for b
      using assms(1,2,3) unfolding owned_ok_def by (cases "b = a") auto
    ultimately show ?thesis
      using assms(4) True by simp
  next
    case False
    have "owner t b = Some q \<longleftrightarrow> owner s b = Some q" for b
      using assms(2,3) False by (cases "b = a") simp_all
    moreover have "q \<in> D' \<longleftrightarrow> q \<in> D"
      using assms(5) False by auto
    moreover have "raw_arenas t q \<noteq> None \<longleftrightarrow> raw_arenas s q \<noteq> None"
      using assms(4) False by simp
    moreover have "raw_arenas s q \<noteq> None \<longleftrightarrow> q \<in> D \<or> (\<exists>b. owner s b = Some q)"
      using assms(1) unfolding owned_ok_def by blast
    ultimately show ?thesis by simp
  qed
qed

definition disowned :: "referent option \<Rightarrow> bool" where
  "disowned x = (case x of None \<Rightarrow> True | Some r \<Rightarrow>
     is_HV r \<and> hv_fetch r ''_is_tmpfs'' = None \<and> hv_fetch r ''_arena_ptr'' = None \<and>
     (\<forall>m. mg_findext r Arena_vtbl = Some m \<longrightarrow> mg_ptr m = NULL))"

lemma owner_disowned: "heap t = (heap s)(a := x) \<Longrightarrow> disowned x \<Longrightarrow> owner t = (owner s)(a := None)"
  by (auto simp: owner_def disowned_def fun_eq_iff split: option.splits)

lemma objects_ok_disowned:
  assumes "objects_ok s" "heap t = (heap s)(a := x)" "disowned x"
  shows "objects_ok t"
  using assms owner_disowned [OF assms(2,3)] by (auto simp: objects_ok_def disowned_def split: if_splits)

text \<open>The three ways in which an object stops owning its wrapper.\<close>

lemma arena_inv_unowned:
  assumes "arena_inv D s" "heap t = (heap s)(a := x)" "disowned x" "heap s a \<noteq> None" "owner s a = None"
    "next_addr t = next_addr s" "registry t = registry s" "raw_arenas t = raw_arenas s" "upb_arenas t = upb_arenas s"
  shows "arena_inv D t"
proof -
  have "owner t = owner s"
    using owner_disowned [OF assms(2,3)] assms(5) by (simp add: fun_upd_idem)
  then have "owned_ok D t" "raws_ok t"
    using assms(1,8,9) by (simp_all add: arena_inv_def owned_ok_def raws_ok_def)
  moreover have "objects_ok t"
    using objects_ok_disowned [OF _ assms(2,3)] assms(1) by (simp add: arena_inv_def)
  ultimately show ?thesis
    using assms(1,2,4,6,7) by (auto simp: arena_inv_def heap_ok_def)
qed

lemma arena_inv_owned:
  assumes "arena_inv D s" "heap t = (heap s)(a := x)" "disowned x" "owner s a = Some p"
    "next_addr t = next_addr s" "registry t = registry s"
    and gone: "D' = D \<and> (\<exists>w. raw_arenas s p = Some (Raw_Arena w) \<and> raw_arenas t = (raw_arenas s)(p := None) \<and>
        upb_arenas t = upb_arenas s - {pa_arena w}) \<or>
      D' = insert p D \<and> raw_arenas t = raw_arenas s \<and> upb_arenas t = upb_arenas s"
  shows "arena_inv D' t"
proof -
  have ow: "owned_ok D s" "raws_ok s" "objects_ok s"
    using assms(1) by (simp_all add: arena_inv_def)
  have "p \<notin> D" "heap s a \<noteq> None"
    using ow(1) assms(4) by (auto simp: owned_ok_def owner_def split: option.splits)
  have "owned_ok D' t"
  proof (rule owned_ok_release [OF ow(1) assms(4) owner_disowned [OF assms(2,3)]])
    show "D' = D \<or> D' = insert p D" using gone by blast
    show "\<forall>q. raw_arenas t q \<noteq> None \<longleftrightarrow> raw_arenas s q \<noteq> None \<and> (q = p \<longrightarrow> p \<in> D')"
    proof (intro allI)
      fix q
      consider "D' = D" "raw_arenas t = (raw_arenas s)(p := None)" | "D' = insert p D" "raw_arenas t = raw_arenas s"
        using gone by blast
      then show "raw_arenas t q \<noteq> None \<longleftrightarrow> raw_arenas s q \<noteq> None \<and> (q = p \<longrightarrow> p \<in> D')"
        by cases (simp_all only: \<open>p \<notin> D\<close> fun_upd_apply insertI1 if_split, cases "q = p", simp_all add: \<open>p \<notin> D\<close>)
    qed
  qed
  moreover have "raws_ok t"
    using gone
  proof
    assume "D' = D \<and> (\<exists>w. raw_arenas s p = Some (Raw_Arena w) \<and> raw_arenas t = (raw_arenas s)(p := None) \<and>
      upb_arenas t = upb_arenas s - {pa_arena w})"
    then show ?thesis using raws_ok_destroy [OF ow(2)] by blast
  qed (use ow(2) in \<open>simp add: raws_ok_def\<close>)
  ultimately show ?thesis
    using assms(1,2,5,6) objects_ok_disowned [OF ow(3) assms(2,3)] \<open>heap s a \<noteq> None\<close>
    by (auto simp: arena_inv_def heap_ok_def)
qed

lemma owner_SomeD:
  assumes "arena_inv D s" "owner s a = Some p"
  obtains r m w where "heap s a = Some r" "mg_findext r Arena_vtbl = Some m" "mg_ptr m = p" "p \<noteq> NULL" "is_HV r"
    "hv_fetch r ''_is_tmpfs'' = None" "hv_fetch r ''_arena_ptr'' = Some (newSViv p)"
    "raw_arenas s p = Some (Raw_Arena w)"
proof -
  obtain r m where r: "heap s a = Some r" "mg_findext r Arena_vtbl = Some m" "mg_ptr m = p" "p \<noteq> NULL"
    using assms(2) by (auto simp: owner_def split: option.splits if_splits)
  moreover have "is_HV r" "hv_fetch r ''_is_tmpfs'' = None" "hv_fetch r ''_arena_ptr'' = Some (newSViv p)"
    using assms r(1,2) by (auto simp: arena_inv_def objects_ok_def)
  moreover obtain w where "raw_arenas s p = Some (Raw_Arena w)"
  proof -
    have "raw_arenas s p \<noteq> None"
      using assms unfolding arena_inv_def owned_ok_def by blast
    then obtain x where x: "raw_arenas s p = Some x" by blast
    moreover have "raws_ok s" using assms(1) by (simp add: arena_inv_def)
    ultimately show thesis
      using that unfolding raws_ok_def by blast
  qed
  ultimately show thesis by (rule that)
qed

lemma iv_ptr_newSViv [simp]: "iv_ptr (Some (newSViv p)) = Some p" "iv_ptr None = None"
  by (simp_all add: iv_ptr_def)

lemma derefE:
  assumes "deref s v = Some r"
  obtains u a where "v = Some u" "sv_rok u = Some a" "heap s a = Some r"
  using assms by (auto simp: deref_def bind_eq_Some_conv split: option.splits)

lemma rv_update_Some: "sv_rok u = Some a \<Longrightarrow> rv_update (Some u) f s = write_ref a f s"
  by (simp add: rv_update_def)

lemma write_ref_arena [simp]:
  "raw_arenas (write_ref a f s) = raw_arenas s" "upb_arenas (write_ref a f s) = upb_arenas s"
  "registry (write_ref a f s) = registry s" "hv_bucket_type (write_ref a f s) = hv_bucket_type s"
  "block_allocs (write_ref a f s) = block_allocs s"
  by (simp_all add: write_ref_def)

lemma Destroy_inv:
  assumes inv: "arena_inv D s"
  obtains t where "PerlUpb_Arena_Destroy v s = (Inr (), t)" "arena_inv D t"
proof (cases "deref s v")
  case None
  then show thesis using that inv by (simp add: PerlUpb_Arena_Destroy_def)
next
  case (Some r)
  then obtain u a where v: "v = Some u" "sv_rok u = Some a" "heap s a = Some r" by (rule derefE)
  show thesis
  proof (cases "mg_findext r Arena_vtbl")
    case None
    then show thesis using that inv Some by (simp add: PerlUpb_Arena_Destroy_def)
  next
    case mg: (Some m)
    let ?r1 = "mg_update Arena_vtbl (\<lambda>m. m\<lparr>mg_ptr := NULL\<rparr>) r"
    let ?s1 = "write_ref a (mg_update Arena_vtbl (\<lambda>m. m\<lparr>mg_ptr := NULL\<rparr>)) s"
    have obj: "is_HV r" "hv_fetch r ''_is_tmpfs'' = None" "hv_fetch r ''_arena_ptr'' = map_option newSViv (owner s a)"
      using inv v(3) mg by (auto simp: arena_inv_def objects_ok_def)
    have hv: "bind_xs (rv_hv (Some u)) k ?s1 = k ?r1 ?s1" for k :: "referent \<Rightarrow> ('a arena_st_scheme, unit) xs"
      using v obj(1) by (simp add: bind_xs_def rv_hv_def deref_def)
    show thesis
    proof (cases "owner s a")
      case None
      have "PerlUpb_Arena_Destroy v s = (Inr (), ?s1)"
        using Some mg v obj None
        by (simp add: PerlUpb_Arena_Destroy_def rv_update_Some hv)
      moreover have "arena_inv D ?s1"
        using None v(3) obj
        by (intro arena_inv_unowned [OF inv, where x = "Some ?r1"]) (auto simp: disowned_def)
      ultimately show thesis by (rule that)
    next
      case (Some p)
      then obtain w where w: "raw_arenas s p = Some (Raw_Arena w)"
        using owner_SomeD [OF inv] by metis
      have "raws_ok ?s1"
        using inv by (simp add: arena_inv_def raws_ok_def)
      then have d: "then_xs (PerlUpb_Arena_DestroyRaw_Tmpfs p False) k ?s1 =
          k (?s1\<lparr>upb_arenas := upb_arenas ?s1 - {pa_arena w}, raw_arenas := (raw_arenas ?s1)(p := None)\<rparr>)"
        for k :: "('a arena_st_scheme, unit) xs"
        by (rule then_xs_Inr [OF DestroyRaw_owned]) (simp add: w)
      let ?t = "write_ref a (hv_delete ''_arena_ptr'') (?s1\<lparr>upb_arenas := upb_arenas ?s1 - {pa_arena w},
        raw_arenas := (raw_arenas ?s1)(p := None)\<rparr>)"
      have "PerlUpb_Arena_Destroy v s = (Inr (), ?t)"
        using \<open>deref s v = Some r\<close> mg v obj Some w
        by (simp add: PerlUpb_Arena_Destroy_def rv_update_Some hv d)
      moreover have "arena_inv D ?t"
        using Some v(3) obj w
        by (intro arena_inv_owned [OF inv, where x = "Some (hv_delete ''_arena_ptr'' ?r1)" and a = a and p = p])
           (auto simp: disowned_def)
      ultimately show thesis by (rule that)
    qed
  qed
qed

text \<open>The death of an arena object: the magic callback, then the memory is gone.\<close>

definition arena_dies :: "addr \<Rightarrow> ('z arena_st_scheme, unit) xs" where
  "arena_dies a = then_xs (arena_cleanup a) (modify_xs (\<lambda>s. s\<lparr>heap := (heap s)(a := None)\<rparr>))"

lemma arena_dies_inv:
  assumes inv: "arena_inv D s" and "heap s a \<noteq> None" "\<not> PL_dirty s" "hv_bucket_type s \<noteq> 12"
  obtains t where "arena_dies a s = (Inr (), t)" "arena_inv D t"
proof -
  obtain r where r: "heap s a = Some r" using assms(2) by blast
  show thesis
  proof (cases "owner s a")
    case None
    let ?t = "s\<lparr>heap := (heap s)(a := None)\<rparr>"
    have "arena_dies a s = (Inr (), ?t)"
      using None r assms(3)
      by (auto simp: arena_dies_def arena_cleanup_def owner_def then_xs_def bind_xs_def split: option.splits if_splits)
    moreover have "arena_inv D ?t"
      using None r by (intro arena_inv_unowned [OF inv, where x = None and a = a]) (auto simp: disowned_def)
    ultimately show thesis by (rule that)
  next
    case (Some p)
    then obtain m w where w: "mg_findext r Arena_vtbl = Some m" "mg_ptr m = p" "p \<noteq> NULL"
      "raw_arenas s p = Some (Raw_Arena w)"
      using owner_SomeD [OF inv] r by (metis option.inject)
    let ?s1 = "write_ref a (mg_update Arena_vtbl (\<lambda>m. m\<lparr>mg_ptr := NULL\<rparr>)) s"
    let ?s2 = "?s1\<lparr>upb_arenas := upb_arenas ?s1 - {pa_arena w}, raw_arenas := (raw_arenas ?s1)(p := None)\<rparr>"
    let ?t = "?s2\<lparr>heap := (heap ?s2)(a := None)\<rparr>"
    have "raws_ok ?s1"
      using inv by (simp add: arena_inv_def raws_ok_def)
    then have d: "PerlUpb_Arena_DestroyRaw_Tmpfs p False ?s1 = (Inr (), ?s2)"
      by (rule DestroyRaw_owned) (simp add: w)
    have "arena_cleanup a s = (Inr (), ?s2)"
      using r w assms(3,4) d by (simp add: arena_cleanup_def)
    then have "arena_dies a s = (Inr (), ?t)"
      by (simp add: arena_dies_def then_xs_def bind_xs_def)
    moreover have "arena_inv D ?t"
      using Some w by (intro arena_inv_owned [OF inv, where x = None and a = a and p = p]) (auto simp: disowned_def)
    ultimately show thesis by (rule that)
  qed
qed

lemma Detach_inv:
  assumes inv: "arena_inv D s"
  obtains r t where "PerlUpb_Arena_Detach v s = (r, t)" "\<forall>e. r \<noteq> Inl (Fault e)"
    "arena_inv (case r of Inl _ \<Rightarrow> D | Inr p \<Rightarrow> if p = NULL then D else insert p D) t"
proof (cases "sv_isa s v ''Protobuf::Arena''")
  case False
  then show thesis using that inv by (simp add: PerlUpb_Arena_Detach_def)
next
  case True
  then obtain r where r: "deref s v = Some r" "ref_stash r = Some ''Protobuf::Arena''"
    by (auto simp: sv_isa_def split: option.splits)
  then obtain u a where v: "v = Some u" "sv_rok u = Some a" "heap s a = Some r" by (metis derefE)
  have obj: "is_HV r" "hv_fetch r ''_is_tmpfs'' = None" "hv_fetch r ''_arena_ptr'' = map_option newSViv (owner s a)"
    using inv v(3) r(2) by (auto simp: arena_inv_def objects_ok_def)
  have hv: "bind_xs (rv_hv v) k s = k r s" for k :: "referent \<Rightarrow> ('a arena_st_scheme, ptr) xs"
    using r(1) obj(1) by (simp add: bind_xs_def rv_hv_def)
  show thesis
  proof (cases "owner s a")
    case None
    then have "PerlUpb_Arena_Detach v s = (Inr NULL, s)"
      using True obj by (simp add: PerlUpb_Arena_Detach_def hv)
    then show thesis using that inv by simp
  next
    case (Some p)
    then have p: "p \<noteq> NULL" by (auto simp: owner_def split: option.splits if_splits)
    let ?t = "write_ref a (hv_delete ''_arena_ptr'') (write_ref a (mg_update Arena_vtbl (\<lambda>m. m\<lparr>mg_ptr := NULL\<rparr>)) s)"
    have "PerlUpb_Arena_Detach v s = (Inr p, ?t)"
      using True obj Some v(1,2) by (simp add: PerlUpb_Arena_Detach_def hv [unfolded v(1)] rv_update_Some)
    moreover have "arena_inv (insert p D) ?t"
      using Some v(3) obj
      by (intro arena_inv_owned [OF inv, where a = a and p = p and
            x = "Some (hv_delete ''_arena_ptr'' (mg_update Arena_vtbl (\<lambda>m. m\<lparr>mg_ptr := NULL\<rparr>) r))"])
         (auto simp: disowned_def)
    ultimately show thesis using that p by simp
  qed
qed

lemma arena_inv_cong:
  assumes "arena_inv D s" "heap t = heap s" "next_addr t = next_addr s" "registry t = registry s"
    "raw_arenas t = raw_arenas s" "upb_arenas t = upb_arenas s"
  shows "arena_inv D t"
proof -
  have "owner t = owner s" using assms(2) by (simp add: owner_def fun_eq_iff)
  then show ?thesis
    using assms by (simp add: arena_inv_def heap_ok_def objects_ok_def raws_ok_def owned_ok_def)
qed

lemma raws_ok_add:
  assumes "raws_ok s" "p \<noteq> NULL" "pa_arena w \<noteq> NULL" "pa_arena w \<notin> upb_arenas s" "raw_arenas s p = None"
    "raw_arenas t = (raw_arenas s)(p \<mapsto> Raw_Arena w)" "upb_arenas t = insert (pa_arena w) (upb_arenas s)"
  shows "raws_ok t"
proof -
  have live: "q \<noteq> NULL \<and> (\<exists>v. r = Raw_Arena v \<and> pa_arena v \<noteq> NULL \<and> pa_arena v \<in> upb_arenas s)"
    if "raw_arenas s q = Some r" for q r
    using assms(1) that unfolding raws_ok_def by blast
  have new: "pa_arena v \<noteq> pa_arena w" if "raw_arenas s q = Some (Raw_Arena v)" for q v
    using live [OF that] assms(4) by auto
  show ?thesis
    unfolding raws_ok_def
  proof (intro conjI allI impI ballI)
    fix q r
    assume "raw_arenas t q = Some r"
    then consider "q = p" "r = Raw_Arena w" | "raw_arenas s q = Some r"
      by (cases "q = p") (simp_all add: assms(6))
    then show "q \<noteq> NULL" "\<exists>v. r = Raw_Arena v \<and> pa_arena v \<noteq> NULL \<and> pa_arena v \<in> upb_arenas t"
      using live [of q r] assms(2,3,7) by (cases, simp, blast)+
  next
    fix q q' v v'
    assume a: "raw_arenas t q = Some (Raw_Arena v)" "raw_arenas t q' = Some (Raw_Arena v')" "pa_arena v = pa_arena v'"
    show "q = q'"
    proof (cases "q = p \<or> q' = p")
      case True
      then show ?thesis using a new by (auto simp: assms(6) split: if_splits)
    next
      case False
      then have "raw_arenas s q = Some (Raw_Arena v)" "raw_arenas s q' = Some (Raw_Arena v')"
        using a by (simp_all add: assms(6))
      with a(3) show ?thesis using assms(1) unfolding raws_ok_def by blast
    qed
  next
    fix x
    assume "x \<in> upb_arenas t"
    then consider "x = pa_arena w" | "x \<in> upb_arenas s" using assms(7) by auto
    then show "\<exists>q v. raw_arenas t q = Some (Raw_Arena v) \<and> pa_arena v = x"
    proof cases
      case 1
      then show ?thesis by (intro exI [of _ p] exI [of _ w]) (simp add: assms(6))
    next
      case 2
      then obtain q v where "raw_arenas s q = Some (Raw_Arena v)" "pa_arena v = x"
        using assms(1) unfolding raws_ok_def by blast
      then show ?thesis using assms(5,6) by (intro exI [of _ q] exI [of _ v]) auto
    qed
  qed
qed

lemma CreateRaw_inv:
  assumes inv: "arena_inv D s" and fresh: "fresh_ptrs s"
  obtains (failed) t where "PerlUpb_Arena_CreateRaw s = (Inl (Croak ''Failed to acquire upb_Arena'' []), t)" "arena_inv D t"
  | (created) w t where "PerlUpb_Arena_CreateRaw s = (Inr w, t)" "w \<noteq> NULL" "w \<notin> D" "arena_inv (insert w D) t"
proof -
  let ?w = "next_ptr s" and ?a = "next_ptr s + 256"
  have f: "?w \<noteq> NULL" "?a \<noteq> NULL" "?w \<notin> upb_arenas s" "?a \<notin> upb_arenas s" "raw_arenas s ?w = None"
    using fresh by (auto simp: fresh_ptrs_def)
  have wD: "?w \<notin> D"
    using inv f(5) unfolding arena_inv_def owned_ok_def by blast
  have no_owner: "owner s b \<noteq> Some ?w" for b
    using inv f(5) unfolding arena_inv_def owned_ok_def by blast
  have old: "raws_ok s" using inv by (simp add: arena_inv_def)
  show thesis
  proof (cases "\<exists>os. arena_init_ok s = False # os")
    case True
    then obtain os where os: "arena_init_ok s = False # os" ..
    let ?t = "s\<lparr>next_ptr := ?w + 256, arena_init_ok := os\<rparr>"
    have "PerlUpb_Arena_CreateRaw s = (Inl (Croak ''Failed to acquire upb_Arena'' []), ?t)"
      using os by (simp add: PerlUpb_Arena_CreateRaw_def safemalloc_def PerlUpb_Arena_AcquireWithStats_def
          upb_Arena_Init_def bind_xs_def)
    moreover have "arena_inv D ?t" by (rule arena_inv_cong [OF inv]) simp_all
    ultimately show thesis by (rule failed)
  next
    case False
    let ?t = "s\<lparr>next_ptr := ?w + 256 + 256, arena_init_ok := tl (arena_init_ok s),
      upb_arenas := insert ?a (upb_arenas s),
      raw_arenas := (raw_arenas s)(?w \<mapsto> Raw_Arena \<lparr>pa_arena = ?a, pa_stats_alloc = zero_stats\<rparr>)\<rparr>"
    have "PerlUpb_Arena_CreateRaw s = (Inr ?w, ?t)"
      using False f(2) by (auto simp: PerlUpb_Arena_CreateRaw_def safemalloc_def PerlUpb_Arena_AcquireWithStats_def
          upb_Arena_Init_def bind_xs_def store_raw_def split: list.split bool.split)
    moreover have "arena_inv (insert ?w D) ?t"
    proof -
      have "owner ?t = owner s" by (simp add: owner_def fun_eq_iff)
      then have "owned_ok (insert ?w D) ?t"
        using inv wD no_owner unfolding arena_inv_def owned_ok_def by auto
      moreover have "raws_ok ?t" using f
        by (intro raws_ok_add [OF old, where p = ?w and w = "\<lparr>pa_arena = ?a, pa_stats_alloc = zero_stats\<rparr>"]) simp_all
      ultimately show ?thesis
        using inv \<open>owner ?t = owner s\<close> by (simp add: arena_inv_def heap_ok_def objects_ok_def)
    qed
    ultimately show thesis using created f(1) wD by blast
  qed
qed

subsection \<open>Gaining a wrapper\<close>

definition arena_object :: "ptr \<Rightarrow> referent" where
  "arena_object raw = sv_magicext Arena_vtbl raw (sv_bless ''Protobuf::Arena'' (hv_store ''_arena_ptr'' (newSViv raw) newHV))"

lemma arena_object_facts [simp]:
  "is_HV (arena_object p)" "hv_fetch (arena_object p) ''_is_tmpfs'' = None"
  "hv_fetch (arena_object p) ''_arena_ptr'' = Some (newSViv p)"
  "mg_findext (arena_object p) Arena_vtbl = Some \<lparr>mg_vtbl = Arena_vtbl, mg_ptr = p, mg_private = 0\<rparr>"
  by (simp_all add: arena_object_def)

lemma Registry_Get_arena:
  assumes "case registry s of None \<Rightarrow> True | Some reg \<Rightarrow> stash_arena reg = ''Protobuf::Arena''"
  shows "(case fst (PerlUpb_Registry_Get s) of Some reg \<Rightarrow> stash_arena reg | None \<Rightarrow> ''Protobuf::Arena'') = ''Protobuf::Arena''"
    and "case registry (snd (PerlUpb_Registry_Get s)) of None \<Rightarrow> True | Some reg \<Rightarrow> stash_arena reg = ''Protobuf::Arena''"
  using assms by (auto simp: PerlUpb_Registry_Get_def PerlUpb_Registry_Init_def Let_def split: option.splits)

lemma Registry_Get_fields [simp]:
  "heap (snd (PerlUpb_Registry_Get s)) = heap s" "next_addr (snd (PerlUpb_Registry_Get s)) = next_addr s"
  "PL_dirty (snd (PerlUpb_Registry_Get s)) = PL_dirty s"
  "isa (snd (PerlUpb_Registry_Get s)) = isa s" "obj_cache_hv (snd (PerlUpb_Registry_Get s)) = obj_cache_hv s"
  "cache_st.more (snd (PerlUpb_Registry_Get s)) = cache_st.more s"
  by (simp_all add: PerlUpb_Registry_Get_def PerlUpb_Registry_Init_def Let_def)

lemma Registry_Get_arena_fields [simp]:
  "raw_arenas (snd (PerlUpb_Registry_Get s)) = raw_arenas s" "upb_arenas (snd (PerlUpb_Registry_Get s)) = upb_arenas s"
  by (simp_all add: PerlUpb_Registry_Get_def PerlUpb_Registry_Init_def Let_def)

lemma wrap_arena_internal_inv:
  assumes inv: "arena_inv D s" and p: "p \<in> D" "p \<noteq> NULL"
  obtains t where "wrap_arena_internal p False s = (Inr (newRV (next_addr s)), t)" "arena_inv (D - {p}) t"
    "heap t = (heap s)(next_addr s \<mapsto> arena_object p)"
proof -
  let ?g = "PerlUpb_Registry_Get s" and ?a = "next_addr s"
  let ?t = "(snd ?g)\<lparr>heap := (heap s)(?a \<mapsto> arena_object p), next_addr := Suc ?a\<rparr>"
  have reg: "case registry s of None \<Rightarrow> True | Some reg \<Rightarrow> stash_arena reg = ''Protobuf::Arena''"
    using inv by (simp add: arena_inv_def)
  have w: "wrap_arena_internal p False s = (Inr (newRV ?a), ?t)"
    using Registry_Get_arena(1) [OF reg]
    by (simp add: wrap_arena_internal_def alloc_def bind_xs_def arena_object_def)
  have new: "heap s ?a = None"
    using inv by (auto simp: arena_inv_def heap_ok_def)
  have ow: "owner ?t = (owner s)(?a := Some p)"
    using p(2) by (simp add: owner_def fun_eq_iff)
  have none: "owner s ?a = None" using new by (simp add: owner_def)
  have "objects_ok ?t"
    using inv by (auto simp: arena_inv_def objects_ok_def ow)
  moreover have "raws_ok ?t"
    using inv by (simp add: arena_inv_def raws_ok_def)
  moreover have "owned_ok (D - {p}) ?t"
    unfolding owned_ok_def
  proof (intro conjI allI impI)
    have o: "owned_ok D s" using inv by (simp add: arena_inv_def)
    fix b c q
    { assume "owner ?t b = Some q" "owner ?t c = Some q"
      then show "b = c" using o p(1) unfolding owned_ok_def ow by (cases "b = ?a"; cases "c = ?a") auto }
    { assume "owner ?t b = Some q"
      then show "q \<notin> D - {p}" using o unfolding owned_ok_def ow by (cases "b = ?a") auto }
    have "(\<exists>b. owner ?t b = Some q) \<longleftrightarrow> q = p \<or> (\<exists>b. owner s b = Some q)"
      unfolding ow using none by (metis fun_upd_apply option.distinct(1) option.inject)
    then show "raw_arenas ?t q \<noteq> None \<longleftrightarrow> q \<in> D - {p} \<or> (\<exists>b. owner ?t b = Some q)"
      using o p(1) unfolding owned_ok_def by auto
  qed
  moreover have "heap_ok ?t"
    using inv by (auto simp: arena_inv_def heap_ok_def less_Suc_eq)
  ultimately have "arena_inv (D - {p}) ?t"
    using Registry_Get_arena(2) [OF reg] by (simp add: arena_inv_def)
  with w show thesis by (intro that [of ?t]) simp_all
qed

section \<open>Runs\<close>

text \<open>
  Any sequence of \<open>New\<close>, \<open>Destroy\<close> (\<open>Free\<close>), \<open>Detach\<close>, deaths of objects, and \<open>Attach\<close>
  of a wrapper that was detached; the set holds the detached wrappers. The run stays
  outside global destruction and \<open>arena_cleanup\<close> does not take a bucket array for a hash.
\<close>

inductive arena_run :: "'z arena_st_scheme \<Rightarrow> ptr set \<Rightarrow> 'z arena_st_scheme \<Rightarrow> bool" for s0 where
  ar_start: "arena_run s0 {} s0"
| ar_new: "arena_run s0 D s \<Longrightarrow> fresh_ptrs s \<Longrightarrow> PerlUpb_Arena_New s = (r, t) \<Longrightarrow> arena_run s0 D t"
| ar_destroy: "arena_run s0 D s \<Longrightarrow> PerlUpb_Arena_Destroy v s = (r, t) \<Longrightarrow> arena_run s0 D t"
| ar_dies: "arena_run s0 D s \<Longrightarrow> heap s a \<noteq> None \<Longrightarrow> \<not> PL_dirty s \<Longrightarrow> hv_bucket_type s \<noteq> 12 \<Longrightarrow>
    arena_dies a s = (r, t) \<Longrightarrow> arena_run s0 D t"
| ar_detach: "arena_run s0 D s \<Longrightarrow> PerlUpb_Arena_Detach v s = (r, t) \<Longrightarrow>
    arena_run s0 (case r of Inl _ \<Rightarrow> D | Inr p \<Rightarrow> if p = NULL then D else insert p D) t"
| ar_attach: "arena_run s0 D s \<Longrightarrow> p \<in> D \<Longrightarrow> PerlUpb_Arena_Attach p s = (r, t) \<Longrightarrow> arena_run s0 (D - {p}) t"

definition no_arenas :: "'z arena_st_scheme \<Rightarrow> bool" where
  "no_arenas s \<longleftrightarrow> heap s = Map.empty \<and> raw_arenas s = Map.empty \<and> upb_arenas s = {} \<and> registry s = None"

lemma no_arenas_inv: "no_arenas s \<Longrightarrow> arena_inv {} s"
  by (auto simp: no_arenas_def arena_inv_def heap_ok_def objects_ok_def raws_ok_def owned_ok_def owner_def)

lemma New_inv:
  assumes "arena_inv D s" "fresh_ptrs s"
  obtains r t where "PerlUpb_Arena_New s = (r, t)" "\<forall>e. r \<noteq> Inl (Fault e)" "arena_inv D t"
  using assms
proof (cases rule: CreateRaw_inv)
  case (failed t)
  then show thesis using that by (simp add: PerlUpb_Arena_New_def bind_xs_Inl)
next
  case (created w t)
  obtain u where u: "wrap_arena_internal w False t = (Inr (newRV (next_addr t)), u)" "arena_inv (insert w D - {w}) u"
    using wrap_arena_internal_inv [OF created(4) insertI1 created(2)] by blast
  have "PerlUpb_Arena_New s = (Inr (newRV (next_addr t)), u)"
    using created(1) u(1) by (simp add: PerlUpb_Arena_New_def bind_xs_def)
  moreover have "insert w D - {w} = D" using created(3) by simp
  ultimately show thesis using that u(2) by simp
qed

lemma inv_detached:
  assumes "arena_inv D s" "p \<in> D"
  shows "p \<noteq> NULL"
proof -
  have "raw_arenas s p \<noteq> None"
    using assms unfolding arena_inv_def owned_ok_def by blast
  then show ?thesis
    using assms(1) unfolding arena_inv_def raws_ok_def by blast
qed

lemma arena_run_inv:
  assumes "arena_run s0 D s" "no_arenas s0"
  shows "arena_inv D s"
  using assms
proof (induction rule: arena_run.induct)
  case ar_start
  then show ?case by (rule no_arenas_inv)
next
  case (ar_new D s r t)
  then have "arena_inv D s" by simp
  then show ?case using New_inv [OF _ ar_new.hyps(2)] ar_new.hyps(3) by (metis Pair_inject)
next
  case (ar_destroy D s v r t)
  then have "arena_inv D s" by simp
  then show ?case using Destroy_inv ar_destroy.hyps(2) by (metis Pair_inject)
next
  case (ar_dies D s a r t)
  then have "arena_inv D s" by simp
  then show ?case using arena_dies_inv [OF _ ar_dies.hyps(2-4)] ar_dies.hyps(5) by (metis Pair_inject)
next
  case (ar_detach D s v r t)
  then have "arena_inv D s" by simp
  then obtain r' t' where "PerlUpb_Arena_Detach v s = (r', t')"
    "arena_inv (case r' of Inl _ \<Rightarrow> D | Inr p \<Rightarrow> if p = NULL then D else insert p D) t'"
    by (rule Detach_inv)
  then show ?case using ar_detach.hyps(2) by simp
next
  case (ar_attach D s p r t)
  then have inv: "arena_inv D s" by simp
  have "p \<noteq> NULL" by (rule inv_detached [OF inv ar_attach.hyps(2)])
  then show ?case
    using wrap_arena_internal_inv [OF inv ar_attach.hyps(2)] ar_attach.hyps(3)
    by (auto simp: PerlUpb_Arena_Attach_def)
qed

section \<open>Properties\<close>

definition arena_boot :: arena_st where
  "arena_boot = cache_st.extend perl_boot
     \<lparr>raw_arenas = Map.empty, upb_arenas = {}, block_allocs = Map.empty, open_fds = [], mapped = [],
      next_ptr = 0x1000, arena_init_ok = [], open_results = [5], ftruncate_results = [True],
      mmap_results = [Some 0x700000], regular_files = Map.empty, guard_pages = False, realloc_results = [],
      chaos_draws = [], hv_bucket_type = 0\<rparr>"

lemma arena_boot_facts:
  "no_arenas arena_boot" "fresh_ptrs arena_boot" "arena_init_ok arena_boot = []" "next_addr arena_boot = 0"
  "next_ptr arena_boot = 0x1000" "\<not> PL_dirty arena_boot" "registry_iok arena_boot = False"
  by (auto simp: arena_boot_def perl_boot_def cache_st.extend_def no_arenas_def fresh_ptrs_def)


lemma New_spec:
  assumes "arena_inv D s" "fresh_ptrs s" "\<nexists>os. arena_init_ok s = False # os"
  obtains t w where "PerlUpb_Arena_New s = (Inr (newRV (next_addr s)), t)" "arena_inv D t"
    "heap t = (heap s)(next_addr s \<mapsto> arena_object w)" "w \<noteq> NULL"
proof -
  let ?w = "next_ptr s" and ?a = "next_ptr s + 256"
  have f: "?a \<noteq> NULL" "?w \<noteq> NULL"
    using assms(2) by (auto simp: fresh_ptrs_def)
  let ?t = "s\<lparr>next_ptr := ?w + 256 + 256, arena_init_ok := tl (arena_init_ok s),
    upb_arenas := insert ?a (upb_arenas s),
    raw_arenas := (raw_arenas s)(?w \<mapsto> Raw_Arena \<lparr>pa_arena = ?a, pa_stats_alloc = zero_stats\<rparr>)\<rparr>"
  have c: "PerlUpb_Arena_CreateRaw s = (Inr ?w, ?t)"
    using assms(3) f(1) by (auto simp: PerlUpb_Arena_CreateRaw_def safemalloc_def PerlUpb_Arena_AcquireWithStats_def
        upb_Arena_Init_def bind_xs_def store_raw_def split: list.split bool.split)
  have "arena_inv (insert ?w D) ?t \<and> ?w \<notin> D"
    using assms(1,2)
  proof (cases rule: CreateRaw_inv)
    case (failed t)
    then show ?thesis using c by simp
  next
    case (created w t)
    from created(1) c have "(Inr w, t) = (Inr ?w :: fault + ptr, ?t)" by (rule trans [OF sym])
    then have "w = ?w" "t = ?t" by (simp_all only: prod.inject sum.inject)
    with created(3,4) show ?thesis by (simp only:) simp
  qed
  then have inv: "arena_inv (insert ?w D) ?t" "?w \<notin> D" by simp_all
  obtain u where u: "wrap_arena_internal ?w False ?t = (Inr (newRV (next_addr ?t)), u)" "arena_inv (insert ?w D - {?w}) u"
    "heap u = (heap ?t)(next_addr ?t \<mapsto> arena_object ?w)"
    using wrap_arena_internal_inv [OF inv(1) insertI1 f(2)] by blast
  have "PerlUpb_Arena_New s = (Inr (newRV (next_addr s)), u)"
    using c u(1) by (simp add: PerlUpb_Arena_New_def bind_xs_def)
  moreover have "insert ?w D - {?w} = D" using inv(2) by simp
  ultimately show thesis using that [of u ?w] u(2,3) f(2) by simp
qed

lemma arena_boot_new:
  obtains t w where "PerlUpb_Arena_New arena_boot = (Inr (newRV 0), t)" "arena_run arena_boot {} t"
    "\<not> PL_dirty t" "hv_bucket_type t \<noteq> 12" "heap t 0 = Some (arena_object w)"
proof -
  obtain t w where t: "PerlUpb_Arena_New arena_boot = (Inr (newRV (next_addr arena_boot)), t)"
    "heap t = (heap arena_boot)(next_addr arena_boot \<mapsto> arena_object w)"
  proof (rule New_spec [OF no_arenas_inv [OF arena_boot_facts(1)] arena_boot_facts(2)])
    show "\<nexists>os. arena_init_ok arena_boot = False # os" by (simp add: arena_boot_facts(3))
  qed
  have "PL_dirty (snd (PerlUpb_Arena_New arena_boot)) = False \<and> hv_bucket_type (snd (PerlUpb_Arena_New arena_boot)) = 0"
    by (simp add: arena_boot_def perl_boot_def cache_st.extend_def PerlUpb_Arena_New_def PerlUpb_Arena_CreateRaw_def
        safemalloc_def PerlUpb_Arena_AcquireWithStats_def upb_Arena_Init_def bind_xs_def then_xs_def store_raw_def
        wrap_arena_internal_def alloc_def Let_def PerlUpb_Registry_Get_def PerlUpb_Registry_Init_def)
  with t show thesis
    using that [of t w] ar_new [OF ar_start arena_boot_facts(2)] by (simp add: arena_boot_facts)
qed




text \<open>
  A tmpfs arena is never released: the object that \<open>PerlUpb_Arena_NewTmpfs\<close> or
  \<open>PerlUpb_Arena_AttachTmpfs\<close> returns carries no magic, so both \<open>PerlUpb_Arena_Destroy\<close>
  and the death of the object return without unmapping the region, closing the file
  descriptor or freeing the upb arena.
\<close>

theorem tmpfs_arena_leaks:
  assumes "PerlUpb_Arena_NewTmpfs path sz s = (Inr v, t) \<or> PerlUpb_Arena_AttachTmpfs path sz s = (Inr v, t)"
  shows "\<exists>a. v = newRV a \<and> PerlUpb_Arena_Destroy (Some v) t = (Inr (), t) \<and>
    arena_dies a t = (Inr (), t\<lparr>heap := (heap t)(a := None)\<rparr>) \<and>
    (\<exists>fd region w x b. fd \<in> set (open_fds t) \<and> (region, sz) \<in> set (mapped t) \<and>
       raw_arenas t w = Some (Raw_Custom x b) \<and> pa_arena x \<in> upb_arenas t)"
proof -
  note defs = PerlUpb_Arena_NewTmpfs_def PerlUpb_Arena_AttachTmpfs_def sys_open_def sys_ftruncate_def sys_mmap_def
    safemalloc_def store_block_def upb_Arena_Init_def store_raw_def alloc_def bind_xs_def then_xs_def
    unmap_def close_fd_def safefree_block_def
  let ?a = "next_addr s" and ?x = "\<lparr>pa_arena = next_ptr s + 256, pa_stats_alloc = zero_stats\<rparr>"
  have "v = newRV ?a \<and> (\<exists>r. heap t ?a = Some r \<and> mg_findext r Arena_vtbl = None) \<and> open_fds t \<noteq> [] \<and>
      snd (hd (mapped t)) = sz \<and> mapped t \<noteq> [] \<and>
      raw_arenas t (next_ptr s + 256 + 256) = Some (Raw_Custom ?x (next_ptr s)) \<and> next_ptr s + 256 \<in> upb_arenas t"
    using assms by (auto simp: defs split: list.splits option.splits if_splits bool.splits)
  then obtain a r where a: "v = newRV a" "heap t a = Some r" "mg_findext r Arena_vtbl = None"
    and o: "open_fds t \<noteq> []" "mapped t \<noteq> []" "snd (hd (mapped t)) = sz"
    and raw: "raw_arenas t (next_ptr s + 256 + 256) = Some (Raw_Custom ?x (next_ptr s))" "pa_arena ?x \<in> upb_arenas t"
    by auto
  have "hd (open_fds t) \<in> set (open_fds t)" "(fst (hd (mapped t)), sz) \<in> set (mapped t)"
    using o by (auto simp flip: o(3))
  then have rest: "\<exists>fd region w x b. fd \<in> set (open_fds t) \<and> (region, sz) \<in> set (mapped t) \<and>
        raw_arenas t w = Some (Raw_Custom x b) \<and> pa_arena x \<in> upb_arenas t"
    using raw by blast
  have "PerlUpb_Arena_Destroy (Some v) t = (Inr (), t)"
    using a by (simp add: PerlUpb_Arena_Destroy_def)
  moreover have "arena_dies a t = (Inr (), t\<lparr>heap := (heap t)(a := None)\<rparr>)"
    using a by (simp add: arena_dies_def arena_cleanup_def then_xs_def bind_xs_def)
  ultimately show ?thesis using a(1) rest by blast
qed

theorem tmpfs_arena_leaks_witness:
  "\<exists>v t. PerlUpb_Arena_NewTmpfs ''/dev/shm/a'' 4096 arena_boot = (Inr v, t) \<and>
     PerlUpb_Arena_Destroy (Some v) t = (Inr (), t)"
proof -
  obtain v t where "PerlUpb_Arena_NewTmpfs ''/dev/shm/a'' 4096 arena_boot = (Inr v, t)"
    by (simp add: arena_boot_def perl_boot_def cache_st.extend_def PerlUpb_Arena_NewTmpfs_def sys_open_def
        sys_ftruncate_def sys_mmap_def safemalloc_def store_block_def upb_Arena_Init_def store_raw_def alloc_def
        bind_xs_def then_xs_def)
  then show ?thesis using tmpfs_arena_leaks by blast
qed

lemma fst_stats_account:
  "fst (stats_account r oldsize sz st s) =
     (if oldsize = 0 then note_max (st\<lparr>total_reserved := total_reserved st + sz, total_blocks := total_blocks st + 1\<rparr>)
      else if oldsize < sz then note_max (st\<lparr>total_reserved := total_reserved st + (sz - oldsize)\<rparr>)
      else st\<lparr>total_reserved := total_reserved st - (oldsize - sz)\<rparr>)"
  by (simp add: stats_account_def)

text \<open>
  The statistics allocator keeps its books: when the counters do not overflow and
  the old size was accounted before, a successful call changes \<open>total_reserved\<close> by
  exactly the difference of the sizes, counts a block for each fresh allocation, and
  keeps \<open>historical_max_size\<close> an upper bound of \<open>total_reserved\<close>; a failed call changes
  nothing, and a poisoned allocator refuses every request. Freeing a block, however,
  never reduces \<open>total_reserved\<close>.
\<close>

theorem stats_alloc_accounting:
  assumes "stats_alloc_func st p oldsize sz s = ((r, act, st'), t)"
    and "unat (total_reserved st) + unat sz < 2 ^ 64" "oldsize \<le> total_reserved st"
    and "total_reserved st \<le> historical_max_size st"
  shows "(r \<noteq> NULL \<longrightarrow> unat (total_reserved st') + unat oldsize = unat (total_reserved st) + unat sz \<and> act = Some sz \<and>
      total_blocks st' = total_blocks st + (if oldsize = 0 then 1 else 0)) \<and>
    (r = NULL \<longrightarrow> st' = st) \<and> (sz = 0 \<longrightarrow> r = NULL) \<and> (poisoned st \<longrightarrow> r = NULL) \<and>
    total_reserved st' \<le> historical_max_size st'"
proof (cases "r = NULL")
  case True
  have "st' = st"
    using assms(1) True by (auto simp: stats_alloc_func_def Let_def case_prod_beta split: if_splits list.splits)
  then show ?thesis using True assms(4) by simp
next
  case False
  then have sz: "sz \<noteq> 0" "\<not> poisoned st" "act = Some sz" "st' = fst (stats_account r oldsize sz st s)"
    using assms(1)
    by (auto simp: stats_alloc_func_def Let_def case_prod_beta word_gt_0 fst_stats_account split: if_splits list.splits)
  have plus: "unat (total_reserved st + sz) = unat (total_reserved st) + unat sz"
    using assms(2) by (simp add: unat_add_small)
  have up: "unat (total_reserved st + (sz - oldsize)) + unat oldsize = unat (total_reserved st) + unat sz" if "oldsize < sz"
    using that assms(2) by (subst unat_add_small) (auto simp: unat_diff_cases word_less_nat_alt)
  have down: "unat (total_reserved st - (oldsize - sz)) + unat oldsize = unat (total_reserved st) + unat sz" if "sz \<le> oldsize"
    using that assms(3) by (auto simp: unat_diff_cases word_le_nat_alt)
  have le: "total_reserved st - (oldsize - sz) \<le> total_reserved st" if "sz \<le> oldsize"
    using that assms(3) by (auto simp: unat_diff_cases word_le_nat_alt)
  show ?thesis
    using sz assms(4) plus up down le False
    by (auto simp: fst_stats_account note_max_def not_less split: if_splits intro: order_trans)
qed

theorem stats_alloc_accounting_witness:
  "\<exists>st' t. stats_alloc_func zero_stats NULL 0 100 (arena_boot\<lparr>realloc_results := [0x5000]\<rparr>) = ((0x5000, Some 100, st'), t) \<and>
     unat (total_reserved st') = 100"
proof -
  let ?s = "arena_boot\<lparr>realloc_results := [0x5000]\<rparr>"
  obtain st' t where e: "stats_alloc_func zero_stats NULL 0 100 ?s = ((0x5000, Some 100, st'), t)"
    by (simp add: stats_alloc_func_def zero_stats_def nv_positive_def case_prod_beta Let_def)
  show ?thesis
    using e stats_alloc_accounting [OF e] by (auto simp: zero_stats_def)
qed

end
