(* ===== verification/Perl_Num.thy ===== *)
theory Perl_Num
  imports Perl_Api
begin

text \<open>
  Numeric and string coercions of Perl scalars as the sources use them: \<open>SvIV\<close>,
  \<open>SvUV\<close>, \<open>SvNV\<close>, \<open>SvPVutf8\<close> and \<open>SvPVbyte\<close>. Integers and doubles are computed;
  what Perl reads out of a string, and how a double is printed, is
  supplied by the record \<open>str_num\<close>, an argument of everything that may look into a
  string; \<open>bstr\<close> is the method of that name of \<open>Math::BigInt\<close> objects.
\<close>

record str_num =
  looks_like_number :: "byte list \<Rightarrow> bool"
  str_iv :: "byte list \<Rightarrow> u64"
  str_uv :: "byte list \<Rightarrow> u64"
  str_nv :: "byte list \<Rightarrow> nv"
  nv_str :: "nv \<Rightarrow> byte list"
  bstr :: "addr \<Rightarrow> byte list"

section \<open>Doubles\<close>

text \<open>Comparison of two finite doubles by scaling both to the smaller exponent.\<close>

definition nv_scaled :: "int \<Rightarrow> int \<Rightarrow> int \<Rightarrow> int" where
  "nv_scaled m e lo = m * 2 ^ nat (e - lo)"

fun nv_less :: "nv \<Rightarrow> nv \<Rightarrow> bool" where
  "nv_less NvNaN _ = False"
| "nv_less _ NvNaN = False"
| "nv_less (NvInf n) (NvInf n') = (n \<and> \<not> n')"
| "nv_less (NvInf n) (NvFin _ _) = n"
| "nv_less (NvFin _ _) (NvInf n) = (\<not> n)"
| "nv_less (NvFin m e) (NvFin m' e') = (nv_scaled m e (min e e') < nv_scaled m' e' (min e e'))"

text \<open>Truncation towards zero of a finite double.\<close>

definition nv_trunc :: "int \<Rightarrow> int \<Rightarrow> int" where
  "nv_trunc m e = (if 0 \<le> e then m * 2 ^ nat e else sgn m * (\<bar>m\<bar> div 2 ^ nat (- e)))"

text \<open>An integer as a double: exact below \<open>2 ^ 53\<close>, otherwise rounded half to even.\<close>

fun bit_length :: "nat \<Rightarrow> nat" where
  "bit_length n = (if n = 0 then 0 else Suc (bit_length (n div 2)))"

declare bit_length.simps [simp del]

definition nv_of_int :: "int \<Rightarrow> nv" where
  "nv_of_int i =
     (if \<bar>i\<bar> < 2 ^ 53 then NvFin i 0
      else let k = bit_length (nat \<bar>i\<bar>) - 53;
               q = \<bar>i\<bar> div 2 ^ k;
               r = \<bar>i\<bar> mod 2 ^ k;
               q = (if 2 * r > 2 ^ k \<or> 2 * r = 2 ^ k \<and> odd q then q + 1 else q)
           in NvFin (sgn i * q) (int k))"

text \<open>The nearest single-precision value of a double, ties to even.\<close>

definition div_even :: "int \<Rightarrow> nat \<Rightarrow> int" where
  "div_even m k =
     (let q = \<bar>m\<bar> div 2 ^ k; r = \<bar>m\<bar> mod 2 ^ k
      in sgn m * (if 2 * r > 2 ^ k \<or> 2 * r = 2 ^ k \<and> odd q then q + 1 else q))"

fun to_float :: "nv \<Rightarrow> nv" where
  "to_float NvNaN = NvNaN"
| "to_float (NvInf n) = NvInf n"
| "to_float (NvFin m e) =
     (let u = max (e + int (bit_length (nat \<bar>m\<bar>)) - 24) (- 149);
          (m', e') = (if u \<le> e then (m, e) else (div_even m (nat (u - e)), u))
      in if m \<noteq> 0 \<and> 128 < e' + int (bit_length (nat \<bar>m'\<bar>)) then NvInf (m < 0) else NvFin m' e')"

text \<open>
  The C conversions from \<open>double\<close>: undefined when the truncated value does not fit.
\<close>

fun nv_int :: "nv \<Rightarrow> int option" where
  "nv_int NvNaN = None"
| "nv_int (NvInf _) = None"
| "nv_int (NvFin m e) = Some (nv_trunc m e)"

definition double_to_int :: "int \<Rightarrow> int \<Rightarrow> nv \<Rightarrow> ('s, u64) xs" where
  "double_to_int lo hi x =
     (case nv_int x of
        Some i \<Rightarrow> if lo \<le> i \<and> i \<le> hi then ret (of_int i) else fault ''conversion of a double out of range''
      | None \<Rightarrow> fault ''conversion of a double out of range'')"

section \<open>strtoll and strtoull\<close>

definition is_space :: "byte \<Rightarrow> bool" where
  "is_space b \<longleftrightarrow> b = 32 \<or> 9 \<le> b \<and> b \<le> 13"

definition is_digit :: "byte \<Rightarrow> bool" where
  "is_digit b \<longleftrightarrow> 48 \<le> b \<and> b \<le> 57"

definition digits_value :: "byte list \<Rightarrow> nat" where
  "digits_value ds = foldl (\<lambda>n b. 10 * n + (unat b - 48)) 0 ds"

text \<open>Sign and magnitude of the number at the front of a C string, base ten.\<close>

definition scan_int :: "byte list \<Rightarrow> bool \<times> nat" where
  "scan_int bs =
     (case dropWhile is_space bs of
        [] \<Rightarrow> (False, 0)
      | b # r \<Rightarrow>
          if b = 45 then (True, digits_value (takeWhile is_digit r))
          else if b = 43 then (False, digits_value (takeWhile is_digit r))
          else (False, digits_value (takeWhile is_digit (b # r))))"

definition strtoll :: "byte list \<Rightarrow> u64" where
  "strtoll bs = (case scan_int bs of (neg, n) \<Rightarrow>
     if neg then of_int (max (- (2 ^ 63)) (- int n)) else of_int (min (2 ^ 63 - 1) (int n)))"

definition strtoull :: "byte list \<Rightarrow> u64" where
  "strtoull bs = (case scan_int bs of (neg, n) \<Rightarrow>
     if 2 ^ 64 \<le> n then - 1 else if neg then - of_nat n else of_nat n)"

text \<open>\<open>Perl_cast_iv\<close> and \<open>Perl_cast_uv\<close>.\<close>

fun cast_iv :: "nv \<Rightarrow> u64" where
  "cast_iv NvNaN = 0"
| "cast_iv (NvInf neg) = (if neg then of_int (- (2 ^ 63)) else of_int (2 ^ 64 - 1))"
| "cast_iv (NvFin m e) =
     (let i = nv_trunc m e
      in if i < - (2 ^ 63) then of_int (- (2 ^ 63))
         else if i < 2 ^ 64 then of_int i else of_int (2 ^ 64 - 1))"

fun cast_uv :: "nv \<Rightarrow> u64" where
  "cast_uv NvNaN = 0"
| "cast_uv (NvInf neg) = (if neg then of_int (- (2 ^ 63)) else of_int (2 ^ 64 - 1))"
| "cast_uv (NvFin m e) =
     (let i = nv_trunc m e
      in if i < - (2 ^ 63) then of_int (- (2 ^ 63))
         else if i < 2 ^ 64 then of_int i else of_int (2 ^ 64 - 1))"

section \<open>Numbers\<close>

text \<open>A reference used as a number is the address of its referent.\<close>

definition SvIV :: "str_num \<Rightarrow> sv \<Rightarrow> u64" where
  "SvIV N v =
     (case sv_iok v of
        Some (_, w) \<Rightarrow> w
      | None \<Rightarrow> (case sv_nok v of
          Some x \<Rightarrow> cast_iv x
        | None \<Rightarrow> (case sv_pok v of
            Some (_, bs) \<Rightarrow> str_iv N bs
          | None \<Rightarrow> (case sv_rok v of Some a \<Rightarrow> of_nat a | None \<Rightarrow> 0))))"

definition SvUV :: "str_num \<Rightarrow> sv \<Rightarrow> u64" where
  "SvUV N v =
     (case sv_iok v of
        Some (_, w) \<Rightarrow> w
      | None \<Rightarrow> (case sv_nok v of
          Some x \<Rightarrow> cast_uv x
        | None \<Rightarrow> (case sv_pok v of
            Some (_, bs) \<Rightarrow> str_uv N bs
          | None \<Rightarrow> (case sv_rok v of Some a \<Rightarrow> of_nat a | None \<Rightarrow> 0))))"

definition SvNV :: "str_num \<Rightarrow> sv \<Rightarrow> nv" where
  "SvNV N v =
     (case sv_nok v of
        Some x \<Rightarrow> x
      | None \<Rightarrow> (case sv_iok v of
          Some (isuv, w) \<Rightarrow> nv_of_int (if isuv then uint w else sint w)
        | None \<Rightarrow> (case sv_pok v of
            Some (_, bs) \<Rightarrow> str_nv N bs
          | None \<Rightarrow> (case sv_rok v of Some a \<Rightarrow> nv_of_int (int a) | None \<Rightarrow> NvFin 0 0))))"

section \<open>Strings\<close>

text \<open>Latin-1 to UTF-8 and back; \<open>SvPVbyte\<close> of a wide character croaks.\<close>

fun utf8_upgrade :: "byte list \<Rightarrow> byte list" where
  "utf8_upgrade [] = []"
| "utf8_upgrade (b # bs) =
     (if b < 0x80 then [b] else [0xC0 OR drop_bit 6 b, 0x80 OR (b AND 0x3F)]) @ utf8_upgrade bs"

fun utf8_downgrade :: "byte list \<Rightarrow> byte list option" where
  "utf8_downgrade [] = Some []"
| "utf8_downgrade [b] = (if b < 0x80 then Some [b] else None)"
| "utf8_downgrade (b # c # bs) =
     (if b < 0x80 then map_option ((#) b) (utf8_downgrade (c # bs))
      else if b = 0xC2 \<or> b = 0xC3
      then map_option ((#) (push_bit 6 (b AND 3) OR (c AND 0x3F))) (utf8_downgrade bs)
      else None)"

fun dec_digits :: "nat \<Rightarrow> byte list" where
  "dec_digits n = (if n < 10 then [of_nat (48 + n)] else dec_digits (n div 10) @ [of_nat (48 + n mod 10)])"

declare dec_digits.simps [simp del]

definition iv_str :: "bool \<times> u64 \<Rightarrow> byte list" where
  "iv_str = (\<lambda>(isuv, w).
     if isuv then dec_digits (unat w)
     else if sint w < 0 then bytes_of ''-'' @ dec_digits (nat (- sint w)) else dec_digits (nat (sint w)))"

text \<open>The string value of a scalar, with its UTF-8 flag.\<close>

definition sv_string :: "str_num \<Rightarrow> sv \<Rightarrow> bool \<times> byte list" where
  "sv_string N v =
     (case sv_pok v of
        Some p \<Rightarrow> p
      | None \<Rightarrow> (case sv_iok v of
          Some i \<Rightarrow> (False, iv_str i)
        | None \<Rightarrow> (case sv_nok v of
            Some x \<Rightarrow> (False, nv_str N x)
          | None \<Rightarrow> (case sv_rok v of
              Some a \<Rightarrow> (False, bytes_of ''REF('' @ dec_digits a @ bytes_of '')'')
            | None \<Rightarrow> (False, [])))))"

definition SvPVutf8 :: "str_num \<Rightarrow> sv \<Rightarrow> byte list" where
  "SvPVutf8 N v = (case sv_string N v of (utf8, bs) \<Rightarrow> if utf8 then bs else utf8_upgrade bs)"

definition SvPVbyte :: "str_num \<Rightarrow> sv \<Rightarrow> byte list option" where
  "SvPVbyte N v = (case sv_string N v of (utf8, bs) \<Rightarrow> if utf8 then utf8_downgrade bs else Some bs)"

definition SvPVbyte_xs :: "str_num \<Rightarrow> sv \<Rightarrow> ('s, byte list) xs" where
  "SvPVbyte_xs N v = (case SvPVbyte N v of None \<Rightarrow> croak ''Wide character'' [] | Some bs \<Rightarrow> ret bs)"

section \<open>Facts\<close>

lemma bytes_round [simp]: "SvPVbyte N (newSVpvn bs) = Some bs"
  by (simp add: SvPVbyte_def sv_string_def sv_defs)

lemma utf8_round [simp]: "SvPVutf8 N (SvUTF8_on (newSVpvn bs)) = bs"
  by (simp add: SvPVutf8_def sv_string_def sv_defs)

lemma iv_round [simp]: "SvIV N (newSViv w) = w" "SvUV N (newSViv w) = w" "SvUV N (newSVuv w) = w" "SvIV N (newSVuv w) = w"
  by (simp_all add: SvIV_def SvUV_def sv_defs)

lemma nv_round [simp]: "SvNV N (newSVnv x) = x"
  by (simp add: SvNV_def sv_defs)

section \<open>An example\<close>

text \<open>Readings of strings for evaluating the model: unsigned decimal numbers only.\<close>

definition ex_num :: str_num where
  "ex_num =
     (let decimal = foldl (\<lambda>n (b :: byte). 10 * n + (uint b - 48)) (0 :: int)
      in \<lparr>looks_like_number = (\<lambda>bs. bs \<noteq> [] \<and> list_all (\<lambda>b. 48 \<le> b \<and> b \<le> 57) bs),
          str_iv = (\<lambda>bs. of_int (decimal bs)), str_uv = (\<lambda>bs. of_int (decimal bs)),
          str_nv = (\<lambda>bs. nv_of_int (decimal bs)), nv_str = (\<lambda>_. bytes_of ''0''), bstr = (\<lambda>_. bytes_of ''0'')\<rparr>)"

end
