(* ===== verification/Upb.thy ===== *)
theory Upb
  imports Arena Perl_Num
begin

text \<open>
  The part of upb that the XS sources call (\<open>vendor/upb\<close>): definitions found by
  pointer, messages as maps from field definitions to values with the list of
  auxiliary data (extensions and unknown fields) of \<open>upb/message/internal/message.h\<close>,
  arrays and maps. Memory layout (mini tables, hasbits, hash tables) is abstracted
  away; a message, array or map is looked up by its pointer, and touching one that
  does not exist is a fault. Allocation from an arena may fail: the outcomes of
  successive requests are supplied by \<open>arena_malloc_ok\<close> (exhausted means success) and
  those of \<open>upb_Arena_TryExtend\<close> by \<open>try_extend_ok\<close> (exhausted means refusal);
  \<open>stack_limit\<close> is how deep recursion may go before the C stack is exhausted.
\<close>

section \<open>Definitions by pointer\<close>

datatype upb_FieldType =
    kUpb_FieldType_Double | kUpb_FieldType_Float | kUpb_FieldType_Int64 | kUpb_FieldType_UInt64
  | kUpb_FieldType_Int32 | kUpb_FieldType_Fixed64 | kUpb_FieldType_Fixed32 | kUpb_FieldType_Bool
  | kUpb_FieldType_String | kUpb_FieldType_Group | kUpb_FieldType_Message | kUpb_FieldType_Bytes
  | kUpb_FieldType_UInt32 | kUpb_FieldType_Enum | kUpb_FieldType_SFixed32 | kUpb_FieldType_SFixed64
  | kUpb_FieldType_SInt32 | kUpb_FieldType_SInt64

datatype upb_CType =
    kUpb_CType_Bool | kUpb_CType_Float | kUpb_CType_Int32 | kUpb_CType_UInt32 | kUpb_CType_Enum
  | kUpb_CType_Message | kUpb_CType_Double | kUpb_CType_Int64 | kUpb_CType_UInt64 | kUpb_CType_String
  | kUpb_CType_Bytes

fun field_type_num :: "upb_FieldType \<Rightarrow> int" where
  "field_type_num kUpb_FieldType_Double = 1"
| "field_type_num kUpb_FieldType_Float = 2"
| "field_type_num kUpb_FieldType_Int64 = 3"
| "field_type_num kUpb_FieldType_UInt64 = 4"
| "field_type_num kUpb_FieldType_Int32 = 5"
| "field_type_num kUpb_FieldType_Fixed64 = 6"
| "field_type_num kUpb_FieldType_Fixed32 = 7"
| "field_type_num kUpb_FieldType_Bool = 8"
| "field_type_num kUpb_FieldType_String = 9"
| "field_type_num kUpb_FieldType_Group = 10"
| "field_type_num kUpb_FieldType_Message = 11"
| "field_type_num kUpb_FieldType_Bytes = 12"
| "field_type_num kUpb_FieldType_UInt32 = 13"
| "field_type_num kUpb_FieldType_Enum = 14"
| "field_type_num kUpb_FieldType_SFixed32 = 15"
| "field_type_num kUpb_FieldType_SFixed64 = 16"
| "field_type_num kUpb_FieldType_SInt32 = 17"
| "field_type_num kUpb_FieldType_SInt64 = 18"

fun upb_FieldType_CType :: "upb_FieldType \<Rightarrow> upb_CType" where
  "upb_FieldType_CType kUpb_FieldType_Double = kUpb_CType_Double"
| "upb_FieldType_CType kUpb_FieldType_Float = kUpb_CType_Float"
| "upb_FieldType_CType kUpb_FieldType_Int64 = kUpb_CType_Int64"
| "upb_FieldType_CType kUpb_FieldType_SInt64 = kUpb_CType_Int64"
| "upb_FieldType_CType kUpb_FieldType_SFixed64 = kUpb_CType_Int64"
| "upb_FieldType_CType kUpb_FieldType_UInt64 = kUpb_CType_UInt64"
| "upb_FieldType_CType kUpb_FieldType_Fixed64 = kUpb_CType_UInt64"
| "upb_FieldType_CType kUpb_FieldType_Int32 = kUpb_CType_Int32"
| "upb_FieldType_CType kUpb_FieldType_SInt32 = kUpb_CType_Int32"
| "upb_FieldType_CType kUpb_FieldType_SFixed32 = kUpb_CType_Int32"
| "upb_FieldType_CType kUpb_FieldType_UInt32 = kUpb_CType_UInt32"
| "upb_FieldType_CType kUpb_FieldType_Fixed32 = kUpb_CType_UInt32"
| "upb_FieldType_CType kUpb_FieldType_Bool = kUpb_CType_Bool"
| "upb_FieldType_CType kUpb_FieldType_String = kUpb_CType_String"
| "upb_FieldType_CType kUpb_FieldType_Bytes = kUpb_CType_Bytes"
| "upb_FieldType_CType kUpb_FieldType_Group = kUpb_CType_Message"
| "upb_FieldType_CType kUpb_FieldType_Message = kUpb_CType_Message"
| "upb_FieldType_CType kUpb_FieldType_Enum = kUpb_CType_Enum"

datatype upb_MessageValue =
    Val_bool bool | Val_float nv | Val_double nv | Val_int32 u32 | Val_uint32 u32
  | Val_int64 u64 | Val_uint64 u64 | Val_str "byte list"
  | Val_msg ptr | Val_array ptr | Val_map ptr

fun upb_MessageValue_Zero :: "upb_CType \<Rightarrow> upb_MessageValue" where
  "upb_MessageValue_Zero kUpb_CType_Bool = Val_bool False"
| "upb_MessageValue_Zero kUpb_CType_Float = Val_float (NvFin 0 0)"
| "upb_MessageValue_Zero kUpb_CType_Double = Val_double (NvFin 0 0)"
| "upb_MessageValue_Zero kUpb_CType_Int32 = Val_int32 0"
| "upb_MessageValue_Zero kUpb_CType_Enum = Val_int32 0"
| "upb_MessageValue_Zero kUpb_CType_UInt32 = Val_uint32 0"
| "upb_MessageValue_Zero kUpb_CType_Int64 = Val_int64 0"
| "upb_MessageValue_Zero kUpb_CType_UInt64 = Val_uint64 0"
| "upb_MessageValue_Zero kUpb_CType_String = Val_str []"
| "upb_MessageValue_Zero kUpb_CType_Bytes = Val_str []"
| "upb_MessageValue_Zero kUpb_CType_Message = Val_msg NULL"

text \<open>\<open>fd_default\<close> is what \<open>upb_FieldDef_Default\<close> returns (null pointers for messages and containers).\<close>

record upb_FieldDef =
  fd_name :: string
  fd_number :: u32
  fd_type :: upb_FieldType
  fd_repeated :: bool
  fd_msg_subdef :: ptr
  fd_enum_subdef :: ptr
  fd_has_presence :: bool
  fd_is_extension :: bool
  fd_is_packed :: bool
  fd_label :: int
  fd_oneof :: ptr
  fd_default :: upb_MessageValue

record upb_MessageDef =
  md_full_name :: string
  md_file :: ptr
  md_fields :: "ptr list"
  md_map_entry :: bool
  md_minitable :: ptr

record upb_FileDef =
  file_name :: string
  file_package :: "string option"
  file_pool :: ptr

record upb_EnumDef =
  ed_file :: ptr
  ed_values :: "(byte list \<times> u32) list"

record upb_OneofDef =
  od_fields :: "ptr list"
  od_synthetic :: bool

record upb_EnumValueDef =
  ev_name :: string
  ev_number :: u32
  ev_index :: int

record upb_MethodDef =
  meth_full_name :: string
  meth_index :: int
  meth_input_type :: ptr
  meth_output_type :: ptr
  meth_client_streaming :: bool
  meth_server_streaming :: bool
  meth_service :: ptr

record upb_ServiceDef =
  sd_full_name :: string
  sd_index :: int
  sd_methods :: "ptr list"
  sd_file :: ptr

text \<open>The symbol tables of a definition pool.\<close>

record upb_DefPool =
  dp_files :: "(string \<times> ptr) list"
  dp_messages :: "(string \<times> ptr) list"
  dp_enums :: "(string \<times> ptr) list"
  dp_services :: "(string \<times> ptr) list"
  dp_extensions :: "(string \<times> ptr) list"

record upb_defs =
  fdefs :: "ptr \<Rightarrow> upb_FieldDef option"
  mdefs :: "ptr \<Rightarrow> upb_MessageDef option"
  filedefs :: "ptr \<Rightarrow> upb_FileDef option"
  enumdefs :: "ptr \<Rightarrow> upb_EnumDef option"
  oneofdefs :: "ptr \<Rightarrow> upb_OneofDef option"
  enumvaluedefs :: "ptr \<Rightarrow> upb_EnumValueDef option"
  servicedefs :: "ptr \<Rightarrow> upb_ServiceDef option"
  methoddefs :: "ptr \<Rightarrow> upb_MethodDef option"
  pools :: "ptr \<Rightarrow> upb_DefPool option"

text \<open>
  The auxiliary entries of a message: a removed entry, an extension with its value, or
  a chunk of unknown fields (\<open>True\<close> when it aliases a buffer). \<open>um_aux_cap\<close> is the
  capacity of the auxiliary array, \<open>None\<close> while there is none.
\<close>

datatype aux_entry = Aux_null | Aux_ext ptr upb_MessageValue | Aux_unknown bool "byte list"

record upb_Message =
  um_fields :: "(ptr \<times> upb_MessageValue) list"
  um_aux :: "aux_entry list"
  um_aux_cap :: "nat option"

text \<open>
  The data block of an array has one cell per unit of capacity; \<open>None\<close> is a cell that
  was never written.
\<close>

record upb_Array =
  arr_ctype :: upb_CType
  arr_data :: "upb_MessageValue option list"
  arr_size :: nat

record upb_Map =
  map_entries :: "(upb_MessageValue \<times> upb_MessageValue) list"

text \<open>
  Structures the XS sources allocate with \<open>malloc\<close> and reach through the integer in a
  Perl object: unknown field sets, extension dictionaries, iterators, descriptor pools
  and descriptor containers (with the address of their table of functions).
\<close>

datatype cstruct =
    CS_UnknownFieldSet sv
  | CS_MapIterator sv nat "(upb_MessageValue \<times> upb_MessageValue) option"
  | CS_ExtensionDict sv
  | CS_ExtensionDictIterator sv nat
  | CS_DescriptorPool ptr bool
  | CS_ByNameMap ptr sv ptr
  | CS_ByNumberMap ptr sv ptr
  | CS_GenericSequence ptr sv ptr
  | CS_DescriptorMapIterator sv int

text \<open>
  A file handle: the bytes still to be read (\<open>None\<close> when it is not open for reading),
  how many bytes the next reads and writes transfer at most (an exhausted list means all
  that is asked for), and the bytes written.
\<close>

record perlio =
  io_in :: "byte list option"
  io_reads :: "nat list"
  io_out :: "byte list option"
  io_writes :: "nat list"

record upb_st = arena_st +
  defs :: upb_defs
  messages :: "ptr \<Rightarrow> upb_Message option"
  arrays :: "ptr \<Rightarrow> upb_Array option"
  maps :: "ptr \<Rightarrow> upb_Map option"
  arena_malloc_ok :: "bool list"
  try_extend_ok :: "bool list"
  cheap :: "ptr \<Rightarrow> cstruct option"
  ios :: "addr \<Rightarrow> perlio option"
  stack_limit :: nat
  generated_pool_ptr :: ptr
  generated_pool_iv :: "ptr option"

section \<open>Look-up\<close>

definition fdef :: "ptr \<Rightarrow> ('z upb_st_scheme, upb_FieldDef) xs" where
  "fdef f = (\<lambda>s. case fdefs (defs s) f of
     None \<Rightarrow> (Inl (Fault ''field definition of a bad pointer''), s) | Some d \<Rightarrow> (Inr d, s))"

definition mdef :: "ptr \<Rightarrow> ('z upb_st_scheme, upb_MessageDef) xs" where
  "mdef m = (\<lambda>s. case mdefs (defs s) m of
     None \<Rightarrow> (Inl (Fault ''message definition of a bad pointer''), s) | Some d \<Rightarrow> (Inr d, s))"

definition filedef :: "ptr \<Rightarrow> ('z upb_st_scheme, upb_FileDef) xs" where
  "filedef p = (\<lambda>s. case filedefs (defs s) p of
     None \<Rightarrow> (Inl (Fault ''file definition of a bad pointer''), s) | Some d \<Rightarrow> (Inr d, s))"

definition message :: "ptr \<Rightarrow> ('z upb_st_scheme, upb_Message) xs" where
  "message p = (\<lambda>s. case messages s p of
     None \<Rightarrow> (Inl (Fault ''access to a dead message''), s) | Some m \<Rightarrow> (Inr m, s))"

definition array_at :: "ptr \<Rightarrow> ('z upb_st_scheme, upb_Array) xs" where
  "array_at p = (\<lambda>s. case arrays s p of
     None \<Rightarrow> (Inl (Fault ''access to a dead array''), s) | Some xs \<Rightarrow> (Inr xs, s))"

definition map_at :: "ptr \<Rightarrow> ('z upb_st_scheme, (upb_MessageValue \<times> upb_MessageValue) list) xs" where
  "map_at p = (\<lambda>s. case maps s p of
     None \<Rightarrow> (Inl (Fault ''access to a dead map''), s) | Some m \<Rightarrow> (Inr (map_entries m), s))"

definition is_submsg :: "upb_FieldDef \<Rightarrow> bool" where
  "is_submsg d \<longleftrightarrow> upb_FieldType_CType (fd_type d) = kUpb_CType_Message"

text \<open>A map field is a repeated message field whose message is a map entry.\<close>

definition is_map :: "upb_defs \<Rightarrow> upb_FieldDef \<Rightarrow> bool" where
  "is_map D d \<longleftrightarrow> fd_repeated d \<and> is_submsg d \<and>
     (case mdefs D (fd_msg_subdef d) of None \<Rightarrow> False | Some m \<Rightarrow> md_map_entry m)"

definition find_field :: "upb_defs \<Rightarrow> ptr \<Rightarrow> (upb_FieldDef \<Rightarrow> bool) \<Rightarrow> ptr" where
  "find_field D m P =
     (case mdefs D m of
        None \<Rightarrow> NULL
      | Some d \<Rightarrow> (case find (\<lambda>f. case fdefs D f of None \<Rightarrow> False | Some x \<Rightarrow> P x) (md_fields d) of
          None \<Rightarrow> NULL | Some f \<Rightarrow> f))"

definition upb_MessageDef_FindFieldByNumber :: "upb_defs \<Rightarrow> ptr \<Rightarrow> u32 \<Rightarrow> ptr" where
  "upb_MessageDef_FindFieldByNumber D m n = find_field D m (\<lambda>d. fd_number d = n)"

definition upb_MessageDef_FindFieldByName :: "upb_defs \<Rightarrow> ptr \<Rightarrow> string \<Rightarrow> ptr" where
  "upb_MessageDef_FindFieldByName D m k = find_field D m (\<lambda>d. fd_name d = k)"

section \<open>Allocation\<close>

definition arena_malloc :: "ptr \<Rightarrow> ('z upb_st_scheme, bool) xs" where
  "arena_malloc a = (\<lambda>s.
     if a \<notin> upb_arenas s then (Inl (Fault ''upb_Arena_Malloc from a dead arena''), s)
     else case arena_malloc_ok s of
       [] \<Rightarrow> (Inr True, s) | ok # os \<Rightarrow> (Inr ok, s\<lparr>arena_malloc_ok := os\<rparr>))"

definition fresh_ptr :: "('z upb_st_scheme, ptr) xs" where
  "fresh_ptr = (\<lambda>s. (Inr (next_ptr s), s\<lparr>next_ptr := next_ptr s + 256\<rparr>))"

text \<open>\<open>upb_Message_New\<close>: a null pointer when the arena is exhausted.\<close>

definition upb_Message_New :: "ptr \<Rightarrow> ('z upb_st_scheme, ptr) xs" where
  "upb_Message_New arena =
     bind_xs (arena_malloc arena) (\<lambda>ok.
     if \<not> ok then ret NULL
     else bind_xs fresh_ptr (\<lambda>p.
       then_xs (modify_xs (\<lambda>s. s\<lparr>messages := (messages s)(p \<mapsto> \<lparr>um_fields = [], um_aux = [], um_aux_cap = None\<rparr>)\<rparr>)) (ret p)))"

definition upb_Map_New :: "ptr \<Rightarrow> ('z upb_st_scheme, ptr) xs" where
  "upb_Map_New arena =
     bind_xs (arena_malloc arena) (\<lambda>ok.
     if \<not> ok then ret NULL
     else bind_xs fresh_ptr (\<lambda>p.
       then_xs (modify_xs (\<lambda>s. s\<lparr>maps := (maps s)(p \<mapsto> \<lparr>map_entries = []\<rparr>)\<rparr>)) (ret p)))"

section \<open>C structures of the XS layer\<close>

definition c_malloc :: "cstruct \<Rightarrow> ('z upb_st_scheme, ptr) xs" where
  "c_malloc c = bind_xs fresh_ptr (\<lambda>p. then_xs (modify_xs (\<lambda>s. s\<lparr>cheap := (cheap s)(p \<mapsto> c)\<rparr>)) (ret p))"

definition c_load :: "ptr \<Rightarrow> ('z upb_st_scheme, cstruct) xs" where
  "c_load p = (\<lambda>s. case cheap s p of
     None \<Rightarrow> (Inl (Fault ''access to a freed C structure''), s) | Some c \<Rightarrow> (Inr c, s))"

definition c_store :: "ptr \<Rightarrow> cstruct \<Rightarrow> ('z upb_st_scheme, unit) xs" where
  "c_store p c = modify_xs (\<lambda>s. s\<lparr>cheap := (cheap s)(p \<mapsto> c)\<rparr>)"

definition c_free :: "ptr \<Rightarrow> ('z upb_st_scheme, unit) xs" where
  "c_free p = (\<lambda>s. case cheap s p of
     None \<Rightarrow> (Inl (Fault ''free of a freed C structure''), s)
   | Some _ \<Rightarrow> (Inr (), s\<lparr>cheap := (cheap s)(p := None)\<rparr>))"

text \<open>
  An object of these kinds is a blessed reference to a scalar that holds the address:
  \<open>SvIV(SvRV(sv))\<close> after a class test, null when the test fails. \<open>sv_setiv\<close> on the
  referent marks it as freed.
\<close>

definition new_struct_object :: "string \<Rightarrow> cstruct \<Rightarrow> ('z upb_st_scheme, sv) xs" where
  "new_struct_object cls c =
     bind_xs (c_malloc c) (\<lambda>p.
     bind_xs (alloc (sv_bless cls \<lparr>ref_body = PVMG (newSViv p), ref_stash = None, ref_magic = [], ref_tied = None\<rparr>))
       (\<lambda>a. ret (newRV a)))"

definition struct_object_ptr :: "string \<Rightarrow> sv option \<Rightarrow> ('z upb_st_scheme, ptr) xs" where
  "struct_object_ptr cls v = (\<lambda>s.
     if \<not> sv_derived_from s v cls then (Inr NULL, s)
     else case deref s v of
       None \<Rightarrow> (Inr NULL, s)
     | Some r \<Rightarrow> (case ref_body r of
         PVMG w \<Rightarrow> (case sv_iok w of Some (_, p) \<Rightarrow> (Inr p, s) | None \<Rightarrow> (Inr NULL, s))
       | _ \<Rightarrow> (Inl (Fault ''SvIV of a container''), s)))"

definition struct_object_free :: "string \<Rightarrow> sv option \<Rightarrow> ('z upb_st_scheme, unit) xs" where
  "struct_object_free cls v =
     bind_xs (struct_object_ptr cls v) (\<lambda>p.
     if p = NULL then ret ()
     else then_xs (c_free p)
       (modify_xs (rv_update v (\<lambda>r. r\<lparr>ref_body := PVMG (newSViv 0)\<rparr>))))"

end
