(* ===== verification/Upb_Array.thy ===== *)
theory Upb_Array
  imports Upb
begin

text \<open>
  Arrays of upb (\<open>vendor/upb/message/array.c\<close> and \<open>internal/array.h\<close>): a data block
  with one cell per unit of capacity, grown by doubling. The operations on the block are
  functions on \<open>upb_Array\<close>; the locale \<open>sequence\<close> says what they promise about the
  elements, and everything above uses only that. Assertions of upb are faults here.
\<close>

section \<open>The data block\<close>

text \<open>
  The capacity loop of \<open>_upb_Array_Realloc\<close>. Sizes are at most \<open>2 ^ 31\<close> in the callers,
  so the doubling does not wrap.
\<close>

function log2_ceiling :: "nat \<Rightarrow> nat \<Rightarrow> nat" where
  "log2_ceiling new_capacity min_capacity =
     (if 0 < new_capacity \<and> new_capacity < min_capacity then log2_ceiling (new_capacity * 2) min_capacity
      else new_capacity)"
  by auto
termination
  by (relation "measure (\<lambda>(c, m). m - c)") auto

declare log2_ceiling.simps [simp del]

definition upb_Array_Realloc :: "nat \<Rightarrow> upb_Array \<Rightarrow> upb_Array" where
  "upb_Array_Realloc min_capacity A =
     (let cap = length (arr_data A)
      in A\<lparr>arr_data := arr_data A @ replicate (log2_ceiling (max cap 4) min_capacity - cap) None\<rparr>)"

definition arr_resize :: "nat \<Rightarrow> upb_Array \<Rightarrow> upb_Array" where
  "arr_resize n A = (if length (arr_data A) < n then upb_Array_Realloc n A else A)\<lparr>arr_size := n\<rparr>"

definition arr_set :: "nat \<Rightarrow> upb_MessageValue \<Rightarrow> upb_Array \<Rightarrow> upb_Array" where
  "arr_set i v A = A\<lparr>arr_data := (arr_data A)[i := Some v]\<rparr>"

text \<open>\<open>memmove\<close> of \<open>count\<close> cells.\<close>

definition arr_move :: "nat \<Rightarrow> nat \<Rightarrow> nat \<Rightarrow> upb_Array \<Rightarrow> upb_Array" where
  "arr_move dst_idx src_idx cnt A =
     A\<lparr>arr_data := take dst_idx (arr_data A) @ take cnt (drop src_idx (arr_data A)) @ drop (dst_idx + cnt) (arr_data A)\<rparr>"

definition arr_insert :: "nat \<Rightarrow> nat \<Rightarrow> upb_Array \<Rightarrow> upb_Array" where
  "arr_insert i cnt A = arr_move (i + cnt) i (arr_size A - i) (arr_resize (arr_size A + cnt) A)"

definition arr_delete :: "nat \<Rightarrow> nat \<Rightarrow> upb_Array \<Rightarrow> upb_Array" where
  "arr_delete i cnt A =
     (arr_move i (i + cnt) (arr_size A - (i + cnt)) A)\<lparr>arr_size := arr_size A - cnt\<rparr>"

text \<open>\<open>memset\<close> of the cells from \<open>i\<close> up to the size.\<close>

definition arr_zero_from :: "nat \<Rightarrow> upb_Array \<Rightarrow> upb_Array" where
  "arr_zero_from i A =
     A\<lparr>arr_data := take i (arr_data A) @ replicate (arr_size A - i) (Some (upb_MessageValue_Zero (arr_ctype A)))
        @ drop (arr_size A) (arr_data A)\<rparr>"

section \<open>Operations on arrays by pointer\<close>

definition upb_Array_New :: "ptr \<Rightarrow> upb_CType \<Rightarrow> ('z upb_st_scheme, ptr) xs" where
  "upb_Array_New arena ctype =
     bind_xs (arena_malloc arena) (\<lambda>ok.
     if \<not> ok then ret NULL
     else bind_xs fresh_ptr (\<lambda>p.
       then_xs (modify_xs (\<lambda>s. s\<lparr>arrays := (arrays s)(p \<mapsto>
         \<lparr>arr_ctype = ctype, arr_data = replicate 4 None, arr_size = 0\<rparr>)\<rparr>)) (ret p)))"

definition store_array :: "ptr \<Rightarrow> upb_Array \<Rightarrow> ('z upb_st_scheme, unit) xs" where
  "store_array p A = modify_xs (\<lambda>s. s\<lparr>arrays := (arrays s)(p \<mapsto> A)\<rparr>)"

definition upb_Array_Size :: "ptr \<Rightarrow> ('z upb_st_scheme, nat) xs" where
  "upb_Array_Size arr = bind_xs (array_at arr) (\<lambda>A. ret (arr_size A))"

definition upb_Array_Get :: "ptr \<Rightarrow> nat \<Rightarrow> ('z upb_st_scheme, upb_MessageValue) xs" where
  "upb_Array_Get arr i =
     bind_xs (array_at arr) (\<lambda>A.
     if arr_size A \<le> i \<or> length (arr_data A) \<le> i then fault ''array index out of bounds''
     else case arr_data A ! i of
       None \<Rightarrow> fault ''read of an uninitialised array element'' | Some v \<Rightarrow> ret v)"

definition upb_Array_Set :: "ptr \<Rightarrow> nat \<Rightarrow> upb_MessageValue \<Rightarrow> ('z upb_st_scheme, unit) xs" where
  "upb_Array_Set arr i v =
     bind_xs (array_at arr) (\<lambda>A.
     if arr_size A \<le> i then fault ''array index out of bounds'' else store_array arr (arr_set i v A))"

text \<open>
  Growing past the capacity asks the arena, and needs one; the result says whether there
  was memory.
\<close>

definition upb_Array_ResizeUninitialized :: "ptr \<Rightarrow> nat \<Rightarrow> ptr \<Rightarrow> ('z upb_st_scheme, bool) xs" where
  "upb_Array_ResizeUninitialized arr n arena =
     bind_xs (array_at arr) (\<lambda>A.
     if length (arr_data A) < n then
       bind_xs (arena_malloc arena) (\<lambda>ok.
       if ok then then_xs (store_array arr (arr_resize n A)) (ret True) else ret False)
     else then_xs (store_array arr (arr_resize n A)) (ret True))"

definition upb_Array_Append :: "ptr \<Rightarrow> upb_MessageValue \<Rightarrow> ptr \<Rightarrow> ('z upb_st_scheme, bool) xs" where
  "upb_Array_Append arr v arena =
     bind_xs (upb_Array_Size arr) (\<lambda>n.
     bind_xs (upb_Array_ResizeUninitialized arr (n + 1) arena) (\<lambda>ok.
     if \<not> ok then ret False else then_xs (upb_Array_Set arr n v) (ret True)))"

definition upb_Array_Move :: "ptr \<Rightarrow> nat \<Rightarrow> nat \<Rightarrow> nat \<Rightarrow> ('z upb_st_scheme, unit) xs" where
  "upb_Array_Move arr dst_idx src_idx cnt =
     bind_xs (array_at arr) (\<lambda>A.
     if length (arr_data A) < dst_idx + cnt \<or> length (arr_data A) < src_idx + cnt
     then fault ''memmove out of bounds''
     else store_array arr (arr_move dst_idx src_idx cnt A))"

definition upb_Array_Insert :: "ptr \<Rightarrow> nat \<Rightarrow> nat \<Rightarrow> ptr \<Rightarrow> ('z upb_st_scheme, bool) xs" where
  "upb_Array_Insert arr i cnt arena =
     bind_xs (upb_Array_Size arr) (\<lambda>oldsize.
     if oldsize < i then fault ''array index out of bounds''
     else bind_xs (upb_Array_ResizeUninitialized arr (oldsize + cnt) arena) (\<lambda>ok.
     if \<not> ok then ret False
     else then_xs (upb_Array_Move arr (i + cnt) i (oldsize - i)) (ret True)))"

definition upb_Array_Delete :: "ptr \<Rightarrow> nat \<Rightarrow> nat \<Rightarrow> ('z upb_st_scheme, unit) xs" where
  "upb_Array_Delete arr i cnt =
     bind_xs (upb_Array_Size arr) (\<lambda>n.
     if n < i + cnt then fault ''array index out of bounds''
     else then_xs (upb_Array_Move arr i (i + cnt) (n - (i + cnt)))
       (bind_xs (array_at arr) (\<lambda>A. store_array arr (A\<lparr>arr_size := n - cnt\<rparr>))))"

definition upb_Array_Resize :: "ptr \<Rightarrow> nat \<Rightarrow> ptr \<Rightarrow> ('z upb_st_scheme, bool) xs" where
  "upb_Array_Resize arr newsize arena =
     bind_xs (upb_Array_Size arr) (\<lambda>oldsize.
     bind_xs (upb_Array_ResizeUninitialized arr newsize arena) (\<lambda>ok.
     if \<not> ok then ret False
     else bind_xs (array_at arr) (\<lambda>A.
       then_xs (if oldsize < arr_size A then store_array arr (arr_zero_from oldsize A) else ret ()) (ret True))))"

section \<open>What the operations promise\<close>

text \<open>
  A growable sequence of cells: \<open>elems\<close> are the live cells; \<open>resize\<close> keeps the common
  prefix, \<open>gap\<close> opens room inside, \<open>cut\<close> removes, \<open>put\<close> writes one cell.
\<close>

locale sequence =
  fixes ok :: "'a \<Rightarrow> bool"
    and elems :: "'a \<Rightarrow> 'v option list"
    and resize :: "nat \<Rightarrow> 'a \<Rightarrow> 'a"
    and put :: "nat \<Rightarrow> 'v \<Rightarrow> 'a \<Rightarrow> 'a"
    and gap :: "nat \<Rightarrow> nat \<Rightarrow> 'a \<Rightarrow> 'a"
    and cut :: "nat \<Rightarrow> nat \<Rightarrow> 'a \<Rightarrow> 'a"
  assumes ok_resize: "ok A \<Longrightarrow> ok (resize n A)"
    and ok_put: "ok A \<Longrightarrow> ok (put i v A)"
    and ok_gap: "ok A \<Longrightarrow> i \<le> length (elems A) \<Longrightarrow> ok (gap i n A)"
    and ok_cut: "ok A \<Longrightarrow> i + n \<le> length (elems A) \<Longrightarrow> ok (cut i n A)"
    and length_resize: "ok A \<Longrightarrow> length (elems (resize n A)) = n"
    and take_resize: "ok A \<Longrightarrow> m \<le> n \<Longrightarrow> m \<le> length (elems A) \<Longrightarrow> take m (elems (resize n A)) = take m (elems A)"
    and elems_put: "ok A \<Longrightarrow> elems (put i v A) = (elems A)[i := Some v]"
    and take_gap: "ok A \<Longrightarrow> i \<le> length (elems A) \<Longrightarrow> take i (elems (gap i n A)) = take i (elems A)"
    and drop_gap: "ok A \<Longrightarrow> i \<le> length (elems A) \<Longrightarrow> drop (i + n) (elems (gap i n A)) = drop i (elems A)"
    and length_gap: "ok A \<Longrightarrow> i \<le> length (elems A) \<Longrightarrow> length (elems (gap i n A)) = length (elems A) + n"
    and elems_cut: "ok A \<Longrightarrow> i + n \<le> length (elems A) \<Longrightarrow> elems (cut i n A) = take i (elems A) @ drop (i + n) (elems A)"
begin

text \<open>Appending, inserting and undoing an insertion, from the laws alone.\<close>

lemma elems_append:
  assumes "ok A"
  shows "elems (put (length (elems A)) v (resize (Suc (length (elems A))) A)) = elems A @ [Some v]"
proof -
  let ?n = "length (elems A)" and ?B = "resize (Suc (length (elems A))) A"
  have B: "ok ?B" "length (elems ?B) = Suc ?n" "take ?n (elems ?B) = elems A"
    using assms ok_resize length_resize take_resize [of A ?n "Suc ?n"] by simp_all
  have "(elems ?B)[?n := Some v] = take ?n (elems ?B) @ [Some v] @ drop (Suc ?n) (elems ?B)"
    using B(2) by (simp add: upd_conv_take_nth_drop)
  then show ?thesis using B by (simp add: elems_put)
qed

lemma elems_insert:
  assumes "ok A" "i \<le> length (elems A)"
  shows "elems (put i v (gap i 1 A)) = take i (elems A) @ Some v # drop i (elems A)"
proof -
  let ?E = "elems (gap i 1 A)"
  have "?E[i := Some v] = take i ?E @ Some v # drop (Suc i) ?E"
    using length_gap [OF assms, of 1] assms(2) by (simp add: upd_conv_take_nth_drop)
  then show ?thesis
    using assms take_gap [OF assms, of 1] drop_gap [OF assms, of 1] ok_gap by (simp add: elems_put)
qed

lemma elems_cut_gap:
  assumes "ok A" "i \<le> length (elems A)"
  shows "elems (cut i n (gap i n A)) = elems A"
  using assms ok_gap length_gap [OF assms, of n] take_gap [OF assms] drop_gap [OF assms]
  by (simp add: elems_cut)

end

definition arr_ok :: "upb_Array \<Rightarrow> bool" where
  "arr_ok A \<longleftrightarrow> arr_size A \<le> length (arr_data A)"

definition arr_elems :: "upb_Array \<Rightarrow> upb_MessageValue option list" where
  "arr_elems A = take (arr_size A) (arr_data A)"

lemma log2_ceiling_ge: "0 < c \<Longrightarrow> m \<le> log2_ceiling c m \<and> c \<le> log2_ceiling c m"
proof (induction c m rule: log2_ceiling.induct)
  case (1 c m)
  then show ?case
    by (subst (1 2) log2_ceiling.simps) (cases "c < m"; force)
qed

lemma arr_resize_facts:
  "arr_size (arr_resize n A) = n" "n \<le> length (arr_data (arr_resize n A))"
  "length (arr_data A) \<le> length (arr_data (arr_resize n A))"
  "take (length (arr_data A)) (arr_data (arr_resize n A)) = arr_data A"
  "arr_ctype (arr_resize n A) = arr_ctype A"
  using log2_ceiling_ge [of "max (length (arr_data A)) 4" n]
  by (auto simp: arr_resize_def upb_Array_Realloc_def Let_def)

lemma take_take_prefix: "take k ys = xs \<Longrightarrow> length xs = k \<Longrightarrow> m \<le> k \<Longrightarrow> take m ys = take m xs"
  by (metis min.absorb1 take_take)

interpretation upb_seq: sequence arr_ok arr_elems arr_resize arr_set arr_insert arr_delete
proof
  fix A :: upb_Array and n m i :: nat and v
  note r = arr_resize_facts
  have pre: "take k (arr_data (arr_resize l A)) = take k (arr_data A)" if "k \<le> length (arr_data A)" for k l
    using that take_take_prefix [OF r(4) refl] by blast
  assume ok: "arr_ok A"
  show "arr_ok (arr_resize n A)" by (simp add: arr_ok_def r)
  show "arr_ok (arr_set i v A)" using ok by (simp add: arr_ok_def arr_set_def)
  show "length (arr_elems (arr_resize n A)) = n" by (simp add: arr_elems_def r)
  show "arr_elems (arr_set i v A) = (arr_elems A)[i := Some v]"
    by (simp add: arr_elems_def arr_set_def take_update_swap)
  show "m \<le> n \<Longrightarrow> m \<le> length (arr_elems A) \<Longrightarrow> take m (arr_elems (arr_resize n A)) = take m (arr_elems A)"
    using ok pre by (auto simp: arr_elems_def r arr_ok_def min_def split: if_splits)
  let ?G = "arr_insert i n A" and ?R = "arr_resize (arr_size A + n) A"
  assume i: "i \<le> length (arr_elems A)"
  then have le: "i \<le> arr_size A" using ok by (simp add: arr_elems_def)
  have d: "arr_data ?G = take (i + n) (arr_data ?R) @ take (arr_size A - i) (drop i (arr_data ?R)) @ drop (n + arr_size A) (arr_data ?R)"
    using le by (simp add: arr_insert_def arr_move_def)
  have s: "arr_size ?G = arr_size A + n" by (simp add: arr_insert_def arr_move_def r)
  have len: "length (arr_data ?G) = length (arr_data ?R)"
    using le r(2) [of "arr_size A + n" A] by (simp add: d)
  show "arr_ok ?G" using len s r(2) [of "arr_size A + n" A] by (simp add: arr_ok_def)
  show "length (arr_elems ?G) = length (arr_elems A) + n"
    using len s ok r(2) [of "arr_size A + n" A] by (simp add: arr_elems_def arr_ok_def)
  show "take i (arr_elems ?G) = take i (arr_elems A)"
    using le ok pre [of i "arr_size A + n"] r(2) [of "arr_size A + n" A] by (simp add: arr_elems_def s d arr_ok_def min_def)
  have "take (arr_size A - i) (drop i (arr_data ?R)) = drop i (take (arr_size A) (arr_data A))"
    using pre [of "arr_size A"] ok by (simp add: take_drop arr_ok_def le)
  then show "drop (i + n) (arr_elems ?G) = drop i (arr_elems A)"
    using le ok r(2) [of "arr_size A + n" A] by (simp add: arr_elems_def s d arr_ok_def min_def)
next
  fix A :: upb_Array and n i :: nat
  assume ok: "arr_ok A" and i: "i + n \<le> length (arr_elems A)"
  then have le: "i + n \<le> arr_size A" by (simp add: arr_elems_def)
  have d: "arr_data (arr_delete i n A) = take i (arr_data A) @ take (arr_size A - (i + n)) (drop (i + n) (arr_data A)) @
      drop (i + (arr_size A - (i + n))) (arr_data A)"
    by (simp add: arr_delete_def arr_move_def)
  show "arr_ok (arr_delete i n A)"
    using ok le by (simp add: arr_ok_def arr_delete_def arr_move_def)
  show "arr_elems (arr_delete i n A) = take i (arr_elems A) @ drop (i + n) (arr_elems A)"
  proof -
    obtain k where k: "arr_size A = i + n + k" using le le_Suc_ex by blast
    then show ?thesis using ok unfolding arr_elems_def d by (simp add: arr_delete_def arr_ok_def drop_take)
  qed
qed

section \<open>Effect on the state\<close>

text \<open>The state after the array at \<open>p\<close> has been replaced.\<close>

definition put_array :: "ptr \<Rightarrow> upb_Array \<Rightarrow> 'z upb_st_scheme \<Rightarrow> 'z upb_st_scheme" where
  "put_array p A s = s\<lparr>arrays := (arrays s)(p \<mapsto> A)\<rparr>"

lemma arrays_put_array [simp]: "arrays (put_array p A s) = (arrays s)(p \<mapsto> A)"
  by (simp add: put_array_def)

lemma put_array_frame [simp]:
  "heap (put_array p A s) = heap s" "messages (put_array p A s) = messages s" "maps (put_array p A s) = maps s"
  "defs (put_array p A s) = defs s" "upb_arenas (put_array p A s) = upb_arenas s" "raw_arenas (put_array p A s) = raw_arenas s"
  "arena_malloc_ok (put_array p A s) = arena_malloc_ok s" "isa (put_array p A s) = isa s" "PL_dirty (put_array p A s) = PL_dirty s"
  "next_ptr (put_array p A s) = next_ptr s" "next_addr (put_array p A s) = next_addr s"
  "cheap (put_array p A s) = cheap s" "put_array p A (put_array p B s) = put_array p A s"
  by (simp_all add: put_array_def)

lemma array_at_Some: "arrays s p = Some A \<Longrightarrow> array_at p s = (Inr A, s)"
  by (simp add: array_at_def)

lemma store_array_apply [simp]: "store_array p A s = (Inr (), put_array p A s)"
  by (simp add: store_array_def put_array_def)

text \<open>The arena exists and has memory left for everything asked of it.\<close>

definition ample :: "ptr \<Rightarrow> 'z upb_st_scheme \<Rightarrow> bool" where
  "ample arena s \<longleftrightarrow> arena \<in> upb_arenas s \<and> arena_malloc_ok s = []"

lemma ample_put_array [simp]: "ample arena (put_array p A s) = ample arena s"
  by (simp add: ample_def)

lemma arena_malloc_ample: "ample arena s \<Longrightarrow> arena_malloc arena s = (Inr True, s)"
  by (simp add: ample_def arena_malloc_def)

lemma Array_Size_eq: "arrays s p = Some A \<Longrightarrow> upb_Array_Size p s = (Inr (arr_size A), s)"
  by (simp add: upb_Array_Size_def bind_xs_def array_at_Some)

lemma Array_Get_eq:
  assumes "arrays s p = Some A" "arr_ok A" "i < arr_size A" "arr_elems A ! i = Some v"
  shows "upb_Array_Get p i s = (Inr v, s)"
  using assms by (simp add: upb_Array_Get_def bind_xs_def array_at_Some arr_ok_def arr_elems_def)

lemma Array_Set_eq:
  "arrays s p = Some A \<Longrightarrow> i < arr_size A \<Longrightarrow> upb_Array_Set p i v s = (Inr (), put_array p (arr_set i v A) s)"
  by (simp add: upb_Array_Set_def bind_xs_def array_at_Some)

lemma ResizeUninitialized_eq:
  assumes "arrays s p = Some A" "n \<le> length (arr_data A) \<or> ample arena s"
  shows "upb_Array_ResizeUninitialized p n arena s = (Inr True, put_array p (arr_resize n A) s)"
  using assms by (auto simp: upb_Array_ResizeUninitialized_def bind_xs_def then_xs_def array_at_Some arena_malloc_ample)

lemma arr_size_elems: "arr_ok A \<Longrightarrow> length (arr_elems A) = arr_size A"
  by (simp add: arr_ok_def arr_elems_def)

lemma Array_Append_eq:
  assumes "arrays s p = Some A" "arr_ok A" "ample arena s"
  obtains B where "upb_Array_Append p v arena s = (Inr True, put_array p B s)" "arr_ok B"
    "arr_elems B = arr_elems A @ [Some v]" "arr_ctype B = arr_ctype A"
proof -
  let ?R = "arr_resize (Suc (arr_size A)) A"
  let ?B = "arr_set (arr_size A) v ?R"
  have "upb_Array_Append p v arena s = (Inr True, put_array p ?B s)"
    using assms by (simp add: upb_Array_Append_def bind_xs_def then_xs_def Array_Size_eq ResizeUninitialized_eq
        Array_Set_eq [of _ p ?R] arr_resize_facts)
  moreover have "arr_elems ?B = arr_elems A @ [Some v]"
    using upb_seq.elems_append [OF assms(2), of v] arr_size_elems [OF assms(2)] by simp
  moreover have "arr_ok ?B" using upb_seq.ok_put [OF upb_seq.ok_resize [OF assms(2)]] .
  ultimately show thesis by (intro that [of ?B]) (simp_all add: arr_set_def arr_resize_facts)
qed

lemma Array_Insert_eq:
  assumes "arrays s p = Some A" "arr_ok A" "ample arena s" "i \<le> arr_size A"
  shows "upb_Array_Insert p i n arena s = (Inr True, put_array p (arr_insert i n A) s)"
proof -
  let ?R = "arr_resize (arr_size A + n) A"
  have le: "arr_size A + n \<le> length (arr_data ?R)" by (rule arr_resize_facts)
  then show ?thesis
    using assms by (simp add: upb_Array_Insert_def bind_xs_def then_xs_def Array_Size_eq ResizeUninitialized_eq
        upb_Array_Move_def array_at_Some [of _ p ?R] arr_insert_def)
qed

lemma Array_Delete_eq:
  assumes "arrays s p = Some A" "arr_ok A" "i + n \<le> arr_size A"
  shows "upb_Array_Delete p i n s = (Inr (), put_array p (arr_delete i n A) s)"
proof -
  let ?M = "arr_move i (i + n) (arr_size A - (i + n)) A"
  have "arr_size ?M = arr_size A" by (simp add: arr_move_def)
  then show ?thesis
    using assms by (simp add: upb_Array_Delete_def bind_xs_def then_xs_def Array_Size_eq upb_Array_Move_def
        array_at_Some [of _ p A] array_at_Some [of _ p ?M] arr_ok_def arr_delete_def)
qed

lemma Array_Resize_shrink:
  assumes "arrays s p = Some A" "arr_ok A" "n \<le> arr_size A"
  shows "upb_Array_Resize p n arena s = (Inr True, put_array p (arr_resize n A) s)"
  using assms by (simp add: upb_Array_Resize_def bind_xs_def then_xs_def Array_Size_eq ResizeUninitialized_eq
      array_at_Some [of _ p "arr_resize n A"] arr_resize_facts arr_ok_def)

lemma zero_from_resize:
  assumes "arr_ok A" "arr_size A \<le> n"
  shows "arr_elems (arr_zero_from (arr_size A) (arr_resize n A)) =
      arr_elems A @ replicate (n - arr_size A) (Some (upb_MessageValue_Zero (arr_ctype A)))"
    and "arr_ok (arr_zero_from (arr_size A) (arr_resize n A))"
proof -
  let ?R = "arr_resize n A"
  have "take (arr_size A) (arr_data ?R) = take (arr_size A) (arr_data A)"
    using assms(1) take_take_prefix [OF arr_resize_facts(4) refl] by (simp add: arr_ok_def)
  moreover have "n \<le> length (arr_data ?R)" by (rule arr_resize_facts)
  ultimately show "arr_elems (arr_zero_from (arr_size A) ?R) =
      arr_elems A @ replicate (n - arr_size A) (Some (upb_MessageValue_Zero (arr_ctype A)))"
    "arr_ok (arr_zero_from (arr_size A) ?R)"
    using assms by (simp_all add: arr_elems_def arr_zero_from_def arr_resize_facts(1,5) arr_ok_def)
qed

lemma Array_Resize_grow:
  assumes "arrays s p = Some A" "arr_ok A" "ample arena s" "arr_size A < n"
  shows "upb_Array_Resize p n arena s = (Inr True, put_array p (arr_zero_from (arr_size A) (arr_resize n A)) s)"
  using assms by (simp add: upb_Array_Resize_def bind_xs_def then_xs_def Array_Size_eq ResizeUninitialized_eq
      array_at_Some [of _ p "arr_resize n A"] arr_resize_facts)

end
