(* ===== verification/Upb_Message.thy ===== *)
theory Upb_Message
  imports Upb_Array
begin

text \<open>
  Messages and maps of upb: reflection (\<open>vendor/upb/reflection/message.c\<close> with the
  accessors behind it), unknown fields (\<open>message/message.c\<close>,
  \<open>message/internal/message.h\<close>), maps (\<open>message/map.c\<close>, with the entries in iteration
  order) and deep copies (\<open>message/copy.c\<close>). Assertions of upb are faults: the build of
  the module does not switch them off.
\<close>

section \<open>Storing\<close>

definition put_message :: "ptr \<Rightarrow> upb_Message \<Rightarrow> 'z upb_st_scheme \<Rightarrow> 'z upb_st_scheme" where
  "put_message p M s = s\<lparr>messages := (messages s)(p \<mapsto> M)\<rparr>"

definition store_message :: "ptr \<Rightarrow> upb_Message \<Rightarrow> ('z upb_st_scheme, unit) xs" where
  "store_message p M = modify_xs (put_message p M)"

definition put_map :: "ptr \<Rightarrow> (upb_MessageValue \<times> upb_MessageValue) list \<Rightarrow> 'z upb_st_scheme \<Rightarrow> 'z upb_st_scheme" where
  "put_map p kvs s = s\<lparr>maps := (maps s)(p \<mapsto> \<lparr>map_entries = kvs\<rparr>)\<rparr>"

definition store_map :: "ptr \<Rightarrow> (upb_MessageValue \<times> upb_MessageValue) list \<Rightarrow> ('z upb_st_scheme, unit) xs" where
  "store_map p kvs = modify_xs (put_map p kvs)"

fun val_ptr :: "upb_MessageValue \<Rightarrow> ptr" where
  "val_ptr (Val_msg p) = p"
| "val_ptr (Val_array p) = p"
| "val_ptr (Val_map p) = p"
| "val_ptr _ = NULL"

section \<open>Maps\<close>

definition upb_Map_Size :: "ptr \<Rightarrow> ('z upb_st_scheme, nat) xs" where
  "upb_Map_Size m = bind_xs (map_at m) (\<lambda>kvs. ret (length kvs))"

definition upb_Map_Get :: "ptr \<Rightarrow> upb_MessageValue \<Rightarrow> ('z upb_st_scheme, upb_MessageValue option) xs" where
  "upb_Map_Get m k = bind_xs (map_at m) (\<lambda>kvs. ret (map_of kvs k))"

definition upb_Map_Clear :: "ptr \<Rightarrow> ('z upb_st_scheme, unit) xs" where
  "upb_Map_Clear m = bind_xs (map_at m) (\<lambda>_. store_map m [])"

definition upb_Map_Set :: "ptr \<Rightarrow> upb_MessageValue \<Rightarrow> upb_MessageValue \<Rightarrow> ptr \<Rightarrow> ('z upb_st_scheme, bool) xs" where
  "upb_Map_Set m k v arena =
     bind_xs (map_at m) (\<lambda>kvs.
     bind_xs (arena_malloc arena) (\<lambda>ok.
     if \<not> ok then ret False else then_xs (store_map m (kv_store k v kvs)) (ret True)))"

definition upb_Map_Delete :: "ptr \<Rightarrow> upb_MessageValue \<Rightarrow> ('z upb_st_scheme, bool) xs" where
  "upb_Map_Delete m k =
     bind_xs (map_at m) (\<lambda>kvs.
     then_xs (store_map m (kv_delete k kvs)) (ret (map_of kvs k \<noteq> None)))"

text \<open>\<open>upb_Map_Next\<close>: the entry at the iterator, which is then advanced.\<close>

definition upb_Map_Next :: "ptr \<Rightarrow> nat \<Rightarrow> ('z upb_st_scheme, ((upb_MessageValue \<times> upb_MessageValue) option \<times> nat)) xs" where
  "upb_Map_Next m iter =
     bind_xs (map_at m) (\<lambda>kvs.
     ret (if iter < length kvs then (Some (kvs ! iter), Suc iter) else (None, iter)))"

section \<open>Auxiliary data\<close>

definition find_ext :: "ptr \<Rightarrow> aux_entry list \<Rightarrow> upb_MessageValue option" where
  "find_ext e aux = map_of (List.map_filter (\<lambda>x. case x of Aux_ext f v \<Rightarrow> Some (f, v) | _ \<Rightarrow> None) aux) e"

fun set_ext :: "ptr \<Rightarrow> upb_MessageValue \<Rightarrow> aux_entry list \<Rightarrow> aux_entry list" where
  "set_ext e v [] = []"
| "set_ext e v (Aux_ext f w # aux) = (if f = e then Aux_ext f v # aux else Aux_ext f w # set_ext e v aux)"
| "set_ext e v (x # aux) = x # set_ext e v aux"

fun clear_ext :: "ptr \<Rightarrow> aux_entry list \<Rightarrow> aux_entry list" where
  "clear_ext e [] = []"
| "clear_ext e (Aux_ext f w # aux) = (if f = e then Aux_null # aux else Aux_ext f w # clear_ext e aux)"
| "clear_ext e (x # aux) = x # clear_ext e aux"

text \<open>\<open>upb_RoundUpToPowerOfTwo\<close> is the doubling loop started at 1.\<close>

definition upb_Message_ReserveSlot :: "ptr \<Rightarrow> ptr \<Rightarrow> ('z upb_st_scheme, bool) xs" where
  "upb_Message_ReserveSlot msg arena =
     bind_xs (message msg) (\<lambda>M.
     case um_aux_cap M of
       None \<Rightarrow> bind_xs (arena_malloc arena) (\<lambda>ok.
         if \<not> ok then ret False
         else then_xs (store_message msg (M\<lparr>um_aux_cap := Some 4\<rparr>)) (ret True))
     | Some c \<Rightarrow>
         if c = length (um_aux M) then
           bind_xs (arena_malloc arena) (\<lambda>ok.
           if \<not> ok then ret False
           else then_xs (store_message msg (M\<lparr>um_aux_cap := Some (log2_ceiling 1 (Suc (length (um_aux M))))\<rparr>)) (ret True))
         else ret True)"

definition upb_Message_SetExtension :: "ptr \<Rightarrow> ptr \<Rightarrow> upb_MessageValue \<Rightarrow> ptr \<Rightarrow> ('z upb_st_scheme, bool) xs" where
  "upb_Message_SetExtension msg e v arena =
     (if arena = NULL then fault ''assertion: arena''
      else bind_xs (message msg) (\<lambda>M.
       if find_ext e (um_aux M) \<noteq> None
       then then_xs (store_message msg (M\<lparr>um_aux := set_ext e v (um_aux M)\<rparr>)) (ret True)
       else bind_xs (upb_Message_ReserveSlot msg arena) (\<lambda>ok.
         if \<not> ok then ret False
         else bind_xs (arena_malloc arena) (\<lambda>ok.
           if \<not> ok then ret False
           else bind_xs (message msg) (\<lambda>M.
             then_xs (store_message msg (M\<lparr>um_aux := um_aux M @ [Aux_ext e v]\<rparr>)) (ret True))))))"

subsection \<open>Unknown fields\<close>

function next_unknown :: "aux_entry list \<Rightarrow> nat \<Rightarrow> byte list option \<times> nat" where
  "next_unknown aux i =
     (if i < length aux
      then (case aux ! i of Aux_unknown _ d \<Rightarrow> (Some d, Suc i) | _ \<Rightarrow> next_unknown aux (Suc i))
      else (None, i))"
  by auto
termination
  by (relation "measure (\<lambda>(aux, i). length aux - i)") auto

declare next_unknown.simps [simp del]

definition upb_Message_NextUnknown :: "ptr \<Rightarrow> nat \<Rightarrow> ('z upb_st_scheme, byte list option \<times> nat) xs" where
  "upb_Message_NextUnknown msg iter = bind_xs (message msg) (\<lambda>M. ret (next_unknown (um_aux M) iter))"

definition try_extend :: "ptr \<Rightarrow> ('z upb_st_scheme, bool) xs" where
  "try_extend arena = (\<lambda>s.
     if arena \<notin> upb_arenas s then (Inl (Fault ''upb_Arena_TryExtend in a dead arena''), s)
     else case try_extend_ok s of
       [] \<Rightarrow> (Inr False, s) | ok # os \<Rightarrow> (Inr ok, s\<lparr>try_extend_ok := os\<rparr>))"

text \<open>Reserve a slot, allocate the view and enter it.\<close>

definition add_unknown_entry :: "ptr \<Rightarrow> byte list \<Rightarrow> ptr \<Rightarrow> bool \<Rightarrow> ('z upb_st_scheme, bool) xs" where
  "add_unknown_entry msg data arena alias =
     bind_xs (upb_Message_ReserveSlot msg arena) (\<lambda>ok.
     if \<not> ok then ret False
     else bind_xs (arena_malloc arena) (\<lambda>ok.
       if \<not> ok then ret False
       else bind_xs (message msg) (\<lambda>M.
         then_xs (store_message msg (M\<lparr>um_aux := um_aux M @ [Aux_unknown alias data]\<rparr>)) (ret True))))"

definition upb_Message_AddUnknownSlowPath :: "ptr \<Rightarrow> byte list \<Rightarrow> ptr \<Rightarrow> bool \<Rightarrow> ('z upb_st_scheme, bool) xs" where
  "upb_Message_AddUnknownSlowPath msg data arena alias =
     bind_xs (message msg) (\<lambda>M.
     case (if alias \<or> um_aux M = [] then Aux_null else last (um_aux M)) of
       Aux_unknown aliased existing \<Rightarrow>
         if aliased then add_unknown_entry msg data arena alias
         else bind_xs (try_extend arena) (\<lambda>extended.
           if extended
           then then_xs (store_message msg (M\<lparr>um_aux := butlast (um_aux M) @ [Aux_unknown False (existing @ data)]\<rparr>)) (ret True)
           else add_unknown_entry msg data arena alias)
     | _ \<Rightarrow> add_unknown_entry msg data arena alias)"

text \<open>The XS sources only add in copy mode.\<close>

definition upb_Message_AddUnknown_Copy :: "ptr \<Rightarrow> byte list \<Rightarrow> ptr \<Rightarrow> ('z upb_st_scheme, bool) xs" where
  "upb_Message_AddUnknown_Copy msg data arena = upb_Message_AddUnknownSlowPath msg data arena False"

definition is_ext_entry :: "aux_entry \<Rightarrow> bool" where
  "is_ext_entry x \<longleftrightarrow> (case x of Aux_ext _ _ \<Rightarrow> True | _ \<Rightarrow> False)"

definition upb_Message_DiscardUnknown_shallow :: "ptr \<Rightarrow> ('z upb_st_scheme, unit) xs" where
  "upb_Message_DiscardUnknown_shallow msg =
     bind_xs (message msg) (\<lambda>M. store_message msg (M\<lparr>um_aux := filter is_ext_entry (um_aux M)\<rparr>))"

section \<open>Reflection\<close>

definition upb_Message_HasFieldByDef :: "ptr \<Rightarrow> ptr \<Rightarrow> ('z upb_st_scheme, bool) xs" where
  "upb_Message_HasFieldByDef msg f =
     bind_xs (fdef f) (\<lambda>d.
     if \<not> fd_has_presence d then fault ''assertion: upb_FieldDef_HasPresence''
     else bind_xs (message msg) (\<lambda>M.
       ret (if fd_is_extension d then find_ext f (um_aux M) \<noteq> None else map_of (um_fields M) f \<noteq> None)))"

definition field_value :: "upb_FieldDef \<Rightarrow> ptr \<Rightarrow> upb_Message \<Rightarrow> upb_MessageValue" where
  "field_value d f M =
     (case (if fd_is_extension d then find_ext f (um_aux M) else map_of (um_fields M) f) of
        Some v \<Rightarrow> v | None \<Rightarrow> fd_default d)"

definition upb_Message_GetFieldByDef :: "ptr \<Rightarrow> ptr \<Rightarrow> ('z upb_st_scheme, upb_MessageValue) xs" where
  "upb_Message_GetFieldByDef msg f =
     bind_xs (fdef f) (\<lambda>d. bind_xs (message msg) (\<lambda>M. ret (field_value d f M)))"

text \<open>Setting a member of a oneof makes it the oneof's case: its siblings are gone.\<close>

definition same_oneof :: "upb_defs \<Rightarrow> ptr \<Rightarrow> ptr \<Rightarrow> bool" where
  "same_oneof D f g \<longleftrightarrow>
     (case (fdefs D f, fdefs D g) of
        (Some d, Some e) \<Rightarrow> fd_oneof d \<noteq> NULL \<and> fd_oneof d = fd_oneof e
      | _ \<Rightarrow> False)"

definition set_base_field :: "upb_defs \<Rightarrow> ptr \<Rightarrow> upb_MessageValue \<Rightarrow> upb_Message \<Rightarrow> upb_Message" where
  "set_base_field D f v M =
     M\<lparr>um_fields := kv_store f v (filter (\<lambda>(g, _). g = f \<or> \<not> same_oneof D f g) (um_fields M))\<rparr>"

definition upb_Message_SetFieldByDef :: "ptr \<Rightarrow> ptr \<Rightarrow> upb_MessageValue \<Rightarrow> ptr \<Rightarrow> ('z upb_st_scheme, bool) xs" where
  "upb_Message_SetFieldByDef msg f v arena =
     bind_xs (fdef f) (\<lambda>d.
     if fd_is_extension d then upb_Message_SetExtension msg f v arena
     else bind_xs (message msg) (\<lambda>M. bind_xs (gets_xs defs) (\<lambda>D.
       then_xs (store_message msg (set_base_field D f v M)) (ret True))))"

definition upb_Message_ClearFieldByDef :: "ptr \<Rightarrow> ptr \<Rightarrow> ('z upb_st_scheme, unit) xs" where
  "upb_Message_ClearFieldByDef msg f =
     bind_xs (fdef f) (\<lambda>d. bind_xs (message msg) (\<lambda>M.
     store_message msg
       (if fd_is_extension d then M\<lparr>um_aux := clear_ext f (um_aux M)\<rparr>
        else M\<lparr>um_fields := kv_delete f (um_fields M)\<rparr>)))"

definition upb_Message_ClearByDef :: "ptr \<Rightarrow> ptr \<Rightarrow> ('z upb_st_scheme, unit) xs" where
  "upb_Message_ClearByDef msg m =
     bind_xs (message msg) (\<lambda>M. store_message msg (M\<lparr>um_fields := [], um_aux := []\<rparr>))"

definition upb_Message_WhichOneofByDef :: "ptr \<Rightarrow> ptr \<Rightarrow> ('z upb_st_scheme, ptr) xs" where
  "upb_Message_WhichOneofByDef msg o1 =
     bind_xs (gets_xs (\<lambda>s. oneofdefs (defs s) o1)) (\<lambda>od.
     case od of
       None \<Rightarrow> fault ''oneof definition of a bad pointer''
     | Some od \<Rightarrow>
         if od_synthetic od then
           bind_xs (upb_Message_HasFieldByDef msg (hd (od_fields od))) (\<lambda>has.
           ret (if has then hd (od_fields od) else NULL))
         else bind_xs (message msg) (\<lambda>M.
           ret (case find (\<lambda>f. map_of (um_fields M) f \<noteq> None) (od_fields od) of None \<Rightarrow> NULL | Some f \<Rightarrow> f)))"

definition upb_Message_Mutable :: "ptr \<Rightarrow> ptr \<Rightarrow> ptr \<Rightarrow> ('z upb_st_scheme, ptr) xs" where
  "upb_Message_Mutable msg f arena =
     bind_xs (fdef f) (\<lambda>d. bind_xs (gets_xs (\<lambda>s. is_map (defs s) d)) (\<lambda>mapf.
     let make =
       (if arena = NULL then ret NULL
        else bind_xs
          (if mapf then upb_Map_New arena
           else if fd_repeated d then upb_Array_New arena (upb_FieldType_CType (fd_type d))
           else upb_Message_New arena) (\<lambda>p.
          then_xs (upb_Message_SetFieldByDef msg f
             (if mapf then Val_map p else if fd_repeated d then Val_array p else Val_msg p) arena) (ret p)))
     in if \<not> (is_submsg d \<or> fd_repeated d) then fault ''assertion: submessage or repeated field''
        else bind_xs (if fd_has_presence d then upb_Message_HasFieldByDef msg f else ret True) (\<lambda>has.
          if \<not> has then make
          else bind_xs (upb_Message_GetFieldByDef msg f) (\<lambda>v.
            if val_ptr v \<noteq> NULL then ret (val_ptr v) else make))))"

text \<open>
  \<open>upb_Message_Next\<close>: whether a field is visited, then the loop over the fields and,
  with a pool, over the extensions. The iterator counts from 0 where the C code starts
  at -1.
\<close>

definition field_visited :: "ptr \<Rightarrow> upb_FieldDef \<Rightarrow> upb_Message \<Rightarrow> ('z upb_st_scheme, bool) xs" where
  "field_visited f d M =
     (if fd_has_presence d then ret (map_of (um_fields M) f \<noteq> None)
      else case field_value d f M of
        Val_map p \<Rightarrow> if p = NULL then ret False else bind_xs (upb_Map_Size p) (\<lambda>n. ret (n \<noteq> 0))
      | Val_array p \<Rightarrow> if p = NULL then ret False else bind_xs (upb_Array_Size p) (\<lambda>n. ret (n \<noteq> 0))
      | v \<Rightarrow> ret (v \<noteq> upb_MessageValue_Zero (upb_FieldType_CType (fd_type d))))"

fun next_field :: "upb_Message \<Rightarrow> nat \<Rightarrow> ptr list \<Rightarrow> ('z upb_st_scheme, (ptr \<times> upb_MessageValue \<times> nat) option) xs" where
  "next_field M i [] = ret None"
| "next_field M i (f # fs) =
     bind_xs (fdef f) (\<lambda>d. bind_xs (field_visited f d M) (\<lambda>v.
     if v then ret (Some (f, field_value d f M, Suc i)) else next_field M (Suc i) fs))"

fun next_ext :: "nat \<Rightarrow> aux_entry list \<Rightarrow> (ptr \<times> upb_MessageValue \<times> nat) option" where
  "next_ext i [] = None"
| "next_ext i (Aux_ext f v # aux) = Some (f, v, Suc i)"
| "next_ext i (x # aux) = next_ext (Suc i) aux"

definition upb_Message_Next ::
    "ptr \<Rightarrow> ptr \<Rightarrow> ptr \<Rightarrow> nat \<Rightarrow> ('z upb_st_scheme, (ptr \<times> upb_MessageValue) option \<times> nat) xs" where
  "upb_Message_Next msg m ext_pool iter =
     bind_xs (mdef m) (\<lambda>d. bind_xs (message msg) (\<lambda>M.
     bind_xs (next_field M iter (drop iter (md_fields d))) (\<lambda>r.
     let n = length (md_fields d); i = max iter n
     in case r of
          Some (f, v, iter') \<Rightarrow> ret (Some (f, v), iter')
        | None \<Rightarrow>
            if ext_pool = NULL then ret (None, i)
            else (case next_ext i (drop (i - n) (um_aux M)) of
                    Some (f, v, iter') \<Rightarrow> ret (Some (f, v), iter')
                  | None \<Rightarrow> ret (None, max i (n + length (um_aux M)))))))"

section \<open>Deep copies\<close>

text \<open>
  \<open>clone\<close> is \<open>upb_Message_DeepClone\<close>, tied below; its second argument is the definition
  that stands for the mini table.
\<close>

definition upb_Clone_MessageValue ::
    "(ptr \<Rightarrow> ptr \<Rightarrow> ('z upb_st_scheme, ptr) xs) \<Rightarrow> ptr \<Rightarrow> upb_FieldDef \<Rightarrow> upb_MessageValue \<Rightarrow>
     ('z upb_st_scheme, upb_MessageValue option) xs" where
  "upb_Clone_MessageValue clone arena d v =
     (case v of
        Val_str _ \<Rightarrow> bind_xs (arena_malloc arena) (\<lambda>ok. ret (if ok then Some v else None))
      | Val_msg p \<Rightarrow>
          if p = NULL then fault ''assertion: source''
          else bind_xs (clone p (fd_msg_subdef d)) (\<lambda>q. ret (if q = NULL then None else Some (Val_msg q)))
      | _ \<Rightarrow> ret (Some v))"

definition upb_Array_DeepClone ::
    "(ptr \<Rightarrow> ptr \<Rightarrow> ('z upb_st_scheme, ptr) xs) \<Rightarrow> ptr \<Rightarrow> upb_FieldDef \<Rightarrow> ptr \<Rightarrow> ('z upb_st_scheme, ptr) xs" where
  "upb_Array_DeepClone clone arena d src =
     bind_xs (upb_Array_Size src) (\<lambda>n.
     bind_xs (upb_Array_New arena (upb_FieldType_CType (fd_type d))) (\<lambda>dst.
     if dst = NULL then ret NULL
     else bind_xs (upb_Array_ResizeUninitialized dst n arena) (\<lambda>ok.
       if \<not> ok then ret NULL
       else bind_xs (all_xs (\<lambda>i.
           bind_xs (upb_Array_Get src i) (\<lambda>v. bind_xs (upb_Clone_MessageValue clone arena d v) (\<lambda>w.
           case w of None \<Rightarrow> ret False | Some w \<Rightarrow> then_xs (upb_Array_Set dst i w) (ret True)))) [0..<n])
         (\<lambda>ok. ret (if ok then dst else NULL)))))"

definition upb_Map_DeepClone ::
    "(ptr \<Rightarrow> ptr \<Rightarrow> ('z upb_st_scheme, ptr) xs) \<Rightarrow> ptr \<Rightarrow> upb_FieldDef \<Rightarrow> ptr \<Rightarrow> ('z upb_st_scheme, ptr) xs" where
  "upb_Map_DeepClone clone arena d src =
     bind_xs (upb_Map_New arena) (\<lambda>dst.
     if dst = NULL then ret NULL
     else bind_xs (map_at src) (\<lambda>kvs.
       bind_xs (gets_xs (\<lambda>s. fdefs (defs s) (upb_MessageDef_FindFieldByNumber (defs s) (fd_msg_subdef d) 2))) (\<lambda>vd.
       case vd of
         None \<Rightarrow> fault ''map entry without a value field''
       | Some vd \<Rightarrow>
           bind_xs (all_xs (\<lambda>(k, v).
               bind_xs (upb_Clone_MessageValue clone arena vd v) (\<lambda>w.
               case w of None \<Rightarrow> ret False | Some w \<Rightarrow> upb_Map_Set dst k w arena)) kvs)
             (\<lambda>ok. ret (if ok then dst else NULL)))))"

text \<open>
  One field of \<open>_upb_Message_Copy\<close>, after the block of the source has been copied. The
  clone of a string is used without a test for null; a failed clone of an array is
  stored as null and reported as success.
\<close>

definition copy_field ::
    "(ptr \<Rightarrow> ptr \<Rightarrow> ('z upb_st_scheme, ptr) xs) \<Rightarrow> ptr \<Rightarrow> ptr \<Rightarrow> upb_Message \<Rightarrow> ptr \<Rightarrow> ('z upb_st_scheme, bool) xs" where
  "copy_field clone arena dst S f =
     bind_xs (fdef f) (\<lambda>d.
     let put = (\<lambda>v. bind_xs (message dst) (\<lambda>M. store_message dst (M\<lparr>um_fields := kv_store f v (um_fields M)\<rparr>)))
     in case map_of (um_fields S) f of
          Some (Val_msg p) \<Rightarrow>
            if p = NULL then ret True
            else bind_xs (clone p (fd_msg_subdef d)) (\<lambda>q.
              if q = NULL then ret False else then_xs (put (Val_msg q)) (ret True))
        | Some (Val_str bs) \<Rightarrow>
            if bs = [] then ret True
            else bind_xs (arena_malloc arena) (\<lambda>ok.
              if \<not> ok then fault ''memcpy to a null pointer'' else ret True)
        | Some (Val_map p) \<Rightarrow>
            if p = NULL then ret True
            else bind_xs (upb_Map_DeepClone clone arena d p) (\<lambda>q.
              if q = NULL then ret False else then_xs (put (Val_map q)) (ret True))
        | Some (Val_array p) \<Rightarrow>
            if p = NULL then ret True
            else bind_xs (upb_Array_DeepClone clone arena d p) (\<lambda>q. then_xs (put (Val_array q)) (ret True))
        | _ \<Rightarrow> ret True)"

text \<open>
  One auxiliary entry. An extension is created in the target first, with its memory
  zeroed; a failed clone leaves it there with what had been stored by then.
\<close>

definition upb_Message_GetOrCreateExtension :: "ptr \<Rightarrow> ptr \<Rightarrow> upb_MessageValue \<Rightarrow> ptr \<Rightarrow> ('z upb_st_scheme, bool) xs" where
  "upb_Message_GetOrCreateExtension msg e zero arena =
     bind_xs (message msg) (\<lambda>M.
     if find_ext e (um_aux M) \<noteq> None then ret True else upb_Message_SetExtension msg e zero arena)"

definition copy_aux ::
    "(ptr \<Rightarrow> ptr \<Rightarrow> ('z upb_st_scheme, ptr) xs) \<Rightarrow> ptr \<Rightarrow> ptr \<Rightarrow> aux_entry \<Rightarrow> ('z upb_st_scheme, bool) xs" where
  "copy_aux clone arena dst x =
     (let put = (\<lambda>e v. bind_xs (message dst) (\<lambda>M. store_message dst (M\<lparr>um_aux := set_ext e v (um_aux M)\<rparr>)))
      in case x of
        Aux_null \<Rightarrow> ret True
      | Aux_unknown _ data \<Rightarrow> upb_Message_AddUnknown_Copy dst data arena
      | Aux_ext e v \<Rightarrow>
          bind_xs (fdef e) (\<lambda>d.
          bind_xs (upb_Message_GetOrCreateExtension dst e
            (if fd_repeated d then Val_array NULL else upb_MessageValue_Zero (upb_FieldType_CType (fd_type d))) arena) (\<lambda>ok.
          if \<not> ok then ret False
          else if \<not> fd_repeated d then
            then_xs (put e v)
            (bind_xs (upb_Clone_MessageValue clone arena d v) (\<lambda>w.
             case w of
               None \<Rightarrow> then_xs (case v of Val_msg _ \<Rightarrow> put e (Val_msg NULL) | _ \<Rightarrow> ret ()) (ret False)
             | Some w \<Rightarrow> then_xs (put e w) (ret True)))
          else if val_ptr v = NULL then fault ''assertion: msg_array''
          else bind_xs (upb_Array_DeepClone clone arena d (val_ptr v)) (\<lambda>q.
            if q = NULL then ret False else then_xs (put e (Val_array q)) (ret True)))))"

fun upb_Message_Copy :: "nat \<Rightarrow> ptr \<Rightarrow> ptr \<Rightarrow> ptr \<Rightarrow> ptr \<Rightarrow> ('z upb_st_scheme, bool) xs" where
  "upb_Message_Copy 0 arena dst src m = fault ''C stack exhausted''"
| "upb_Message_Copy (Suc n) arena dst src m =
     (let clone = (\<lambda>p sub. bind_xs (upb_Message_New arena) (\<lambda>q.
                     bind_xs (upb_Message_Copy n arena q p sub) (\<lambda>ok. ret (if ok then q else NULL))))
      in bind_xs (message src) (\<lambda>S. bind_xs (message dst) (\<lambda>M.
         then_xs (store_message dst (M\<lparr>um_fields := um_fields S\<rparr>))
         (bind_xs (mdef m) (\<lambda>d.
          bind_xs (all_xs (copy_field clone arena dst S) (md_fields d)) (\<lambda>ok.
          if \<not> ok then ret False
          else all_xs (copy_aux clone arena dst) (um_aux S)))))))"

definition upb_Message_DeepCopy :: "ptr \<Rightarrow> ptr \<Rightarrow> ptr \<Rightarrow> ptr \<Rightarrow> ('z upb_st_scheme, bool) xs" where
  "upb_Message_DeepCopy dst src m arena =
     then_xs (upb_Message_ClearByDef dst m)
     (bind_xs (gets_xs stack_limit) (\<lambda>n. upb_Message_Copy n arena dst src m))"

section \<open>Facts\<close>

lemma put_message_frame [simp]:
  "heap (put_message p M s) = heap s" "isa (put_message p M s) = isa s" "raw_arenas (put_message p M s) = raw_arenas s"
  "upb_arenas (put_message p M s) = upb_arenas s" "arena_malloc_ok (put_message p M s) = arena_malloc_ok s"
  "cheap (put_message p M s) = cheap s" "messages (put_message p M s) = (messages s)(p \<mapsto> M)" "defs (put_message p M s) = defs s"
  "arrays (put_message p M s) = arrays s" "maps (put_message p M s) = maps s" "put_message p M (put_message p K s) = put_message p M s"
  "try_extend_ok (put_message p M s) = try_extend_ok s" "next_ptr (put_message p M s) = next_ptr s" "next_addr (put_message p M s) = next_addr s"
  "PL_dirty (put_message p M s) = PL_dirty s"
  by (simp_all add: put_message_def)

lemma message_Some: "messages s p = Some M \<Longrightarrow> message p s = (Inr M, s)"
  by (simp add: message_def)

lemma store_message_apply [simp]: "store_message p M s = (Inr (), put_message p M s)"
  by (simp add: store_message_def)

section \<open>An example\<close>

text \<open>
  A small schema for evaluating the model: a message with scalar, string, repeated,
  nested, map and oneof fields, its map entry, an extension, an enumeration and their
  file and pool; and a state with one arena, owned by the Perl object at address 0, and
  one empty message.
\<close>

definition ex_field :: "string \<Rightarrow> u32 \<Rightarrow> upb_FieldType \<Rightarrow> upb_MessageValue \<Rightarrow> upb_FieldDef" where
  "ex_field name num ty dflt =
     \<lparr>fd_name = name, fd_number = num, fd_type = ty, fd_repeated = False, fd_msg_subdef = NULL, fd_enum_subdef = NULL,
      fd_has_presence = True, fd_is_extension = False, fd_is_packed = False, fd_label = 1, fd_oneof = NULL, fd_default = dflt\<rparr>"

definition ex_defs :: upb_defs where
  "ex_defs =
     \<lparr>fdefs = [0x110 \<mapsto> ex_field ''id'' 1 kUpb_FieldType_Int32 (Val_int32 0),
               0x120 \<mapsto> ex_field ''name'' 2 kUpb_FieldType_String (Val_str []),
               0x130 \<mapsto> (ex_field ''nums'' 3 kUpb_FieldType_Int32 (Val_array NULL))\<lparr>fd_repeated := True, fd_has_presence := False, fd_label := 3\<rparr>,
               0x140 \<mapsto> (ex_field ''child'' 4 kUpb_FieldType_Message (Val_msg NULL))\<lparr>fd_msg_subdef := 0x100\<rparr>,
               0x150 \<mapsto> (ex_field ''tags'' 5 kUpb_FieldType_Message (Val_map NULL))
                          \<lparr>fd_msg_subdef := 0x108, fd_repeated := True, fd_has_presence := False, fd_label := 3\<rparr>,
               0x160 \<mapsto> (ex_field ''flag'' 6 kUpb_FieldType_Bool (Val_bool False))\<lparr>fd_oneof := 0x190\<rparr>,
               0x170 \<mapsto> (ex_field ''color'' 7 kUpb_FieldType_Enum (Val_int32 0))\<lparr>fd_oneof := 0x190, fd_enum_subdef := 0x180\<rparr>,
               0x178 \<mapsto> (ex_field ''plain'' 8 kUpb_FieldType_UInt32 (Val_uint32 0))\<lparr>fd_has_presence := False\<rparr>,
               0x111 \<mapsto> ex_field ''key'' 1 kUpb_FieldType_String (Val_str []),
               0x112 \<mapsto> ex_field ''value'' 2 kUpb_FieldType_Int32 (Val_int32 0),
               0x1A0 \<mapsto> (ex_field ''ext'' 100 kUpb_FieldType_Int32 (Val_int32 0))\<lparr>fd_is_extension := True\<rparr>],
      mdefs = [0x100 \<mapsto> \<lparr>md_full_name = ''demo.Msg'', md_file = 0x1C0,
                 md_fields = [0x110, 0x120, 0x130, 0x140, 0x150, 0x160, 0x170, 0x178], md_map_entry = False, md_minitable = 0x101\<rparr>,
               0x108 \<mapsto> \<lparr>md_full_name = ''demo.Msg.TagsEntry'', md_file = 0x1C0, md_fields = [0x111, 0x112],
                 md_map_entry = True, md_minitable = 0x109\<rparr>],
      filedefs = [0x1C0 \<mapsto> \<lparr>file_name = ''dir/my_file.proto'', file_package = Some ''demo'', file_pool = 0x1D0\<rparr>],
      enumdefs = [0x180 \<mapsto> \<lparr>ed_file = 0x1C0, ed_values = [(bytes_of ''RED'', 0), (bytes_of ''BLUE'', 1)]\<rparr>],
      oneofdefs = [0x190 \<mapsto> \<lparr>od_fields = [0x160, 0x170], od_synthetic = False\<rparr>],
      enumvaluedefs = [0x184 \<mapsto> \<lparr>ev_name = ''RED'', ev_number = 0, ev_index = 0\<rparr>],
      servicedefs = [0x1B0 \<mapsto> \<lparr>sd_full_name = ''demo.Svc'', sd_index = 0, sd_methods = [0x1B8], sd_file = 0x1C0\<rparr>],
      methoddefs = [0x1B8 \<mapsto> \<lparr>meth_full_name = ''demo.Svc.Call'', meth_index = 0, meth_input_type = 0x100, meth_output_type = 0x100,
                      meth_client_streaming = False, meth_server_streaming = True, meth_service = 0x1B0\<rparr>],
      pools = [0x1D0 \<mapsto> \<lparr>dp_files = [(''dir/my_file.proto'', 0x1C0)], dp_messages = [(''demo.Msg'', 0x100)],
                 dp_enums = [(''demo.Color'', 0x180)], dp_services = [(''demo.Svc'', 0x1B0)], dp_extensions = [(''demo.ext'', 0x1A0)]\<rparr>]\<rparr>"

definition upb_boot :: upb_st where
  "upb_boot = (cache_st.extend cache_boot
     \<lparr>raw_arenas = [0x1F00 \<mapsto> Raw_Arena \<lparr>pa_arena = 0x2000, pa_stats_alloc = zero_stats\<rparr>], upb_arenas = {0x2000},
      block_allocs = Map.empty, open_fds = [], mapped = [], next_ptr = 0x8000, arena_init_ok = [], open_results = [],
      ftruncate_results = [], mmap_results = [], regular_files = Map.empty, guard_pages = False, realloc_results = [],
      chaos_draws = [], hv_bucket_type = 0,
      defs = ex_defs, messages = [0x3000 \<mapsto> \<lparr>um_fields = [], um_aux = [], um_aux_cap = None\<rparr>],
      arrays = Map.empty, maps = Map.empty, arena_malloc_ok = [], try_extend_ok = [], cheap = Map.empty, ios = Map.empty,
      stack_limit = 10, generated_pool_ptr = NULL, generated_pool_iv = None\<rparr>)
     \<lparr>heap := [0 \<mapsto> arena_object 0x1F00], next_addr := 1\<rparr>"

lemma cache_boot_isa: "isa cache_boot = (\<lambda>_. [])" "stash_cache (the (registry cache_boot)) = []"
  by (simp_all add: cache_boot_def perl_boot_def PerlUpb_ObjCache_Init_def PerlUpb_Registry_Get_def PerlUpb_Registry_Init_def
      bind_xs_def then_xs_def Let_def)

lemma upb_boot_facts [simp]:
  "ready upb_boot" "obj_cache_hv upb_boot = Some []" "obj_lru_av upb_boot = Some []" "cap upb_boot = 100000"
  "heap upb_boot = [0 \<mapsto> arena_object 0x1F00]" "next_addr upb_boot = 1" "isa upb_boot = (\<lambda>_. [])"
  "stash_cache (the (registry upb_boot)) = []" "defs upb_boot = ex_defs" "arrays upb_boot = Map.empty" "maps upb_boot = Map.empty"
  "messages upb_boot = [0x3000 \<mapsto> \<lparr>um_fields = [], um_aux = [], um_aux_cap = None\<rparr>]"
  "raw_arenas upb_boot = [0x1F00 \<mapsto> Raw_Arena \<lparr>pa_arena = 0x2000, pa_stats_alloc = zero_stats\<rparr>]"
  "upb_arenas upb_boot = {0x2000}" "arena_malloc_ok upb_boot = []" "next_ptr upb_boot = 0x8000" "cheap upb_boot = Map.empty"
  "try_extend_ok upb_boot = []" "ios upb_boot = Map.empty" "\<not> PL_dirty upb_boot" "stack_limit upb_boot = 10"
  using cache_boot_ready cache_boot_facts(4-6) cache_boot_isa
  by (auto simp: upb_boot_def cache_st.extend_def ready_def)

end
