(* ===== verification/Utils.thy ===== *)
theory Utils
  imports Upb_Message Names
begin

text \<open>
  The rest of \<open>xs/protobuf/utils.c\<close> (class look-up, wrapper objects, 64-bit numbers,
  error reporting, the vectorised range check, field vectors) and
  \<open>xs/protobuf/message.c\<close>, which wraps messages. A stash is named by its class; the
  push onto \<open>\<at>ISA\<close> is an update of \<open>isa\<close>.
\<close>

section \<open>Strings\<close>

definition PerlUpb_GetStrData :: "str_num \<Rightarrow> sv option \<Rightarrow> byte list option" where
  "PerlUpb_GetStrData N v =
     (case v of None \<Rightarrow> None | Some v \<Rightarrow> if \<not> SvPOK v then None else Some (SvPVutf8 N v))"

definition PerlUpb_VerifyStrData :: "str_num \<Rightarrow> sv option \<Rightarrow> ('s, byte list) xs" where
  "PerlUpb_VerifyStrData N v =
     (case v of
        None \<Rightarrow> croak ''Expected a string SV'' []
      | Some v \<Rightarrow> if \<not> SvPOK v then croak ''Expected a string SV'' [] else ret (SvPVutf8 N v))"

section \<open>Classes of messages\<close>

text \<open>
  The class name: package, file and message parts joined by double colons. A message
  outside its file's package keeps its whole name.
\<close>

definition strip_dot :: "string \<Rightarrow> string" where
  "strip_dot s = (case s of c # cs \<Rightarrow> if c = CHR ''.'' then cs else s | [] \<Rightarrow> [])"

definition rel_name :: "string \<Rightarrow> string option \<Rightarrow> string" where
  "rel_name full_name pkg =
     (let r = strip_dot full_name
      in case pkg of
           None \<Rightarrow> r
         | Some p \<Rightarrow>
             if p \<noteq> [] \<and> take (length p) r = p then strip_dot (drop (length p) r) else r)"

definition message_class :: "string \<Rightarrow> string \<Rightarrow> string option \<Rightarrow> string" where
  "message_class full_name proto_file pkg =
     (let file_mod = get_file_module proto_file;
          msg_path = (case capitalize_path (Some (rel_name full_name pkg)) of
                        None \<Rightarrow> ''UnknownMessage'' | Some m \<Rightarrow> m)
      in case capitalize_path pkg of
           Some pkg_mod \<Rightarrow> pkg_mod @ ''::'' @ file_mod @ ''::'' @ msg_path
         | None \<Rightarrow> file_mod @ ''::'' @ msg_path)"

text \<open>
  The package whose \<open>\<at>ISA\<close> is extended: the name of the array is cut to 1023
  characters, so for a longer class it is some other array.
\<close>

definition isa_package :: "string \<Rightarrow> string option" where
  "isa_package class_name =
     (let n = take 1023 (class_name @ ''::ISA'')
      in if drop (length n - 5) n = ''::ISA'' then Some (take (length n - 5) n) else None)"

definition push_isa :: "string \<Rightarrow> 'z perl_st_scheme \<Rightarrow> 'z perl_st_scheme" where
  "push_isa class_name s =
     (case isa_package class_name of
        None \<Rightarrow> s
      | Some c \<Rightarrow>
          if ''Protobuf::Message'' \<in> set (isa s c) then s
          else s\<lparr>isa := (isa s)(c := isa s c @ [''Protobuf::Message''])\<rparr>)"

definition PerlUpb_GetMessageStash :: "ptr \<Rightarrow> ('z upb_st_scheme, string) xs" where
  "PerlUpb_GetMessageStash m =
     (if m = NULL then ret ''Protobuf::Message''
      else bind_xs (lift_xs PerlUpb_Registry_Get) (\<lambda>reg.
       case Option.bind reg (\<lambda>reg. map_of (stash_cache reg) m) of
         Some stash \<Rightarrow> ret stash
       | None \<Rightarrow>
           bind_xs (mdef m) (\<lambda>d.
           bind_xs (filedef (md_file d)) (\<lambda>f.
           let class_name = message_class (md_full_name d) (file_name f) (file_package f)
           in then_xs (modify_xs (push_isa class_name))
              (then_xs (case reg of
                  None \<Rightarrow> ret ()
                | Some _ \<Rightarrow> modify_xs (\<lambda>s. s\<lparr>registry := map_option (\<lambda>reg.
                    reg\<lparr>stash_cache := kv_store m class_name (stash_cache reg)\<rparr>) (registry s)\<rparr>))
              (ret class_name))))))"

section \<open>Errors\<close>

definition PerlUpb_Error_Die :: "string \<Rightarrow> carg list \<Rightarrow> ('s, unit) xs" where
  "PerlUpb_Error_Die fmt args = croak fmt args"

datatype upb_DecodeStatus =
    kUpb_DecodeStatus_Ok | kUpb_DecodeStatus_OutOfMemory | kUpb_DecodeStatus_Malformed
  | kUpb_DecodeStatus_BadUtf8 | kUpb_DecodeStatus_MaxDepthExceeded | kUpb_DecodeStatus_MissingRequired

fun upb_DecodeStatus_String :: "upb_DecodeStatus \<Rightarrow> string" where
  "upb_DecodeStatus_String kUpb_DecodeStatus_Ok = ''Ok''"
| "upb_DecodeStatus_String kUpb_DecodeStatus_Malformed = ''Wire format was corrupt''"
| "upb_DecodeStatus_String kUpb_DecodeStatus_OutOfMemory = ''Arena alloc failed''"
| "upb_DecodeStatus_String kUpb_DecodeStatus_BadUtf8 = ''String field had bad UTF-8''"
| "upb_DecodeStatus_String kUpb_DecodeStatus_MaxDepthExceeded = ''Exceeded upb_DecodeOptions_MaxDepth''"
| "upb_DecodeStatus_String kUpb_DecodeStatus_MissingRequired = ''Missing required field''"

fun decode_description :: "upb_DecodeStatus \<Rightarrow> string" where
  "decode_description kUpb_DecodeStatus_Ok = ''Unknown error''"
| "decode_description kUpb_DecodeStatus_Malformed = ''Protobuf wire format is malformed or corrupt''"
| "decode_description kUpb_DecodeStatus_OutOfMemory = ''Out of memory during decoding (Arena allocation failed)''"
| "decode_description kUpb_DecodeStatus_BadUtf8 = ''String field contains invalid UTF-8 data''"
| "decode_description kUpb_DecodeStatus_MaxDepthExceeded = ''Message nesting depth exceeds the configured limit''"
| "decode_description kUpb_DecodeStatus_MissingRequired = ''Message is missing required fields (proto2 only)''"

definition PerlUpb_DecodeStatus_Die :: "upb_DecodeStatus \<Rightarrow> string option \<Rightarrow> ('s, unit) xs" where
  "PerlUpb_DecodeStatus_Die status ctxt =
     (if status = kUpb_DecodeStatus_Ok then ret ()
      else case ctxt of
        Some c \<Rightarrow> croak ''Failed to %s: %s (%s)''
                   [CStr c, CStr (decode_description status), CStr (upb_DecodeStatus_String status)]
      | None \<Rightarrow> croak ''Protobuf decode error: %s (%s)''
                   [CStr (decode_description status), CStr (upb_DecodeStatus_String status)])"

definition PerlUpb_CroakWithContext :: "string \<Rightarrow> ptr \<Rightarrow> ptr \<Rightarrow> ('z upb_st_scheme, 'a) xs" where
  "PerlUpb_CroakWithContext msg m f =
     (if m = NULL then croak ''%s'' [CStr msg]
      else bind_xs (mdef m) (\<lambda>d.
        if f = NULL then croak ''%s (in message %s)'' [CStr msg, CStr (md_full_name d)]
        else bind_xs (fdef f) (\<lambda>fd.
          croak ''%s (at %s.%s)'' [CStr msg, CStr (md_full_name d), CStr (fd_name fd)])))"

text \<open>The dump of the two buffers on standard error is left out.\<close>

definition PerlUpb_VerifyBinaryDiff :: "byte list \<Rightarrow> byte list \<Rightarrow> string \<Rightarrow> ('s, unit) xs" where
  "PerlUpb_VerifyBinaryDiff a b name =
     (if length a = length b \<and> a = b then ret ()
      else croak ''Binary diff verification failed: %s'' [CStr name])"

section \<open>Wrapper objects\<close>

definition PerlUpb_GetMagic :: "'z perl_st_scheme \<Rightarrow> sv option \<Rightarrow> magic option" where
  "PerlUpb_GetMagic s v = Option.bind (deref s v) (\<lambda>r. mg_findext r Wrapper_vtbl)"

text \<open>The hash a fresh wrapper consists of.\<close>

definition wrapper_hv :: "ptr \<Rightarrow> sv option \<Rightarrow> string \<Rightarrow> u16 \<Rightarrow> referent" where
  "wrapper_hv p arena_sv stash flags =
     (let hv = hv_store ''_upb_ptr'' (newSViv p) newHV;
          hv = (case arena_sv of
                  Some a \<Rightarrow> if SvOK a then hv_store ''_arena_sv'' a hv else hv
                | None \<Rightarrow> hv)
      in mg_update Wrapper_vtbl (\<lambda>m. m\<lparr>mg_private := flags\<rparr>)
           (sv_magicext Wrapper_vtbl p (sv_bless stash hv)))"

definition PerlUpb_WrapArenaBoundObject ::
    "ptr \<Rightarrow> sv option \<Rightarrow> string \<Rightarrow> u16 \<Rightarrow> ('z cache_st_scheme, sv) xs" where
  "PerlUpb_WrapArenaBoundObject p arena_sv stash flags =
     (if p = NULL then ret PL_sv_undef
      else bind_xs (lift_xs (PerlUpb_ObjCache_Get p)) (\<lambda>cached.
       case cached of
         Some v \<Rightarrow> ret v
       | None \<Rightarrow>
           bind_xs (alloc (wrapper_hv p arena_sv stash flags)) (\<lambda>a.
           then_xs (PerlUpb_ObjCache_Add p (Some (newRV a))) (ret (newRV a)))))"

definition PerlUpb_GetArenaBoundObject_Silent ::
    "'z perl_st_scheme \<Rightarrow> sv option \<Rightarrow> string option \<Rightarrow> ptr" where
  "PerlUpb_GetArenaBoundObject_Silent s v cls =
     (case deref s v of
        None \<Rightarrow> NULL
      | Some r \<Rightarrow>
          if \<not> is_HV r then NULL
          else if (case cls of None \<Rightarrow> False | Some c \<Rightarrow> \<not> sv_derived_from s v c) then NULL
          else if mg_findext r Wrapper_vtbl = None then NULL
          else (case iv_ptr (hv_fetch r ''_upb_ptr'') of None \<Rightarrow> NULL | Some p \<Rightarrow> p))"

text \<open>\<open>SvTYPE\<close> of a plain scalar with the given slots.\<close>

definition scalar_type :: "sv \<Rightarrow> int" where
  "scalar_type v =
     (if SvPOK v then (if SvNOK v then 6 else if SvIOK v then 5 else 3)
      else if SvNOK v then (if SvIOK v then 6 else 2)
      else if SvIOK v \<or> SvROK v then 1 else 0)"

abbreviation cstr :: "string option \<Rightarrow> carg" where
  "cstr c \<equiv> CStr (case c of None \<Rightarrow> ''(null)'' | Some c \<Rightarrow> c)"

definition PerlUpb_GetArenaBoundObject :: "sv option \<Rightarrow> string option \<Rightarrow> ('z perl_st_scheme, ptr) xs" where
  "PerlUpb_GetArenaBoundObject v cls =
     (case v of
        None \<Rightarrow> ret NULL
      | Some u \<Rightarrow>
          if \<not> SvOK u then ret NULL
          else bind_xs (gets_xs (\<lambda>s. PerlUpb_GetArenaBoundObject_Silent s v cls)) (\<lambda>p.
            if p \<noteq> NULL then ret p
            else if \<not> SvROK u then
              croak ''Invalid message object: SV is not a reference (expected %s, type %d)''
                [cstr cls, CInt (scalar_type u)]
            else bind_xs (gets_xs (\<lambda>s. deref s v)) (\<lambda>r.
              case r of
                None \<Rightarrow> fault ''access to a freed referent''
              | Some r \<Rightarrow>
                  (case ref_stash r of
                     None \<Rightarrow> croak ''Invalid message object: expected %s, got unblessed reference'' [cstr cls]
                   | Some actual \<Rightarrow>
                       bind_xs (gets_xs (\<lambda>s. case cls of None \<Rightarrow> False | Some c \<Rightarrow> sv_derived_from s v c)) (\<lambda>derived.
                       if \<not> derived then
                         croak ''Invalid message object: expected %s, got %s''
                           [CStr (case cls of None \<Rightarrow> ''valid object'' | Some c \<Rightarrow> c), CStr actual]
                       else if \<not> is_HV r then
                         croak ''Invalid message object: underlying SV is type %d, not HASH'' [CInt (SvTYPE_num r)]
                       else croak ''Invalid message object: _upb_ptr missing (expected %s)'' [cstr cls])))))"

definition PerlUpb_IsXSBacked :: "'z perl_st_scheme \<Rightarrow> sv option \<Rightarrow> bool" where
  "PerlUpb_IsXSBacked s v =
     (case deref s v of None \<Rightarrow> False | Some r \<Rightarrow> is_HV r \<and> hv_fetch r ''_upb_ptr'' \<noteq> None)"

definition PerlUpb_GetArenaFromObject :: "'z perl_st_scheme \<Rightarrow> sv option \<Rightarrow> sv option" where
  "PerlUpb_GetArenaFromObject s v =
     (case deref s v of None \<Rightarrow> None | Some r \<Rightarrow> if is_HV r then hv_fetch r ''_arena_sv'' else None)"

section \<open>64-bit numbers\<close>

definition PerlUpb_SVToI64 :: "str_num \<Rightarrow> sv option \<Rightarrow> ('z perl_st_scheme, u64) xs" where
  "PerlUpb_SVToI64 N v =
     (case v of
        None \<Rightarrow> ret 0
      | Some u \<Rightarrow>
          if SvIOK u then ret (SvIV N u)
          else bind_xs (gets_xs (\<lambda>s. sv_derived_from s v ''Math::BigInt'')) (\<lambda>big.
            case sv_rok u of
              Some a \<Rightarrow>
                if big then ret (strtoll (bstr N a))
                else if SvPOK u then ret (strtoll (snd (sv_string N u)))
                else double_to_int (- (2 ^ 63)) (2 ^ 63 - 1) (SvNV N u)
            | None \<Rightarrow>
                if SvPOK u then ret (strtoll (snd (sv_string N u)))
                else double_to_int (- (2 ^ 63)) (2 ^ 63 - 1) (SvNV N u)))"

definition PerlUpb_SVToU64 :: "str_num \<Rightarrow> sv option \<Rightarrow> ('z perl_st_scheme, u64) xs" where
  "PerlUpb_SVToU64 N v =
     (case v of
        None \<Rightarrow> ret 0
      | Some u \<Rightarrow>
          if SvUOK u \<or> SvIOK u then ret (SvUV N u)
          else bind_xs (gets_xs (\<lambda>s. sv_derived_from s v ''Math::BigInt'')) (\<lambda>big.
            case sv_rok u of
              Some a \<Rightarrow>
                if big then ret (strtoull (bstr N a))
                else if SvPOK u then ret (strtoull (snd (sv_string N u)))
                else double_to_int 0 (2 ^ 64 - 1) (SvNV N u)
            | None \<Rightarrow>
                if SvPOK u then ret (strtoull (snd (sv_string N u)))
                else double_to_int 0 (2 ^ 64 - 1) (SvNV N u)))"

text \<open>
  On a Perl with 64-bit integers every value is between \<open>IV_MIN\<close> and \<open>IV_MAX\<close> (at most
  \<open>UV_MAX\<close>), so the \<open>Math::BigInt\<close> fallback of both is unreachable.
\<close>

definition PerlUpb_I64ToSV :: "u64 \<Rightarrow> sv" where
  "PerlUpb_I64ToSV val = newSViv val"

definition PerlUpb_U64ToSV :: "u64 \<Rightarrow> sv" where
  "PerlUpb_U64ToSV val = newSVuv val"

section \<open>CPU features and vector kernels\<close>

definition PERL_UPB_HAS_SSE41 :: u32 where "PERL_UPB_HAS_SSE41 = 1"
definition PERL_UPB_HAS_AVX2 :: u32 where "PERL_UPB_HAS_AVX2 = 2"

text \<open>
  \<open>leaf1\<close> is the \<open>ecx\<close> register of leaf 1 and \<open>leaf7\<close> the \<open>ebx\<close> register of leaf 7, if
  the processor supports the leaf; \<open>x86\<close> says whether the code is compiled for it.
\<close>

definition PerlUpb_InitCpuFeatures :: "bool \<Rightarrow> u32 option \<Rightarrow> u32 option \<Rightarrow> u32 \<Rightarrow> u32" where
  "PerlUpb_InitCpuFeatures x86 leaf1 leaf7 cpu_features =
     (if \<not> x86 then cpu_features
      else let f = (case leaf1 of
                      Some ecx \<Rightarrow> if bit ecx 19 then cpu_features OR PERL_UPB_HAS_SSE41 else cpu_features
                    | None \<Rightarrow> cpu_features)
           in case leaf7 of
                Some ebx \<Rightarrow> if bit ebx 5 then f OR PERL_UPB_HAS_AVX2 else f
              | None \<Rightarrow> f)"

definition PerlUpb_GetCpuFeatures :: "u32 \<Rightarrow> u32" where
  "PerlUpb_GetCpuFeatures cpu_features = cpu_features"

definition PerlUpb_DetectCpuFeatures :: "u32 \<Rightarrow> u32" where
  "PerlUpb_DetectCpuFeatures cpu_features = 0"

text \<open>The SSE4.1 range check, with the four lanes of a register as a list.\<close>

definition mm_cmpgt_epi32 :: "u32 list \<Rightarrow> u32 list \<Rightarrow> u32 list" where
  "mm_cmpgt_epi32 a b = map2 (\<lambda>x y. if sint y < sint x then - 1 else 0) a b"

definition mm_or_si128 :: "u32 list \<Rightarrow> u32 list \<Rightarrow> u32 list" where
  "mm_or_si128 a b = map2 (OR) a b"

definition mm_movemask_epi8 :: "u32 list \<Rightarrow> u32" where
  "mm_movemask_epi8 v = horner_sum of_bool 2 (concat (map (\<lambda>x. [bit x 7, bit x 15, bit x 23, bit x 31]) v))"

definition out_of_range_scalar :: "u32 \<Rightarrow> u32 \<Rightarrow> u32 \<Rightarrow> bool" where
  "out_of_range_scalar lo hi v \<longleftrightarrow> sint v < sint lo \<or> sint hi < sint v"

function validate_range_sse41 :: "u32 list \<Rightarrow> u32 \<Rightarrow> u32 \<Rightarrow> bool" where
  "validate_range_sse41 vals lo hi =
     (if 4 \<le> length vals
      then let v = take 4 vals;
               mask = mm_or_si128 (mm_cmpgt_epi32 (replicate 4 lo) v) (mm_cmpgt_epi32 v (replicate 4 hi))
           in if mm_movemask_epi8 mask \<noteq> 0 then False
              else validate_range_sse41 (drop 4 vals) lo hi
      else list_all (\<lambda>v. \<not> out_of_range_scalar lo hi v) vals)"
  by auto
termination
  by (relation "measure (\<lambda>(vals, _). length vals)") auto

declare validate_range_sse41.simps [simp del]

definition PerlUpb_ValidateIntRange_SSE41 :: "bool \<Rightarrow> u32 list \<Rightarrow> u32 \<Rightarrow> u32 \<Rightarrow> bool" where
  "PerlUpb_ValidateIntRange_SSE41 x86 vals lo hi =
     (if x86 then validate_range_sse41 vals lo hi
      else list_all (\<lambda>v. \<not> out_of_range_scalar lo hi v) vals)"

definition PerlUpb_ValidateStrings_AVX2 :: "(byte list option \<times> size_t) list \<Rightarrow> bool" where
  "PerlUpb_ValidateStrings_AVX2 strings = list_all (\<lambda>(str, len). str \<noteq> None \<and> len \<noteq> 0) strings"

section \<open>Field vectors\<close>

text \<open>
  \<open>fv_room\<close> is how many entries the two buffers hold; their size in bytes is computed
  in \<open>size_t\<close>.
\<close>

record PerlUpb_FieldVector =
  fv_fields :: "ptr list"
  fv_values :: "sv option list"
  fv_count :: size_t
  fv_capacity :: size_t
  fv_room :: nat

definition fv_bytes :: "size_t \<Rightarrow> nat" where
  "fv_bytes capacity = unat (8 * capacity) div 8"

definition PerlUpb_FieldVector_New :: "size_t \<Rightarrow> PerlUpb_FieldVector" where
  "PerlUpb_FieldVector_New capacity =
     \<lparr>fv_fields = [], fv_values = [], fv_count = 0, fv_capacity = capacity, fv_room = fv_bytes capacity\<rparr>"

definition fv_grow :: "PerlUpb_FieldVector \<Rightarrow> PerlUpb_FieldVector" where
  "fv_grow v =
     (if fv_count v \<ge> fv_capacity v
      then v\<lparr>fv_capacity := fv_capacity v * 2, fv_room := fv_bytes (fv_capacity v * 2)\<rparr>
      else v)"

definition PerlUpb_FieldVector_Add ::
    "PerlUpb_FieldVector \<Rightarrow> ptr \<Rightarrow> sv option \<Rightarrow> fault + PerlUpb_FieldVector" where
  "PerlUpb_FieldVector_Add v f val =
     (let v = fv_grow v
      in if fv_room v \<le> unat (fv_count v) then Inl (Fault ''write past the end of a field vector'')
         else Inr (v\<lparr>fv_fields := fv_fields v @ [f], fv_values := fv_values v @ [val],
                     fv_count := fv_count v + 1\<rparr>))"

section \<open>Messages\<close>

text \<open>
  \<open>wrap_message_internal\<close>; \<open>SvRV\<close> of what the wrapping returned is taken without a test.
\<close>

definition wrap_message_internal :: "ptr \<Rightarrow> ptr \<Rightarrow> sv option \<Rightarrow> u16 \<Rightarrow> ('z upb_st_scheme, sv) xs" where
  "wrap_message_internal msg m arena_sv flags =
     bind_xs (PerlUpb_GetMessageStash m) (\<lambda>stash.
     bind_xs (PerlUpb_WrapArenaBoundObject msg arena_sv stash flags) (\<lambda>self.
     bind_xs (rv_hv (Some self)) (\<lambda>_.
     then_xs (modify_xs (rv_update (Some self) (hv_store ''_mdef_ptr'' (newSViv m)))) (ret self))))"

definition PerlUpb_WrapMessage :: "ptr \<Rightarrow> ptr \<Rightarrow> sv option \<Rightarrow> u16 \<Rightarrow> ('z upb_st_scheme, sv) xs" where
  "PerlUpb_WrapMessage msg m arena_sv flags =
     (if msg = NULL then ret PL_sv_undef
      else bind_xs (lift_xs (PerlUpb_ObjCache_Get msg)) (\<lambda>cached.
       case cached of Some v \<Rightarrow> ret v | None \<Rightarrow> wrap_message_internal msg m arena_sv flags))"

definition PerlUpb_WrapMessage_NoCache :: "ptr \<Rightarrow> ptr \<Rightarrow> sv option \<Rightarrow> u16 \<Rightarrow> ('z upb_st_scheme, sv) xs" where
  "PerlUpb_WrapMessage_NoCache msg m arena_sv flags =
     (if msg = NULL then ret PL_sv_undef else wrap_message_internal msg m arena_sv flags)"

definition PerlUpb_MaybeGetMessage :: "ptr \<Rightarrow> ('z cache_st_scheme, sv option) xs" where
  "PerlUpb_MaybeGetMessage msg = (if msg = NULL then ret None else lift_xs (PerlUpb_ObjCache_Get msg))"

definition PerlUpb_Message_GetMsg :: "sv option \<Rightarrow> ('z perl_st_scheme, ptr) xs" where
  "PerlUpb_Message_GetMsg v = PerlUpb_GetArenaBoundObject v (Some ''Protobuf::Message'')"

definition PerlUpb_Message_Free :: "sv option \<Rightarrow> ('z cache_st_scheme, unit) xs" where
  "PerlUpb_Message_Free v =
     bind_xs (gets_xs PL_dirty) (\<lambda>dirty.
     if dirty then ret ()
     else bind_xs (PerlUpb_Message_GetMsg v) (\<lambda>msg.
       if msg = NULL then ret () else modify_xs (PerlUpb_ObjCache_Delete msg)))"

definition PerlUpb_Message_GetDef :: "sv option \<Rightarrow> ('z perl_st_scheme, ptr) xs" where
  "PerlUpb_Message_GetDef v =
     (case Option.bind v sv_rok of
        None \<Rightarrow> ret NULL
      | Some _ \<Rightarrow> bind_xs (rv_hv v) (\<lambda>r.
          ret (case iv_ptr (hv_fetch r ''_mdef_ptr'') of None \<Rightarrow> NULL | Some p \<Rightarrow> p)))"

definition PerlUpb_Message_GetArena :: "'z perl_st_scheme \<Rightarrow> sv option \<Rightarrow> sv option" where
  "PerlUpb_Message_GetArena s v = PerlUpb_GetArenaFromObject s v"

definition PerlUpb_Message_GetFingerprint :: "sv option \<Rightarrow> ('z perl_st_scheme, sv) xs" where
  "PerlUpb_Message_GetFingerprint v =
     bind_xs (PerlUpb_Message_GetMsg v) (\<lambda>msg.
     if msg = NULL then ret PL_sv_undef else ret (newSVpv (fmt_ptr msg)))"

section \<open>Facts\<close>

lemma upb_frame:
  assumes "cache_st.more t = cache_st.more s"
  shows "defs t = defs s" "messages t = messages s" "arrays t = arrays s" "maps t = maps s"
    "upb_arenas t = upb_arenas s" "raw_arenas t = raw_arenas s" "arena_malloc_ok t = arena_malloc_ok s"
    "next_ptr t = next_ptr s"
  using assms by (cases s; cases t; simp)+

lemma wrapper_hv_facts [simp]:
  "is_HV (wrapper_hv p a c fl)" "hv_fetch (wrapper_hv p a c fl) ''_upb_ptr'' = Some (newSViv p)"
  "ref_stash (wrapper_hv p a c fl) = Some c"
  "mg_findext (wrapper_hv p a c fl) Wrapper_vtbl = Some \<lparr>mg_vtbl = Wrapper_vtbl, mg_ptr = p, mg_private = fl\<rparr>"
  "hv_fetch (wrapper_hv p a c fl) ''_arena_sv'' = (case a of None \<Rightarrow> None | Some v \<Rightarrow> if SvOK v then Some v else None)"
  by (auto simp: wrapper_hv_def Let_def split: option.split)

lemma WrapArenaBoundObject_spec:
  assumes "ready s" "p \<noteq> NULL" "fst (PerlUpb_ObjCache_Get p s) = None" "p \<notin> set (lru s)" "1 \<le> cap s"
  obtains t where "PerlUpb_WrapArenaBoundObject p arena c fl s = (Inr (newRV (next_addr s)), t)"
    "ready t" "heap t = (heap s)(next_addr s \<mapsto> wrapper_hv p arena c fl)" "next_addr t = Suc (next_addr s)"
    "map_of (hash t) p = Some (Some (next_addr s))" "isa t = isa s" "cache_st.more t = cache_st.more s"
    "registry t = registry s"
proof -
  let ?g = "snd (PerlUpb_ObjCache_Get p s)" and ?r = "wrapper_hv p arena c fl" and ?a = "next_addr s"
  note g = Get_spec [OF assms(1,2)]
  have na: "next_addr ?g = ?a" using g(3) by (simp add: frame_def)
  let ?h = "?g\<lparr>heap := (heap ?g)(?a \<mapsto> ?r), next_addr := Suc ?a\<rparr>"
  have ready: "ready ?h" by (rule iffD2 [OF ready_cong g(2)]) simp_all
  have lru: "lru ?h = lru s" and cap: "cap ?h = cap s" using g(3,4) by (simp_all add: frame_def)
  from ready assms(2) obtain t where t: "PerlUpb_ObjCache_Add p (Some (newRV ?a)) ?h = (Inr (), t)" "ready t" "frame ?h t"
    "hash t = filter (\<lambda>(k, _). k \<notin> evicted p ?h) (kv_store p (Some ?a) (hash ?h))"
    by (rule Add_spec [OF _ _ sv_flags(5)])
  have "p \<notin> evicted p ?h"
    using assms(4,5) lru cap by (auto simp: evicted_def dest: in_set_takeD)
  then have "map_of (hash t) p = Some (Some ?a)" by (simp add: t(4) map_of_filter_keys)
  moreover have "PerlUpb_WrapArenaBoundObject p arena c fl s = (Inr (newRV ?a), t)"
    using assms(2,3) t(1) na by (simp add: PerlUpb_WrapArenaBoundObject_def bind_xs_def then_xs_def alloc_def)
  ultimately show thesis using t(2,3) g(3) by (intro that [of t]) (simp_all add: frame_def)
qed

lemma isa_package_short: "length c \<le> 1018 \<Longrightarrow> isa_package c = Some c"
  by (simp add: isa_package_def Let_def)

lemma push_isa_derives:
  assumes "length c \<le> 1018"
  shows "derives (isa (push_isa c s)) 100 c ''Protobuf::Message''"
proof -
  have "''Protobuf::Message'' \<in> set (isa (push_isa c s) c)"
    using assms by (auto simp: push_isa_def isa_package_short)
  moreover have "derives f (Suc n) c d" if "d \<in> set (f c)" for f n d
    using that by (auto simp: list_ex_iff intro: bexI [of _ d])
  ultimately show ?thesis by (simp only: numeral_nat)
qed

lemma push_isa_frame [simp]:
  "heap (push_isa c s) = heap s" "next_addr (push_isa c s) = next_addr s" "PL_dirty (push_isa c s) = PL_dirty s"
  "perl_st.more (push_isa c s) = perl_st.more s" "clock (push_isa c s) = clock s"
  by (auto simp: push_isa_def split: option.split)

lemma push_isa_cache [simp]:
  "registry (push_isa c s) = registry s" "registry_iok (push_isa c s) = registry_iok s"
  "obj_cache_hv (push_isa c s) = obj_cache_hv s" "obj_lru_av (push_isa c s) = obj_lru_av s"
  "cache_st.more (push_isa c s) = cache_st.more s"
  by (auto simp: push_isa_def split: option.split)

text \<open>The class of a message, on the first look-up and from the stash cache.\<close>

definition class_of :: "upb_defs \<Rightarrow> ptr \<Rightarrow> string option" where
  "class_of D m = Option.bind (mdefs D m) (\<lambda>d. map_option (\<lambda>f.
     message_class (md_full_name d) (file_name f) (file_package f)) (filedefs D (md_file d)))"

lemma GetMessageStash_fresh:
  assumes "ready s" "m \<noteq> NULL" "class_of (defs s) m = Some c" "map_of (stash_cache (the (registry s))) m = None"
  obtains t where "PerlUpb_GetMessageStash m s = (Inr c, t)" "ready t" "heap t = heap s" "next_addr t = next_addr s"
    "isa t = isa (push_isa c s)" "obj_cache_hv t = obj_cache_hv s" "obj_lru_av t = obj_lru_av s"
    "cache_st.more t = cache_st.more s" "map_of (stash_cache (the (registry t))) m = Some c" "cap t = cap s"
proof -
  obtain reg where reg: "registry s = Some reg" using assms(1) by (elim readyE)
  let ?t = "(push_isa c s)\<lparr>registry := Some (reg\<lparr>stash_cache := kv_store m c (stash_cache reg)\<rparr>)\<rparr>"
  from assms(3) obtain d f where df: "mdefs (defs s) m = Some d" "filedefs (defs s) (md_file d) = Some f"
    "c = message_class (md_full_name d) (file_name f) (file_package f)"
    by (auto simp: class_of_def split: Option.bind_splits)
  have "PerlUpb_GetMessageStash m s = (Inr c, ?t)"
    using assms(1,2,4) reg df
    by (simp add: PerlUpb_GetMessageStash_def ready_Registry_Get bind_xs_def mdef_def filedef_def Let_def then_xs_def)
  moreover have "ready ?t" using assms(1) reg by (simp add: ready_def)
  ultimately show thesis using reg by (intro that [of ?t]) simp_all
qed

lemma GetMessageStash_cached:
  assumes "ready s" "m \<noteq> NULL" "map_of (stash_cache (the (registry s))) m = Some c"
  shows "PerlUpb_GetMessageStash m s = (Inr c, s)"
  using assms by (auto elim!: readyE simp: PerlUpb_GetMessageStash_def ready_Registry_Get)

text \<open>
  The class of a message is computed once and is a subclass of \<open>Protobuf::Message\<close>:
  the first look-up returns the name built from package, file and message and enters it
  in the registry, every later one returns the same name and changes nothing. The name
  has to fit the 1024-byte buffer of the \<open>\<at>ISA\<close> array's name.
\<close>

theorem message_class_registered:
  assumes "ready s" "m \<noteq> NULL" "class_of (defs s) m = Some c" "map_of (stash_cache (the (registry s))) m = None"
    and "length c \<le> 1018"
  shows "\<exists>t. PerlUpb_GetMessageStash m s = (Inr c, t) \<and> PerlUpb_GetMessageStash m t = (Inr c, t) \<and>
    derives (isa t) 100 c ''Protobuf::Message''"
proof -
  from assms(1-4) obtain t where t: "PerlUpb_GetMessageStash m s = (Inr c, t)" "ready t" "isa t = isa (push_isa c s)"
    "map_of (stash_cache (the (registry t))) m = Some c" by (rule GetMessageStash_fresh)
  then show ?thesis
    using GetMessageStash_cached [OF t(2) assms(2) t(4)] push_isa_derives [OF assms(5), of s] by auto
qed


lemma ex_class: "class_of ex_defs 0x100 = Some ''Demo::MyFile::Msg''"
  by code_simp

theorem message_class_registered_witness:
  "\<exists>t. PerlUpb_GetMessageStash 0x100 upb_boot = (Inr ''Demo::MyFile::Msg'', t) \<and>
     PerlUpb_GetMessageStash 0x100 t = (Inr ''Demo::MyFile::Msg'', t) \<and>
     derives (isa t) 100 ''Demo::MyFile::Msg'' ''Protobuf::Message''"
  by (rule message_class_registered) (simp_all add: ex_class)


subsection \<open>Unwrapping\<close>


subsection \<open>Numbers and range checks\<close>

lemma movemask_eq_0:
  assumes "\<forall>x \<in> set v. x = 0 \<or> x = - 1" "length v \<le> 8"
  shows "mm_movemask_epi8 v = 0 \<longleftrightarrow> (\<forall>x \<in> set v. x = 0)"
proof -
  have "mm_movemask_epi8 v = 0 \<longleftrightarrow> (\<forall>b \<in> set (concat (map (\<lambda>x. [bit x 7, bit x 15, bit x 23, bit x 31]) v)). \<not> b)"
    unfolding mm_movemask_epi8_def
    using assms(2) by (intro horner_sum_of_bool_eq_0_iff) (simp add: length_concat comp_def sum_list_triv)
  also have "\<dots> \<longleftrightarrow> (\<forall>x \<in> set v. x = 0)" using assms(1) by fastforce
  finally show ?thesis .
qed

lemma range_mask:
  assumes "length v = 4"
  shows "mm_movemask_epi8 (mm_or_si128 (mm_cmpgt_epi32 (replicate 4 lo) v) (mm_cmpgt_epi32 v (replicate 4 hi))) = 0 \<longleftrightarrow>
    list_all (\<lambda>x. \<not> out_of_range_scalar lo hi x) v"
proof -
  obtain a b c d where v: "v = [a, b, c, d]"
    using assms by (auto simp: length_Suc_conv eval_nat_numeral)
  show ?thesis
    unfolding v by (subst movemask_eq_0)
      (auto simp: mm_or_si128_def mm_cmpgt_epi32_def out_of_range_scalar_def eval_nat_numeral)
qed

lemma validate_range_sse41_eq: "validate_range_sse41 vals lo hi = list_all (\<lambda>v. \<not> out_of_range_scalar lo hi v) vals"
proof (induction vals lo hi rule: validate_range_sse41.induct)
  case (1 vals lo hi)
  show ?case
  proof (cases "4 \<le> length vals")
    case True
    then have "list_all P vals = (list_all P (take 4 vals) \<and> list_all P (drop 4 vals))" for P :: "u32 \<Rightarrow> bool"
      by (metis append_take_drop_id list_all_append)
    with True 1 range_mask [of "take 4 vals" lo hi] show ?thesis
      by (subst validate_range_sse41.simps) (simp add: Let_def)
  qed (simp add: validate_range_sse41.simps)
qed

text \<open>
  The vectorised range check decides the same as the plain loop, on every array and
  all bounds, with and without the vector unit: true iff every element lies between the
  bounds as signed 32-bit numbers.
\<close>

theorem int_range_vector_equiv:
  "PerlUpb_ValidateIntRange_SSE41 x86 vals lo hi \<longleftrightarrow> (\<forall>v \<in> set vals. sint lo \<le> sint v \<and> sint v \<le> sint hi)"
  by (auto simp: PerlUpb_ValidateIntRange_SSE41_def validate_range_sse41_eq list_all_iff out_of_range_scalar_def not_less)

theorem int_range_vector_equiv_witness:
  "PerlUpb_ValidateIntRange_SSE41 True [1, 2, 3, 4, - 5] (- 5) 4 \<and> \<not> PerlUpb_ValidateIntRange_SSE41 True [1, 2, 3, - 6, 5] (- 5) 4"
  unfolding int_range_vector_equiv by simp

subsection \<open>Field vectors\<close>

text \<open>Adding a list of entries; the first fault stops.\<close>

fun fv_add_all :: "PerlUpb_FieldVector \<Rightarrow> (ptr \<times> sv option) list \<Rightarrow> fault + PerlUpb_FieldVector" where
  "fv_add_all v [] = Inr v"
| "fv_add_all v ((f, x) # es) = (case PerlUpb_FieldVector_Add v f x of Inl e \<Rightarrow> Inl e | Inr v \<Rightarrow> fv_add_all v es)"

definition fv_inv :: "PerlUpb_FieldVector \<Rightarrow> bool" where
  "fv_inv v \<longleftrightarrow> unat (fv_count v) = length (fv_fields v) \<and> length (fv_values v) = length (fv_fields v) \<and>
     fv_room v = unat (fv_capacity v) \<and> fv_count v \<le> fv_capacity v \<and> 0 < fv_capacity v"

lemma fv_bytes_small: "unat c < 2 ^ 61 \<Longrightarrow> fv_bytes c = unat c"
  by (simp add: fv_bytes_def unat_word_ariths)

lemma fv_add_step:
  assumes "fv_inv v" "Suc (length (fv_fields v)) \<le> 2 ^ 59"
  obtains w where "PerlUpb_FieldVector_Add v f x = Inr w" "fv_inv w" "fv_fields w = fv_fields v @ [f]"
    "fv_values w = fv_values v @ [x]"
proof -
  let ?g = "fv_grow v" and ?n = "length (fv_fields v)"
  note inv = assms(1) [unfolded fv_inv_def]
  have g: "fv_count ?g < fv_capacity ?g \<and> fv_room ?g = unat (fv_capacity ?g) \<and> fv_count ?g = fv_count v \<and>
      fv_fields ?g = fv_fields v \<and> fv_values ?g = fv_values v"
  proof (cases "fv_capacity v \<le> fv_count v")
    case True
    then have eq: "fv_capacity v = fv_count v" using inv by simp
    have d: "unat (fv_count v * 2) = 2 * ?n"
      using assms(2) inv by (simp add: unat_word_ariths)
    have "0 < ?n" using inv eq by (metis unat_gt_0 word_neq_0_conv)
    then have "fv_count v < fv_count v * 2" using d inv by (simp add: word_less_nat_alt)
    then show ?thesis using True eq d assms(2) by (simp add: fv_grow_def fv_bytes_small)
  next
    case False
    then have "fv_grow v = v" by (simp only: fv_grow_def if_False)
    then show ?thesis using inv False by (simp add: not_le)
  qed
  let ?w = "?g\<lparr>fv_fields := fv_fields ?g @ [f], fv_values := fv_values ?g @ [x], fv_count := fv_count ?g + 1\<rparr>"
  have add: "PerlUpb_FieldVector_Add v f x = Inr ?w"
    using g unat_mono [of "fv_count ?g" "fv_capacity ?g"] by (auto simp: PerlUpb_FieldVector_Add_def Let_def)
  have "unat (fv_count v + 1) = Suc ?n"
    using inv assms(2) by (simp add: unat_word_ariths)
  moreover have "fv_count v + 1 \<le> fv_capacity ?g"
    using g inc_le [of "fv_count v" "fv_capacity ?g"] by metis
  moreover have "0 < fv_capacity ?g" using g by (metis word_gt_0 word_not_simps(1))
  ultimately have "fv_inv ?w" using g inv by (simp add: fv_inv_def)
  with add g show thesis by (intro that [of ?w]) simp_all
qed

text \<open>
  A field vector created with room for at least one entry takes any number of entries
  (up to \<open>2 ^ 59\<close>) and holds exactly them, in order; one created with capacity 0 is
  written past its end by the very first entry, because doubling 0 never grows it.
\<close>

theorem field_vector_append:
  assumes "0 < c" "unat c < 2 ^ 61" "length es \<le> 2 ^ 59"
  shows "(\<exists>w. fv_add_all (PerlUpb_FieldVector_New c) es = Inr w \<and> fv_fields w = map fst es \<and>
      fv_values w = map snd es \<and> unat (fv_count w) = length es) \<and>
    PerlUpb_FieldVector_Add (PerlUpb_FieldVector_New 0) f x = Inl (Fault ''write past the end of a field vector'')"
proof -
  have "\<exists>w. fv_add_all v es = Inr w \<and> fv_inv w \<and> fv_fields w = fv_fields v @ map fst es \<and>
      fv_values w = fv_values v @ map snd es"
    if "fv_inv v" "length (fv_fields v) + length es \<le> 2 ^ 59" for v
    using that
  proof (induction es arbitrary: v)
    case (Cons e es)
    obtain f x where e: "e = (f, x)" by (cases e)
    obtain w where w: "PerlUpb_FieldVector_Add v f x = Inr w" "fv_inv w" "fv_fields w = fv_fields v @ [f]"
      "fv_values w = fv_values v @ [x]"
      using Cons.prems by (elim fv_add_step [of v]) simp_all
    with Cons.IH [of w] Cons.prems e show ?case by auto
  qed simp
  moreover have "fv_inv (PerlUpb_FieldVector_New c)"
    using assms by (simp add: fv_inv_def PerlUpb_FieldVector_New_def fv_bytes_small)
  ultimately obtain w where "fv_add_all (PerlUpb_FieldVector_New c) es = Inr w" "fv_inv w" "fv_fields w = map fst es"
    "fv_values w = map snd es"
    using assms(3) by (force simp: PerlUpb_FieldVector_New_def)
  moreover have "PerlUpb_FieldVector_Add (PerlUpb_FieldVector_New 0) f x = Inl (Fault ''write past the end of a field vector'')"
    by (simp add: PerlUpb_FieldVector_Add_def PerlUpb_FieldVector_New_def fv_grow_def fv_bytes_def)
  ultimately show ?thesis by (auto simp: fv_inv_def)
qed

theorem field_vector_append_witness:
  "\<exists>w. fv_add_all (PerlUpb_FieldVector_New 1) [(8, None), (16, None), (24, None)] = Inr w \<and> fv_fields w = [8, 16, 24]"
  using field_vector_append [of 1 "[(8, None), (16, None), (24, None)]"] by auto

section \<open>Objects of a state\<close>

text \<open>
  \<open>v\<close> is a wrapper of \<open>p\<close> that passes the test for \<open>cls\<close>, holding \<open>asv\<close> as its arena;
  \<open>asv\<close> is an arena object for the live upb arena \<open>arena\<close>.
\<close>

definition bound_object :: "'z perl_st_scheme \<Rightarrow> sv \<Rightarrow> string \<Rightarrow> ptr \<Rightarrow> sv option \<Rightarrow> bool" where
  "bound_object s v cls p asv \<longleftrightarrow> p \<noteq> NULL \<and> sv_derived_from s (Some v) cls \<and>
     (\<exists>r. deref s (Some v) = Some r \<and> is_HV r \<and> mg_findext r Wrapper_vtbl \<noteq> None \<and>
        iv_ptr (hv_fetch r ''_upb_ptr'') = Some p \<and> hv_fetch r ''_arena_sv'' = asv)"

definition arena_sv_ok :: "'z arena_st_scheme \<Rightarrow> sv \<Rightarrow> ptr \<Rightarrow> bool" where
  "arena_sv_ok s asv arena \<longleftrightarrow> sv_isa s (Some asv) ''Protobuf::Arena'' \<and> arena \<in> upb_arenas s \<and>
     (\<exists>r w x. deref s (Some asv) = Some r \<and> is_HV r \<and> iv_ptr (hv_fetch r ''_arena_ptr'') = Some w \<and> w \<noteq> NULL \<and>
        raw_arenas s w = Some x \<and> pa_arena (raw_base x) = arena)"

lemma deref_cong: "heap t = heap s \<Longrightarrow> deref t v = deref s v"
  by (cases v) (simp_all add: deref_def)

lemma derived_cong: "heap t = heap s \<Longrightarrow> isa t = isa s \<Longrightarrow> sv_derived_from t v cls = sv_derived_from s v cls"
  by (auto simp: sv_derived_from_def deref_cong [of t s] split: option.split)

lemma struct_object_ptr_cong:
  assumes "heap t = heap s" "isa t = isa s" "struct_object_ptr cls v s = (Inr p, s)"
  shows "struct_object_ptr cls v t = (Inr p, t)"
  using assms derived_cong [of t s] deref_cong [of t s]
  by (auto simp: struct_object_ptr_def split: option.splits sv_body.splits if_splits)

lemma bound_object_cong:
  "heap t = heap s \<Longrightarrow> isa t = isa s \<Longrightarrow> bound_object t v cls p asv = bound_object s v cls p asv"
  by (simp add: bound_object_def derived_cong [of t s] deref_cong [of t s])

lemma arena_sv_ok_cong:
  "heap t = heap s \<Longrightarrow> raw_arenas t = raw_arenas s \<Longrightarrow> arena \<in> upb_arenas t \<Longrightarrow> arena_sv_ok s asv arena \<Longrightarrow> arena_sv_ok t asv arena"
  by (simp add: arena_sv_ok_def sv_isa_def deref_cong [of t s])

lemma bound_object_Get:
  assumes "bound_object s v cls p asv"
  shows "PerlUpb_GetArenaBoundObject (Some v) (Some cls) s = (Inr p, s)" "PerlUpb_GetArenaFromObject s (Some v) = asv"
proof -
  have "SvOK v" using assms by (auto simp: bound_object_def deref_def SvOK_def SvROK_def)
  then show "PerlUpb_GetArenaBoundObject (Some v) (Some cls) s = (Inr p, s)" "PerlUpb_GetArenaFromObject s (Some v) = asv"
    using assms by (auto simp: bound_object_def PerlUpb_GetArenaBoundObject_def PerlUpb_GetArenaBoundObject_Silent_def
        PerlUpb_GetArenaFromObject_def)
qed

lemma bound_message_Get:
  assumes "bound_object s v ''Protobuf::Message'' msg asv"
  shows "PerlUpb_Message_GetMsg (Some v) s = (Inr msg, s)" "PerlUpb_Message_GetArena s (Some v) = asv"
  using bound_object_Get [OF assms] by (simp_all add: PerlUpb_Message_GetMsg_def PerlUpb_Message_GetArena_def)

lemma arena_sv_ok_Get: "arena_sv_ok s asv arena \<Longrightarrow> PerlUpb_Arena_Get (Some asv) s = (Inr arena, s)"
  by (auto simp: arena_sv_ok_def PerlUpb_Arena_Get_def bind_xs_def load_raw_def)

lemma upb_boot_arena: "arena_sv_ok upb_boot (newRV 0) 0x2000"
  by (auto simp: arena_sv_ok_def sv_isa_def arena_object_def)

text \<open>The example state with its message wrapped by the object at address 1.\<close>

definition msg_boot :: upb_st where
  "msg_boot = upb_boot\<lparr>heap := (heap upb_boot)(1 \<mapsto>
       hv_store ''_mdef_ptr'' (newSViv 0x100) (wrapper_hv 0x3000 (Some (newRV 0)) ''Demo::MyFile::Msg'' 0)),
     next_addr := 2, isa := (\<lambda>c. if c = ''Demo::MyFile::Msg'' then [''Protobuf::Message''] else [])\<rparr>"

lemma msg_boot_facts [simp]:
  "bound_object msg_boot (newRV 1) ''Protobuf::Message'' 0x3000 (Some (newRV 0))" "arena_sv_ok msg_boot (newRV 0) 0x2000"
  "messages msg_boot = [0x3000 \<mapsto> \<lparr>um_fields = [], um_aux = [], um_aux_cap = None\<rparr>]" "defs msg_boot = ex_defs"
  "arrays msg_boot = Map.empty" "maps msg_boot = Map.empty" "cheap msg_boot = Map.empty" "next_ptr msg_boot = 0x8000"
  "next_addr msg_boot = 2" "arena_malloc_ok msg_boot = []" "upb_arenas msg_boot = {0x2000}" "try_extend_ok msg_boot = []"
  "PerlUpb_Message_GetDef (Some (newRV 1)) msg_boot = (Inr 0x100, msg_boot)" "stack_limit msg_boot = 10"
  "ready msg_boot" "obj_cache_hv msg_boot = Some []" "obj_lru_av msg_boot = Some []" "cap msg_boot = 100000"
  "stash_cache (the (registry msg_boot)) = []" "ample 0x2000 msg_boot"
proof -
  have d: "derives (isa msg_boot) 100 ''Demo::MyFile::Msg'' ''Protobuf::Message''"
    by (simp add: msg_boot_def numeral_nat)
  show "bound_object msg_boot (newRV 1) ''Protobuf::Message'' 0x3000 (Some (newRV 0))"
    using d by (simp add: bound_object_def sv_derived_from_def) (simp add: msg_boot_def)
  show "arena_sv_ok msg_boot (newRV 0) 0x2000"
    using upb_boot_arena by (simp add: arena_sv_ok_def sv_isa_def msg_boot_def)
  show "ready msg_boot" by (rule iffD2 [OF ready_cong upb_boot_facts(1)]) (simp_all add: msg_boot_def)
  show "PerlUpb_Message_GetDef (Some (newRV 1)) msg_boot = (Inr 0x100, msg_boot)"
    by (simp add: PerlUpb_Message_GetDef_def rv_hv_def bind_xs_def msg_boot_def)
qed (simp_all add: msg_boot_def ample_def)

end
