(* ===== verification/Unknown_Fields.thy ===== *)
theory Unknown_Fields
  imports Utils Wire
begin

text \<open>
  The unknown field set (\<open>xs/unknown_fields/set.c\<close>): a Perl object around a C structure
  that holds the message's scalar. Reading concatenates the chunks of unknown data,
  adding copies bytes in, deleting a tag filters the chunks through \<open>scrub_chunk\<close>.
\<close>

section \<open>Operations\<close>

definition PerlUpb_UnknownFieldSet_New :: "sv \<Rightarrow> ('z upb_st_scheme, sv) xs" where
  "PerlUpb_UnknownFieldSet_New message_sv = new_struct_object ''Protobuf::UnknownFieldSet'' (CS_UnknownFieldSet message_sv)"

definition GetSet :: "sv option \<Rightarrow> ('z upb_st_scheme, ptr) xs" where
  "GetSet v = struct_object_ptr ''Protobuf::UnknownFieldSet'' v"

definition set_message_sv :: "ptr \<Rightarrow> ('z upb_st_scheme, sv) xs" where
  "set_message_sv p =
     bind_xs (c_load p) (\<lambda>c. case c of CS_UnknownFieldSet m \<Rightarrow> ret m | _ \<Rightarrow> fault ''wrong structure'')"

text \<open>The loop \<open>while (upb_Message_NextUnknown(msg, &data, &iter))\<close>.\<close>

lemma next_unknown_advances: "next_unknown aux i = (Some d, j) \<Longrightarrow> i < j \<and> j \<le> length aux"
proof (induction aux i rule: next_unknown.induct)
  case (1 aux i)
  show ?case
  proof (cases "i < length aux")
    case True
    with 1 show ?thesis by (subst (asm) (3) next_unknown.simps) (auto split: aux_entry.splits)
  qed (use 1 in \<open>simp add: next_unknown.simps\<close>)
qed

function unknown_loop :: "aux_entry list \<Rightarrow> nat \<Rightarrow> byte list list" where
  "unknown_loop aux iter =
     (case next_unknown aux iter of
        (None, _) \<Rightarrow> []
      | (Some data, iter') \<Rightarrow> data # unknown_loop aux iter')"
  by auto
termination
  by (relation "measure (\<lambda>(aux, i). length aux - i)") (auto dest!: next_unknown_advances [OF sym])

declare unknown_loop.simps [simp del]

definition PerlUpb_UnknownFieldSet_GetData :: "sv option \<Rightarrow> ('z upb_st_scheme, sv) xs" where
  "PerlUpb_UnknownFieldSet_GetData self =
     bind_xs (GetSet self) (\<lambda>p.
     if p = NULL then ret PL_sv_undef
     else bind_xs (set_message_sv p) (\<lambda>message_sv.
       bind_xs (PerlUpb_Message_GetMsg (Some message_sv)) (\<lambda>msg.
       if msg = NULL then ret PL_sv_undef
       else bind_xs (message msg) (\<lambda>M.
         let total_len = sum_list (map length (unknown_loop (um_aux M) 0))
         in if total_len = 0 then ret (newSVpv [])
            else ret (newSVpvn (concat (unknown_loop (um_aux M) 0)))))))"

definition PerlUpb_UnknownFieldSet_Add :: "str_num \<Rightarrow> sv option \<Rightarrow> sv \<Rightarrow> ('z upb_st_scheme, unit) xs" where
  "PerlUpb_UnknownFieldSet_Add N self data_sv =
     bind_xs (GetSet self) (\<lambda>p.
     if p = NULL then ret ()
     else bind_xs (set_message_sv p) (\<lambda>message_sv.
       bind_xs (PerlUpb_Message_GetMsg (Some message_sv)) (\<lambda>msg.
       if msg = NULL then ret ()
       else bind_xs (SvPVbyte_xs N data_sv) (\<lambda>data.
         bind_xs (gets_xs (\<lambda>s. PerlUpb_Message_GetArena s (Some message_sv))) (\<lambda>arena_sv.
         bind_xs (PerlUpb_Arena_Get arena_sv) (\<lambda>arena.
         bind_xs (upb_Message_AddUnknown_Copy msg data arena) (\<lambda>_. ret ())))))))"

definition PerlUpb_UnknownFieldSet_Clear :: "sv option \<Rightarrow> ('z upb_st_scheme, unit) xs" where
  "PerlUpb_UnknownFieldSet_Clear self =
     bind_xs (GetSet self) (\<lambda>p.
     if p = NULL then ret ()
     else bind_xs (set_message_sv p) (\<lambda>message_sv.
       bind_xs (PerlUpb_Message_GetMsg (Some message_sv)) (\<lambda>msg.
       if msg = NULL then ret () else upb_Message_DiscardUnknown_shallow msg)))"

text \<open>
  The new data is assembled in a buffer of the total size taken from a temporary arena;
  neither that arena nor the buffer is tested for null.
\<close>

definition PerlUpb_UnknownFieldSet_DeleteTag :: "sv option \<Rightarrow> u32 \<Rightarrow> ('z upb_st_scheme, unit) xs" where
  "PerlUpb_UnknownFieldSet_DeleteTag self tag =
     bind_xs (GetSet self) (\<lambda>p.
     if p = NULL then ret ()
     else bind_xs (set_message_sv p) (\<lambda>message_sv.
       bind_xs (PerlUpb_Message_GetMsg (Some message_sv)) (\<lambda>msg.
       if msg = NULL then ret ()
       else bind_xs (gets_xs (\<lambda>s. PerlUpb_Message_GetArena s (Some message_sv))) (\<lambda>arena_sv.
         bind_xs (PerlUpb_Arena_Get arena_sv) (\<lambda>arena.
         bind_xs upb_Arena_New (\<lambda>tmp_arena.
         bind_xs (message msg) (\<lambda>M.
         let chunks = unknown_loop (um_aux M) 0;
             total_size = sum_list (map length chunks);
             new_data = concat (map (scrub_chunk tag) chunks)
         in bind_xs (arena_malloc tmp_arena) (\<lambda>ok.
            if new_data \<noteq> [] \<and> \<not> ok then fault ''memcpy to a null pointer''
            else if total_size < length new_data then fault ''memcpy past the end of new_data''
            else then_xs (upb_Message_DiscardUnknown_shallow msg)
              (then_xs (if new_data \<noteq> [] then bind_xs (upb_Message_AddUnknown_Copy msg new_data arena) (\<lambda>_. ret ()) else ret ())
              (upb_Arena_Free tmp_arena))))))))))"

definition PerlUpb_UnknownFieldSet_Free :: "sv option \<Rightarrow> ('z upb_st_scheme, unit) xs" where
  "PerlUpb_UnknownFieldSet_Free v =
     bind_xs (gets_xs PL_dirty) (\<lambda>dirty.
     if dirty then ret () else struct_object_free ''Protobuf::UnknownFieldSet'' v)"

section \<open>Chunks\<close>

definition unknown_chunks :: "aux_entry list \<Rightarrow> byte list list" where
  "unknown_chunks aux = List.map_filter (\<lambda>x. case x of Aux_unknown _ d \<Rightarrow> Some d | _ \<Rightarrow> None) aux"

lemma unknown_chunks_simps [simp]:
  "unknown_chunks [] = []" "unknown_chunks (Aux_unknown a d # aux) = d # unknown_chunks aux"
  "unknown_chunks (Aux_ext e v # aux) = unknown_chunks aux" "unknown_chunks (Aux_null # aux) = unknown_chunks aux"
  "unknown_chunks (xs @ ys) = unknown_chunks xs @ unknown_chunks ys"
  by (simp_all add: unknown_chunks_def map_filter_simps) (simp add: List.map_filter_def)

definition ext_entries :: "aux_entry list \<Rightarrow> (ptr \<times> upb_MessageValue) list" where
  "ext_entries aux = List.map_filter (\<lambda>x. case x of Aux_ext f v \<Rightarrow> Some (f, v) | _ \<Rightarrow> None) aux"

lemma ext_entries_simps [simp]:
  "ext_entries [] = []" "ext_entries (Aux_unknown a d # aux) = ext_entries aux"
  "ext_entries (Aux_ext e v # aux) = (e, v) # ext_entries aux" "ext_entries (Aux_null # aux) = ext_entries aux"
  "ext_entries (xs @ ys) = ext_entries xs @ ext_entries ys"
  by (simp_all add: ext_entries_def map_filter_simps) (simp add: List.map_filter_def)

lemma find_ext_entries: "find_ext e aux = map_of (ext_entries aux) e"
  by (simp add: find_ext_def ext_entries_def)

lemma unknown_loop_drop: "unknown_loop aux i = unknown_chunks (drop i aux)"
proof (induction "length aux - i" arbitrary: i rule: less_induct)
  case less
  show ?case
  proof (cases "i < length aux")
    case True
    then have d: "drop i aux = aux ! i # drop (Suc i) aux" by (simp add: Cons_nth_drop_Suc)
    have IH: "unknown_loop aux (Suc i) = unknown_chunks (drop (Suc i) aux)"
      using True by (intro less) simp
    have skip: "unknown_loop aux i = unknown_loop aux (Suc i)" if "next_unknown aux i = next_unknown aux (Suc i)"
      using that by (simp add: unknown_loop.simps)
    show ?thesis
    proof (cases "aux ! i")
      case (Aux_unknown a b)
      then have "next_unknown aux i = (Some b, Suc i)" using True by (simp add: next_unknown.simps)
      then show ?thesis using IH d Aux_unknown by (simp add: unknown_loop.simps [of aux i])
    qed (use True IH d in \<open>simp_all add: skip next_unknown.simps [of aux i]\<close>)
  qed (simp add: unknown_loop.simps next_unknown.simps)
qed

lemma unknown_loop_chunks [simp]: "unknown_loop aux 0 = unknown_chunks aux"
  by (simp add: unknown_loop_drop)

lemma chunks_filter_ext [simp]: "unknown_chunks (filter is_ext_entry aux) = []"
proof (induction aux)
  case (Cons x aux)
  then show ?case by (cases x) (simp_all add: is_ext_entry_def)
qed simp

lemma find_ext_simps:
  "find_ext e (xs @ ys) = (case find_ext e xs of Some v \<Rightarrow> Some v | None \<Rightarrow> find_ext e ys)"
  "find_ext e [Aux_unknown a d] = None"
  "find_ext e (filter is_ext_entry xs) = find_ext e xs"
proof -
  show "find_ext e (xs @ ys) = (case find_ext e xs of Some v \<Rightarrow> Some v | None \<Rightarrow> find_ext e ys)"
    by (simp add: find_ext_def List.map_filter_def map_add_def split: option.split)
  show "find_ext e [Aux_unknown a d] = None" by (simp add: find_ext_def map_filter_simps)
  show "find_ext e (filter is_ext_entry xs) = find_ext e xs"
  proof (induction xs)
    case (Cons x xs)
    then show ?case by (cases x) (simp_all add: find_ext_def is_ext_entry_def map_filter_simps)
  qed simp
qed

section \<open>What the operations do to the message\<close>

text \<open>\<open>self\<close> is a set for the message \<open>msg\<close> whose wrapper belongs to \<open>arena\<close>.\<close>

definition set_object :: "'z upb_st_scheme \<Rightarrow> sv option \<Rightarrow> ptr \<Rightarrow> ptr \<Rightarrow> bool" where
  "set_object s self msg arena \<longleftrightarrow>
     (\<exists>p v asv. GetSet self s = (Inr p, s) \<and> p \<noteq> NULL \<and> cheap s p = Some (CS_UnknownFieldSet v) \<and>
        bound_object s v ''Protobuf::Message'' msg (Some asv) \<and> arena_sv_ok s asv arena)"

lemma set_objectE:
  assumes "set_object s self msg arena"
  obtains p v asv where "GetSet self s = (Inr p, s)" "p \<noteq> NULL" "set_message_sv p s = (Inr v, s)"
    "PerlUpb_Message_GetMsg (Some v) s = (Inr msg, s)" "msg \<noteq> NULL"
    "PerlUpb_Message_GetArena s (Some v) = Some asv" "PerlUpb_Arena_Get (Some asv) s = (Inr arena, s)"
proof -
  from assms obtain p v asv where p: "GetSet self s = (Inr p, s)" "p \<noteq> NULL" "cheap s p = Some (CS_UnknownFieldSet v)"
    "bound_object s v ''Protobuf::Message'' msg (Some asv)" "arena_sv_ok s asv arena"
    by (auto simp: set_object_def)
  moreover have "set_message_sv p s = (Inr v, s)" using p(3) by (simp add: set_message_sv_def c_load_def bind_xs_def)
  moreover have "msg \<noteq> NULL" using p(4) by (simp add: bound_object_def)
  ultimately show thesis using bound_message_Get [OF p(4)] arena_sv_ok_Get [OF p(5)] by (intro that)
qed

lemma set_object_frame:
  assumes "set_object s self msg arena" "heap t = heap s" "isa t = isa s" "raw_arenas t = raw_arenas s" "arena \<in> upb_arenas t"
    "cheap t = cheap s"
  shows "set_object t self msg arena"
proof -
  have g: "GetSet self t = (case GetSet self s of (r, _) \<Rightarrow> (r, t))"
    using assms(2,3) derived_cong [of t s] deref_cong [of t s]
    by (auto simp: GetSet_def struct_object_ptr_def split: option.split sv_body.split)
  from assms(1) obtain p v asv where p: "GetSet self s = (Inr p, s)" "p \<noteq> NULL" "cheap s p = Some (CS_UnknownFieldSet v)"
    "bound_object s v ''Protobuf::Message'' msg (Some asv)" "arena_sv_ok s asv arena"
    by (auto simp: set_object_def)
  have "GetSet self t = (Inr p, t)" using g p(1) by simp
  moreover have "bound_object t v ''Protobuf::Message'' msg (Some asv)" using p(4) assms(2,3) bound_object_cong by metis
  moreover have "arena_sv_ok t asv arena" using p(5) assms(2,4,5) arena_sv_ok_cong by metis
  ultimately show ?thesis using p(2,3) assms(6) by (auto simp: set_object_def)
qed

text \<open>Adding bytes to a message with memory available, whichever way upb stores them.\<close>

definition same_rest :: "'z upb_st_scheme \<Rightarrow> 'z upb_st_scheme \<Rightarrow> bool" where
  "same_rest s t \<longleftrightarrow> heap t = heap s \<and> isa t = isa s \<and> raw_arenas t = raw_arenas s \<and> upb_arenas t = upb_arenas s \<and>
     cheap t = cheap s \<and> arena_malloc_ok t = arena_malloc_ok s \<and> defs t = defs s \<and> arrays t = arrays s \<and> maps t = maps s"

lemma same_rest_refl [simp]: "same_rest s s" "same_rest s (put_message p M s)"
  by (simp_all add: same_rest_def)

lemma ReserveSlot_ample:
  assumes "messages s msg = Some M" "ample arena s"
  obtains c where "upb_Message_ReserveSlot msg arena s = (Inr True, put_message msg (M\<lparr>um_aux_cap := c\<rparr>) s)"
proof -
  note defs = upb_Message_ReserveSlot_def bind_xs_def then_xs_def message_Some [OF assms(1)] arena_malloc_ample [OF assms(2)]
  consider "um_aux_cap M = None" | "um_aux_cap M = Some (length (um_aux M))" |
    n where "um_aux_cap M = Some n" "n \<noteq> length (um_aux M)"
    by (cases "um_aux_cap M") auto
  then show thesis
  proof cases
    case 1
    then show ?thesis by (intro that [of "Some 4"]) (simp add: defs)
  next
    case 2
    then show ?thesis by (intro that [of "Some (log2_ceiling 1 (Suc (length (um_aux M))))"]) (simp add: defs)
  next
    case 3
    have "M\<lparr>um_aux_cap := um_aux_cap M\<rparr> = M" by simp
    then have "put_message msg (M\<lparr>um_aux_cap := um_aux_cap M\<rparr>) s = s"
      using assms(1) by (simp add: put_message_def fun_upd_idem)
    with 3 show ?thesis by (intro that [of "um_aux_cap M"]) (simp add: defs)
  qed
qed

lemma add_unknown_entry_ample:
  assumes "messages s msg = Some M" "ample arena s"
  obtains c where "add_unknown_entry msg data arena al s =
      (Inr True, put_message msg (M\<lparr>um_aux_cap := c, um_aux := um_aux M @ [Aux_unknown al data]\<rparr>) s)"
proof -
  obtain c where c: "upb_Message_ReserveSlot msg arena s = (Inr True, put_message msg (M\<lparr>um_aux_cap := c\<rparr>) s)"
    using assms by (rule ReserveSlot_ample)
  have "ample arena (put_message msg K s)" for K using assms(2) by (simp add: ample_def)
  then show thesis
    using that [of c] c by (simp add: add_unknown_entry_def bind_xs_def then_xs_def arena_malloc_ample message_Some)
qed

text \<open>Only messages (and the answers of the arena) differ.\<close>

definition only_messages :: "'z upb_st_scheme \<Rightarrow> 'z upb_st_scheme \<Rightarrow> bool" where
  "only_messages s t \<longleftrightarrow> (\<exists>ms os. t = s\<lparr>messages := ms, try_extend_ok := os\<rparr>)"

lemma only_messages_simps [simp]:
  "only_messages s s" "only_messages s u \<Longrightarrow> only_messages s (put_message p M u)"
  "only_messages s (s\<lparr>try_extend_ok := os\<rparr>)"
proof -
  have "s = s\<lparr>messages := messages s, try_extend_ok := try_extend_ok s\<rparr>" by simp
  then show "only_messages s s" unfolding only_messages_def by blast
  show "only_messages s u \<Longrightarrow> only_messages s (put_message p M u)"
  proof -
    assume "only_messages s u"
    then obtain ms os where "u = s\<lparr>messages := ms, try_extend_ok := os\<rparr>" by (auto simp: only_messages_def)
    then have "put_message p M u = s\<lparr>messages := ms(p \<mapsto> M), try_extend_ok := os\<rparr>" by (simp add: put_message_def)
    then show ?thesis unfolding only_messages_def by blast
  qed
  have "s\<lparr>try_extend_ok := os\<rparr> = s\<lparr>messages := messages s, try_extend_ok := os\<rparr>" by simp
  then show "only_messages s (s\<lparr>try_extend_ok := os\<rparr>)" unfolding only_messages_def by blast
qed

lemma only_messages_frame: "only_messages s t \<Longrightarrow> same_rest s t \<and> ample arena t = ample arena s"
  by (auto simp: only_messages_def same_rest_def ample_def)

lemma AddUnknown_entries:
  assumes "messages s msg = Some M" "ample arena s"
  obtains t M' where "upb_Message_AddUnknown_Copy msg data arena s = (Inr True, t)" "only_messages s t"
    "messages t = (messages s)(msg \<mapsto> M')" "um_fields M' = um_fields M"
    "concat (unknown_chunks (um_aux M')) = concat (unknown_chunks (um_aux M)) @ data"
    "ext_entries (um_aux M') = ext_entries (um_aux M)"
proof -
  let ?goal = "\<lambda>t M'. upb_Message_AddUnknown_Copy msg data arena s = (Inr True, t) \<and> only_messages s t \<and>
    messages t = (messages s)(msg \<mapsto> M') \<and> um_fields M' = um_fields M \<and>
    concat (unknown_chunks (um_aux M')) = concat (unknown_chunks (um_aux M)) @ data \<and>
    ext_entries (um_aux M') = ext_entries (um_aux M)"
  let ?slow = "upb_Message_AddUnknownSlowPath msg data arena False"
  have entry: "\<exists>t M'. ?goal t M'" if "?slow s = add_unknown_entry msg data arena False u" "only_messages s u" "messages u = messages s" for u
  proof -
    have u: "messages u msg = Some M" "ample arena u" using only_messages_frame [OF that(2)] that(3) assms by simp_all
    obtain c where "add_unknown_entry msg data arena False u =
      (Inr True, put_message msg (M\<lparr>um_aux_cap := c, um_aux := um_aux M @ [Aux_unknown False data]\<rparr>) u)"
      by (rule add_unknown_entry_ample [OF u])
    with that show ?thesis
      by (intro exI [of _ "put_message msg (M\<lparr>um_aux_cap := c, um_aux := um_aux M @ [Aux_unknown False data]\<rparr>) u"]
          exI [of _ "M\<lparr>um_aux_cap := c, um_aux := um_aux M @ [Aux_unknown False data]\<rparr>"])
        (simp add: upb_Message_AddUnknown_Copy_def)
  qed
  have ar: "arena \<in> upb_arenas s" using assms(2) by (simp add: ample_def)
  have "\<exists>t M'. ?goal t M'"
  proof (cases "um_aux M \<noteq> [] \<and> (\<exists>d. last (um_aux M) = Aux_unknown False d)")
    case False
    then have "?slow s = add_unknown_entry msg data arena False s"
      using assms(1) by (auto simp: upb_Message_AddUnknownSlowPath_def bind_xs_def message_Some split: aux_entry.split)
    then show ?thesis by (rule entry) simp_all
  next
    case True
    then obtain d where d: "um_aux M = butlast (um_aux M) @ [Aux_unknown False d]" "um_aux M \<noteq> []" "last (um_aux M) = Aux_unknown False d"
      by (metis append_butlast_last_id)
    let ?M = "M\<lparr>um_aux := butlast (um_aux M) @ [Aux_unknown False (d @ data)]\<rparr>"
    show ?thesis
    proof (cases "try_extend_ok s")
      case Nil
      then have "?slow s = add_unknown_entry msg data arena False s"
        using assms(1) d ar by (simp add: upb_Message_AddUnknownSlowPath_def bind_xs_def message_Some try_extend_def)
      then show ?thesis by (rule entry) simp_all
    next
      case (Cons x os)
      let ?u = "s\<lparr>try_extend_ok := os\<rparr>"
      show ?thesis
      proof (cases x)
        case True
        then have "?slow s = (Inr True, put_message msg ?M ?u)"
          using assms(1) d ar Cons
          by (simp add: upb_Message_AddUnknownSlowPath_def bind_xs_def then_xs_def message_Some try_extend_def)
        moreover have "concat (unknown_chunks (um_aux ?M)) = concat (unknown_chunks (um_aux M)) @ data"
          by (subst (2) d(1)) simp
        moreover have "ext_entries (um_aux ?M) = ext_entries (um_aux M)"
          by (subst (2) d(1)) simp
        ultimately show ?thesis
          by (intro exI [of _ "put_message msg ?M ?u"] exI [of _ ?M]) (simp add: upb_Message_AddUnknown_Copy_def)
      next
        case False
        then have "?slow s = add_unknown_entry msg data arena False ?u"
          using assms(1) d ar Cons
          by (simp add: upb_Message_AddUnknownSlowPath_def bind_xs_def message_Some try_extend_def)
        then show ?thesis by (rule entry) simp_all
      qed
    qed
  qed
  then show thesis using that by blast
qed

lemma AddUnknown_ample:
  assumes "messages s msg = Some M" "ample arena s"
  obtains t M' where "upb_Message_AddUnknown_Copy msg data arena s = (Inr True, t)" "same_rest s t"
    "messages t = (messages s)(msg \<mapsto> M')" "um_fields M' = um_fields M"
    "concat (unknown_chunks (um_aux M')) = concat (unknown_chunks (um_aux M)) @ data"
    "\<forall>e. find_ext e (um_aux M') = find_ext e (um_aux M)"
  by (rule AddUnknown_entries [OF assms, of data]) (rule that, auto simp: find_ext_entries dest: only_messages_frame)

text \<open>Reading, clearing and deleting, for a set of a live message.\<close>

lemma GetData_eq:
  assumes "set_object s self msg arena" "messages s msg = Some M"
  shows "PerlUpb_UnknownFieldSet_GetData self s = (Inr (newSVpvn (concat (unknown_chunks (um_aux M)))), s)"
proof -
  obtain p v asv where p: "GetSet self s = (Inr p, s)" "p \<noteq> NULL" "set_message_sv p s = (Inr v, s)"
    "PerlUpb_Message_GetMsg (Some v) s = (Inr msg, s)" "msg \<noteq> NULL"
    by (rule set_objectE [OF assms(1)])
  have "sum_list (map length (unknown_chunks (um_aux M))) = length (concat (unknown_chunks (um_aux M)))"
    by (simp add: length_concat)
  then show ?thesis
    using p assms(2)
    by (simp add: PerlUpb_UnknownFieldSet_GetData_def bind_xs_def message_Some Let_def newSVpv_def bytes_of_def
        del: concat_eq_Nil_conv sum_list_eq_0_iff length_concat)
qed

lemma Clear_eq:
  assumes "set_object s self msg arena" "messages s msg = Some M"
  shows "PerlUpb_UnknownFieldSet_Clear self s =
    (Inr (), put_message msg (M\<lparr>um_aux := filter is_ext_entry (um_aux M)\<rparr>) s)"
proof -
  obtain p v asv where p: "GetSet self s = (Inr p, s)" "p \<noteq> NULL" "set_message_sv p s = (Inr v, s)"
    "PerlUpb_Message_GetMsg (Some v) s = (Inr msg, s)" "msg \<noteq> NULL"
    by (rule set_objectE [OF assms(1)])
  then show ?thesis
    using assms(2) by (simp add: PerlUpb_UnknownFieldSet_Clear_def bind_xs_def upb_Message_DiscardUnknown_shallow_def message_Some)
qed

lemma Add_eq:
  assumes "set_object s self msg arena" "messages s msg = Some M" "ample arena s" "SvPVbyte N d = Some bs"
  obtains t M' where "PerlUpb_UnknownFieldSet_Add N self d s = (Inr (), t)" "same_rest s t"
    "messages t = (messages s)(msg \<mapsto> M')" "um_fields M' = um_fields M"
    "concat (unknown_chunks (um_aux M')) = concat (unknown_chunks (um_aux M)) @ bs"
    "\<forall>e. find_ext e (um_aux M') = find_ext e (um_aux M)"
proof -
  obtain p v asv where p: "GetSet self s = (Inr p, s)" "p \<noteq> NULL" "set_message_sv p s = (Inr v, s)"
    "PerlUpb_Message_GetMsg (Some v) s = (Inr msg, s)" "msg \<noteq> NULL"
    "PerlUpb_Message_GetArena s (Some v) = Some asv" "PerlUpb_Arena_Get (Some asv) s = (Inr arena, s)"
    by (rule set_objectE [OF assms(1)])
  obtain t M' where t: "upb_Message_AddUnknown_Copy msg bs arena s = (Inr True, t)" "same_rest s t"
    "messages t = (messages s)(msg \<mapsto> M')" "um_fields M' = um_fields M"
    "concat (unknown_chunks (um_aux M')) = concat (unknown_chunks (um_aux M)) @ bs"
    "\<forall>e. find_ext e (um_aux M') = find_ext e (um_aux M)"
    by (rule AddUnknown_ample [OF assms(2,3)])
  have "PerlUpb_UnknownFieldSet_Add N self d s = (Inr (), t)"
    using p t(1) assms(4) by (simp add: PerlUpb_UnknownFieldSet_Add_def bind_xs_def SvPVbyte_xs_def)
  with t(2-6) show thesis by (intro that)
qed

text \<open>The temporary arena comes and goes; everything else of the state is as \<open>same_rest\<close> says.\<close>

lemma DeleteTag_eq:
  assumes "set_object s self msg arena" "messages s msg = Some M" "ample arena s"
    and "arena_init_ok s = []" "next_ptr s \<noteq> NULL" "next_ptr s \<notin> upb_arenas s"
  obtains t M' where "PerlUpb_UnknownFieldSet_DeleteTag self tag s = (Inr (), t)" "same_rest s t"
    "messages t = (messages s)(msg \<mapsto> M')" "um_fields M' = um_fields M"
    "concat (unknown_chunks (um_aux M')) = concat (map (scrub_chunk tag) (unknown_chunks (um_aux M)))"
    "\<forall>e. find_ext e (um_aux M') = find_ext e (um_aux M)"
proof -
  obtain p v asv where p: "GetSet self s = (Inr p, s)" "p \<noteq> NULL" "set_message_sv p s = (Inr v, s)"
    "PerlUpb_Message_GetMsg (Some v) s = (Inr msg, s)" "msg \<noteq> NULL"
    "PerlUpb_Message_GetArena s (Some v) = Some asv" "PerlUpb_Arena_Get (Some asv) s = (Inr arena, s)"
    by (rule set_objectE [OF assms(1)])
  let ?tmp = "next_ptr s" and ?chunks = "unknown_chunks (um_aux M)"
  let ?new = "concat (map (scrub_chunk tag) ?chunks)"
  let ?s1 = "s\<lparr>next_ptr := ?tmp + 256, upb_arenas := insert ?tmp (upb_arenas s)\<rparr>"
  let ?M2 = "M\<lparr>um_aux := filter is_ext_entry (um_aux M)\<rparr>"
  let ?s2 = "put_message msg ?M2 ?s1"
  have new: "upb_Arena_New s = (Inr ?tmp, ?s1)"
    using assms(4) by (simp add: upb_Arena_Init_def)
  have fits: "length ?new \<le> sum_list (map length ?chunks)"
    by (simp add: length_concat comp_def) (rule sum_list_mono, rule length_scrub_chunk)
  have ample: "ample ?tmp ?s1" "ample arena ?s2" using assms(3) by (simp_all add: ample_def)
  have msg: "message msg ?s1 = (Inr M, ?s1)" using assms(2) by (simp add: message_def)
  have run: "PerlUpb_UnknownFieldSet_DeleteTag self tag s =
      (then_xs (if ?new \<noteq> [] then bind_xs (upb_Message_AddUnknown_Copy msg ?new arena) (\<lambda>_. ret ()) else ret ())
        (upb_Arena_Free ?tmp)) ?s2"
    using p new fits arena_malloc_ample [OF ample(1)] msg
    by (simp add: PerlUpb_UnknownFieldSet_DeleteTag_def bind_xs_def then_xs_def upb_Message_DiscardUnknown_shallow_def not_less
      Let_def del: concat_eq_Nil_conv)
  have "\<exists>u M'. (if ?new \<noteq> [] then bind_xs (upb_Message_AddUnknown_Copy msg ?new arena) (\<lambda>_. ret ()) else ret ()) ?s2 = (Inr (), u) \<and>
      same_rest ?s2 u \<and> messages u = (messages s)(msg \<mapsto> M') \<and> um_fields M' = um_fields M \<and>
      concat (unknown_chunks (um_aux M')) = ?new \<and> (\<forall>e. find_ext e (um_aux M') = find_ext e (um_aux M))"
  proof (cases "?new = []")
    case True
    then show ?thesis by (intro exI [of _ ?s2] exI [of _ ?M2]) (simp add: find_ext_simps)
  next
    case False
    have "messages ?s2 msg = Some ?M2" by simp
    then obtain u M' where u: "upb_Message_AddUnknown_Copy msg ?new arena ?s2 = (Inr True, u)" "same_rest ?s2 u"
      "messages u = (messages ?s2)(msg \<mapsto> M')" "um_fields M' = um_fields ?M2"
      "concat (unknown_chunks (um_aux M')) = concat (unknown_chunks (um_aux ?M2)) @ ?new"
      "\<forall>e. find_ext e (um_aux M') = find_ext e (um_aux ?M2)"
      by (rule AddUnknown_ample [OF _ ample(2)])
    have "(if ?new \<noteq> [] then bind_xs (upb_Message_AddUnknown_Copy msg ?new arena) (\<lambda>_. ret ()) else ret ()) ?s2 = (Inr (), u)"
      using False u(1) unfolding bind_xs_def by simp
    moreover have "messages u = (messages s)(msg \<mapsto> M')" "um_fields M' = um_fields M"
      "concat (unknown_chunks (um_aux M')) = ?new" "\<forall>e. find_ext e (um_aux M') = find_ext e (um_aux M)"
      using u(3-6) by (simp_all add: find_ext_simps)
    ultimately show ?thesis using u(2) by blast
  qed
  then obtain u M' where u: "(if ?new \<noteq> [] then bind_xs (upb_Message_AddUnknown_Copy msg ?new arena) (\<lambda>_. ret ()) else ret ()) ?s2 = (Inr (), u)"
      "same_rest ?s2 u" "messages u = (messages s)(msg \<mapsto> M')" "um_fields M' = um_fields M"
      "concat (unknown_chunks (um_aux M')) = ?new" "\<forall>e. find_ext e (um_aux M') = find_ext e (um_aux M)" by blast
  let ?t = "u\<lparr>upb_arenas := upb_arenas u - {?tmp}\<rparr>"
  have "upb_arenas u = insert ?tmp (upb_arenas s)" using u(2) by (simp add: same_rest_def)
  then have "PerlUpb_UnknownFieldSet_DeleteTag self tag s = (Inr (), ?t)" "upb_arenas ?t = upb_arenas s"
    using run u(1) assms(6) by (simp_all add: then_xs_Inr upb_Arena_Free_def)
  moreover have "same_rest s ?t" using u(2) \<open>upb_arenas ?t = upb_arenas s\<close> by (simp add: same_rest_def)
  ultimately show thesis using u(3-6) by (intro that [of ?t M']) simp_all
qed

section \<open>Properties\<close>

lemma set_object_same_rest:
  "set_object s self msg arena \<Longrightarrow> ample arena s \<Longrightarrow> same_rest s t \<Longrightarrow> set_object t self msg arena"
  by (rule set_object_frame) (simp_all add: same_rest_def ample_def)


lemma DeleteTag_GetData:
  assumes "set_object s self msg arena" "messages s msg = Some M" "ample arena s"
    and "arena_init_ok s = []" "next_ptr s \<noteq> NULL" "next_ptr s \<notin> upb_arenas s"
  shows "\<exists>t. PerlUpb_UnknownFieldSet_DeleteTag self tag s = (Inr (), t) \<and> upb_arenas t = upb_arenas s \<and>
    PerlUpb_UnknownFieldSet_GetData self t =
      (Inr (newSVpvn (concat (map (scrub_chunk tag) (unknown_chunks (um_aux M))))), t)"
proof -
  obtain t K where t: "PerlUpb_UnknownFieldSet_DeleteTag self tag s = (Inr (), t)" "same_rest s t"
    "messages t = (messages s)(msg \<mapsto> K)"
    "concat (unknown_chunks (um_aux K)) = concat (map (scrub_chunk tag) (unknown_chunks (um_aux M)))"
    by (rule DeleteTag_eq [OF assms])
  moreover have "set_object t self msg arena" by (rule set_object_same_rest [OF assms(1,3) t(2)])
  ultimately show ?thesis using GetData_eq [of t self msg arena K] by (simp add: same_rest_def)
qed

lemma concat_scrub_fields:
  assumes "\<forall>fs \<in> set fss. (\<forall>(n, v) \<in> set fs. wire_val_ok v) \<and> length (wire_bytes fs) < 2 ^ 64"
  shows "concat (map (scrub_chunk tag) (map wire_bytes fss)) = wire_bytes (filter (\<lambda>(n, _). n \<noteq> tag) (concat fss))"
  using assms
proof (induction fss)
  case (Cons fs fss)
  then have "scrub_chunk tag (wire_bytes fs) = wire_bytes (filter (\<lambda>(n, _). n \<noteq> tag) fs)"
    using scrub_chunk_fields [of fs "[]" tag] by simp
  with Cons show ?case by (simp add: wire_bytes_def)
qed (simp add: wire_bytes_def)

text \<open>
  C19: \<open>DeleteTag\<close> on well-formed data: when every chunk of unknown data is a sequence of
  varint, fixed-width and length-delimited fields, the call succeeds within its buffer,
  leaves no temporary arena behind, and the data read afterwards is that sequence
  without the fields of the given number.
\<close>

theorem delete_tag_filters:
  assumes "set_object s self msg arena" "messages s msg = Some M" "ample arena s"
    and "arena_init_ok s = []" "next_ptr s \<noteq> NULL" "next_ptr s \<notin> upb_arenas s"
    and "unknown_chunks (um_aux M) = map wire_bytes fss"
    and "\<forall>fs \<in> set fss. (\<forall>(n, v) \<in> set fs. wire_val_ok v) \<and> length (wire_bytes fs) < 2 ^ 64"
  shows "\<exists>t. PerlUpb_UnknownFieldSet_DeleteTag self tag s = (Inr (), t) \<and> upb_arenas t = upb_arenas s \<and>
    PerlUpb_UnknownFieldSet_GetData self t =
      (Inr (newSVpvn (wire_bytes (filter (\<lambda>(n, _). n \<noteq> tag) (concat fss)))), t)"
  using DeleteTag_GetData [OF assms(1-6), of tag] concat_scrub_fields [OF assms(8), of tag] assms(7) by simp

text \<open>
  \<open>DeleteTag\<close> and groups: a start-group field (wire type 3) ends the scan of its
  chunk, so deleting any field number, even one that does not occur, also loses the
  group and everything after it in that chunk.
\<close>

theorem delete_tag_loses_groups:
  assumes "set_object s self msg arena" "messages s msg = Some M" "ample arena s"
    and "arena_init_ok s = []" "next_ptr s \<noteq> NULL" "next_ptr s \<notin> upb_arenas s"
    and "unknown_chunks (um_aux M) = [wire_bytes fs @ varint_bytes (wire_tag k 3) @ rest]"
    and "\<forall>(n, v) \<in> set fs. wire_val_ok v" "length (wire_bytes fs @ varint_bytes (wire_tag k 3) @ rest) < 2 ^ 64"
    and "tag \<notin> fst ` set fs"
  shows "\<exists>t. PerlUpb_UnknownFieldSet_DeleteTag self tag s = (Inr (), t) \<and>
    PerlUpb_UnknownFieldSet_GetData self t = (Inr (newSVpvn (wire_bytes fs)), t)"
proof -
  have "filter (\<lambda>(n, _). n \<noteq> tag) fs = fs" using assms(10) by (force simp: filter_id_conv)
  then have "scrub_chunk tag (wire_bytes fs @ varint_bytes (wire_tag k 3) @ rest) = wire_bytes fs"
    using scrub_chunk_fields [OF assms(8,9), of tag] by (simp add: scrub_chunk_other)
  then show ?thesis using DeleteTag_GetData [OF assms(1-6), of tag] assms(7) by auto
qed

text \<open>The example message with a set object at address 2 and one chunk of unknown data.\<close>

definition set_boot :: "byte list \<Rightarrow> upb_st" where
  "set_boot data = (snd (PerlUpb_UnknownFieldSet_New (newRV 1) msg_boot))
     \<lparr>messages := [0x3000 \<mapsto> \<lparr>um_fields = [], um_aux = [Aux_unknown False data], um_aux_cap = Some 4\<rparr>]\<rparr>"

lemma set_boot_facts:
  "set_object (set_boot data) (Some (newRV 2)) 0x3000 0x2000" "ample 0x2000 (set_boot data)"
  "messages (set_boot data) 0x3000 = Some \<lparr>um_fields = [], um_aux = [Aux_unknown False data], um_aux_cap = Some 4\<rparr>"
  "arena_init_ok (set_boot data) = []" "next_ptr (set_boot data) = 0x8100" "upb_arenas (set_boot data) = {0x2000}"
proof -
  let ?r = "sv_bless ''Protobuf::UnknownFieldSet'' \<lparr>ref_body = PVMG (newSViv 0x8000), ref_stash = None, ref_magic = [], ref_tied = None\<rparr>"
  have eq: "set_boot data = msg_boot\<lparr>next_ptr := 0x8100, cheap := [0x8000 \<mapsto> CS_UnknownFieldSet (newRV 1)],
      heap := (heap msg_boot)(2 \<mapsto> ?r), next_addr := 3,
      messages := [0x3000 \<mapsto> \<lparr>um_fields = [], um_aux = [Aux_unknown False data], um_aux_cap = Some 4\<rparr>]\<rparr>"
    by (simp add: set_boot_def PerlUpb_UnknownFieldSet_New_def new_struct_object_def c_malloc_def fresh_ptr_def
        bind_xs_def then_xs_def alloc_def)
  have b: "bound_object (set_boot data) (newRV 1) ''Protobuf::Message'' 0x3000 (Some (newRV 0))"
    using msg_boot_facts(1) by (auto simp: bound_object_def sv_derived_from_def eq split: option.splits)
  have a: "arena_sv_ok (set_boot data) (newRV 0) 0x2000"
    using msg_boot_facts(2) by (simp add: arena_sv_ok_def sv_isa_def eq)
  show "set_object (set_boot data) (Some (newRV 2)) 0x3000 0x2000"
    unfolding set_object_def using a b
    by (intro exI [of _ "0x8000"] exI [of _ "newRV 1"] exI [of _ "newRV 0"])
      (simp add: GetSet_def struct_object_ptr_def sv_derived_from_def eq, simp add: sv_bless_def)
  show "arena_init_ok (set_boot data) = []" by (simp add: eq msg_boot_def upb_boot_def cache_st.extend_def)
qed (simp_all add: set_boot_def ample_def PerlUpb_UnknownFieldSet_New_def new_struct_object_def c_malloc_def fresh_ptr_def
    bind_xs_def then_xs_def alloc_def)


theorem delete_tag_filters_witness:
  "\<exists>t. PerlUpb_UnknownFieldSet_DeleteTag (Some (newRV 2)) 1 (set_boot (wire_bytes [(1, W_Varint 5), (2, W_Varint 7)])) = (Inr (), t) \<and>
     PerlUpb_UnknownFieldSet_GetData (Some (newRV 2)) t = (Inr (newSVpvn (wire_bytes [(2, W_Varint 7)])), t)"
proof -
  have len: "length (wire_bytes [(1, W_Varint 5), (2, W_Varint 7)]) = 4" by code_simp
  show ?thesis
    using delete_tag_filters [OF set_boot_facts(1,3,2,4), of "wire_bytes [(1, W_Varint 5), (2, W_Varint 7)]"
        "[[(1, W_Varint 5), (2, W_Varint 7)]]" 1] len
    by (auto simp: set_boot_facts)
qed

theorem delete_tag_loses_groups_witness:
  "\<exists>t. PerlUpb_UnknownFieldSet_DeleteTag (Some (newRV 2)) 9
       (set_boot (wire_bytes [(1, W_Varint 5)] @ varint_bytes (wire_tag 2 3) @ [20])) = (Inr (), t) \<and>
     PerlUpb_UnknownFieldSet_GetData (Some (newRV 2)) t = (Inr (newSVpvn (wire_bytes [(1, W_Varint 5)])), t)"
proof -
  have len: "length (wire_bytes [(1, W_Varint 5)] @ varint_bytes (wire_tag 2 3) @ [20]) = 4" by code_simp
  show ?thesis
    using delete_tag_loses_groups [OF set_boot_facts(1,3,2,4), of "wire_bytes [(1, W_Varint 5)] @ varint_bytes (wire_tag 2 3) @ [20]"
        "[(1, W_Varint 5)]" 2 "[20]" 9] len
    by (simp add: set_boot_facts del: length_append)
qed

end
