(* ===== verification/Container_Objects.thy ===== *)
theory Container_Objects
  imports Utils
begin

text \<open>
  The Perl objects around upb arrays and maps: the constructors and accessors of
  \<open>xs/repeated/repeated.c\<close> and \<open>xs/map/map.c\<close> that the conversions need, and
  \<open>perl_env\<close>, what the sources call back into Perl for.
\<close>

section \<open>Calls into Perl\<close>

text \<open>
  \<open>num\<close> reads numbers out of strings; \<open>call_method\<close> calls a method and \<open>call_pv\<close> a
  function, both with the values left on the stack as result; \<open>get_cv\<close> says whether a
  function exists; \<open>tied_keys\<close> and \<open>tied_len\<close> run \<open>FIRSTKEY\<close>/\<open>NEXTKEY\<close> and \<open>FETCHSIZE\<close>
  of a tied container.
\<close>

record perl_env =
  num :: str_num
  call_method :: "string \<Rightarrow> sv list \<Rightarrow> (upb_st, sv list) xs"
  call_pv :: "string \<Rightarrow> sv list \<Rightarrow> (upb_st, sv list) xs"
  get_cv :: "string \<Rightarrow> bool"
  tied_keys :: "sv \<Rightarrow> (upb_st, sv list) xs"
  tied_len :: "sv \<Rightarrow> (upb_st, nat) xs"

text \<open>A Perl side for evaluating the model: methods return an undefined value, functions their arguments.\<close>

definition ex_env :: perl_env where
  "ex_env = \<lparr>num = ex_num, call_method = (\<lambda>_ _. ret [PL_sv_undef]), call_pv = (\<lambda>_ args. ret args),
     get_cv = (\<lambda>_. False), tied_keys = (\<lambda>_. ret []), tied_len = (\<lambda>_. ret 0)\<rparr>"

text \<open>\<open>POPs\<close> after a call.\<close>

definition pop_sv :: "sv list \<Rightarrow> (upb_st, sv) xs" where
  "pop_sv vs = (if vs = [] then fault ''POPs of an empty stack'' else ret (last vs))"

section \<open>Containers\<close>

text \<open>The part the two constructors share; both use the object found in the cache as it is.\<close>

definition wrap_container :: "(PerlUpb_Registry \<Rightarrow> string) \<Rightarrow> string \<Rightarrow> ptr \<Rightarrow> ptr \<Rightarrow> sv option \<Rightarrow> u16 \<Rightarrow> (upb_st, sv) xs" where
  "wrap_container stash_of dflt p f arena_sv flags =
     (if p = NULL then ret PL_sv_undef
      else bind_xs (lift_xs (PerlUpb_ObjCache_Get p)) (\<lambda>cached.
       case cached of
         Some v \<Rightarrow> ret v
       | None \<Rightarrow>
           bind_xs (lift_xs PerlUpb_Registry_Get) (\<lambda>reg.
           bind_xs (PerlUpb_WrapArenaBoundObject p arena_sv (case reg of Some r \<Rightarrow> stash_of r | None \<Rightarrow> dflt) flags) (\<lambda>self.
           bind_xs (rv_hv (Some self)) (\<lambda>_.
           then_xs (modify_xs (rv_update (Some self) (hv_store ''_fdef'' (newSViv f)))) (ret self))))))"

definition PerlUpb_Repeated_New :: "ptr \<Rightarrow> ptr \<Rightarrow> sv option \<Rightarrow> u16 \<Rightarrow> (upb_st, sv) xs" where
  "PerlUpb_Repeated_New = wrap_container stash_repeated ''Protobuf::Internal::Repeated''"

definition PerlUpb_Map_New :: "ptr \<Rightarrow> ptr \<Rightarrow> sv option \<Rightarrow> u16 \<Rightarrow> (upb_st, sv) xs" where
  "PerlUpb_Map_New = wrap_container stash_map ''Protobuf::Internal::Map''"

definition PerlUpb_Repeated_GetArray :: "sv option \<Rightarrow> (upb_st, ptr) xs" where
  "PerlUpb_Repeated_GetArray v = PerlUpb_GetArenaBoundObject v (Some ''Protobuf::Internal::Repeated'')"

definition PerlUpb_Map_GetMapPtr :: "sv option \<Rightarrow> (upb_st, ptr) xs" where
  "PerlUpb_Map_GetMapPtr v = PerlUpb_GetArenaBoundObject v (Some ''Protobuf::Internal::Map'')"

text \<open>The field definition stored in the object.\<close>

definition GetFieldDef :: "sv option \<Rightarrow> (upb_st, ptr) xs" where
  "GetFieldDef v =
     (case Option.bind v sv_rok of
        None \<Rightarrow> ret NULL
      | Some _ \<Rightarrow> bind_xs (rv_hv v) (\<lambda>r.
          ret (case iv_ptr (hv_fetch r ''_fdef'') of None \<Rightarrow> NULL | Some f \<Rightarrow> f)))"

definition PerlUpb_Repeated_GetFieldDef :: "sv option \<Rightarrow> (upb_st, ptr) xs" where
  "PerlUpb_Repeated_GetFieldDef self = GetFieldDef self"

definition PerlUpb_Map_GetFieldDef :: "sv option \<Rightarrow> (upb_st, ptr) xs" where
  "PerlUpb_Map_GetFieldDef self = GetFieldDef self"

definition PerlUpb_Map_GetArenaSV :: "upb_st \<Rightarrow> sv option \<Rightarrow> sv option" where
  "PerlUpb_Map_GetArenaSV s self = PerlUpb_GetArenaFromObject s self"

text \<open>Key and value field of a map's entry message.\<close>

definition GetMapEntryDefs :: "ptr \<Rightarrow> (upb_st, ptr \<times> ptr) xs" where
  "GetMapEntryDefs f =
     bind_xs (fdef f) (\<lambda>d.
     bind_xs (mdef (fd_msg_subdef d)) (\<lambda>_.
     gets_xs (\<lambda>s. (upb_MessageDef_FindFieldByNumber (defs s) (fd_msg_subdef d) 1,
                   upb_MessageDef_FindFieldByNumber (defs s) (fd_msg_subdef d) 2))))"

definition PerlUpb_Repeated_Free :: "sv option \<Rightarrow> (upb_st, unit) xs" where
  "PerlUpb_Repeated_Free v = ret ()"

definition PerlUpb_Map_Free :: "sv option \<Rightarrow> (upb_st, unit) xs" where
  "PerlUpb_Map_Free v = ret ()"

section \<open>Facts\<close>

text \<open>\<open>self\<close> wraps the container \<open>p\<close> of field \<open>f\<close> in the live arena \<open>arena\<close>.\<close>

definition container_object :: "upb_st \<Rightarrow> sv \<Rightarrow> string \<Rightarrow> ptr \<Rightarrow> ptr \<Rightarrow> sv \<Rightarrow> ptr \<Rightarrow> bool" where
  "container_object s self cls p f asv arena \<longleftrightarrow>
     bound_object s self cls p (Some asv) \<and> GetFieldDef (Some self) s = (Inr f, s) \<and> f \<noteq> NULL \<and> arena_sv_ok s asv arena"

lemma GetFieldDef_cong:
  assumes "heap t = heap s" "GetFieldDef v s = (Inr f, s)"
  shows "GetFieldDef v t = (Inr f, t)"
proof (cases "Option.bind v sv_rok")
  case (Some a)
  then have "deref t v = deref s v" by (simp add: assms(1) deref_cong [of t s])
  with Some assms(2) show ?thesis by (auto simp: GetFieldDef_def rv_hv_def bind_xs_def split: option.splits if_splits)
qed (use assms(2) in \<open>auto simp: GetFieldDef_def\<close>)

lemma container_object_cong:
  "heap t = heap s \<Longrightarrow> isa t = isa s \<Longrightarrow> raw_arenas t = raw_arenas s \<Longrightarrow> upb_arenas t = upb_arenas s \<Longrightarrow>
   container_object s self cls p f asv arena \<Longrightarrow> container_object t self cls p f asv arena"
  unfolding container_object_def
  using bound_object_cong [of t s] GetFieldDef_cong [of t s] arena_sv_ok_cong [of t s arena asv]
  by (simp add: arena_sv_ok_def)

lemma container_object_Get:
  assumes "container_object s self cls p f asv arena"
  shows "PerlUpb_GetArenaBoundObject (Some self) (Some cls) s = (Inr p, s)" "GetFieldDef (Some self) s = (Inr f, s)"
    "PerlUpb_GetArenaFromObject s (Some self) = Some asv" "PerlUpb_Arena_Get (Some asv) s = (Inr arena, s)"
    "p \<noteq> NULL" "f \<noteq> NULL" "arena \<in> upb_arenas s"
  using assms bound_object_Get [of s self cls p "Some asv"] arena_sv_ok_Get [of s asv arena]
  by (auto simp: container_object_def bound_object_def arena_sv_ok_def)

end
