(* ===== verification/Sv_To_Upb.thy ===== *)
theory Sv_To_Upb
  imports Container_Objects
begin

text \<open>
  Conversion of Perl values to upb values (\<open>xs/convert/sv_to_upb.c\<close>): range checks,
  single values, the unchecked batch conversion of arrays of numbers, and whole fields
  with nested messages, maps and tied containers. \<open>None\<close> is the result \<open>false\<close>. A nested
  hash recurses; \<open>stack_limit\<close> bounds how deep. Hash keys are byte strings: the UTF-8
  flag Perl keeps with a wide key is left out.
\<close>

text \<open>The shape of the conversion that nested values call back.\<close>

type_synonym to_upb = "sv \<Rightarrow> ptr \<Rightarrow> ptr \<Rightarrow> (upb_st, upb_MessageValue option) xs"

text \<open>A format that ends in a single quote.\<close>

definition quoted :: "string \<Rightarrow> string" where
  "quoted fmt = fmt @ [CHR 39]"

section \<open>Range checks\<close>

text \<open>\<open>sv_reftype\<close> is asked about the scalar itself, which is never an object.\<close>

definition sv_reftype :: "sv \<Rightarrow> string" where
  "sv_reftype v = (if SvROK v then ''REF'' else ''SCALAR'')"

definition CROAK_WRONG_TYPE :: "sv \<Rightarrow> string \<Rightarrow> upb_FieldDef \<Rightarrow> ('s, 'a) xs" where
  "CROAK_WRONG_TYPE v expected d =
     croak ''Expected %s for field '%s', but got %s'' [CStr expected, CStr (fd_name d), CStr (sv_reftype v)]"

definition verify_limits :: "str_num \<Rightarrow> sv \<Rightarrow> upb_FieldDef \<Rightarrow> nv \<Rightarrow> nv \<Rightarrow> ('s, unit) xs" where
  "verify_limits N v d lo hi =
     (let val = SvNV N v
      in if nv_less val lo \<or> nv_less hi val
         then croak ''Value %f out of range for field '%s' (type %d, limits %f to %f)''
           [CNv val, CStr (fd_name d), CInt (field_type_num (fd_type d)), CNv lo, CNv hi]
         else ret ())"

definition verify_limits_64 :: "str_num \<Rightarrow> sv \<Rightarrow> upb_FieldDef \<Rightarrow> bool \<Rightarrow> ('z perl_st_scheme, unit) xs" where
  "verify_limits_64 N v d is_signed =
     bind_xs (gets_xs (\<lambda>s. SvROK v \<and> sv_derived_from s (Some v) ''Math::BigInt'')) (\<lambda>big.
     if big then ret ()
     else if is_signed then ret ()
     else if SvUOK v then ret ()
     else if SvNOK v then
       (if nv_less (SvNV N v) (NvFin 0 0)
        then croak (quoted ''Value %f out of range for unsigned field '%s'') [CNv (SvNV N v), CStr (fd_name d)] else ret ())
     else if SvIOK v then
       (if sint (SvIV N v) < 0
        then croak (quoted ''Value %ld out of range for unsigned field '%s'') [CInt (sint (SvIV N v)), CStr (fd_name d)] else ret ())
     else ret ())"

definition INT32_MIN :: nv where "INT32_MIN = NvFin (- (2 ^ 31)) 0"
definition INT32_MAX :: nv where "INT32_MAX = NvFin (2 ^ 31 - 1) 0"
definition UINT32_MAX :: nv where "UINT32_MAX = NvFin (2 ^ 32 - 1) 0"

text \<open>The double nearest to the literal \<open>3.402823466e+38\<close>; \<open>FLT_MAX\<close> is a little larger.\<close>

definition float_limit :: int where "float_limit = 4503599358425115"

section \<open>Single values\<close>

definition is_number :: "str_num \<Rightarrow> sv \<Rightarrow> bool" where
  "is_number N v \<longleftrightarrow> SvIOK v \<or> SvNOK v \<or>
     (case sv_pok v of Some (_, bs) \<Rightarrow> looks_like_number N bs | None \<Rightarrow> False)"

definition sv_isobject :: "'z perl_st_scheme \<Rightarrow> sv \<Rightarrow> bool" where
  "sv_isobject s v = (case deref s (Some v) of None \<Rightarrow> False | Some r \<Rightarrow> ref_stash r \<noteq> None)"

text \<open>Copying the bytes of a string into the arena.\<close>

definition copy_bytes :: "ptr \<Rightarrow> byte list \<Rightarrow> string \<Rightarrow> (upb_st, upb_MessageValue option) xs" where
  "copy_bytes arena bs err =
     bind_xs (arena_malloc arena) (\<lambda>ok. if ok then ret (Some (Val_str bs)) else croak err [])"

definition convert_enum :: "str_num \<Rightarrow> sv \<Rightarrow> upb_FieldDef \<Rightarrow> (upb_st, upb_MessageValue option) xs" where
  "convert_enum N v d =
     (if SvIOK v then ret (Some (Val_int32 (ucast (SvIV N v))))
      else if SvPOK v then
        (let name = SvPVutf8 N v
         in if fd_enum_subdef d = NULL then croak (quoted ''Missing EnumDef for field '%s'') [CStr (fd_name d)]
            else bind_xs (gets_xs (\<lambda>s. enumdefs (defs s) (fd_enum_subdef d))) (\<lambda>ed.
              case ed of
                None \<Rightarrow> fault ''enum definition of a bad pointer''
              | Some ed \<Rightarrow> (case map_of (ed_values ed) name of
                    None \<Rightarrow> croak (quoted ''Invalid enum name '%s' for field '%s'') [CStr (string_of name), CStr (fd_name d)]
                  | Some n \<Rightarrow> ret (Some (Val_int32 n)))))
      else CROAK_WRONG_TYPE v ''an Integer or Enum Name'' d)"

text \<open>
  The entries an iteration over a hash yields, with the values as they are before any
  \<open>FETCH\<close>: undefined in a tied hash.
\<close>

definition hv_iterate :: "perl_env \<Rightarrow> referent \<Rightarrow> (upb_st, (sv \<times> sv) list) xs" where
  "hv_iterate E r =
     (case ref_tied r of
        Some obj \<Rightarrow> bind_xs (tied_keys E obj) (\<lambda>ks. ret (map (\<lambda>k. (k, PL_sv_undef)) ks))
      | None \<Rightarrow> (case ref_body r of
          PVHV kvs \<Rightarrow> ret (map (\<lambda>(k, v). (newSVpv k, v)) kvs)
        | _ \<Rightarrow> fault ''hash access on an SV that is not a hash''))"

text \<open>A key as the C string \<open>hv_iterkey\<close> returns: cut at the first NUL by its readers.\<close>

definition c_key :: "str_num \<Rightarrow> sv \<Rightarrow> string" where
  "c_key N k = takeWhile (\<lambda>c. c \<noteq> CHR 0x00) (string_of (snd (sv_string N k)))"

text \<open>A new message filled from a hash; \<open>rec\<close> is \<open>PerlUpb_SvToUpb\<close>.\<close>

definition message_from_hash ::
    "perl_env \<Rightarrow> to_upb \<Rightarrow> referent \<Rightarrow> ptr \<Rightarrow> ptr \<Rightarrow>
     (upb_st, upb_MessageValue option) xs" where
  "message_from_hash E rec r target arena =
     bind_xs (upb_Message_New arena) (\<lambda>dst.
     bind_xs (hv_iterate E r) (\<lambda>kvs.
     then_xs (iter_xs (\<lambda>(k, v).
       bind_xs (mdef target) (\<lambda>md.
       bind_xs (gets_xs (\<lambda>s. upb_MessageDef_FindFieldByName (defs s) target (c_key (num E) k))) (\<lambda>sub_f.
       if sub_f = NULL
       then croak (quoted ''Field '%s' not found in message '%s'') [CStr (c_key (num E) k), CStr (md_full_name md)]
       else bind_xs (rec v sub_f arena) (\<lambda>x.
         case x of None \<Rightarrow> ret ()
         | Some val \<Rightarrow> bind_xs (upb_Message_SetFieldByDef dst sub_f val arena) (\<lambda>_. ret ()))))) kvs)
     (ret (Some (Val_msg dst)))))"

definition convert_message_object :: "sv \<Rightarrow> upb_FieldDef \<Rightarrow> ptr \<Rightarrow> (upb_st, upb_MessageValue option) xs" where
  "convert_message_object v d arena =
     bind_xs (PerlUpb_Message_GetMsg (Some v)) (\<lambda>src_msg.
     if src_msg = NULL then CROAK_WRONG_TYPE v ''a Message object or HashRef'' d
     else bind_xs (PerlUpb_Message_GetDef (Some v)) (\<lambda>src_mdef.
       if src_mdef \<noteq> fd_msg_subdef d then
         bind_xs (mdef (fd_msg_subdef d)) (\<lambda>tm. bind_xs (mdef src_mdef) (\<lambda>sm.
         croak ''Message type mismatch for field '%s': expected %s, got %s''
           [CStr (fd_name d), CStr (md_full_name tm), CStr (md_full_name sm)]))
       else bind_xs (upb_Message_New arena) (\<lambda>dst_msg.
         bind_xs (upb_Message_DeepCopy dst_msg src_msg (fd_msg_subdef d) arena) (\<lambda>ok.
         if \<not> ok then croak ''Deep copy of message failed'' [] else ret (Some (Val_msg dst_msg))))))"

definition convert_message ::
    "perl_env \<Rightarrow> to_upb \<Rightarrow> sv \<Rightarrow> upb_FieldDef \<Rightarrow> ptr \<Rightarrow> (upb_st, upb_MessageValue option) xs" where
  "convert_message E rec v d arena =
     bind_xs (mdef (fd_msg_subdef d)) (\<lambda>_.
     bind_xs (gets_xs (\<lambda>s. (deref s (Some v), sv_isobject s v))) (\<lambda>(r, isobj).
     case r of
       Some h \<Rightarrow>
         if is_HV h \<and> \<not> isobj then message_from_hash E rec h (fd_msg_subdef d) arena
         else convert_message_object v d arena
     | None \<Rightarrow> convert_message_object v d arena))"

definition convert_singular_sv_to_upb ::
    "perl_env \<Rightarrow> to_upb \<Rightarrow> sv \<Rightarrow> ptr \<Rightarrow> ptr \<Rightarrow> (upb_st, upb_MessageValue option) xs" where
  "convert_singular_sv_to_upb E rec v f arena =
     bind_xs (fdef f) (\<lambda>d.
     let N = num E;
         int32 = (if is_number N v
                  then then_xs (verify_limits N v d INT32_MIN INT32_MAX) (ret (Some (Val_int32 (ucast (SvIV N v)))))
                  else CROAK_WRONG_TYPE v ''an Integer'' d);
         uint32 = (if is_number N v
                   then then_xs (verify_limits N v d (NvFin 0 0) UINT32_MAX) (ret (Some (Val_uint32 (ucast (SvUV N v)))))
                   else CROAK_WRONG_TYPE v ''an Unsigned Integer'' d);
         int64 = then_xs (verify_limits_64 N v d True)
                   (bind_xs (PerlUpb_SVToI64 N (Some v)) (\<lambda>w. ret (Some (Val_int64 w))));
         uint64 = then_xs (verify_limits_64 N v d False)
                   (bind_xs (PerlUpb_SVToU64 N (Some v)) (\<lambda>w. ret (Some (Val_uint64 w))))
     in case fd_type d of
          kUpb_FieldType_Int32 \<Rightarrow> int32
        | kUpb_FieldType_SInt32 \<Rightarrow> int32
        | kUpb_FieldType_SFixed32 \<Rightarrow> int32
        | kUpb_FieldType_String \<Rightarrow>
            if \<not> SvPOK v then CROAK_WRONG_TYPE v ''a String'' d
            else copy_bytes arena (SvPVutf8 N v) ''Arena allocation failed for string''
        | kUpb_FieldType_Bytes \<Rightarrow>
            if \<not> SvPOK v then CROAK_WRONG_TYPE v ''a Bytes'' d
            else bind_xs (SvPVbyte_xs N v) (\<lambda>bs. copy_bytes arena bs ''Arena allocation failed for bytes'')
        | kUpb_FieldType_Bool \<Rightarrow> ret (Some (Val_bool (SvTRUE v)))
        | kUpb_FieldType_Float \<Rightarrow>
            if is_number N v
            then then_xs (verify_limits N v d (NvFin (- float_limit) 76) (NvFin float_limit 76))
              (ret (Some (Val_float (to_float (SvNV N v)))))
            else CROAK_WRONG_TYPE v ''a Number'' d
        | kUpb_FieldType_Double \<Rightarrow>
            if is_number N v then ret (Some (Val_double (SvNV N v))) else CROAK_WRONG_TYPE v ''a Number'' d
        | kUpb_FieldType_UInt32 \<Rightarrow> uint32
        | kUpb_FieldType_Fixed32 \<Rightarrow> uint32
        | kUpb_FieldType_Int64 \<Rightarrow> int64
        | kUpb_FieldType_SInt64 \<Rightarrow> int64
        | kUpb_FieldType_SFixed64 \<Rightarrow> int64
        | kUpb_FieldType_UInt64 \<Rightarrow> uint64
        | kUpb_FieldType_Fixed64 \<Rightarrow> uint64
        | kUpb_FieldType_Enum \<Rightarrow> convert_enum N v d
        | kUpb_FieldType_Message \<Rightarrow> convert_message E rec v d arena
        | kUpb_FieldType_Group \<Rightarrow> convert_message E rec v d arena)"

section \<open>Batches\<close>

text \<open>The value the batch stores for one element: no range check, no type check.\<close>

definition batch_value :: "str_num \<Rightarrow> upb_FieldType \<Rightarrow> sv \<Rightarrow> (upb_st, upb_MessageValue) xs" where
  "batch_value N ty v =
     (let int32 = ret (Val_int32 (ucast (SvIV N v)));
          uint32 = ret (Val_uint32 (ucast (SvUV N v)));
          int64 = bind_xs (PerlUpb_SVToI64 N (Some v)) (\<lambda>w. ret (Val_int64 w));
          uint64 = bind_xs (PerlUpb_SVToU64 N (Some v)) (\<lambda>w. ret (Val_uint64 w));
          unsupported = croak ''PerlUpb_SvToUpb_BatchRaw: Unsupported type %d for fast-path'' [CInt (field_type_num ty)]
      in case ty of
           kUpb_FieldType_Bool \<Rightarrow> ret (Val_bool (SvTRUE v))
         | kUpb_FieldType_Int32 \<Rightarrow> int32
         | kUpb_FieldType_SInt32 \<Rightarrow> int32
         | kUpb_FieldType_SFixed32 \<Rightarrow> int32
         | kUpb_FieldType_Enum \<Rightarrow> int32
         | kUpb_FieldType_UInt32 \<Rightarrow> uint32
         | kUpb_FieldType_Fixed32 \<Rightarrow> uint32
         | kUpb_FieldType_Float \<Rightarrow> ret (Val_float (to_float (SvNV N v)))
         | kUpb_FieldType_Double \<Rightarrow> ret (Val_double (SvNV N v))
         | kUpb_FieldType_Int64 \<Rightarrow> int64
         | kUpb_FieldType_SInt64 \<Rightarrow> int64
         | kUpb_FieldType_SFixed64 \<Rightarrow> int64
         | kUpb_FieldType_UInt64 \<Rightarrow> uint64
         | kUpb_FieldType_Fixed64 \<Rightarrow> uint64
         | kUpb_FieldType_String \<Rightarrow> unsupported
         | kUpb_FieldType_Bytes \<Rightarrow> unsupported
         | kUpb_FieldType_Message \<Rightarrow> unsupported
         | kUpb_FieldType_Group \<Rightarrow> unsupported)"

definition batchable :: "upb_FieldType \<Rightarrow> bool" where
  "batchable ty \<longleftrightarrow> ty \<notin> {kUpb_FieldType_String, kUpb_FieldType_Bytes, kUpb_FieldType_Message, kUpb_FieldType_Group}"

text \<open>The loop over the elements, writing into the data block of the array \<open>dst\<close>.\<close>

fun batch_loop :: "str_num \<Rightarrow> upb_FieldType \<Rightarrow> ptr \<Rightarrow> nat \<Rightarrow> sv list \<Rightarrow> (upb_st, unit) xs" where
  "batch_loop N ty dst i [] = ret ()"
| "batch_loop N ty dst i (v # vs) =
     bind_xs (batch_value N ty v) (\<lambda>x. then_xs (upb_Array_Set dst i x) (batch_loop N ty dst (Suc i) vs))"

definition PerlUpb_SvToUpb_BatchRaw :: "str_num \<Rightarrow> sv list \<Rightarrow> upb_FieldType \<Rightarrow> ptr \<Rightarrow> (upb_st, unit) xs" where
  "PerlUpb_SvToUpb_BatchRaw N src ty dst =
     (if batchable ty then batch_loop N ty dst 0 src
      else croak ''PerlUpb_SvToUpb_BatchRaw: Unsupported type %d for fast-path'' [CInt (field_type_num ty)])"

section \<open>Fields\<close>

text \<open>A map field from another map object: only the type of the map field is compared.\<close>

definition copy_map :: "ptr \<Rightarrow> ptr \<Rightarrow> ptr \<Rightarrow> (upb_st, upb_MessageValue option) xs" where
  "copy_map src_map f arena =
     bind_xs (GetMapEntryDefs f) (\<lambda>(key_f, val_f).
     bind_xs (fdef key_f) (\<lambda>_. bind_xs (fdef val_f) (\<lambda>vd.
     bind_xs (upb_Map_New arena) (\<lambda>dst_map.
     bind_xs (map_at src_map) (\<lambda>kvs.
     then_xs (iter_xs (\<lambda>(k, v).
       bind_xs (if is_submsg vd
                then bind_xs (upb_Message_New arena) (\<lambda>dst_v.
                  bind_xs (upb_Message_DeepCopy dst_v (val_ptr v) (fd_msg_subdef vd) arena) (\<lambda>_. ret (Val_msg dst_v)))
                else ret v) (\<lambda>w.
       bind_xs (upb_Map_Set dst_map k w arena) (\<lambda>_. ret ()))) kvs)
     (ret (Some (Val_map dst_map))))))))"

text \<open>A map field from the entries of a Perl hash; stops at a key or value that fails.\<close>

definition map_from_hash ::
    "perl_env \<Rightarrow> to_upb \<Rightarrow> referent \<Rightarrow> ptr \<Rightarrow> ptr \<Rightarrow> (upb_st, upb_MessageValue option) xs" where
  "map_from_hash E rec r f arena =
     bind_xs (GetMapEntryDefs f) (\<lambda>(key_f, val_f).
     bind_xs (fdef key_f) (\<lambda>_. bind_xs (fdef val_f) (\<lambda>_.
     bind_xs (upb_Map_New arena) (\<lambda>dst_map.
     bind_xs (hv_iterate E r) (\<lambda>kvs.
     bind_xs (all_xs (\<lambda>(k, v).
       bind_xs (case ref_tied r of
           Some obj \<Rightarrow> if SvOK v then ret v else bind_xs (call_method E ''FETCH'' [obj, k]) pop_sv
         | None \<Rightarrow> ret v) (\<lambda>v.
       bind_xs (convert_singular_sv_to_upb E rec k key_f arena) (\<lambda>kx.
       case kx of
         None \<Rightarrow> ret False
       | Some kx \<Rightarrow> bind_xs (convert_singular_sv_to_upb E rec v val_f arena) (\<lambda>vx.
           case vx of
             None \<Rightarrow> ret False
           | Some vx \<Rightarrow> bind_xs (upb_Map_Set dst_map kx vx arena) (\<lambda>_. ret True))))) kvs) (\<lambda>ok.
     ret (if ok then Some (Val_map dst_map) else None)))))))"

definition tied_as :: "upb_st \<Rightarrow> referent \<Rightarrow> string \<Rightarrow> bool" where
  "tied_as s r cls = (case ref_tied r of None \<Rightarrow> False | Some obj \<Rightarrow> sv_derived_from s (Some obj) cls)"

definition convert_map_field ::
    "perl_env \<Rightarrow> to_upb \<Rightarrow> sv \<Rightarrow> referent \<Rightarrow> ptr \<Rightarrow> upb_FieldDef \<Rightarrow> ptr \<Rightarrow> (upb_st, upb_MessageValue option) xs" where
  "convert_map_field E rec v r f d arena =
     (if \<not> is_HV r then CROAK_WRONG_TYPE v ''a Hash Reference'' d
      else bind_xs (gets_xs (\<lambda>s. tied_as s r ''Protobuf::Internal::Map'')) (\<lambda>ours.
       if ours then
         bind_xs (PerlUpb_Map_GetMapPtr (ref_tied r)) (\<lambda>src_map.
         bind_xs (PerlUpb_Map_GetFieldDef (ref_tied r)) (\<lambda>src_f.
         if src_map = NULL then map_from_hash E rec r f arena
         else bind_xs (fdef src_f) (\<lambda>sd.
           if fd_type sd \<noteq> fd_type d then croak ''Type mismatch when copying map field'' []
           else copy_map src_map f arena)))
       else map_from_hash E rec r f arena))"

text \<open>A repeated field from another repeated field.\<close>

definition copy_repeated :: "ptr \<Rightarrow> upb_FieldDef \<Rightarrow> ptr \<Rightarrow> (upb_st, upb_MessageValue option) xs" where
  "copy_repeated src_arr d arena =
     bind_xs (upb_Array_Size src_arr) (\<lambda>n.
     bind_xs (upb_Array_New arena (upb_FieldType_CType (fd_type d))) (\<lambda>dst_arr.
     bind_xs (upb_Array_Resize dst_arr n arena) (\<lambda>ok.
     if \<not> ok then croak ''Failed to resize destination array'' []
     else then_xs (iter_xs (\<lambda>i.
         bind_xs (upb_Array_Get src_arr i) (\<lambda>item.
         bind_xs (if is_submsg d
                  then bind_xs (upb_Message_New arena) (\<lambda>dst_msg.
                    bind_xs (upb_Message_DeepCopy dst_msg (val_ptr item) (fd_msg_subdef d) arena) (\<lambda>ok.
                    if \<not> ok then croak ''Failed to deep copy message element %zu'' [CInt (int i)] else ret (Val_msg dst_msg)))
                  else ret item) (\<lambda>item.
         upb_Array_Set dst_arr i item))) [0..<n])
       (ret (Some (Val_array dst_arr))))))"

text \<open>One element of an array that is not converted in a batch.\<close>

definition convert_element ::
    "perl_env \<Rightarrow> to_upb \<Rightarrow> sv option \<Rightarrow> ptr \<Rightarrow> ptr \<Rightarrow> upb_FieldDef \<Rightarrow> ptr \<Rightarrow> nat \<times> sv option \<Rightarrow> (upb_st, bool) xs" where
  "convert_element E rec tied arr f d arena = (\<lambda>(i, elem).
     bind_xs (case tied of
         Some obj \<Rightarrow>
           if elem = None \<or> \<not> SvOK (the elem)
           then bind_xs (call_method E ''FETCH'' [obj, newSViv (of_nat i)]) (\<lambda>vs. bind_xs (pop_sv vs) (\<lambda>v. ret (Some v)))
           else ret elem
       | None \<Rightarrow> ret elem) (\<lambda>elem.
     case elem of
       None \<Rightarrow> croak (quoted ''Error fetching element %d from array for field '%s'') [CInt (int i), CStr (fd_name d)]
     | Some v \<Rightarrow> bind_xs (convert_singular_sv_to_upb E rec v f arena) (\<lambda>x.
         case x of None \<Rightarrow> ret False | Some x \<Rightarrow> then_xs (upb_Array_Set arr i x) (ret True))))"

definition array_from_av ::
    "perl_env \<Rightarrow> to_upb \<Rightarrow> referent \<Rightarrow> ptr \<Rightarrow> upb_FieldDef \<Rightarrow> ptr \<Rightarrow> (upb_st, upb_MessageValue option) xs" where
  "array_from_av E rec r f d arena =
     bind_xs (case ref_tied r of
         Some obj \<Rightarrow> bind_xs (tied_len E obj) (\<lambda>n. ret (replicate n (Some PL_sv_undef)))
       | None \<Rightarrow> (case ref_body r of PVAV vs \<Rightarrow> ret vs | _ \<Rightarrow> fault ''array access on an SV that is not an array'')) (\<lambda>elems.
     bind_xs (upb_Array_New arena (upb_FieldType_CType (fd_type d))) (\<lambda>arr.
     if arr = NULL then croak (quoted ''Failed to create upb_Array for field '%s'') [CStr (fd_name d)]
     else bind_xs (upb_Array_Resize arr (length elems) arena) (\<lambda>ok.
       if \<not> ok then croak (quoted ''Failed to resize upb_Array for field '%s'') [CStr (fd_name d)]
       else if ref_tied r = None \<and> batchable (fd_type d) then
         then_xs (PerlUpb_SvToUpb_BatchRaw (num E) (map (\<lambda>e. case e of Some v \<Rightarrow> v | None \<Rightarrow> PL_sv_undef) elems) (fd_type d) arr)
           (ret (Some (Val_array arr)))
       else bind_xs (all_xs (convert_element E rec (ref_tied r) arr f d arena) (enumerate 0 elems)) (\<lambda>ok.
         ret (if ok then Some (Val_array arr) else None)))))"

definition convert_array_field ::
    "perl_env \<Rightarrow> to_upb \<Rightarrow> sv \<Rightarrow> referent \<Rightarrow> ptr \<Rightarrow> upb_FieldDef \<Rightarrow> ptr \<Rightarrow> (upb_st, upb_MessageValue option) xs" where
  "convert_array_field E rec v r f d arena =
     (if \<not> is_AV r then CROAK_WRONG_TYPE v ''an Array Reference'' d
      else bind_xs (gets_xs (\<lambda>s. tied_as s r ''Protobuf::Internal::Repeated'')) (\<lambda>ours.
       if ours then
         bind_xs (PerlUpb_Repeated_GetArray (ref_tied r)) (\<lambda>src_arr.
         bind_xs (PerlUpb_Repeated_GetFieldDef (ref_tied r)) (\<lambda>src_f.
         if src_arr = NULL then array_from_av E rec r f d arena
         else bind_xs (fdef src_f) (\<lambda>sd.
           if fd_type sd \<noteq> fd_type d
           then croak ''Type mismatch when copying repeated field '%s': expected %d, got %d''
             [CStr (fd_name d), CInt (field_type_num (fd_type d)), CInt (field_type_num (fd_type sd))]
           else copy_repeated src_arr d arena)))
       else array_from_av E rec r f d arena))"

definition sv_to_upb_body ::
    "perl_env \<Rightarrow> to_upb \<Rightarrow> sv \<Rightarrow> ptr \<Rightarrow> ptr \<Rightarrow> (upb_st, upb_MessageValue option) xs" where
  "sv_to_upb_body E rec v f arena =
     (if f = NULL \<or> arena = NULL then ret None
      else bind_xs (fdef f) (\<lambda>d.
       if \<not> SvOK v then croak (quoted ''Cannot convert undef to non-message type for field '%s'') [CStr (fd_name d)]
       else if fd_repeated d then
         if \<not> SvROK v then CROAK_WRONG_TYPE v ''a Reference'' d
         else bind_xs (gets_xs (\<lambda>s. (deref s (Some v), is_map (defs s) d))) (\<lambda>(r, mapf).
           case r of
             None \<Rightarrow> fault ''access to a freed referent''
           | Some r \<Rightarrow>
               if mapf then convert_map_field E rec v r f d arena
               else convert_array_field E rec v r f d arena)
       else convert_singular_sv_to_upb E rec v f arena))"

fun sv_to_upb_rec :: "perl_env \<Rightarrow> nat \<Rightarrow> sv \<Rightarrow> ptr \<Rightarrow> ptr \<Rightarrow> (upb_st, upb_MessageValue option) xs" where
  "sv_to_upb_rec E 0 v f arena = fault ''C stack exhausted''"
| "sv_to_upb_rec E (Suc n) v f arena = sv_to_upb_body E (sv_to_upb_rec E n) v f arena"

definition PerlUpb_SvToUpb :: "perl_env \<Rightarrow> sv \<Rightarrow> ptr \<Rightarrow> ptr \<Rightarrow> (upb_st, upb_MessageValue option) xs" where
  "PerlUpb_SvToUpb E v f arena = bind_xs (gets_xs stack_limit) (\<lambda>n. sv_to_upb_rec E n v f arena)"

definition PerlUpb_SvToUpb_Element :: "perl_env \<Rightarrow> sv \<Rightarrow> ptr \<Rightarrow> ptr \<Rightarrow> (upb_st, upb_MessageValue option) xs" where
  "PerlUpb_SvToUpb_Element E v f arena =
     (if f = NULL \<or> arena = NULL then ret None
      else bind_xs (gets_xs stack_limit) (\<lambda>n. convert_singular_sv_to_upb E (sv_to_upb_rec E n) v f arena))"

section \<open>Integers as doubles\<close>

lemma bit_length_bounds: "n < 2 ^ bit_length n \<and> (0 < n \<longrightarrow> 0 < bit_length n \<and> 2 ^ (bit_length n - 1) \<le> n)"
proof (induction n rule: bit_length.induct)
  case (1 n)
  show ?case
  proof (cases "n = 0")
    case False
    let ?L = "bit_length (n div 2)"
    have L: "bit_length n = Suc ?L" using False by (simp add: bit_length.simps [of n])
    have "n div 2 < 2 ^ ?L" using 1 False by simp
    then have "n < 2 ^ Suc ?L" by auto
    moreover have "2 ^ ?L \<le> n"
    proof (cases "n div 2 = 0")
      case True
      then show ?thesis using False by (simp add: bit_length.simps)
    next
      case pos: False
      then have "0 < ?L" "2 ^ (?L - 1) \<le> n div 2" using 1 False by simp_all
      then show ?thesis by (cases ?L) auto
    qed
    ultimately show ?thesis by (simp add: L)
  qed (simp add: bit_length.simps)
qed

lemma nv_of_int_large:
  assumes "2 ^ 53 \<le> \<bar>i\<bar>"
  obtains q k where "nv_of_int i = NvFin (sgn i * q) (int k)" "2 ^ 53 \<le> q * 2 ^ k"
proof -
  let ?n = "nat \<bar>i\<bar>" and ?L = "bit_length (nat \<bar>i\<bar>)"
  let ?k = "?L - 53"
  have pos: "0 < ?n" "\<bar>i\<bar> = int ?n" using assms by auto
  have "2 ^ 53 \<le> ?n" using assms by (simp add: le_nat_iff)
  moreover have "?n < 2 ^ ?L" using bit_length_bounds by blast
  ultimately have "(2::nat) ^ 53 < 2 ^ ?L" by (rule le_less_trans)
  then have L: "53 < ?L" using power_less_imp_less_exp [of "2::nat" 53 ?L] by simp
  then have k: "0 < ?k" by simp
  have "(2::nat) ^ 52 * 2 ^ ?k = 2 ^ (?L - 1)" using L by (simp only: flip: power_add) simp
  also have "\<dots> \<le> ?n" using bit_length_bounds [of ?n] pos by simp
  finally have "2 ^ 52 \<le> ?n div 2 ^ ?k" by (simp add: less_eq_div_iff_mult_less_eq)
  then have "int (2 ^ 52) \<le> int (?n div 2 ^ ?k)" by (simp only: of_nat_le_iff)
  then have d: "2 ^ 52 \<le> \<bar>i\<bar> div 2 ^ ?k" using pos by (simp add: zdiv_int)
  have "\<exists>q. nv_of_int i = NvFin (sgn i * q) (int ?k) \<and> \<bar>i\<bar> div 2 ^ ?k \<le> q"
    using assms by (auto simp: nv_of_int_def Let_def)
  then obtain q where q: "nv_of_int i = NvFin (sgn i * q) (int ?k)" "\<bar>i\<bar> div 2 ^ ?k \<le> q" by blast
  have "(2::int) \<le> 2 ^ ?k" using k self_le_power [of "2::int" ?k] by simp
  then have "(2::int) ^ 52 * 2 \<le> q * 2 ^ ?k" using d q(2) by (intro mult_mono) auto
  then show thesis using q(1) by (intro that) simp_all
qed

lemma nv_less_of_int:
  assumes "\<bar>m\<bar> < 2 ^ 53"
  shows "nv_less (nv_of_int i) (NvFin m 0) \<longleftrightarrow> i < m" "nv_less (NvFin m 0) (nv_of_int i) \<longleftrightarrow> m < i"
proof -
  have "(nv_less (nv_of_int i) (NvFin m 0) \<longleftrightarrow> i < m) \<and> (nv_less (NvFin m 0) (nv_of_int i) \<longleftrightarrow> m < i)"
  proof (cases "\<bar>i\<bar> < 2 ^ 53")
    case True
    then show ?thesis by (simp add: nv_of_int_def nv_scaled_def)
  next
    case False
    then obtain q k where q: "nv_of_int i = NvFin (sgn i * q) (int k)" "2 ^ 53 \<le> q * 2 ^ k"
      using nv_of_int_large [of i] by (auto simp: not_less)
    have s: "nv_scaled (sgn i * q) (int k) 0 = sgn i * (q * 2 ^ k)" "nv_scaled m 0 0 = m"
      by (simp_all add: nv_scaled_def)
    show ?thesis
    proof (cases "0 < i")
      case True
      then show ?thesis using q False s assms by (auto simp: min_def)
    next
      case neg: False
      then have "sgn i = - 1" using False by (cases "i = 0") auto
      then show ?thesis using q False neg s assms by (auto simp: min_def)
    qed
  qed
  then show "nv_less (nv_of_int i) (NvFin m 0) \<longleftrightarrow> i < m" "nv_less (NvFin m 0) (nv_of_int i) \<longleftrightarrow> m < i" by auto
qed

section \<open>Single values in detail\<close>

text \<open>The integer a scalar holds.\<close>

definition sv_int :: "sv \<Rightarrow> int" where
  "sv_int v = (case sv_iok v of Some (isuv, w) \<Rightarrow> if isuv then uint w else sint w | None \<Rightarrow> 0)"

text \<open>A scalar with an integer and neither a double nor a reference.\<close>

definition int_scalar :: "sv \<Rightarrow> bool" where
  "int_scalar v \<longleftrightarrow> sv_iok v \<noteq> None \<and> sv_nok v = None \<and> sv_rok v = None"

lemma int_scalar_simps:
  assumes "int_scalar v"
  shows "SvNV N v = nv_of_int (sv_int v)" "SvIV N v = of_int (sv_int v)" "SvUV N v = of_int (sv_int v)" "is_number N v" "SvIOK v" "\<not> SvROK v"
    "SvOK v" "\<not> SvNOK v"
  using assms by (auto simp: int_scalar_def SvNV_def sv_int_def SvIV_def SvUV_def is_number_def SvIOK_def SvROK_def SvOK_def SvNOK_def
      split: option.splits prod.splits)

definition int32_type :: "upb_FieldType \<Rightarrow> bool" where
  "int32_type ty \<longleftrightarrow> ty \<in> {kUpb_FieldType_Int32, kUpb_FieldType_SInt32, kUpb_FieldType_SFixed32}"

definition uint32_type :: "upb_FieldType \<Rightarrow> bool" where
  "uint32_type ty \<longleftrightarrow> ty \<in> {kUpb_FieldType_UInt32, kUpb_FieldType_Fixed32}"

definition int64_type :: "upb_FieldType \<Rightarrow> bool" where
  "int64_type ty \<longleftrightarrow> ty \<in> {kUpb_FieldType_Int64, kUpb_FieldType_SInt64, kUpb_FieldType_SFixed64}"

definition uint64_type :: "upb_FieldType \<Rightarrow> bool" where
  "uint64_type ty \<longleftrightarrow> ty \<in> {kUpb_FieldType_UInt64, kUpb_FieldType_Fixed64}"

lemmas int_types = int32_type_def uint32_type_def int64_type_def uint64_type_def

lemma fdef_Some: "fdefs (defs s) f = Some d \<Longrightarrow> fdef f s = (Inr d, s)"
  by (simp add: fdef_def)

text \<open>What an integer becomes in a field of an integer type, \<open>None\<close> if it is out of range.\<close>

definition int_value :: "upb_FieldType \<Rightarrow> int \<Rightarrow> upb_MessageValue option" where
  "int_value ty i =
     (if int32_type ty then if i \<in> {- (2 ^ 31) ..< 2 ^ 31} then Some (Val_int32 (of_int i)) else None
      else if uint32_type ty then if i \<in> {0 ..< 2 ^ 32} then Some (Val_uint32 (of_int i)) else None
      else if uint64_type ty then if 0 \<le> i then Some (Val_uint64 (of_int i)) else None
      else Some (Val_int64 (of_int i)))"

lemma verify_limits_int:
  assumes "int_scalar v" "\<bar>lo\<bar> < 2 ^ 53" "\<bar>hi\<bar> < 2 ^ 53"
  shows "verify_limits N v d (NvFin lo 0) (NvFin hi 0) s =
    (if lo \<le> sv_int v \<and> sv_int v \<le> hi then (Inr (), s)
     else (Inl (Croak ''Value %f out of range for field '%s' (type %d, limits %f to %f)''
       [CNv (SvNV N v), CStr (fd_name d), CInt (field_type_num (fd_type d)), CNv (NvFin lo 0), CNv (NvFin hi 0)]), s))"
  using assms by (auto simp: verify_limits_def Let_def int_scalar_simps nv_less_of_int not_less)

lemma Element_at:
  assumes "fdefs (defs s) f = Some d" "f \<noteq> NULL" "arena \<noteq> NULL"
  shows "PerlUpb_SvToUpb_Element E v f arena s =
    convert_singular_sv_to_upb E (sv_to_upb_rec E (stack_limit s)) v f arena s"
  using assms by (simp add: PerlUpb_SvToUpb_Element_def)

lemma ucast_of_int: "ucast (of_int i :: 64 word) = (of_int i :: 32 word)"
  by (rule bit_word_eqI) (simp add: bit_simps)

text \<open>The branches of the conversion, by field type.\<close>

lemma convert_branches:
  assumes "fdefs (defs s) f = Some d"
  shows "int32_type (fd_type d) \<Longrightarrow> convert_singular_sv_to_upb E rec v f arena s =
      (if is_number (num E) v
       then then_xs (verify_limits (num E) v d INT32_MIN INT32_MAX) (ret (Some (Val_int32 (ucast (SvIV (num E) v)))))
       else CROAK_WRONG_TYPE v ''an Integer'' d) s"
    and "uint32_type (fd_type d) \<Longrightarrow> convert_singular_sv_to_upb E rec v f arena s =
      (if is_number (num E) v
       then then_xs (verify_limits (num E) v d (NvFin 0 0) UINT32_MAX) (ret (Some (Val_uint32 (ucast (SvUV (num E) v)))))
       else CROAK_WRONG_TYPE v ''an Unsigned Integer'' d) s"
    and "int64_type (fd_type d) \<Longrightarrow> convert_singular_sv_to_upb E rec v f arena s =
      then_xs (verify_limits_64 (num E) v d True) (bind_xs (PerlUpb_SVToI64 (num E) (Some v)) (\<lambda>w. ret (Some (Val_int64 w)))) s"
    and "uint64_type (fd_type d) \<Longrightarrow> convert_singular_sv_to_upb E rec v f arena s =
      then_xs (verify_limits_64 (num E) v d False) (bind_xs (PerlUpb_SVToU64 (num E) (Some v)) (\<lambda>w. ret (Some (Val_uint64 w)))) s"
    and "fd_type d = kUpb_FieldType_String \<Longrightarrow> convert_singular_sv_to_upb E rec v f arena s =
      (if \<not> SvPOK v then CROAK_WRONG_TYPE v ''a String'' d
       else copy_bytes arena (SvPVutf8 (num E) v) ''Arena allocation failed for string'') s"
    and "fd_type d = kUpb_FieldType_Bytes \<Longrightarrow> convert_singular_sv_to_upb E rec v f arena s =
      (if \<not> SvPOK v then CROAK_WRONG_TYPE v ''a Bytes'' d
       else bind_xs (SvPVbyte_xs (num E) v) (\<lambda>bs. copy_bytes arena bs ''Arena allocation failed for bytes'')) s"
    and "fd_type d = kUpb_FieldType_Bool \<Longrightarrow> convert_singular_sv_to_upb E rec v f arena s = ret (Some (Val_bool (SvTRUE v))) s"
    and "fd_type d = kUpb_FieldType_Float \<Longrightarrow> convert_singular_sv_to_upb E rec v f arena s =
      (if is_number (num E) v
       then then_xs (verify_limits (num E) v d (NvFin (- float_limit) 76) (NvFin float_limit 76))
         (ret (Some (Val_float (to_float (SvNV (num E) v)))))
       else CROAK_WRONG_TYPE v ''a Number'' d) s"
    and "fd_type d = kUpb_FieldType_Double \<Longrightarrow> convert_singular_sv_to_upb E rec v f arena s =
      (if is_number (num E) v then ret (Some (Val_double (SvNV (num E) v))) else CROAK_WRONG_TYPE v ''a Number'' d) s"
    and "fd_type d = kUpb_FieldType_Enum \<Longrightarrow> convert_singular_sv_to_upb E rec v f arena s = convert_enum (num E) v d s"
    and "is_submsg d \<Longrightarrow> convert_singular_sv_to_upb E rec v f arena s = convert_message E rec v d arena s"
  unfolding convert_singular_sv_to_upb_def bind_xs_Inr [of "fdef f" s, OF fdef_Some [OF assms]] Let_def
  by (cases "fd_type d"; simp add: int_types is_submsg_def)+

text \<open>
  C15: Integers and the ranges of the field types: an integer scalar is stored in a 32-bit
  field exactly when it lies in the range of the field's type, in an unsigned 64-bit field
  exactly when it is not negative, and in a signed 64-bit field always (an unsigned scalar
  above \<open>2 ^ 63\<close> wraps there); the value stored is that integer. Every other integer ends
  in a \<open>croak\<close> that leaves the state as it was.
\<close>

theorem int_range_enforced:
  assumes "int_scalar v" "fdefs (defs s) f = Some d" "f \<noteq> NULL" "arena \<noteq> NULL"
    and "int32_type (fd_type d) \<or> uint32_type (fd_type d) \<or> int64_type (fd_type d) \<or> uint64_type (fd_type d)"
  shows "case int_value (fd_type d) (sv_int v) of
      Some x \<Rightarrow> PerlUpb_SvToUpb_Element E v f arena s = (Inr (Some x), s)
    | None \<Rightarrow> \<exists>fmt args. PerlUpb_SvToUpb_Element E v f arena s = (Inl (Croak fmt args), s)"
proof -
  note v = int_scalar_simps [OF assms(1)] and at = Element_at [OF assms(2-4)]
  have l32: "verify_limits N v d INT32_MIN INT32_MAX s =
      (if - (2 ^ 31) \<le> sv_int v \<and> sv_int v \<le> 2 ^ 31 - 1 then (Inr (), s) else (Inl (Croak
        ''Value %f out of range for field '%s' (type %d, limits %f to %f)''
        [CNv (SvNV N v), CStr (fd_name d), CInt (field_type_num (fd_type d)), CNv INT32_MIN, CNv INT32_MAX]), s))" for N
    unfolding INT32_MIN_def INT32_MAX_def by (rule verify_limits_int [OF assms(1)]) simp_all
  have u32: "verify_limits N v d (NvFin 0 0) UINT32_MAX s =
      (if 0 \<le> sv_int v \<and> sv_int v \<le> 2 ^ 32 - 1 then (Inr (), s) else (Inl (Croak
        ''Value %f out of range for field '%s' (type %d, limits %f to %f)''
        [CNv (SvNV N v), CStr (fd_name d), CInt (field_type_num (fd_type d)), CNv (NvFin 0 0), CNv UINT32_MAX]), s))" for N
    unfolding UINT32_MAX_def by (rule verify_limits_int [OF assms(1)]) simp_all
  consider (a) "int32_type (fd_type d)" | (b) "uint32_type (fd_type d)" | (c) "int64_type (fd_type d)"
    | (e) "uint64_type (fd_type d)" using assms(5) by blast
  then show ?thesis
  proof cases
    case a
    then show ?thesis
      by (auto simp: at convert_branches [OF assms(2)] bind_xs_def then_xs_def v l32 int_types
          int_value_def ucast_of_int Let_def)
  next
    case b
    then show ?thesis
      by (auto simp: at convert_branches [OF assms(2)] bind_xs_def then_xs_def v u32 int_types
          int_value_def ucast_of_int Let_def)
  next
    case c
    then show ?thesis
      by (auto simp: at convert_branches [OF assms(2)] bind_xs_def then_xs_def v verify_limits_64_def
          PerlUpb_SVToI64_def int_types int_value_def Let_def)
  next
    case e
    have "SvUOK v \<Longrightarrow> 0 \<le> sv_int v" using assms(1) by (auto simp: SvUOK_def sv_int_def split: option.splits)
    moreover have "\<not> SvUOK v \<Longrightarrow> sint (SvIV N v) = sv_int v" for N
      using assms(1) by (auto simp: SvUOK_def sv_int_def SvIV_def int_scalar_def split: option.splits)
    ultimately show ?thesis using e
      by (cases "SvUOK v") (auto simp: at convert_branches [OF assms(2)] bind_xs_def then_xs_def v(3-8)
          verify_limits_64_def PerlUpb_SVToU64_def int_types int_value_def Let_def)
  qed
qed

theorem int_range_enforced_witness:
  "PerlUpb_SvToUpb_Element ex_env (newSViv (- 7)) 0x110 0x2000 msg_boot = (Inr (Some (Val_int32 (- 7))), msg_boot) \<and>
   (\<exists>fmt args. PerlUpb_SvToUpb_Element ex_env (newSViv 0x80000000) 0x110 0x2000 msg_boot = (Inl (Croak fmt args), msg_boot))"
proof -
  have d: "fdefs (defs msg_boot) 0x110 = Some (ex_field ''id'' 1 kUpb_FieldType_Int32 (Val_int32 0))"
    by (simp add: ex_defs_def)
  have i: "int_scalar (newSViv w)" "sv_int (newSViv w) = sint w" for w by (simp_all add: int_scalar_def sv_int_def sv_defs)
  show ?thesis
    using int_range_enforced [OF i(1) d, of "0x2000" ex_env "- 7"] int_range_enforced [OF i(1) d, of "0x2000" ex_env "0x80000000"]
    by (simp add: i int_value_def int_types ex_field_def)
qed

section \<open>Types\<close>

text \<open>The member of the value union that a single value of a field type uses.\<close>

definition value_of_type :: "upb_FieldType \<Rightarrow> upb_MessageValue \<Rightarrow> bool" where
  "value_of_type ty val =
     (case val of
        Val_int32 _ \<Rightarrow> int32_type ty \<or> ty = kUpb_FieldType_Enum
      | Val_uint32 _ \<Rightarrow> uint32_type ty
      | Val_int64 _ \<Rightarrow> int64_type ty
      | Val_uint64 _ \<Rightarrow> uint64_type ty
      | Val_bool _ \<Rightarrow> ty = kUpb_FieldType_Bool
      | Val_float _ \<Rightarrow> ty = kUpb_FieldType_Float
      | Val_double _ \<Rightarrow> ty = kUpb_FieldType_Double
      | Val_str _ \<Rightarrow> ty = kUpb_FieldType_String \<or> ty = kUpb_FieldType_Bytes
      | Val_msg _ \<Rightarrow> ty = kUpb_FieldType_Message \<or> ty = kUpb_FieldType_Group
      | _ \<Rightarrow> False)"

text \<open>The value of a whole field.\<close>

definition field_typed :: "upb_defs \<Rightarrow> upb_FieldDef \<Rightarrow> upb_MessageValue \<Rightarrow> bool" where
  "field_typed D d val \<longleftrightarrow>
     (if is_map D d then \<exists>p. val = Val_map p
      else if fd_repeated d then \<exists>p. val = Val_array p
      else value_of_type (fd_type d) val)"

lemma field_type_cases:
  obtains "int32_type (fd_type d)" | "uint32_type (fd_type d)" | "int64_type (fd_type d)" | "uint64_type (fd_type d)"
  | "fd_type d = kUpb_FieldType_String" | "fd_type d = kUpb_FieldType_Bytes" | "fd_type d = kUpb_FieldType_Bool"
  | "fd_type d = kUpb_FieldType_Float" | "fd_type d = kUpb_FieldType_Double" | "fd_type d = kUpb_FieldType_Enum"
  | "is_submsg d"
  by (cases "fd_type d") (auto simp: int_types is_submsg_def)

lemma copy_bytes_return: "copy_bytes arena bs err s = (Inr (Some x), t) \<Longrightarrow> x = Val_str bs"
  by (auto simp: copy_bytes_def xs_return_iff split: if_splits)

lemma convert_enum_return: "convert_enum N v d s = (Inr (Some x), t) \<Longrightarrow> \<exists>w. x = Val_int32 w"
  by (auto simp: convert_enum_def CROAK_WRONG_TYPE_def xs_return_iff Let_def split: if_splits option.splits)

lemma convert_message_return: "convert_message E rec v d arena s = (Inr (Some x), t) \<Longrightarrow> \<exists>p. x = Val_msg p"
  by (auto simp: convert_message_def message_from_hash_def convert_message_object_def CROAK_WRONG_TYPE_def xs_return_iff
      split: if_splits option.splits)

lemma convert_singular_typed:
  assumes "fdefs (defs s) f = Some d" "convert_singular_sv_to_upb E rec v f arena s = (Inr (Some x), t)"
  shows "value_of_type (fd_type d) x"
  using assms(2)
  by (cases d rule: field_type_cases)
    (auto simp: convert_branches [OF assms(1)] CROAK_WRONG_TYPE_def xs_return_iff value_of_type_def is_submsg_def
      dest!: copy_bytes_return convert_enum_return convert_message_return split: if_splits upb_FieldType.splits
      elim: upb_FieldType_CType.elims)

lemma container_return:
  "convert_map_field E rec v r f d arena s = (Inr (Some x), t) \<Longrightarrow> \<exists>p. x = Val_map p"
  "convert_array_field E rec v r f d arena s = (Inr (Some x), t) \<Longrightarrow> \<exists>p. x = Val_array p"
  by (auto simp: convert_map_field_def convert_array_field_def CROAK_WRONG_TYPE_def copy_map_def map_from_hash_def
      copy_repeated_def array_from_av_def xs_return_iff split: if_splits)


section \<open>Scalars in a changing state\<close>

text \<open>
  A conversion of a scalar looks at the definitions, the Perl heap and the arena only, so
  it can be moved to any state that agrees on them.
\<close>

definition same_scalars :: "ptr \<Rightarrow> upb_st \<Rightarrow> upb_st \<Rightarrow> bool" where
  "same_scalars arena s t \<longleftrightarrow> heap t = heap s \<and> isa t = isa s \<and> defs t = defs s \<and> ample arena s \<and> ample arena t"

lemma same_scalars_refl [simp]: "same_scalars arena s s \<longleftrightarrow> ample arena s"
  by (auto simp: same_scalars_def)

lemma same_scalars_put_array [simp]: "same_scalars arena s (put_array p A t) = same_scalars arena s t"
  by (simp add: same_scalars_def)

text \<open>A computation that only reads, and reads the same in both states.\<close>

definition reads :: "(upb_st, 'a) xs \<Rightarrow> upb_st \<Rightarrow> upb_st \<Rightarrow> bool" where
  "reads m s t \<longleftrightarrow> (\<exists>r. m s = (r, s) \<and> m t = (r, t))"

lemma reads_basic [intro]:
  "reads (ret x) s t" "reads (raise e) s t" "f s = f t \<Longrightarrow> reads (gets_xs f) s t"
  by (simp_all add: reads_def)

lemma reads_bind [intro]:
  assumes "reads m s t" "\<And>x. reads (k x) s t"
  shows "reads (bind_xs m k) s t"
proof -
  obtain r where r: "m s = (r, s)" "m t = (r, t)" using assms(1) by (auto simp: reads_def)
  show ?thesis
  proof (cases r)
    case (Inr x)
    then show ?thesis using assms(2) [of x] r by (auto simp: reads_def bind_xs_def)
  qed (use r in \<open>simp add: reads_def bind_xs_def\<close>)
qed

lemma reads_then [intro]: "reads m s t \<Longrightarrow> reads k s t \<Longrightarrow> reads (then_xs m k) s t"
  by (auto simp: then_xs_def)

lemma reads_if: "reads a s t \<Longrightarrow> reads b s t \<Longrightarrow> reads (if p then a else b) s t"
  by simp

lemma reads_option: "reads a s t \<Longrightarrow> (\<And>y. reads (b y) s t) \<Longrightarrow> reads (case x of None \<Rightarrow> a | Some y \<Rightarrow> b y) s t"
  by (cases x) simp_all

lemmas reads_intros = reads_basic reads_bind reads_then reads_if reads_option

lemma reads_SVTo64:
  assumes "same_scalars arena s t"
  shows "reads (PerlUpb_SVToI64 N v) s t" "reads (PerlUpb_SVToU64 N v) s t"
proof -
  have d: "sv_derived_from s v c = sv_derived_from t v c" for c
    using assms derived_cong [of t s] by (simp add: same_scalars_def)
  show "reads (PerlUpb_SVToI64 N v) s t" "reads (PerlUpb_SVToU64 N v) s t"
    unfolding PerlUpb_SVToI64_def PerlUpb_SVToU64_def double_to_int_def by (intro reads_intros; simp add: d)+
qed

lemma reads_verify:
  assumes "same_scalars arena s t"
  shows "reads (verify_limits N v d lo hi) s t" "reads (verify_limits_64 N v d b) s t"
proof -
  have d: "sv_derived_from s (Some v) c = sv_derived_from t (Some v) c" for c
    using assms derived_cong [of t s] by (simp add: same_scalars_def)
  show "reads (verify_limits N v d lo hi) s t" by (auto simp: verify_limits_def Let_def)
  show "reads (verify_limits_64 N v d b) s t" unfolding verify_limits_64_def by (intro reads_intros) (simp add: d)
qed

lemma reads_copy_bytes: "same_scalars arena s t \<Longrightarrow> reads (copy_bytes arena bs err) s t"
  unfolding copy_bytes_def
  by (rule reads_bind) (auto simp: same_scalars_def reads_def arena_malloc_ample)

lemma reads_convert_enum: "same_scalars arena s t \<Longrightarrow> reads (convert_enum N v d) s t"
  unfolding convert_enum_def CROAK_WRONG_TYPE_def Let_def by (intro reads_intros) (simp add: same_scalars_def)

lemma convert_scalar_cong:
  assumes "same_scalars arena s t" "fdefs (defs s) f = Some d" "\<not> is_submsg d"
  shows "\<exists>r. convert_singular_sv_to_upb E rec v f arena s = (r, s) \<and> convert_singular_sv_to_upb E rec' v f arena t = (r, t)"
proof -
  have dt: "fdefs (defs t) f = Some d" using assms(1,2) by (simp add: same_scalars_def)
  note b = convert_branches [OF assms(2), of E rec v arena] convert_branches [OF dt, of E rec' v arena]
  note r = reads_SVTo64 [OF assms(1)] reads_verify [OF assms(1)] reads_copy_bytes [OF assms(1)] reads_convert_enum [OF assms(1)]
  note u = reads_def [of _ s t, symmetric] CROAK_WRONG_TYPE_def SvPVbyte_xs_def
  show ?thesis using assms(3)
    by (cases d rule: field_type_cases) (simp_all only: b u simp_thms, (intro reads_intros r)+)
qed

lemma convert_scalar_move:
  assumes "convert_singular_sv_to_upb E rec v f arena s = (Inr x, s')" "same_scalars arena s t"
    and "fdefs (defs s) f = Some d" "\<not> is_submsg d"
  shows "convert_singular_sv_to_upb E rec' v f arena t = (Inr x, t)"
  using convert_scalar_cong [OF assms(2-4), of E rec v rec'] assms(1) by auto

text \<open>The value the conversion of an element delivers.\<close>

definition elem_value :: "perl_env \<Rightarrow> ptr \<Rightarrow> ptr \<Rightarrow> upb_st \<Rightarrow> sv \<Rightarrow> upb_MessageValue option" where
  "elem_value E f arena s v =
     (case fst (PerlUpb_SvToUpb_Element E v f arena s) of Inr x \<Rightarrow> x | Inl _ \<Rightarrow> None)"

lemma Element_value:
  assumes "fdefs (defs s) f = Some d" "\<not> is_submsg d" "f \<noteq> NULL" "arena \<noteq> NULL" "ample arena s"
    and "elem_value E f arena s v = Some x" "same_scalars arena s t"
  shows "PerlUpb_SvToUpb_Element E v f arena t = (Inr (Some x), t)"
proof -
  have dt: "fdefs (defs t) f = Some d" using assms(1,7) by (simp add: same_scalars_def)
  obtain r where "convert_singular_sv_to_upb E (sv_to_upb_rec E (stack_limit s)) v f arena s = (r, s)"
    "convert_singular_sv_to_upb E (sv_to_upb_rec E (stack_limit t)) v f arena t = (r, t)"
    using convert_scalar_cong [OF assms(7,1,2)] by blast
  then show ?thesis using assms(6) by (auto simp: elem_value_def Element_at [OF assms(1,3,4)] Element_at [OF dt assms(3,4)] split: sum.splits)
qed

lemma Element_value_here:
  assumes "fdefs (defs s) f = Some d" "\<not> is_submsg d" "f \<noteq> NULL" "arena \<noteq> NULL" "ample arena s" "elem_value E f arena s v = Some x"
  shows "PerlUpb_SvToUpb_Element E v f arena s = (Inr (Some x), s)"
  by (rule Element_value [OF assms iffD2 [OF same_scalars_refl assms(5)]])

lemma SvToUpb_scalar:
  assumes "fdefs (defs s) f = Some d" "\<not> fd_repeated d" "\<not> is_submsg d" "f \<noteq> NULL" "arena \<noteq> NULL" "SvOK v"
    and "0 < stack_limit s" "ample arena s"
  shows "PerlUpb_SvToUpb E v f arena s = PerlUpb_SvToUpb_Element E v f arena s"
proof -
  obtain n where n: "stack_limit s = Suc n" using assms(7) by (cases "stack_limit s") auto
  have "convert_singular_sv_to_upb E (sv_to_upb_rec E n) v f arena s =
      convert_singular_sv_to_upb E (sv_to_upb_rec E (Suc n)) v f arena s"
    using convert_scalar_cong [of arena s s f d E "sv_to_upb_rec E n" v "sv_to_upb_rec E (Suc n)"] assms(1,3,8) by auto
  then show ?thesis
    using assms by (simp add: PerlUpb_SvToUpb_def n sv_to_upb_body_def bind_xs_def fdef_Some Element_at)
qed


section \<open>Arrays\<close>

fun arr_fill :: "nat \<Rightarrow> upb_MessageValue list \<Rightarrow> upb_Array \<Rightarrow> upb_Array" where
  "arr_fill i [] A = A"
| "arr_fill i (x # xs) A = arr_fill (Suc i) xs (arr_set i x A)"

lemma arr_fill_facts:
  assumes "arr_ok A" "i + length xs \<le> arr_size A"
  shows "arr_ok (arr_fill i xs A) \<and> arr_size (arr_fill i xs A) = arr_size A \<and>
    arr_elems (arr_fill i xs A) = take i (arr_elems A) @ map Some xs @ drop (i + length xs) (arr_elems A)"
  using assms
proof (induction xs arbitrary: i A)
  case (Cons x xs)
  have ok: "arr_ok (arr_set i x A)" "arr_size (arr_set i x A) = arr_size A"
    using Cons.prems upb_seq.ok_put by (simp_all add: arr_set_def)
  have "i < length (arr_elems A)" using Cons.prems by (simp add: arr_size_elems)
  then show ?case using Cons.IH [OF ok(1), of "Suc i"] Cons.prems ok(2)
    by (simp add: upb_seq.elems_put take_Suc_conv_app_nth drop_update_cancel)
qed simp

text \<open>The batch value agrees with the conversion of a single value wherever that succeeds.\<close>

lemma SVTo64_return:
  "PerlUpb_SVToI64 N v s = (Inr w, t) \<Longrightarrow> t = s" "PerlUpb_SVToU64 N v s = (Inr w, t) \<Longrightarrow> t = s"
  "verify_limits_64 N u d b s = (Inr x, t) \<Longrightarrow> t = s" "verify_limits N u d lo hi s = (Inr x, t) \<Longrightarrow> t = s"
  by (auto simp: PerlUpb_SVToI64_def PerlUpb_SVToU64_def verify_limits_64_def verify_limits_def Let_def double_to_int_def bind_xs_def
      split: option.splits if_splits)

lemma batch_value_agrees:
  assumes "convert_singular_sv_to_upb E rec v f arena s = (Inr (Some x), t)" "fdefs (defs s) f = Some d"
    and "batchable (fd_type d)" "fd_type d = kUpb_FieldType_Enum \<Longrightarrow> SvIOK v"
  shows "batch_value (num E) (fd_type d) v s = (Inr x, s)"
proof (cases d rule: field_type_cases)
  case 3
  with assms(1) obtain s' w where "verify_limits_64 (num E) v d True s = (Inr (), s')" "PerlUpb_SVToI64 (num E) (Some v) s' = (Inr w, t)"
    "x = Val_int64 w" by (auto simp: convert_branches(3) [OF assms(2)] xs_return_iff)
  moreover from this have "s' = s" "t = s" using SVTo64_return by blast+
  ultimately show ?thesis using 3 by (auto simp: int_types batch_value_def bind_xs_def Let_def)
next
  case 4
  with assms(1) obtain s' w where "verify_limits_64 (num E) v d False s = (Inr (), s')" "PerlUpb_SVToU64 (num E) (Some v) s' = (Inr w, t)"
    "x = Val_uint64 w" by (auto simp: convert_branches(4) [OF assms(2)] xs_return_iff)
  moreover from this have "s' = s" "t = s" using SVTo64_return by blast+
  ultimately show ?thesis using 4 by (auto simp: int_types batch_value_def bind_xs_def Let_def)
next
  case 11
  then show ?thesis using assms(3) by (cases "fd_type d") (simp_all add: batchable_def is_submsg_def)
qed (use assms in \<open>auto simp: convert_branches [OF assms(2)] xs_return_iff int_types batch_value_def Let_def CROAK_WRONG_TYPE_def
      batchable_def convert_enum_def split: if_splits\<close>)

text \<open>Both loops over the elements fill the array, whatever the array contains meanwhile.\<close>

lemma put_array_same: "arrays t p = Some A \<Longrightarrow> put_array p A t = t"
  by (simp add: put_array_def map_upd_triv)

lemma batch_loop_fill:
  assumes "arrays t p = Some A" "i + length vs \<le> arr_size A"
    and "list_all2 (\<lambda>v x. \<forall>B. batch_value N ty v (put_array p B t) = (Inr x, put_array p B t)) vs xs"
  shows "batch_loop N ty p i vs t = (Inr (), put_array p (arr_fill i xs A) t)"
  using assms
proof (induction vs arbitrary: i xs A t)
  case (Cons v vs)
  obtain x ys where xs: "xs = x # ys" "\<forall>B. batch_value N ty v (put_array p B t) = (Inr x, put_array p B t)"
    "list_all2 (\<lambda>v x. \<forall>B. batch_value N ty v (put_array p B t) = (Inr x, put_array p B t)) vs ys"
    using Cons.prems(3) by (auto simp: list_all2_Cons1)
  let ?t = "put_array p (arr_set i x A) t"
  have "upb_Array_Set p i x t = (Inr (), ?t)" using Cons.prems(1,2) by (intro Array_Set_eq) auto
  moreover have "batch_value N ty v t = (Inr x, t)" using xs(2) put_array_same [OF Cons.prems(1)] by metis
  moreover have "batch_loop N ty p (Suc i) vs ?t = (Inr (), put_array p (arr_fill (Suc i) ys (arr_set i x A)) ?t)"
    using Cons.prems(2) xs(3) by (intro Cons.IH) (simp_all add: arr_set_def)
  ultimately show ?case using xs by (simp add: bind_xs_def then_xs_def)
qed (simp add: put_array_same)

lemma convert_loop_fill:
  assumes "arrays t p = Some A" "i + length vs \<le> arr_size A"
    and "list_all2 (\<lambda>v x. \<forall>B. convert_singular_sv_to_upb E rec v f arena (put_array p B t) = (Inr (Some x), put_array p B t)) vs xs"
  shows "all_xs (convert_element E rec None p f d arena) (enumerate i (map Some vs)) t = (Inr True, put_array p (arr_fill i xs A) t)"
  using assms
proof (induction vs arbitrary: i xs A t)
  case (Cons v vs)
  obtain x ys where xs: "xs = x # ys"
    "\<forall>B. convert_singular_sv_to_upb E rec v f arena (put_array p B t) = (Inr (Some x), put_array p B t)"
    "list_all2 (\<lambda>v x. \<forall>B. convert_singular_sv_to_upb E rec v f arena (put_array p B t) = (Inr (Some x), put_array p B t)) vs ys"
    using Cons.prems(3) by (auto simp: list_all2_Cons1)
  let ?t = "put_array p (arr_set i x A) t"
  have "upb_Array_Set p i x t = (Inr (), ?t)" using Cons.prems(1,2) by (intro Array_Set_eq) auto
  moreover have "convert_singular_sv_to_upb E rec v f arena t = (Inr (Some x), t)"
    using xs(2) put_array_same [OF Cons.prems(1)] by metis
  ultimately have "convert_element E rec None p f d arena (i, Some v) t = (Inr True, ?t)"
    by (simp add: convert_element_def bind_xs_def then_xs_def)
  moreover have "all_xs (convert_element E rec None p f d arena) (enumerate (Suc i) (map Some vs)) ?t =
      (Inr True, put_array p (arr_fill (Suc i) ys (arr_set i x A)) ?t)"
    using Cons.prems(2) xs(3) by (intro Cons.IH) (simp_all add: arr_set_def)
  ultimately show ?case using xs by (simp add: bind_xs_def)
qed (simp add: put_array_same)

lemma Array_New_eq:
  assumes "ample arena s" "next_ptr s \<noteq> NULL"
  shows "upb_Array_New arena ty s = (Inr (next_ptr s), put_array (next_ptr s)
    \<lparr>arr_ctype = ty, arr_data = replicate 4 None, arr_size = 0\<rparr> (s\<lparr>next_ptr := next_ptr s + 256\<rparr>))"
  using assms by (simp add: upb_Array_New_def bind_xs_def then_xs_def arena_malloc_ample fresh_ptr_def put_array_def)

text \<open>A new array resized to \<open>n\<close> elements.\<close>

lemma Array_New_Resize:
  assumes "ample arena s" "next_ptr s \<noteq> NULL"
  obtains A B where "arr_ok A" "arr_size A = n"
    "upb_Array_New arena ty s = (Inr (next_ptr s), put_array (next_ptr s) B (s\<lparr>next_ptr := next_ptr s + 256\<rparr>))"
    "upb_Array_Resize (next_ptr s) n arena (put_array (next_ptr s) B (s\<lparr>next_ptr := next_ptr s + 256\<rparr>)) =
      (Inr True, put_array (next_ptr s) A (s\<lparr>next_ptr := next_ptr s + 256\<rparr>))"
proof -
  let ?B = "\<lparr>arr_ctype = ty, arr_data = replicate 4 None, arr_size = 0\<rparr>"
  let ?s = "s\<lparr>next_ptr := next_ptr s + 256\<rparr>"
  let ?t = "put_array (next_ptr s) ?B ?s"
  have ok: "arr_ok ?B" by (simp add: arr_ok_def)
  have am: "ample arena ?t" using assms(1) by (simp add: ample_def)
  show thesis
  proof (cases "n = 0")
    case True
    then have "upb_Array_Resize (next_ptr s) n arena ?t = (Inr True, put_array (next_ptr s) (arr_resize n ?B) ?s)"
      using Array_Resize_shrink [of ?t "next_ptr s" ?B n] ok by simp
    then show thesis using ok by (intro that [OF _ _ Array_New_eq [OF assms]]) (auto simp: upb_seq.ok_resize arr_resize_facts)
  next
    case False
    let ?A = "arr_zero_from (arr_size ?B) (arr_resize n ?B)"
    have "upb_Array_Resize (next_ptr s) n arena ?t = (Inr True, put_array (next_ptr s) ?A ?s)"
      using Array_Resize_grow [of ?t "next_ptr s" ?B arena n] ok am False by simp
    moreover have "arr_ok ?A" "arr_size ?A = n" using zero_from_resize(2) [OF ok, of n] by (simp_all add: arr_zero_from_def arr_resize_facts)
    ultimately show thesis by (intro that [OF _ _ Array_New_eq [OF assms]])
  qed
qed

text \<open>A plain Perl array given to a repeated field that is not a map.\<close>

definition av_for_field :: "upb_st \<Rightarrow> ptr \<Rightarrow> upb_FieldDef \<Rightarrow> ptr \<Rightarrow> addr \<Rightarrow> sv list \<Rightarrow> bool" where
  "av_for_field s f d arena a vs \<longleftrightarrow> fdefs (defs s) f = Some d \<and> fd_repeated d \<and> \<not> is_submsg d \<and> f \<noteq> NULL \<and> arena \<noteq> NULL \<and>
     ample arena s \<and> next_ptr s \<noteq> NULL \<and> 0 < stack_limit s \<and>
     (\<exists>r. heap s a = Some r \<and> ref_body r = PVAV (map Some vs) \<and> ref_tied r = None)"

lemma av_for_fieldE:
  assumes "av_for_field s f d arena a vs"
  obtains r n A B where "ref_body r = PVAV (map Some vs)" "ref_tied r = None"
    "PerlUpb_SvToUpb E (newRV a) f arena s = array_from_av E (sv_to_upb_rec E n) r f d arena s" "arr_ok A" "arr_size A = length vs"
    "upb_Array_New arena (upb_FieldType_CType (fd_type d)) s = (Inr (next_ptr s), put_array (next_ptr s) B (s\<lparr>next_ptr := next_ptr s + 256\<rparr>))"
    "upb_Array_Resize (next_ptr s) (length vs) arena (put_array (next_ptr s) B (s\<lparr>next_ptr := next_ptr s + 256\<rparr>)) =
      (Inr True, put_array (next_ptr s) A (s\<lparr>next_ptr := next_ptr s + 256\<rparr>))"
    "\<And>C. same_scalars arena s (put_array (next_ptr s) C (s\<lparr>next_ptr := next_ptr s + 256\<rparr>))"
proof -
  from assms obtain r where r: "heap s a = Some r" "ref_body r = PVAV (map Some vs)" "ref_tied r = None" by (auto simp: av_for_field_def)
  obtain n where n: "stack_limit s = Suc n" using assms by (cases "stack_limit s") (auto simp: av_for_field_def)
  have am: "ample arena s" "next_ptr s \<noteq> NULL" using assms by (simp_all add: av_for_field_def)
  obtain A B where A: "arr_ok A" "arr_size A = length vs"
    "upb_Array_New arena (upb_FieldType_CType (fd_type d)) s = (Inr (next_ptr s), put_array (next_ptr s) B (s\<lparr>next_ptr := next_ptr s + 256\<rparr>))"
    "upb_Array_Resize (next_ptr s) (length vs) arena (put_array (next_ptr s) B (s\<lparr>next_ptr := next_ptr s + 256\<rparr>)) =
      (Inr True, put_array (next_ptr s) A (s\<lparr>next_ptr := next_ptr s + 256\<rparr>))"
    using Array_New_Resize [OF am] by blast
  moreover have "PerlUpb_SvToUpb E (newRV a) f arena s = array_from_av E (sv_to_upb_rec E n) r f d arena s"
    using assms n r
    by (simp add: av_for_field_def PerlUpb_SvToUpb_def sv_to_upb_body_def bind_xs_def fdef_Some is_map_def is_AV_def
        convert_array_field_def tied_as_def)
  moreover have "same_scalars arena s (put_array (next_ptr s) C (s\<lparr>next_ptr := next_ptr s + 256\<rparr>))" for C
    using assms by (simp add: av_for_field_def same_scalars_def ample_def)
  ultimately show thesis using r by (intro that)
qed

lemma filled_array:
  assumes "arr_ok A" "arr_size A = length xs"
  shows "arr_ok (arr_fill 0 xs A) \<and> arr_elems (arr_fill 0 xs A) = map Some xs"
  using arr_fill_facts [of A 0 xs] assms by (simp add: arr_size_elems)

lemma SvToUpb_batch:
  assumes "av_for_field s f d arena a vs" "batchable (fd_type d)" "length xs = length vs"
    and "\<And>i t. i < length vs \<Longrightarrow> same_scalars arena s t \<Longrightarrow> batch_value (num E) (fd_type d) (vs ! i) t = (Inr (xs ! i), t)"
  shows "\<exists>A. PerlUpb_SvToUpb E (newRV a) f arena s =
      (Inr (Some (Val_array (next_ptr s))), put_array (next_ptr s) A (s\<lparr>next_ptr := next_ptr s + 256\<rparr>)) \<and>
    arr_ok A \<and> arr_elems A = map Some xs"
proof -
  let ?p = "next_ptr s" and ?s = "s\<lparr>next_ptr := next_ptr s + 256\<rparr>"
  obtain r n A B where A: "ref_body r = PVAV (map Some vs)" "ref_tied r = None"
    "PerlUpb_SvToUpb E (newRV a) f arena s = array_from_av E (sv_to_upb_rec E n) r f d arena s" "arr_ok A" "arr_size A = length vs"
    "upb_Array_New arena (upb_FieldType_CType (fd_type d)) s = (Inr ?p, put_array ?p B ?s)"
    "upb_Array_Resize ?p (length vs) arena (put_array ?p B ?s) = (Inr True, put_array ?p A ?s)"
    "\<And>C. same_scalars arena s (put_array ?p C ?s)"
    using av_for_fieldE [OF assms(1), of E thesis] by blast
  have "list_all2 (\<lambda>v x. \<forall>C. batch_value (num E) (fd_type d) v (put_array ?p C (put_array ?p A ?s)) =
      (Inr x, put_array ?p C (put_array ?p A ?s))) vs xs"
    using assms(3,4) A(8) by (simp add: list_all2_conv_all_nth)
  then have "PerlUpb_SvToUpb_BatchRaw (num E) vs (fd_type d) ?p (put_array ?p A ?s) = (Inr (), put_array ?p (arr_fill 0 xs A) ?s)"
    using batch_loop_fill [of "put_array ?p A ?s" ?p A 0 vs] A(5) assms(2) by (simp add: PerlUpb_SvToUpb_BatchRaw_def)
  moreover have "?p \<noteq> NULL" using assms(1) by (simp add: av_for_field_def)
  ultimately have "array_from_av E (sv_to_upb_rec E n) r f d arena s = (Inr (Some (Val_array ?p)), put_array ?p (arr_fill 0 xs A) ?s)"
    using A(1,2,6,7) assms(2) by (simp add: array_from_av_def bind_xs_Inr then_xs_Inr comp_def)
  then show ?thesis using A(3) filled_array [OF A(4)] A(5) assms(3) by auto
qed

text \<open>
  C22: A Perl array assigned to a repeated field of numbers, strings, booleans or enum
  values: if every element converts on its own, the field gets a new array with exactly
  those values in that order, whether the elements go through the batch loop or one by
  one, and nothing else changes. (An enum given by name does not survive the batch loop:
  such a field must be given numbers.)
\<close>

theorem repeated_from_array:
  assumes "av_for_field s f d arena a vs"
    and "list_all2 (\<lambda>v x. PerlUpb_SvToUpb_Element E v f arena s = (Inr (Some x), s)) vs xs"
    and "fd_type d = kUpb_FieldType_Enum \<Longrightarrow> \<forall>v \<in> set vs. SvIOK v"
  shows "\<exists>A. PerlUpb_SvToUpb E (newRV a) f arena s =
      (Inr (Some (Val_array (next_ptr s))), put_array (next_ptr s) A (s\<lparr>next_ptr := next_ptr s + 256\<rparr>)) \<and>
    arr_ok A \<and> arr_elems A = map Some xs"
proof -
  have f: "fdefs (defs s) f = Some d" "\<not> is_submsg d" "f \<noteq> NULL" "arena \<noteq> NULL" "next_ptr s \<noteq> NULL"
    using assms(1) by (simp_all add: av_for_field_def)
  have len: "length xs = length vs" using assms(2) by (simp add: list_all2_lengthD)
  have conv: "convert_singular_sv_to_upb E rec (vs ! i) f arena t = (Inr (Some (xs ! i)), t)"
    if "same_scalars arena s t" "i < length vs" for t i rec
    using convert_scalar_move [OF _ that(1) f(1,2), of E _ "vs ! i" _ _ rec] Element_at [OF f(1,3,4)]
      list_all2_nthD [OF assms(2) that(2)] by metis
  show ?thesis
  proof (cases "batchable (fd_type d)")
    case True
    have "batch_value (num E) (fd_type d) (vs ! i) t = (Inr (xs ! i), t)" if "i < length vs" "same_scalars arena s t" for i t
      using conv [OF that(2,1)] f(1) assms(3) True that
      by (intro batch_value_agrees [where f = f and arena = arena]) (auto simp: same_scalars_def)
    then show ?thesis by (rule SvToUpb_batch [OF assms(1) True len])
  next
    case False
    let ?p = "next_ptr s" and ?s = "s\<lparr>next_ptr := next_ptr s + 256\<rparr>"
    obtain r n A B where A: "ref_body r = PVAV (map Some vs)" "ref_tied r = None"
      "PerlUpb_SvToUpb E (newRV a) f arena s = array_from_av E (sv_to_upb_rec E n) r f d arena s" "arr_ok A" "arr_size A = length vs"
      "upb_Array_New arena (upb_FieldType_CType (fd_type d)) s = (Inr ?p, put_array ?p B ?s)"
      "upb_Array_Resize ?p (length vs) arena (put_array ?p B ?s) = (Inr True, put_array ?p A ?s)"
      "\<And>C. same_scalars arena s (put_array ?p C ?s)"
      using av_for_fieldE [OF assms(1), of E thesis] by blast
    have "list_all2 (\<lambda>v x. \<forall>C. convert_singular_sv_to_upb E (sv_to_upb_rec E n) v f arena (put_array ?p C (put_array ?p A ?s)) =
        (Inr (Some x), put_array ?p C (put_array ?p A ?s))) vs xs"
      using conv A(8) len by (simp add: list_all2_conv_all_nth)
    then have "all_xs (convert_element E (sv_to_upb_rec E n) None ?p f d arena) (enumerate 0 (map Some vs)) (put_array ?p A ?s) =
        (Inr True, put_array ?p (arr_fill 0 xs A) ?s)"
      using convert_loop_fill [of "put_array ?p A ?s" ?p A 0 vs] A(5) by simp
    then have "array_from_av E (sv_to_upb_rec E n) r f d arena s = (Inr (Some (Val_array ?p)), put_array ?p (arr_fill 0 xs A) ?s)"
      using A(1,2,6,7) False f(5) by (simp add: array_from_av_def bind_xs_Inr)
    then show ?thesis using A(3) filled_array [OF A(4)] A(5) len by auto
  qed
qed

text \<open>
  The batch loop does not check ranges: a Perl array of integers of any size is
  accepted by a repeated 32-bit field, each integer stored modulo \<open>2 ^ 32\<close>, although the
  conversion of such an integer on its own ends in a \<open>croak\<close>.
\<close>

theorem batch_truncates_integers:
  assumes "av_for_field s f d arena a vs" "int32_type (fd_type d)" "\<forall>v \<in> set vs. int_scalar v"
  shows "\<exists>A. PerlUpb_SvToUpb E (newRV a) f arena s =
      (Inr (Some (Val_array (next_ptr s))), put_array (next_ptr s) A (s\<lparr>next_ptr := next_ptr s + 256\<rparr>)) \<and>
    arr_elems A = map (\<lambda>v. Some (Val_int32 (of_int (sv_int v)))) vs \<and>
    (\<forall>v \<in> set vs. sv_int v \<notin> {- (2 ^ 31) ..< 2 ^ 31} \<longrightarrow>
      (\<exists>fmt args. fst (PerlUpb_SvToUpb_Element E v f arena s) = Inl (Croak fmt args)))"
proof -
  have f: "fdefs (defs s) f = Some d" "f \<noteq> NULL" "arena \<noteq> NULL" using assms(1) by (simp_all add: av_for_field_def)
  have b: "batchable (fd_type d)" using assms(2) by (auto simp: int_types batchable_def)
  have "batch_value (num E) (fd_type d) (vs ! i) t = (Inr (map (\<lambda>v. Val_int32 (of_int (sv_int v))) vs ! i), t)" if "i < length vs" for i t
    using assms(2,3) that
    by (auto simp: int_types batch_value_def Let_def int_scalar_simps ucast_of_int)
  then obtain A where "PerlUpb_SvToUpb E (newRV a) f arena s =
      (Inr (Some (Val_array (next_ptr s))), put_array (next_ptr s) A (s\<lparr>next_ptr := next_ptr s + 256\<rparr>))"
    "arr_elems A = map Some (map (\<lambda>v. Val_int32 (of_int (sv_int v))) vs)"
    using SvToUpb_batch [OF assms(1) b, of "map (\<lambda>v. Val_int32 (of_int (sv_int v))) vs" E] by auto
  moreover have "\<exists>fmt args. fst (PerlUpb_SvToUpb_Element E v f arena s) = Inl (Croak fmt args)"
    if "v \<in> set vs" "sv_int v \<notin> {- (2 ^ 31) ..< 2 ^ 31}" for v
  proof -
    have "int_scalar v" using assms(3) that by simp
    then show ?thesis using that(2) verify_limits_int [of v "- (2 ^ 31)" "2 ^ 31 - 1" "num E" d s]
      by (auto simp: Element_at [OF f] convert_branches(1) [OF f(1) assms(2)] int_scalar_simps INT32_MIN_def INT32_MAX_def
          then_xs_def bind_xs_def split: if_splits)
  qed
  ultimately show ?thesis by (auto simp: comp_def)
qed

text \<open>The example state with the Perl array \<open>vs\<close> at address 2, for the field \<open>nums\<close>.\<close>

definition av_boot :: "sv list \<Rightarrow> upb_st" where
  "av_boot vs = msg_boot\<lparr>heap := (heap msg_boot)(2 \<mapsto> newAV vs), next_addr := 3\<rparr>"

lemma av_boot_facts:
  "av_for_field (av_boot vs) 0x130 (the (fdefs ex_defs 0x130)) 0x2000 2 vs" "int32_type (fd_type (the (fdefs ex_defs 0x130)))"
  "next_ptr (av_boot vs) = 0x8000" "fdefs (defs (av_boot vs)) 0x130 = Some (the (fdefs ex_defs 0x130))"
  by (simp_all add: av_for_field_def av_boot_def ample_def newAV_def ex_defs_def ex_field_def is_submsg_def int_types)

lemma int_scalar_newSViv: "int_scalar (newSViv w)" "sv_int (newSViv w) = sint w"
  by (simp_all add: int_scalar_def sv_int_def sv_defs)

theorem repeated_from_array_witness:
  "\<exists>A t. PerlUpb_SvToUpb ex_env (newRV 2) 0x130 0x2000 (av_boot [newSViv 5, newSViv (- 1)]) = (Inr (Some (Val_array 0x8000)), t) \<and>
     arr_elems A = [Some (Val_int32 5), Some (Val_int32 (- 1))] \<and> arrays t 0x8000 = Some A"
proof -
  let ?s = "av_boot [newSViv 5, newSViv (- 1)]"
  note d = av_boot_facts(4) [of "[newSViv 5, newSViv (- 1)]"]
  have e: "PerlUpb_SvToUpb_Element ex_env (newSViv w) 0x130 0x2000 ?s = (Inr (Some (Val_int32 (ucast w))), ?s)"
    if "- (2 ^ 31) \<le> sint w" "sint w < 2 ^ 31" for w
    using that verify_limits_int [OF int_scalar_newSViv(1), of "- (2 ^ 31)" "2 ^ 31 - 1" "num ex_env" w _ ?s]
    by (simp add: Element_at [OF d] convert_branches(1) [OF d av_boot_facts(2)] int_scalar_simps(4) [OF int_scalar_newSViv(1)]
        int_scalar_newSViv INT32_MIN_def INT32_MAX_def then_xs_def bind_xs_def)
  have "fd_type (the (fdefs ex_defs 0x130)) \<noteq> kUpb_FieldType_Enum" by (simp add: ex_defs_def ex_field_def)
  moreover have "(ucast (- 1 :: u64) :: u32) = - 1" by (rule bit_word_eqI) (simp add: bit_simps)
  ultimately show ?thesis
    using repeated_from_array [OF av_boot_facts(1), of ex_env "[newSViv 5, newSViv (- 1)]" "[Val_int32 5, Val_int32 (- 1)]"] e [of 5] e [of "- 1"]
    by (auto simp: av_boot_facts(3) put_array_def)
qed

theorem batch_truncates_integers_witness:
  "\<exists>A t. PerlUpb_SvToUpb ex_env (newRV 2) 0x130 0x2000 (av_boot [newSViv 0x100000007]) = (Inr (Some (Val_array 0x8000)), t) \<and>
     arr_elems A = [Some (Val_int32 7)] \<and> arrays t 0x8000 = Some A \<and>
     (\<exists>fmt args. fst (PerlUpb_SvToUpb_Element ex_env (newSViv 0x100000007) 0x130 0x2000 (av_boot [newSViv 0x100000007])) = Inl (Croak fmt args))"
proof -
  have "(of_int (sint (0x100000007 :: u64)) :: u32) = 7" by simp
  then show ?thesis
    using batch_truncates_integers [OF av_boot_facts(1,2), of "[newSViv 0x100000007]" ex_env]
    by (auto simp: av_boot_facts(3) int_scalar_newSViv put_array_def)
qed

end
