(* ===== verification/Upb_To_Sv.thy ===== *)
theory Upb_To_Sv
  imports Sv_To_Upb
begin

text \<open>
  Conversion of upb values to Perl values (\<open>xs/convert/upb_to_sv.c\<close>): single values,
  batches, whole fields with the Perl-side wrapper of containers, and the deep conversion
  of a message to a hash. Reading a member of the value union other than the one that was
  written is a fault.
\<close>

section \<open>Single values\<close>

definition wrong_member :: "('s, 'a) xs" where
  "wrong_member = fault ''read of a union member that was not written''"

definition convert_singular_upb_to_sv :: "upb_MessageValue \<Rightarrow> ptr \<Rightarrow> sv option \<Rightarrow> (upb_st, sv) xs" where
  "convert_singular_upb_to_sv val f parent_arena_sv =
     bind_xs (fdef f) (\<lambda>d.
     let int32 = (case val of Val_int32 w \<Rightarrow> ret (newSViv (scast w)) | _ \<Rightarrow> wrong_member);
         uint32 = (case val of Val_uint32 w \<Rightarrow> ret (newSVuv (ucast w)) | _ \<Rightarrow> wrong_member);
         int64 = (case val of Val_int64 w \<Rightarrow> ret (PerlUpb_I64ToSV w) | _ \<Rightarrow> wrong_member);
         uint64 = (case val of Val_uint64 w \<Rightarrow> ret (PerlUpb_U64ToSV w) | _ \<Rightarrow> wrong_member);
         msg = (case val of
            Val_msg p \<Rightarrow>
              if fd_msg_subdef d = NULL
              then croak ''PerlUpb_UpbToSv: Could not get MessageDef for field %s'' [CStr (fd_name d)]
              else PerlUpb_WrapMessage p (fd_msg_subdef d) parent_arena_sv 0
          | _ \<Rightarrow> wrong_member)
     in case fd_type d of
          kUpb_FieldType_Int32 \<Rightarrow> int32
        | kUpb_FieldType_SInt32 \<Rightarrow> int32
        | kUpb_FieldType_SFixed32 \<Rightarrow> int32
        | kUpb_FieldType_Enum \<Rightarrow> int32
        | kUpb_FieldType_String \<Rightarrow> (case val of Val_str bs \<Rightarrow> ret (SvUTF8_on (newSVpvn bs)) | _ \<Rightarrow> wrong_member)
        | kUpb_FieldType_Bytes \<Rightarrow> (case val of Val_str bs \<Rightarrow> ret (newSVpvn bs) | _ \<Rightarrow> wrong_member)
        | kUpb_FieldType_Bool \<Rightarrow> (case val of Val_bool b \<Rightarrow> ret (if b then PL_sv_yes else PL_sv_no) | _ \<Rightarrow> wrong_member)
        | kUpb_FieldType_Float \<Rightarrow> (case val of Val_float x \<Rightarrow> ret (newSVnv x) | _ \<Rightarrow> wrong_member)
        | kUpb_FieldType_Double \<Rightarrow> (case val of Val_double x \<Rightarrow> ret (newSVnv x) | _ \<Rightarrow> wrong_member)
        | kUpb_FieldType_UInt32 \<Rightarrow> uint32
        | kUpb_FieldType_Fixed32 \<Rightarrow> uint32
        | kUpb_FieldType_Int64 \<Rightarrow> int64
        | kUpb_FieldType_SInt64 \<Rightarrow> int64
        | kUpb_FieldType_SFixed64 \<Rightarrow> int64
        | kUpb_FieldType_UInt64 \<Rightarrow> uint64
        | kUpb_FieldType_Fixed64 \<Rightarrow> uint64
        | kUpb_FieldType_Message \<Rightarrow> msg
        | kUpb_FieldType_Group \<Rightarrow> msg)"

definition PerlUpb_UpbToSv_Element :: "upb_MessageValue \<Rightarrow> ptr \<Rightarrow> sv option \<Rightarrow> (upb_st, sv) xs" where
  "PerlUpb_UpbToSv_Element val f parent_arena_sv =
     (if f = NULL then ret PL_sv_undef else convert_singular_upb_to_sv val f parent_arena_sv)"

section \<open>Batches\<close>

text \<open>Four values at a time, then the rest.\<close>

function PerlUpb_UpbToSv_Batch :: "upb_MessageValue list \<Rightarrow> ptr \<Rightarrow> sv option \<Rightarrow> (upb_st, sv list) xs" where
  "PerlUpb_UpbToSv_Batch vals f arena_sv =
     (if 4 \<le> length vals
      then bind_xs (convert_singular_upb_to_sv (vals ! 0) f arena_sv) (\<lambda>a.
           bind_xs (convert_singular_upb_to_sv (vals ! 1) f arena_sv) (\<lambda>b.
           bind_xs (convert_singular_upb_to_sv (vals ! 2) f arena_sv) (\<lambda>c.
           bind_xs (convert_singular_upb_to_sv (vals ! 3) f arena_sv) (\<lambda>d.
           bind_xs (PerlUpb_UpbToSv_Batch (drop 4 vals) f arena_sv) (\<lambda>rest.
           ret (a # b # c # d # rest))))))
      else map_xs (\<lambda>v. convert_singular_upb_to_sv v f arena_sv) vals)"
  by auto
termination
  by (relation "measure (\<lambda>(vals, _). length vals)") auto

declare PerlUpb_UpbToSv_Batch.simps [simp del]

definition raw_value :: "upb_CType \<Rightarrow> upb_MessageValue \<Rightarrow> (upb_st, sv) xs" where
  "raw_value ty val =
     (case (ty, val) of
        (kUpb_CType_Bool, Val_bool b) \<Rightarrow> ret (if b then PL_sv_yes else PL_sv_no)
      | (kUpb_CType_Int32, Val_int32 w) \<Rightarrow> ret (newSViv (scast w))
      | (kUpb_CType_Enum, Val_int32 w) \<Rightarrow> ret (newSViv (scast w))
      | (kUpb_CType_UInt32, Val_uint32 w) \<Rightarrow> ret (newSVuv (ucast w))
      | (kUpb_CType_Float, Val_float x) \<Rightarrow> ret (newSVnv x)
      | (kUpb_CType_Double, Val_double x) \<Rightarrow> ret (newSVnv x)
      | (kUpb_CType_Int64, Val_int64 w) \<Rightarrow> ret (PerlUpb_I64ToSV w)
      | (kUpb_CType_UInt64, Val_uint64 w) \<Rightarrow> ret (PerlUpb_U64ToSV w)
      | _ \<Rightarrow> wrong_member)"

fun ctype_num :: "upb_CType \<Rightarrow> int" where
  "ctype_num kUpb_CType_Bool = 1"
| "ctype_num kUpb_CType_Float = 2"
| "ctype_num kUpb_CType_Int32 = 3"
| "ctype_num kUpb_CType_UInt32 = 4"
| "ctype_num kUpb_CType_Enum = 5"
| "ctype_num kUpb_CType_Message = 6"
| "ctype_num kUpb_CType_Double = 7"
| "ctype_num kUpb_CType_Int64 = 8"
| "ctype_num kUpb_CType_UInt64 = 9"
| "ctype_num kUpb_CType_String = 10"
| "ctype_num kUpb_CType_Bytes = 11"

text \<open>\<open>data\<close> is the data block of an array, read cell by cell.\<close>

definition PerlUpb_UpbToSv_BatchRaw :: "upb_MessageValue option list \<Rightarrow> upb_CType \<Rightarrow> nat \<Rightarrow> (upb_st, sv list) xs" where
  "PerlUpb_UpbToSv_BatchRaw data ty cnt =
     (if ty \<in> {kUpb_CType_String, kUpb_CType_Bytes, kUpb_CType_Message}
      then croak ''PerlUpb_UpbToSv_BatchRaw: Unsupported CType %d'' [CInt (ctype_num ty)]
      else map_xs (\<lambda>i.
        if length data \<le> i then fault ''read past the end of an array''
        else case data ! i of
          None \<Rightarrow> fault ''read of an uninitialised array element'' | Some v \<Rightarrow> raw_value ty v) [0..<cnt])"

section \<open>Fields\<close>

text \<open>
  The Perl-side wrapper of a container object, made by a Perl function if there is one.
\<close>

definition wrap_container_native :: "perl_env \<Rightarrow> sv \<Rightarrow> string \<Rightarrow> (upb_st, sv) xs" where
  "wrap_container_native E internal wrap_func =
     (let wrap = (if \<not> get_cv E wrap_func then ret internal
                  else bind_xs (call_pv E wrap_func [internal]) (\<lambda>vs.
                    ret (if length vs = 1 then last vs else PL_sv_undef)))
      in bind_xs (rv_hv (Some internal)) (\<lambda>r.
         case hv_fetch r ''_public'' of
           Some p \<Rightarrow> if SvOK p then ret p else wrap
         | None \<Rightarrow> wrap))"

text \<open>The public stashes of an existing registry are never null.\<close>

definition PerlUpb_UpbToSv :: "perl_env \<Rightarrow> upb_MessageValue option \<Rightarrow> ptr \<Rightarrow> sv option \<Rightarrow> (upb_st, sv) xs" where
  "PerlUpb_UpbToSv E val f parent_arena_sv =
     (if f = NULL then croak ''PerlUpb_UpbToSv: upb_FieldDef was NULL'' []
      else case val of
        None \<Rightarrow> ret PL_sv_undef
      | Some val \<Rightarrow>
          bind_xs (lift_xs PerlUpb_Registry_Get) (\<lambda>reg.
          bind_xs (fdef f) (\<lambda>d.
          bind_xs (gets_xs (\<lambda>s. is_map (defs s) d)) (\<lambda>mapf.
          if mapf then
            if val_ptr val = NULL then ret PL_sv_undef
            else bind_xs (PerlUpb_Map_New (val_ptr val) f parent_arena_sv 0) (\<lambda>internal.
              if reg = None then ret internal
              else wrap_container_native E internal ''Protobuf::Internal::wrap_map'')
          else if fd_repeated d then
            if val_ptr val = NULL then ret PL_sv_undef
            else bind_xs (PerlUpb_Repeated_New (val_ptr val) f parent_arena_sv 0) (\<lambda>internal.
              if reg = None then ret internal
              else wrap_container_native E internal ''Protobuf::Internal::wrap_repeated'')
          else convert_singular_upb_to_sv val f parent_arena_sv))))"

section \<open>Whole messages\<close>

text \<open>The key under which \<open>hv_store_ent\<close> stores.\<close>

definition ent_key :: "str_num \<Rightarrow> sv \<Rightarrow> string" where
  "ent_key N k = string_of (case SvPVbyte N k of Some bs \<Rightarrow> bs | None \<Rightarrow> snd (sv_string N k))"

text \<open>\<open>rec\<close> is \<open>PerlUpb_Message_ToSv\<close>.\<close>

definition to_sv_element :: "(ptr \<Rightarrow> ptr \<Rightarrow> (upb_st, sv) xs) \<Rightarrow> upb_MessageValue \<Rightarrow> ptr \<Rightarrow> sv option \<Rightarrow> (upb_st, sv) xs" where
  "to_sv_element rec val f arena_sv =
     bind_xs (fdef f) (\<lambda>d.
     if is_submsg d then rec (val_ptr val) (fd_msg_subdef d) else PerlUpb_UpbToSv_Element val f arena_sv)"

definition map_to_hash ::
    "perl_env \<Rightarrow> (ptr \<Rightarrow> ptr \<Rightarrow> (upb_st, sv) xs) \<Rightarrow> ptr \<Rightarrow> ptr \<Rightarrow> sv option \<Rightarrow> (upb_st, sv) xs" where
  "map_to_hash E rec m f arena_sv =
     bind_xs (GetMapEntryDefs f) (\<lambda>(key_f, val_f).
     bind_xs (alloc newHV) (\<lambda>a.
     bind_xs (map_at m) (\<lambda>kvs.
     then_xs (iter_xs (\<lambda>(k, v).
       bind_xs (PerlUpb_UpbToSv_Element k key_f arena_sv) (\<lambda>k_sv.
       bind_xs (to_sv_element rec v val_f arena_sv) (\<lambda>v_sv.
       modify_xs (write_ref a (hv_store (ent_key (num E) k_sv) v_sv))))) kvs)
     (ret (newRV a)))))"

definition array_to_av ::
    "(ptr \<Rightarrow> ptr \<Rightarrow> (upb_st, sv) xs) \<Rightarrow> ptr \<Rightarrow> ptr \<Rightarrow> upb_FieldDef \<Rightarrow> sv option \<Rightarrow> (upb_st, sv) xs" where
  "array_to_av rec arr f d arena_sv =
     bind_xs (array_at arr) (\<lambda>A.
     bind_xs (if batchable (fd_type d)
              then PerlUpb_UpbToSv_BatchRaw (arr_data A) (upb_FieldType_CType (fd_type d)) (arr_size A)
              else map_xs (\<lambda>j. bind_xs (upb_Array_Get arr j) (\<lambda>item. to_sv_element rec item f arena_sv)) [0..<arr_size A]) (\<lambda>vs.
     bind_xs (alloc (newAV vs)) (\<lambda>a. ret (newRV a))))"

text \<open>
  The presence test: a map is repeated too, so the first branch takes the size of an array
  where there is a map.
\<close>

definition field_present :: "ptr \<Rightarrow> ptr \<Rightarrow> upb_FieldDef \<Rightarrow> bool \<Rightarrow> (upb_st, bool) xs" where
  "field_present msg f d mapf =
     (if fd_repeated d then
        bind_xs (upb_Message_GetFieldByDef msg f) (\<lambda>v.
        if val_ptr v = NULL then ret False
        else bind_xs (upb_Array_Size (val_ptr v)) (\<lambda>n. ret (0 < n)))
      else if mapf then
        bind_xs (upb_Message_GetFieldByDef msg f) (\<lambda>v.
        if val_ptr v = NULL then ret False
        else bind_xs (upb_Map_Size (val_ptr v)) (\<lambda>n. ret (0 < n)))
      else upb_Message_HasFieldByDef msg f)"

definition field_to_sv ::
    "perl_env \<Rightarrow> (ptr \<Rightarrow> ptr \<Rightarrow> (upb_st, sv) xs) \<Rightarrow> ptr \<Rightarrow> sv option \<Rightarrow> addr \<Rightarrow> ptr \<Rightarrow> (upb_st, unit) xs" where
  "field_to_sv E rec msg arena_sv a f =
     bind_xs (fdef f) (\<lambda>d.
     bind_xs (gets_xs (\<lambda>s. is_map (defs s) d)) (\<lambda>mapf.
     bind_xs (field_present msg f d mapf) (\<lambda>has.
     if \<not> has then ret ()
     else bind_xs (upb_Message_GetFieldByDef msg f) (\<lambda>val.
       bind_xs (if mapf then map_to_hash E rec (val_ptr val) f arena_sv
                else if fd_repeated d then array_to_av rec (val_ptr val) f d arena_sv
                else if is_submsg d then rec (val_ptr val) (fd_msg_subdef d)
                else convert_singular_upb_to_sv val f arena_sv) (\<lambda>val_sv.
       modify_xs (write_ref a (hv_store (fd_name d) val_sv)))))))"

fun to_sv_rec :: "perl_env \<Rightarrow> nat \<Rightarrow> sv option \<Rightarrow> ptr \<Rightarrow> ptr \<Rightarrow> (upb_st, sv) xs" where
  "to_sv_rec E 0 arena_sv msg m = fault ''C stack exhausted''"
| "to_sv_rec E (Suc n) arena_sv msg m =
     (if msg = NULL \<or> m = NULL then ret PL_sv_undef
      else bind_xs (alloc newHV) (\<lambda>a.
       bind_xs (mdef m) (\<lambda>md.
       then_xs (iter_xs (field_to_sv E (to_sv_rec E n arena_sv) msg arena_sv a) (md_fields md)) (ret (newRV a)))))"

definition PerlUpb_Message_ToSv :: "perl_env \<Rightarrow> ptr \<Rightarrow> ptr \<Rightarrow> sv option \<Rightarrow> (upb_st, sv) xs" where
  "PerlUpb_Message_ToSv E msg m arena_sv = bind_xs (gets_xs stack_limit) (\<lambda>n. to_sv_rec E n arena_sv msg m)"

definition PerlUpb_Message_ToPerl :: "perl_env \<Rightarrow> sv option \<Rightarrow> (upb_st, sv) xs" where
  "PerlUpb_Message_ToPerl E message_sv =
     bind_xs (PerlUpb_Message_GetMsg message_sv) (\<lambda>msg.
     bind_xs (PerlUpb_Message_GetDef message_sv) (\<lambda>m.
     bind_xs (gets_xs (\<lambda>s. PerlUpb_Message_GetArena s message_sv)) (\<lambda>arena_sv.
     if msg = NULL \<or> m = NULL then croak ''Invalid message object for to_perl'' []
     else PerlUpb_Message_ToSv E msg m arena_sv)))"

section \<open>Round trips\<close>

lemma to_sv_at:
  assumes "fdefs (defs s) f = Some d" "f \<noteq> NULL"
  shows "PerlUpb_UpbToSv_Element val f asv s = convert_singular_upb_to_sv val f asv s"
  using assms by (simp add: PerlUpb_UpbToSv_Element_def)

lemma to_sv_branches:
  assumes "fdefs (defs s) f = Some d"
  shows "int32_type (fd_type d) \<or> fd_type d = kUpb_FieldType_Enum \<Longrightarrow> convert_singular_upb_to_sv (Val_int32 w) f asv s = (Inr (newSViv (scast w)), s)"
    and "uint32_type (fd_type d) \<Longrightarrow> convert_singular_upb_to_sv (Val_uint32 w) f asv s = (Inr (newSVuv (ucast w)), s)"
    and "int64_type (fd_type d) \<Longrightarrow> convert_singular_upb_to_sv (Val_int64 x) f asv s = (Inr (newSViv x), s)"
    and "uint64_type (fd_type d) \<Longrightarrow> convert_singular_upb_to_sv (Val_uint64 x) f asv s = (Inr (newSVuv x), s)"
    and "fd_type d = kUpb_FieldType_String \<Longrightarrow> convert_singular_upb_to_sv (Val_str bs) f asv s = (Inr (SvUTF8_on (newSVpvn bs)), s)"
    and "fd_type d = kUpb_FieldType_Bytes \<Longrightarrow> convert_singular_upb_to_sv (Val_str bs) f asv s = (Inr (newSVpvn bs), s)"
    and "fd_type d = kUpb_FieldType_Bool \<Longrightarrow> convert_singular_upb_to_sv (Val_bool b) f asv s = (Inr (if b then PL_sv_yes else PL_sv_no), s)"
    and "fd_type d = kUpb_FieldType_Float \<Longrightarrow> convert_singular_upb_to_sv (Val_float n) f asv s = (Inr (newSVnv n), s)"
    and "fd_type d = kUpb_FieldType_Double \<Longrightarrow> convert_singular_upb_to_sv (Val_double n) f asv s = (Inr (newSVnv n), s)"
  unfolding convert_singular_upb_to_sv_def bind_xs_Inr [of "fdef f" s, OF fdef_Some [OF assms]] Let_def
  by (cases "fd_type d"; simp add: int_types PerlUpb_I64ToSV_def PerlUpb_U64ToSV_def)+

text \<open>A value the conversion can deliver: single precision, and inside the range check.\<close>

definition float_in_range :: "nv \<Rightarrow> bool" where
  "float_in_range x \<longleftrightarrow> to_float x = x \<and> \<not> nv_less x (NvFin (- float_limit) 76) \<and> \<not> nv_less (NvFin float_limit 76) x"

definition storable :: "upb_MessageValue \<Rightarrow> bool" where
  "storable val = (case val of Val_float x \<Rightarrow> float_in_range x | Val_msg _ \<Rightarrow> False | _ \<Rightarrow> True)"

lemma is_number_nv: "is_number N (newSVnv x)"
  by (simp add: is_number_def SvNOK_def newSVnv_def)

lemma uv_scalar: "int_scalar (newSVuv w)" "sv_int (newSVuv w) = uint w"
proof -
  have "sint w = uint w" if "uint w < 2 ^ 63"
    using that order_trans [OF _ uint_ge_0 [of w], of "- 9223372036854775808"]
    by (simp add: sint_uint signed_take_bit_int_eq_self_iff)
  then show "int_scalar (newSVuv w)" "sv_int (newSVuv w) = uint w" by (auto simp: int_scalar_def sv_int_def sv_defs)
qed



end
