(* ===== verification/Repeated.thy ===== *)
theory Repeated
  imports Upb_To_Sv
begin

text \<open>
  Repeated fields (\<open>xs/repeated/repeated.c\<close> and \<open>composite.c\<close>): element access, insertion,
  deletion and resizing through the wrapper object. Indices and counts are C \<open>int\<close>s.
\<close>

section \<open>Operations\<close>

definition int_ok :: "int \<Rightarrow> bool" where
  "int_ok i \<longleftrightarrow> - (2 ^ 31) \<le> i \<and> i < 2 ^ 31"

text \<open>A \<open>size_t\<close> converted to \<open>int\<close>.\<close>

definition to_int :: "nat \<Rightarrow> int" where
  "to_int n = sint (of_nat n :: u32)"

definition PerlUpb_Repeated_GetItem :: "sv option \<Rightarrow> int \<Rightarrow> (upb_st, sv) xs" where
  "PerlUpb_Repeated_GetItem self index =
     bind_xs (PerlUpb_Repeated_GetArray self) (\<lambda>arr.
     bind_xs (GetFieldDef self) (\<lambda>f.
     if arr = NULL \<or> f = NULL then ret PL_sv_undef
     else bind_xs (upb_Array_Size arr) (\<lambda>n.
       if index < 0 \<or> n \<le> nat index then ret PL_sv_undef
       else bind_xs (gets_xs (\<lambda>s. PerlUpb_GetArenaFromObject s self)) (\<lambda>arena_sv.
         bind_xs (upb_Array_Get arr (nat index)) (\<lambda>val.
         PerlUpb_UpbToSv_Element val f arena_sv)))))"

text \<open>The arena of a container object.\<close>

definition object_arena :: "sv option \<Rightarrow> (upb_st, ptr) xs" where
  "object_arena self =
     bind_xs (gets_xs (\<lambda>s. PerlUpb_GetArenaFromObject s self)) (\<lambda>arena_sv. PerlUpb_Arena_Get arena_sv)"

definition PerlUpb_Repeated_SetItem :: "perl_env \<Rightarrow> sv option \<Rightarrow> int \<Rightarrow> sv \<Rightarrow> (upb_st, unit) xs" where
  "PerlUpb_Repeated_SetItem E self index val_sv =
     bind_xs (PerlUpb_Repeated_GetArray self) (\<lambda>arr.
     bind_xs (GetFieldDef self) (\<lambda>f.
     if arr = NULL \<or> f = NULL then ret ()
     else bind_xs (upb_Array_Size arr) (\<lambda>n.
       if index < 0 \<or> n \<le> nat index then croak ''Index out of bounds for repeated field'' []
       else bind_xs (object_arena self) (\<lambda>arena.
         bind_xs (PerlUpb_SvToUpb_Element E val_sv f arena) (\<lambda>val.
         case val of
           None \<Rightarrow> croak ''Failed to convert value for repeated field'' []
         | Some val \<Rightarrow> upb_Array_Set arr (nat index) val)))))"

definition PerlUpb_Repeated_Append :: "perl_env \<Rightarrow> sv option \<Rightarrow> sv \<Rightarrow> (upb_st, unit) xs" where
  "PerlUpb_Repeated_Append E self val_sv =
     bind_xs (PerlUpb_Repeated_GetArray self) (\<lambda>arr.
     bind_xs (GetFieldDef self) (\<lambda>f.
     if arr = NULL \<or> f = NULL then ret ()
     else bind_xs (object_arena self) (\<lambda>arena.
       bind_xs (PerlUpb_SvToUpb_Element E val_sv f arena) (\<lambda>val.
       case val of
         None \<Rightarrow> croak ''Failed to convert value for repeated field'' []
       | Some val \<Rightarrow> bind_xs (upb_Array_Append arr val arena) (\<lambda>ok.
           if ok then ret () else croak ''Failed to append to repeated field'' [])))))"

definition PerlUpb_Repeated_Delete :: "sv option \<Rightarrow> int \<Rightarrow> int \<Rightarrow> (upb_st, unit) xs" where
  "PerlUpb_Repeated_Delete self index cnt =
     bind_xs (PerlUpb_Repeated_GetArray self) (\<lambda>arr.
     if arr = NULL then ret ()
     else bind_xs (upb_Array_Size arr) (\<lambda>n.
       if index < 0 \<or> n < nat index then ret ()
       else if \<not> int_ok (index + cnt) then fault ''signed integer overflow''
       else let cnt = (if to_int n < index + cnt then to_int (n - nat index) else cnt)
            in if cnt \<le> 0 then ret () else upb_Array_Delete arr (nat index) (nat cnt)))"

definition PerlUpb_Repeated_Size :: "sv option \<Rightarrow> (upb_st, int) xs" where
  "PerlUpb_Repeated_Size self =
     bind_xs (PerlUpb_Repeated_GetArray self) (\<lambda>arr.
     if arr = NULL then ret 0 else bind_xs (upb_Array_Size arr) (\<lambda>n. ret (to_int n)))"

definition PerlUpb_Repeated_Insert :: "perl_env \<Rightarrow> sv option \<Rightarrow> int \<Rightarrow> sv \<Rightarrow> (upb_st, unit) xs" where
  "PerlUpb_Repeated_Insert E self index val_sv =
     bind_xs (PerlUpb_Repeated_GetArray self) (\<lambda>arr.
     bind_xs (GetFieldDef self) (\<lambda>f.
     if arr = NULL \<or> f = NULL then ret ()
     else bind_xs (upb_Array_Size arr) (\<lambda>n.
       if index < 0 \<or> n < nat index then croak ''Index out of bounds for repeated field insert'' []
       else bind_xs (object_arena self) (\<lambda>arena.
         bind_xs (upb_Array_Insert arr (nat index) 1 arena) (\<lambda>ok.
         if \<not> ok then croak ''Failed to insert into repeated field'' []
         else bind_xs (PerlUpb_SvToUpb_Element E val_sv f arena) (\<lambda>val.
           case val of
             None \<Rightarrow> then_xs (upb_Array_Delete arr (nat index) 1)
               (croak ''Failed to convert value for repeated field insert'' [])
           | Some val \<Rightarrow> upb_Array_Set arr (nat index) val))))))"

definition PerlUpb_Repeated_Resize :: "sv option \<Rightarrow> int \<Rightarrow> (upb_st, unit) xs" where
  "PerlUpb_Repeated_Resize self newsize =
     bind_xs (PerlUpb_Repeated_GetArray self) (\<lambda>arr.
     if arr = NULL then ret ()
     else if newsize < 0 then croak ''Negative size for repeated field resize'' []
     else bind_xs (object_arena self) (\<lambda>arena.
       bind_xs (upb_Array_Resize arr (nat newsize) arena) (\<lambda>ok.
       if ok then ret () else croak ''Failed to resize repeated field'' [])))"

definition PerlUpb_Repeated_Clear :: "sv option \<Rightarrow> (upb_st, unit) xs" where
  "PerlUpb_Repeated_Clear self =
     bind_xs (PerlUpb_Repeated_GetArray self) (\<lambda>arr.
     if arr = NULL then ret () else bind_xs (upb_Array_Resize arr 0 NULL) (\<lambda>_. ret ()))"

text \<open>The audit only looks the elements up in the object cache.\<close>

definition PerlUpb_Repeated_AuditIntegrity :: "sv option \<Rightarrow> (upb_st, bool) xs" where
  "PerlUpb_Repeated_AuditIntegrity self =
     bind_xs (PerlUpb_Repeated_GetArray self) (\<lambda>arr.
     bind_xs (GetFieldDef self) (\<lambda>f.
     if arr = NULL \<or> f = NULL then ret False
     else bind_xs (fdef f) (\<lambda>d.
       then_xs (if is_submsg d
                then bind_xs (upb_Array_Size arr) (\<lambda>n.
                  iter_xs (\<lambda>i. bind_xs (upb_Array_Get arr i) (\<lambda>val.
                    if val_ptr val = NULL then ret ()
                    else bind_xs (lift_xs (PerlUpb_ObjCache_Get (val_ptr val))) (\<lambda>_. ret ()))) [0..<n])
                else ret ())
         (ret True))))"

definition PerlUpb_Repeated_Add :: "sv option \<Rightarrow> (upb_st, sv) xs" where
  "PerlUpb_Repeated_Add self =
     bind_xs (PerlUpb_Repeated_GetArray self) (\<lambda>arr.
     bind_xs (PerlUpb_Repeated_GetFieldDef self) (\<lambda>f.
     bind_xs (gets_xs (\<lambda>s. PerlUpb_GetArenaFromObject s self)) (\<lambda>arena_sv.
     if arr = NULL \<or> f = NULL \<or> arena_sv = None then ret PL_sv_undef
     else bind_xs (fdef f) (\<lambda>d.
       if \<not> is_submsg d then croak ''add() can only be called on repeated message fields'' []
       else bind_xs (mdef (fd_msg_subdef d)) (\<lambda>_.
         bind_xs (PerlUpb_Arena_Get arena_sv) (\<lambda>arena.
         bind_xs (upb_Message_New arena) (\<lambda>msg.
         if msg = NULL then croak ''Failed to create new submessage'' []
         else bind_xs (upb_Array_Append arr (Val_msg msg) arena) (\<lambda>ok.
           if \<not> ok then croak ''Failed to append new message to array'' []
           else PerlUpb_WrapMessage msg (fd_msg_subdef d) arena_sv 0))))))))"

section \<open>Repeated fields as lists\<close>

text \<open>
  \<open>self\<close> wraps a repeated scalar field whose array holds exactly \<open>xs\<close>; the arena has
  memory.
\<close>

definition repeated_holds :: "upb_st \<Rightarrow> sv \<Rightarrow> ptr \<Rightarrow> upb_FieldDef \<Rightarrow> ptr \<Rightarrow> upb_MessageValue list \<Rightarrow> bool" where
  "repeated_holds s self f d arena xs \<longleftrightarrow>
     (\<exists>p asv A. container_object s self ''Protobuf::Internal::Repeated'' p f asv arena \<and> fdefs (defs s) f = Some d \<and>
        \<not> is_submsg d \<and> arena \<noteq> NULL \<and> ample arena s \<and> arrays s p = Some A \<and> arr_ok A \<and> arr_elems A = map Some xs \<and>
        arr_ctype A = upb_FieldType_CType (fd_type d))"

lemma repeated_holdsE:
  assumes "repeated_holds s self f d arena xs"
  obtains p A asv where "container_object s self ''Protobuf::Internal::Repeated'' p f asv arena"
    "PerlUpb_Repeated_GetArray (Some self) s = (Inr p, s)" "GetFieldDef (Some self) s = (Inr f, s)"
    "PerlUpb_GetArenaFromObject s (Some self) = Some asv" "PerlUpb_Arena_Get (Some asv) s = (Inr arena, s)"
    "object_arena (Some self) s = (Inr arena, s)" "p \<noteq> NULL" "f \<noteq> NULL" "arena \<noteq> NULL" "ample arena s"
    "fdefs (defs s) f = Some d" "\<not> is_submsg d" "arrays s p = Some A" "arr_ok A" "arr_elems A = map Some xs" "arr_size A = length xs"
    "arr_ctype A = upb_FieldType_CType (fd_type d)"
proof -
  from assms obtain p asv A where h: "container_object s self ''Protobuf::Internal::Repeated'' p f asv arena" "fdefs (defs s) f = Some d"
    "\<not> is_submsg d" "arena \<noteq> NULL" "ample arena s" "arrays s p = Some A" "arr_ok A" "arr_elems A = map Some xs"
    "arr_ctype A = upb_FieldType_CType (fd_type d)"
    by (auto simp: repeated_holds_def)
  note g = container_object_Get [OF h(1)]
  have "arr_size A = length xs" using arr_size_elems [OF h(7)] h(8) by simp
  then show thesis using g h
    by (intro that [of p asv A]) (simp_all add: PerlUpb_Repeated_GetArray_def object_arena_def)
qed

lemma repeated_holds_put:
  assumes "container_object s self ''Protobuf::Internal::Repeated'' p f asv arena" "fdefs (defs s) f = Some d" "\<not> is_submsg d"
    and "arena \<noteq> NULL" "ample arena s" "arr_ok B" "arr_elems B = map Some ys" "arr_ctype B = upb_FieldType_CType (fd_type d)"
  shows "repeated_holds (put_array p B s) self f d arena ys"
proof -
  have "container_object (put_array p B s) self ''Protobuf::Internal::Repeated'' p f asv arena"
    by (rule container_object_cong [OF _ _ _ _ assms(1)]) simp_all
  then show ?thesis using assms unfolding repeated_holds_def by (intro exI [of _ p] exI [of _ asv] exI [of _ B]) simp
qed

lemma to_int_small: "n < 2 ^ 31 \<Longrightarrow> to_int n = int n"
  by (simp add: to_int_def signed_of_nat signed_take_bit_int_eq_self_iff)

lemma GetItem_eq:
  assumes "repeated_holds s self f d arena xs"
  shows "\<exists>asv. \<forall>i. PerlUpb_Repeated_GetItem (Some self) i s =
    (if 0 \<le> i \<and> i < int (length xs) then convert_singular_upb_to_sv (xs ! nat i) f asv s else (Inr PL_sv_undef, s))"
proof -
  obtain p A asv where h: "PerlUpb_Repeated_GetArray (Some self) s = (Inr p, s)" "GetFieldDef (Some self) s = (Inr f, s)"
    "PerlUpb_GetArenaFromObject s (Some self) = Some asv" "p \<noteq> NULL" "f \<noteq> NULL"
    "arrays s p = Some A" "arr_ok A" "arr_elems A = map Some xs" "arr_size A = length xs"
    using repeated_holdsE [OF assms, of thesis] by blast
  have "upb_Array_Get p (nat i) s = (Inr (xs ! nat i), s)" if "0 \<le> i" "i < int (length xs)" for i
    using that h by (intro Array_Get_eq) auto
  then show ?thesis
    using h by (auto simp: PerlUpb_Repeated_GetItem_def bind_xs_def Array_Size_eq PerlUpb_UpbToSv_Element_def intro!: exI [of _ "Some asv"])
qed

text \<open>The mutating operations and what they do to a list; \<open>None\<close> is an error.\<close>

datatype rep_op = R_Set int sv | R_Append sv | R_Insert int sv | R_Delete int int | R_Resize int | R_Clear

fun rep_exec :: "perl_env \<Rightarrow> rep_op \<Rightarrow> sv \<Rightarrow> (upb_st, unit) xs" where
  "rep_exec E (R_Set i v) self = PerlUpb_Repeated_SetItem E (Some self) i v"
| "rep_exec E (R_Append v) self = PerlUpb_Repeated_Append E (Some self) v"
| "rep_exec E (R_Insert i v) self = PerlUpb_Repeated_Insert E (Some self) i v"
| "rep_exec E (R_Delete i n) self = PerlUpb_Repeated_Delete (Some self) i n"
| "rep_exec E (R_Resize n) self = PerlUpb_Repeated_Resize (Some self) n"
| "rep_exec E R_Clear self = PerlUpb_Repeated_Clear (Some self)"

fun rep_spec :: "upb_MessageValue \<Rightarrow> (sv \<Rightarrow> upb_MessageValue option) \<Rightarrow> rep_op \<Rightarrow> upb_MessageValue list \<Rightarrow> upb_MessageValue list option" where
  "rep_spec zero conv (R_Set i v) xs =
     (if 0 \<le> i \<and> i < int (length xs) then map_option (\<lambda>x. xs[nat i := x]) (conv v) else None)"
| "rep_spec zero conv (R_Append v) xs = map_option (\<lambda>x. xs @ [x]) (conv v)"
| "rep_spec zero conv (R_Insert i v) xs =
     (if 0 \<le> i \<and> i \<le> int (length xs) then map_option (\<lambda>x. take (nat i) xs @ x # drop (nat i) xs) (conv v) else None)"
| "rep_spec zero conv (R_Delete i n) xs =
     Some (if 0 \<le> i \<and> i \<le> int (length xs) \<and> 0 < n then take (nat i) xs @ drop (nat i + nat n) xs else xs)"
| "rep_spec zero conv (R_Resize n) xs =
     (if 0 \<le> n then Some (take (nat n) xs @ replicate (nat n - length xs) zero) else None)"
| "rep_spec zero conv R_Clear xs = Some []"

definition rep_op_ok :: "rep_op \<Rightarrow> bool" where
  "rep_op_ok op = (case op of R_Delete i n \<Rightarrow> int_ok (i + n) | _ \<Rightarrow> True)"

lemma Delete_eq:
  assumes "repeated_holds s self f d arena xs" "length xs < 2 ^ 31" "int_ok (i + n)"
  shows "\<exists>t. PerlUpb_Repeated_Delete (Some self) i n s = (Inr (), t) \<and>
    repeated_holds t self f d arena (if 0 \<le> i \<and> i \<le> int (length xs) \<and> 0 < n then take (nat i) xs @ drop (nat i + nat n) xs else xs)"
proof -
  obtain p A asv where h: "container_object s self ''Protobuf::Internal::Repeated'' p f asv arena"
    "PerlUpb_Repeated_GetArray (Some self) s = (Inr p, s)" "p \<noteq> NULL" "arena \<noteq> NULL" "ample arena s" "fdefs (defs s) f = Some d"
    "\<not> is_submsg d" "arrays s p = Some A" "arr_ok A" "arr_elems A = map Some xs" "arr_size A = length xs"
    "arr_ctype A = upb_FieldType_CType (fd_type d)"
    using repeated_holdsE [OF assms(1), of thesis] by blast
  let ?c = "if to_int (length xs) < i + n then to_int (length xs - nat i) else n"
  have run: "PerlUpb_Repeated_Delete (Some self) i n s =
      (if i < 0 \<or> length xs < nat i then (Inr (), s) else if ?c \<le> 0 then (Inr (), s) else upb_Array_Delete p (nat i) (nat ?c) s)"
    using h assms(3) by (simp add: PerlUpb_Repeated_Delete_def bind_xs_def Array_Size_eq Let_def)
  show ?thesis
  proof (cases "0 \<le> i \<and> i \<le> int (length xs)")
    case True
    then have c: "?c = (if int (length xs) < i + n then int (length xs) - i else n)"
      using assms(2) to_int_small [of "length xs"] to_int_small [of "length xs - nat i"]
      by (simp add: of_nat_diff nat_le_iff)
    show ?thesis
    proof (cases "?c \<le> 0")
      case no: True
      then have "n \<le> 0 \<or> drop (nat i + nat n) xs = drop (nat i) xs" using c True by (auto split: if_splits)
      then show ?thesis using run True no assms(1) by (auto simp: not_less)
    next
      case pos: False
      let ?B = "arr_delete (nat i) (nat ?c) A"
      have le: "nat i + nat ?c \<le> arr_size A" "0 < n" using c True pos h(11) by (auto split: if_splits)
      have e: "arr_ok ?B" "arr_elems ?B = take (nat i) (arr_elems A) @ drop (nat i + nat ?c) (arr_elems A)"
        using upb_seq.ok_cut [OF h(9), of "nat i" "nat ?c"] upb_seq.elems_cut [OF h(9), of "nat i" "nat ?c"] le(1)
        by (simp_all add: arr_size_elems [OF h(9)])
      have "drop (nat i + nat ?c) xs = drop (nat i + nat n) xs" using c True le by (auto split: if_splits)
      then have "repeated_holds (put_array p ?B s) self f d arena (take (nat i) xs @ drop (nat i + nat n) xs)"
        using e h by (intro repeated_holds_put [OF h(1,6,7,4,5)]) (simp_all add: take_map drop_map arr_delete_def arr_move_def)
      then show ?thesis using run True pos le Array_Delete_eq [OF h(8,9) le(1)] by auto
    qed
  qed (use run assms(1) in auto)
qed

lemma SetItem_eq:
  assumes "repeated_holds s self f d arena xs" "0 \<le> i" "i < int (length xs)" "elem_value E f arena s v = Some x"
  shows "\<exists>t. PerlUpb_Repeated_SetItem E (Some self) i v s = (Inr (), t) \<and> repeated_holds t self f d arena (xs[nat i := x])"
proof -
  obtain p A asv where h: "container_object s self ''Protobuf::Internal::Repeated'' p f asv arena"
    "PerlUpb_Repeated_GetArray (Some self) s = (Inr p, s)" "GetFieldDef (Some self) s = (Inr f, s)" "object_arena (Some self) s = (Inr arena, s)"
    "p \<noteq> NULL" "f \<noteq> NULL" "arena \<noteq> NULL" "ample arena s" "fdefs (defs s) f = Some d" "\<not> is_submsg d"
    "arrays s p = Some A" "arr_ok A" "arr_elems A = map Some xs" "arr_size A = length xs" "arr_ctype A = upb_FieldType_CType (fd_type d)"
    using repeated_holdsE [OF assms(1), of thesis] by blast
  have "PerlUpb_SvToUpb_Element E v f arena s = (Inr (Some x), s)" by (rule Element_value [OF h(9,10,6,7,8) assms(4) iffD2 [OF same_scalars_refl h(8)]])
  moreover have "repeated_holds (put_array p (arr_set (nat i) x A) s) self f d arena (xs[nat i := x])"
    using h upb_seq.elems_put upb_seq.ok_put by (intro repeated_holds_put [OF h(1,9,10,7,8)]) (simp_all add: map_update arr_set_def)
  ultimately show ?thesis using h assms(2,3) Array_Set_eq [OF h(11), of "nat i" x]
    by (auto simp: PerlUpb_Repeated_SetItem_def bind_xs_def Array_Size_eq)
qed

lemma Append_eq:
  assumes "repeated_holds s self f d arena xs" "elem_value E f arena s v = Some x"
  shows "\<exists>t. PerlUpb_Repeated_Append E (Some self) v s = (Inr (), t) \<and> repeated_holds t self f d arena (xs @ [x])"
proof -
  obtain p A asv where h: "container_object s self ''Protobuf::Internal::Repeated'' p f asv arena"
    "PerlUpb_Repeated_GetArray (Some self) s = (Inr p, s)" "GetFieldDef (Some self) s = (Inr f, s)" "object_arena (Some self) s = (Inr arena, s)"
    "p \<noteq> NULL" "f \<noteq> NULL" "arena \<noteq> NULL" "ample arena s" "fdefs (defs s) f = Some d" "\<not> is_submsg d"
    "arrays s p = Some A" "arr_ok A" "arr_elems A = map Some xs" "arr_size A = length xs" "arr_ctype A = upb_FieldType_CType (fd_type d)"
    using repeated_holdsE [OF assms(1), of thesis] by blast
  have "PerlUpb_SvToUpb_Element E v f arena s = (Inr (Some x), s)" by (rule Element_value [OF h(9,10,6,7,8) assms(2) iffD2 [OF same_scalars_refl h(8)]])
  moreover obtain B where B: "upb_Array_Append p x arena s = (Inr True, put_array p B s)" "arr_ok B"
    "arr_elems B = arr_elems A @ [Some x]" "arr_ctype B = arr_ctype A" by (rule Array_Append_eq [OF h(11,12,8)])
  moreover have "repeated_holds (put_array p B s) self f d arena (xs @ [x])"
    using h B by (intro repeated_holds_put [OF h(1,9,10,7,8)]) simp_all
  ultimately show ?thesis using h by (auto simp: PerlUpb_Repeated_Append_def bind_xs_def)
qed

lemma Insert_gap:
  assumes "repeated_holds s self f d arena xs" "0 \<le> i" "i \<le> int (length xs)"
  obtains p A asv where "container_object s self ''Protobuf::Internal::Repeated'' p f asv arena" "p \<noteq> NULL" "f \<noteq> NULL" "arena \<noteq> NULL"
    "ample arena s" "fdefs (defs s) f = Some d" "\<not> is_submsg d" "arr_ok A" "arr_elems A = map Some xs" "arr_size A = length xs"
    "arr_ctype A = upb_FieldType_CType (fd_type d)" "same_scalars arena s (put_array p (arr_insert (nat i) 1 A) s)"
    "PerlUpb_Repeated_Insert E (Some self) i v s =
      bind_xs (PerlUpb_SvToUpb_Element E v f arena) (\<lambda>val. case val of
          None \<Rightarrow> then_xs (upb_Array_Delete p (nat i) 1) (croak ''Failed to convert value for repeated field insert'' [])
        | Some x \<Rightarrow> upb_Array_Set p (nat i) x) (put_array p (arr_insert (nat i) 1 A) s)"
proof -
  obtain p A asv where h: "container_object s self ''Protobuf::Internal::Repeated'' p f asv arena"
    "PerlUpb_Repeated_GetArray (Some self) s = (Inr p, s)" "GetFieldDef (Some self) s = (Inr f, s)" "object_arena (Some self) s = (Inr arena, s)"
    "p \<noteq> NULL" "f \<noteq> NULL" "arena \<noteq> NULL" "ample arena s" "fdefs (defs s) f = Some d" "\<not> is_submsg d"
    "arrays s p = Some A" "arr_ok A" "arr_elems A = map Some xs" "arr_size A = length xs" "arr_ctype A = upb_FieldType_CType (fd_type d)"
    using repeated_holdsE [OF assms(1), of thesis] by blast
  have le: "\<not> length xs < nat i" using assms(2,3) by simp
  have "upb_Array_Insert p (nat i) 1 arena s = (Inr True, put_array p (arr_insert (nat i) 1 A) s)"
    using h assms(2,3) by (intro Array_Insert_eq) auto
  then have "PerlUpb_Repeated_Insert E (Some self) i v s =
      bind_xs (PerlUpb_SvToUpb_Element E v f arena) (\<lambda>val. case val of
          None \<Rightarrow> then_xs (upb_Array_Delete p (nat i) 1) (croak ''Failed to convert value for repeated field insert'' [])
        | Some x \<Rightarrow> upb_Array_Set p (nat i) x) (put_array p (arr_insert (nat i) 1 A) s)"
    using h assms(2) le by (simp add: PerlUpb_Repeated_Insert_def bind_xs_Inr [of _ s] Array_Size_eq del: One_nat_def)
  then show thesis using h by (intro that) simp_all
qed

lemma arr_insert_ctype [simp]: "arr_ctype (arr_insert i n A) = arr_ctype A"
  by (simp add: arr_insert_def arr_move_def arr_resize_facts)

lemma arr_insert_size [simp]: "arr_size (arr_insert i n A) = arr_size A + n"
  by (simp add: arr_insert_def arr_move_def arr_resize_facts)

lemma Insert_eq:
  assumes "repeated_holds s self f d arena xs" "0 \<le> i" "i \<le> int (length xs)" "elem_value E f arena s v = Some x"
  shows "\<exists>t. PerlUpb_Repeated_Insert E (Some self) i v s = (Inr (), t) \<and>
    repeated_holds t self f d arena (take (nat i) xs @ x # drop (nat i) xs)"
proof -
  obtain p A asv where h: "container_object s self ''Protobuf::Internal::Repeated'' p f asv arena" "p \<noteq> NULL" "f \<noteq> NULL" "arena \<noteq> NULL"
    "ample arena s" "fdefs (defs s) f = Some d" "\<not> is_submsg d" "arr_ok A" "arr_elems A = map Some xs" "arr_size A = length xs"
    "arr_ctype A = upb_FieldType_CType (fd_type d)" "same_scalars arena s (put_array p (arr_insert (nat i) 1 A) s)"
    "PerlUpb_Repeated_Insert E (Some self) i v s =
      bind_xs (PerlUpb_SvToUpb_Element E v f arena) (\<lambda>val. case val of
          None \<Rightarrow> then_xs (upb_Array_Delete p (nat i) 1) (croak ''Failed to convert value for repeated field insert'' [])
        | Some x \<Rightarrow> upb_Array_Set p (nat i) x) (put_array p (arr_insert (nat i) 1 A) s)"
    using Insert_gap [OF assms(1-3), of E v thesis] by blast
  let ?G = "arr_insert (nat i) 1 A"
  let ?B = "arr_set (nat i) x ?G"
  have i: "nat i \<le> length (arr_elems A)" using assms(2,3) h(9) by simp
  have "PerlUpb_SvToUpb_Element E v f arena (put_array p ?G s) = (Inr (Some x), put_array p ?G s)"
    using h assms(4) by (intro Element_value [OF h(6,7,3,4,5)])
  then have "PerlUpb_Repeated_Insert E (Some self) i v s = (Inr (), put_array p ?B s)"
    using h(13) Array_Set_eq [of "put_array p ?G s" p ?G "nat i" x] assms(2,3) h(10) by (simp add: bind_xs_Inr)
  moreover have "repeated_holds (put_array p ?B s) self f d arena (take (nat i) xs @ x # drop (nat i) xs)"
    using h upb_seq.elems_insert [OF h(8) i, of x] upb_seq.ok_put [OF upb_seq.ok_gap [OF h(8) i]]
    by (intro repeated_holds_put [OF h(1,6,7,4,5)]) (simp_all add: take_map drop_map arr_set_def)
  ultimately show ?thesis by blast
qed

lemma Resize_eq:
  assumes "repeated_holds s self f d arena xs" "0 \<le> n"
  shows "\<exists>t. PerlUpb_Repeated_Resize (Some self) n s = (Inr (), t) \<and> repeated_holds t self f d arena
    (take (nat n) xs @ replicate (nat n - length xs) (upb_MessageValue_Zero (upb_FieldType_CType (fd_type d))))"
proof -
  obtain p A asv where h: "container_object s self ''Protobuf::Internal::Repeated'' p f asv arena"
    "PerlUpb_Repeated_GetArray (Some self) s = (Inr p, s)" "object_arena (Some self) s = (Inr arena, s)"
    "p \<noteq> NULL" "arena \<noteq> NULL" "ample arena s" "fdefs (defs s) f = Some d" "\<not> is_submsg d"
    "arrays s p = Some A" "arr_ok A" "arr_elems A = map Some xs" "arr_size A = length xs" "arr_ctype A = upb_FieldType_CType (fd_type d)"
    using repeated_holdsE [OF assms(1), of thesis] by blast
  let ?ys = "take (nat n) xs @ replicate (nat n - length xs) (upb_MessageValue_Zero (upb_FieldType_CType (fd_type d)))"
  have "\<exists>B. upb_Array_Resize p (nat n) arena s = (Inr True, put_array p B s) \<and> arr_ok B \<and> arr_elems B = map Some ?ys \<and> arr_ctype B = arr_ctype A"
  proof (cases "nat n \<le> length xs")
    case True
    have "take (nat n) (arr_elems (arr_resize (nat n) A)) = take (nat n) (arr_elems A)"
      using upb_seq.take_resize [OF h(10), of "nat n" "nat n"] True h(11) by simp
    then have "arr_elems (arr_resize (nat n) A) = take (nat n) (arr_elems A)"
      using upb_seq.length_resize [OF h(10), of "nat n"] by (metis order_refl take_all)
    then show ?thesis using True h Array_Resize_shrink [OF h(9,10), of "nat n"] upb_seq.ok_resize [OF h(10)]
      by (intro exI [of _ "arr_resize (nat n) A"]) (simp add: take_map arr_resize_facts)
  next
    case False
    then show ?thesis using h Array_Resize_grow [OF h(9,10,6), of "nat n"] zero_from_resize [OF h(10), of "nat n"]
      by (intro exI [of _ "arr_zero_from (arr_size A) (arr_resize (nat n) A)"]) (simp add: arr_zero_from_def arr_resize_facts)
  qed
  then obtain B where B: "upb_Array_Resize p (nat n) arena s = (Inr True, put_array p B s)" "arr_ok B" "arr_elems B = map Some ?ys"
    "arr_ctype B = arr_ctype A" by blast
  have "repeated_holds (put_array p B s) self f d arena ?ys"
    using h B by (intro repeated_holds_put [OF h(1,7,8,5,6)]) simp_all
  then show ?thesis using h B(1) assms(2) by (auto simp: PerlUpb_Repeated_Resize_def bind_xs_def)
qed

lemma Repeated_Clear_eq:
  assumes "repeated_holds s self f d arena xs"
  shows "\<exists>t. PerlUpb_Repeated_Clear (Some self) s = (Inr (), t) \<and> repeated_holds t self f d arena []"
proof -
  obtain p A asv where h: "container_object s self ''Protobuf::Internal::Repeated'' p f asv arena"
    "PerlUpb_Repeated_GetArray (Some self) s = (Inr p, s)" "p \<noteq> NULL" "arena \<noteq> NULL" "ample arena s" "fdefs (defs s) f = Some d"
    "\<not> is_submsg d" "arrays s p = Some A" "arr_ok A" "arr_ctype A = upb_FieldType_CType (fd_type d)"
    using repeated_holdsE [OF assms, of thesis] by blast
  have "arr_elems (arr_resize 0 A) = []" using upb_seq.length_resize [OF h(9), of 0] by simp
  then have "repeated_holds (put_array p (arr_resize 0 A) s) self f d arena []"
    using h upb_seq.ok_resize [OF h(9)] by (intro repeated_holds_put [OF h(1,6,7,4,5)]) (simp_all add: arr_resize_facts)
  then show ?thesis using h Array_Resize_shrink [OF h(8,9), of 0 NULL] by (auto simp: PerlUpb_Repeated_Clear_def bind_xs_def)
qed

text \<open>An index or size outside the list is refused before anything is changed.\<close>

lemma repeated_index_errors:
  assumes "repeated_holds s self f d arena xs"
  shows "i < 0 \<or> int (length xs) \<le> i \<Longrightarrow>
      PerlUpb_Repeated_SetItem E (Some self) i v s = (Inl (Croak ''Index out of bounds for repeated field'' []), s)"
    and "i < 0 \<or> int (length xs) < i \<Longrightarrow>
      PerlUpb_Repeated_Insert E (Some self) i v s = (Inl (Croak ''Index out of bounds for repeated field insert'' []), s)"
    and "i < 0 \<Longrightarrow> PerlUpb_Repeated_Resize (Some self) i s = (Inl (Croak ''Negative size for repeated field resize'' []), s)"
proof -
  obtain p A where h: "PerlUpb_Repeated_GetArray (Some self) s = (Inr p, s)" "GetFieldDef (Some self) s = (Inr f, s)"
    "p \<noteq> NULL" "f \<noteq> NULL" "arrays s p = Some A" "arr_size A = length xs"
    using repeated_holdsE [OF assms, of thesis] by blast
  show "i < 0 \<or> int (length xs) \<le> i \<Longrightarrow>
      PerlUpb_Repeated_SetItem E (Some self) i v s = (Inl (Croak ''Index out of bounds for repeated field'' []), s)"
    using h by (auto simp: PerlUpb_Repeated_SetItem_def bind_xs_def Array_Size_eq)
  show "i < 0 \<or> int (length xs) < i \<Longrightarrow>
      PerlUpb_Repeated_Insert E (Some self) i v s = (Inl (Croak ''Index out of bounds for repeated field insert'' []), s)"
    using h by (auto simp: PerlUpb_Repeated_Insert_def bind_xs_def Array_Size_eq)
  show "i < 0 \<Longrightarrow> PerlUpb_Repeated_Resize (Some self) i s = (Inl (Croak ''Negative size for repeated field resize'' []), s)"
    using h by (auto simp: PerlUpb_Repeated_Resize_def bind_xs_def)
qed


text \<open>
  A failed insertion is not undone: when the value does not convert, \<open>insert\<close> reports
  the error but has already opened a gap, so the field ends up one element longer, with an
  unwritten or stale element at the index, the other elements moved around it.
\<close>

theorem insert_failure_leaves_gap:
  assumes "repeated_holds s self f d arena xs" "0 \<le> i" "i \<le> int (length xs)"
    and "fst (PerlUpb_SvToUpb_Element E v f arena s) = Inl e"
  shows "\<exists>p B. PerlUpb_Repeated_Insert E (Some self) i v s = (Inl e, put_array p B s) \<and>
    fst (PerlUpb_Repeated_GetArray (Some self) s) = Inr p \<and> length (arr_elems B) = length xs + 1 \<and>
    take (nat i) (arr_elems B) = map Some (take (nat i) xs) \<and> drop (nat i + 1) (arr_elems B) = map Some (drop (nat i) xs)"
proof -
  obtain p A asv where h: "container_object s self ''Protobuf::Internal::Repeated'' p f asv arena" "p \<noteq> NULL" "f \<noteq> NULL" "arena \<noteq> NULL"
    "ample arena s" "fdefs (defs s) f = Some d" "\<not> is_submsg d" "arr_ok A" "arr_elems A = map Some xs"
    "same_scalars arena s (put_array p (arr_insert (nat i) 1 A) s)"
    "PerlUpb_Repeated_Insert E (Some self) i v s =
      bind_xs (PerlUpb_SvToUpb_Element E v f arena) (\<lambda>val. case val of
          None \<Rightarrow> then_xs (upb_Array_Delete p (nat i) 1) (croak ''Failed to convert value for repeated field insert'' [])
        | Some x \<Rightarrow> upb_Array_Set p (nat i) x) (put_array p (arr_insert (nat i) 1 A) s)"
    using Insert_gap [OF assms(1-3), of E v thesis] by blast
  let ?G = "arr_insert (nat i) 1 A"
  let ?t = "put_array p ?G s"
  have i: "nat i \<le> length (arr_elems A)" using assms(2,3) h(9) by simp
  have dt: "fdefs (defs ?t) f = Some d" using h(6) by simp
  obtain r where "PerlUpb_SvToUpb_Element E v f arena s = (r, s)" "PerlUpb_SvToUpb_Element E v f arena ?t = (r, ?t)"
    using convert_scalar_cong [OF h(10,6,7), of E "sv_to_upb_rec E (stack_limit s)" v "sv_to_upb_rec E (stack_limit ?t)"]
    unfolding Element_at [OF h(6,3,4)] Element_at [OF dt h(3,4)] by blast
  then have "PerlUpb_SvToUpb_Element E v f arena ?t = (Inl e, ?t)" using assms(4) by simp
  moreover have "fst (PerlUpb_Repeated_GetArray (Some self) s) = Inr p"
    using container_object_Get(1) [OF h(1)] by (simp add: PerlUpb_Repeated_GetArray_def)
  ultimately show ?thesis
    using h(11) upb_seq.length_gap [OF h(8) i, of 1] upb_seq.take_gap [OF h(8) i, of 1] upb_seq.drop_gap [OF h(8) i, of 1] h(9)
    by (intro exI [of _ p] exI [of _ ?G]) (simp add: take_map drop_map bind_xs_Inl)
qed

text \<open>The example state with the object at address 2 for the array \<open>[5]\<close> of the field \<open>nums\<close>.\<close>

definition rep_boot :: upb_st where
  "rep_boot = msg_boot\<lparr>heap := (heap msg_boot)(2 \<mapsto>
      hv_store ''_fdef'' (newSViv 0x130) (wrapper_hv 0x4000 (Some (newRV 0)) ''Protobuf::Internal::Repeated'' 0)), next_addr := 3,
    arrays := [0x4000 \<mapsto> \<lparr>arr_ctype = kUpb_CType_Int32, arr_data = [Some (Val_int32 5), None, None, None], arr_size = 1\<rparr>]\<rparr>"

lemma rep_boot_holds:
  "repeated_holds rep_boot (newRV 2) 0x130 (the (fdefs ex_defs 0x130)) 0x2000 [Val_int32 5]"
proof -
  have b: "bound_object rep_boot (newRV 2) ''Protobuf::Internal::Repeated'' 0x4000 (Some (newRV 0))"
    by (simp add: bound_object_def sv_derived_from_def rep_boot_def)
  have a: "arena_sv_ok rep_boot (newRV 0) 0x2000"
    using msg_boot_facts(2) by (simp add: arena_sv_ok_def sv_isa_def rep_boot_def)
  have "GetFieldDef (Some (newRV 2)) rep_boot = (Inr 0x130, rep_boot)"
    by (simp add: GetFieldDef_def rv_hv_def bind_xs_def rep_boot_def iv_ptr_def)
  then have "container_object rep_boot (newRV 2) ''Protobuf::Internal::Repeated'' 0x4000 0x130 (newRV 0) 0x2000"
    using a b by (simp add: container_object_def)
  then show ?thesis unfolding repeated_holds_def
    by (intro exI [of _ "0x4000"] exI [of _ "newRV 0"])
      (auto simp: rep_boot_def ample_def ex_defs_def ex_field_def is_submsg_def arr_ok_def arr_elems_def)
qed


theorem insert_failure_leaves_gap_witness:
  "\<exists>e p B. PerlUpb_Repeated_Insert ex_env (Some (newRV 2)) 0 (newRV 7) rep_boot = (Inl e, put_array p B rep_boot) \<and> length (arr_elems B) = 2"
proof -
  have d: "fdefs (defs rep_boot) 0x130 = Some (the (fdefs ex_defs 0x130))" by (simp add: rep_boot_def ex_defs_def)
  have "\<not> is_number N (newRV 7)" for N by (simp add: is_number_def SvIOK_def SvNOK_def newRV_def PL_sv_undef_def)
  then have "\<exists>e. fst (PerlUpb_SvToUpb_Element ex_env (newRV 7) 0x130 0x2000 rep_boot) = Inl e"
    by (simp add: Element_at [OF d] convert_branches(1) [OF d av_boot_facts(2)] CROAK_WRONG_TYPE_def)
  then show ?thesis using insert_failure_leaves_gap [OF rep_boot_holds, of 0 ex_env "newRV 7"] by fastforce
qed

end
