(* ===== verification/Map_Field.thy ===== *)
theory Map_Field
  imports Upb_To_Sv
begin

text \<open>
  Map fields (\<open>xs/map/map.c\<close>) and their iterator (\<open>xs/map/iterator.c\<close>). A key or value is
  converted with the entry message's field definitions; looking a key up allocates its
  copy in the arena as well.
\<close>

section \<open>Operations\<close>

text \<open>What the operations that take a key start with: map, field definitions, arena and key.\<close>

definition map_key ::
    "perl_env \<Rightarrow> sv option \<Rightarrow> sv \<Rightarrow> (upb_st, 'a) xs \<Rightarrow> (upb_st, 'a) xs \<Rightarrow>
     (ptr \<Rightarrow> ptr \<Rightarrow> ptr \<Rightarrow> upb_MessageValue \<Rightarrow> sv option \<Rightarrow> (upb_st, 'a) xs) \<Rightarrow> (upb_st, 'a) xs" where
  "map_key E self key_sv none bad k =
     bind_xs (PerlUpb_Map_GetMapPtr self) (\<lambda>m.
     bind_xs (GetFieldDef self) (\<lambda>f.
     if m = NULL \<or> f = NULL then none
     else bind_xs (GetMapEntryDefs f) (\<lambda>(key_f, val_f).
       bind_xs (gets_xs (\<lambda>s. PerlUpb_GetArenaFromObject s self)) (\<lambda>arena_sv.
       bind_xs (PerlUpb_Arena_Get arena_sv) (\<lambda>arena.
       bind_xs (PerlUpb_SvToUpb_Element E key_sv key_f arena) (\<lambda>key_val.
       case key_val of None \<Rightarrow> bad | Some key \<Rightarrow> k m val_f arena key arena_sv))))))"

definition PerlUpb_Map_GetItem :: "perl_env \<Rightarrow> sv option \<Rightarrow> sv \<Rightarrow> (upb_st, sv) xs" where
  "PerlUpb_Map_GetItem E self key_sv =
     map_key E self key_sv (ret PL_sv_undef) (croak ''Invalid map key type'' []) (\<lambda>m val_f arena key arena_sv.
     bind_xs (upb_Map_Get m key) (\<lambda>val.
     case val of Some v \<Rightarrow> PerlUpb_UpbToSv_Element v val_f arena_sv | None \<Rightarrow> ret PL_sv_undef))"

definition PerlUpb_Map_Exists :: "perl_env \<Rightarrow> sv option \<Rightarrow> sv \<Rightarrow> (upb_st, bool) xs" where
  "PerlUpb_Map_Exists E self key_sv =
     map_key E self key_sv (ret False) (ret False) (\<lambda>m val_f arena key arena_sv.
     bind_xs (upb_Map_Get m key) (\<lambda>val. ret (val \<noteq> None)))"

text \<open>The result of \<open>upb_Map_Set\<close> is not looked at.\<close>

definition PerlUpb_Map_SetItem :: "perl_env \<Rightarrow> sv option \<Rightarrow> sv \<Rightarrow> sv \<Rightarrow> (upb_st, unit) xs" where
  "PerlUpb_Map_SetItem E self key_sv value_sv =
     map_key E self key_sv (ret ()) (croak ''Invalid map key type'' []) (\<lambda>m val_f arena key arena_sv.
     bind_xs (PerlUpb_SvToUpb_Element E value_sv val_f arena) (\<lambda>val.
     case val of
       None \<Rightarrow> croak ''Invalid map value type'' []
     | Some v \<Rightarrow> bind_xs (upb_Map_Set m key v arena) (\<lambda>_. ret ())))"

definition PerlUpb_Map_DeleteItem :: "perl_env \<Rightarrow> sv option \<Rightarrow> sv \<Rightarrow> (upb_st, unit) xs" where
  "PerlUpb_Map_DeleteItem E self key_sv =
     map_key E self key_sv (ret ()) (croak ''Invalid map key type'' []) (\<lambda>m val_f arena key arena_sv.
     bind_xs (upb_Map_Delete m key) (\<lambda>_. ret ()))"

definition PerlUpb_Map_Clear :: "sv option \<Rightarrow> (upb_st, unit) xs" where
  "PerlUpb_Map_Clear self =
     bind_xs (PerlUpb_Map_GetMapPtr self) (\<lambda>m. if m = NULL then ret () else upb_Map_Clear m)"

definition PerlUpb_Map_Size :: "sv option \<Rightarrow> (upb_st, int) xs" where
  "PerlUpb_Map_Size self =
     bind_xs (PerlUpb_Map_GetMapPtr self) (\<lambda>m.
     if m = NULL then ret 0 else bind_xs (upb_Map_Size m) (\<lambda>n. ret (sint (of_nat n :: u32))))"

definition as_hash_key :: "str_num \<Rightarrow> upb_FieldDef \<Rightarrow> sv \<Rightarrow> (upb_st, string) xs" where
  "as_hash_key N kd k_sv =
     (if fd_type kd = kUpb_FieldType_String then ret (string_of (SvPVutf8 N k_sv))
      else bind_xs (SvPVbyte_xs N k_sv) (\<lambda>bs. ret (string_of bs)))"

definition PerlUpb_Map_AsHash :: "perl_env \<Rightarrow> sv option \<Rightarrow> (upb_st, sv) xs" where
  "PerlUpb_Map_AsHash E self =
     bind_xs (PerlUpb_Map_GetMapPtr self) (\<lambda>m.
     bind_xs (GetFieldDef self) (\<lambda>f.
     if m = NULL \<or> f = NULL then ret PL_sv_undef
     else bind_xs (alloc newHV) (\<lambda>a.
       bind_xs (GetMapEntryDefs f) (\<lambda>(key_f, val_f).
       bind_xs (gets_xs (\<lambda>s. PerlUpb_GetArenaFromObject s self)) (\<lambda>arena_sv.
       bind_xs (map_at m) (\<lambda>kvs.
       then_xs (iter_xs (\<lambda>(k, v).
         bind_xs (PerlUpb_UpbToSv_Element k key_f arena_sv) (\<lambda>k_sv.
         bind_xs (PerlUpb_UpbToSv_Element v val_f arena_sv) (\<lambda>v_sv.
         bind_xs (fdef key_f) (\<lambda>kd.
         bind_xs (as_hash_key (num E) kd k_sv) (\<lambda>key.
         modify_xs (write_ref a (hv_store key v_sv))))))) kvs)
       (ret (newRV a))))))))"

section \<open>Iterator\<close>

definition PerlUpb_Map_GetIterator :: "sv \<Rightarrow> (upb_st, sv) xs" where
  "PerlUpb_Map_GetIterator map_sv = new_struct_object ''Protobuf::Internal::MapIterator'' (CS_MapIterator map_sv 0 None)"

definition GetIter :: "sv option \<Rightarrow> (upb_st, ptr) xs" where
  "GetIter v = struct_object_ptr ''Protobuf::Internal::MapIterator'' v"

definition load_iter :: "ptr \<Rightarrow> (upb_st, sv \<times> nat \<times> (upb_MessageValue \<times> upb_MessageValue) option) xs" where
  "load_iter p =
     bind_xs (c_load p) (\<lambda>c. case c of CS_MapIterator m i kv \<Rightarrow> ret (m, i, kv) | _ \<Rightarrow> fault ''wrong structure'')"

definition PerlUpb_Map_Iterator_NextKey :: "sv option \<Rightarrow> (upb_st, sv) xs" where
  "PerlUpb_Map_Iterator_NextKey self =
     bind_xs (GetIter self) (\<lambda>p.
     if p = NULL then ret PL_sv_undef
     else bind_xs (load_iter p) (\<lambda>(map_sv, i, kv).
       bind_xs (PerlUpb_Map_GetMapPtr (Some map_sv)) (\<lambda>m.
       if m = NULL then ret PL_sv_undef
       else bind_xs (upb_Map_Next m i) (\<lambda>(next, i').
         then_xs (c_store p (CS_MapIterator map_sv i' (if next = None then kv else next)))
         (case next of
            None \<Rightarrow> ret PL_sv_undef
          | Some (k, v) \<Rightarrow>
              bind_xs (PerlUpb_Map_GetFieldDef (Some map_sv)) (\<lambda>f.
              bind_xs (GetMapEntryDefs f) (\<lambda>(key_f, _).
              PerlUpb_UpbToSv_Element k key_f None)))))))"

text \<open>Before the first key the value is whatever \<open>malloc\<close> left there.\<close>

definition PerlUpb_Map_Iterator_Value :: "sv option \<Rightarrow> (upb_st, sv) xs" where
  "PerlUpb_Map_Iterator_Value self =
     bind_xs (GetIter self) (\<lambda>p.
     if p = NULL then ret PL_sv_undef
     else bind_xs (load_iter p) (\<lambda>(map_sv, _, kv).
       bind_xs (PerlUpb_Map_GetFieldDef (Some map_sv)) (\<lambda>f.
       bind_xs (GetMapEntryDefs f) (\<lambda>(_, val_f).
       bind_xs (gets_xs (\<lambda>s. PerlUpb_Map_GetArenaSV s (Some map_sv))) (\<lambda>arena_sv.
       case kv of
         None \<Rightarrow> fault ''read of an uninitialised map value''
       | Some (_, v) \<Rightarrow> PerlUpb_UpbToSv_Element v val_f arena_sv)))))"

definition PerlUpb_MapIterator_Free :: "sv option \<Rightarrow> (upb_st, unit) xs" where
  "PerlUpb_MapIterator_Free v = struct_object_free ''Protobuf::Internal::MapIterator'' v"

section \<open>Dictionaries\<close>

datatype ('k, 'v) dict_op = D_Put 'k 'v | D_Del 'k | D_Clear

fun dict_spec :: "('k, 'v) dict_op \<Rightarrow> ('k \<rightharpoonup> 'v) \<Rightarrow> ('k \<rightharpoonup> 'v)" where
  "dict_spec (D_Put k v) m = m(k \<mapsto> v)"
| "dict_spec (D_Del k) m = m(k := None)"
| "dict_spec D_Clear m = Map.empty"

text \<open>What a map promises: look-up after insertion, removal and clearing.\<close>

locale dictionary =
  fixes lookup :: "'d \<Rightarrow> 'k \<rightharpoonup> 'v"
    and put :: "'k \<Rightarrow> 'v \<Rightarrow> 'd \<Rightarrow> 'd"
    and del :: "'k \<Rightarrow> 'd \<Rightarrow> 'd"
    and none :: "'d"
  assumes lookup_put: "lookup (put k v d) = (lookup d)(k \<mapsto> v)"
    and lookup_del: "lookup (del k d) = (lookup d)(k := None)"
    and lookup_none: "lookup none = Map.empty"
begin

fun perform :: "('k, 'v) dict_op \<Rightarrow> 'd \<Rightarrow> 'd" where
  "perform (D_Put k v) d = put k v d"
| "perform (D_Del k) d = del k d"
| "perform D_Clear d = none"

lemma lookup_perform: "lookup (perform op d) = dict_spec op (lookup d)"
  by (cases op) (simp_all add: lookup_put lookup_del lookup_none)

lemma lookup_performs: "lookup (fold perform ops d) = fold dict_spec ops (lookup d)"
  by (induction ops arbitrary: d) (simp_all add: lookup_perform)

end

interpretation kv: dictionary map_of kv_store kv_delete "[]"
  by unfold_locales simp_all

section \<open>Map fields as dictionaries\<close>

text \<open>
  \<open>self\<close> wraps a map field with scalar keys and values whose entries are \<open>kvs\<close>; \<open>kf\<close> and
  \<open>vf\<close> are the field definitions of its entry message.
\<close>

definition map_holds :: "upb_st \<Rightarrow> sv \<Rightarrow> ptr \<Rightarrow> ptr \<Rightarrow> ptr \<Rightarrow> (upb_MessageValue \<times> upb_MessageValue) list \<Rightarrow> bool" where
  "map_holds s self kf vf arena kvs \<longleftrightarrow>
     (\<exists>p f asv kd vd. container_object s self ''Protobuf::Internal::Map'' p f asv arena \<and>
        GetMapEntryDefs f s = (Inr (kf, vf), s) \<and> kf \<noteq> NULL \<and> vf \<noteq> NULL \<and> fdefs (defs s) kf = Some kd \<and> fdefs (defs s) vf = Some vd \<and>
        \<not> is_submsg kd \<and> \<not> is_submsg vd \<and> arena \<noteq> NULL \<and> ample arena s \<and> maps s p = Some \<lparr>map_entries = kvs\<rparr>)"

lemma put_map_frame [simp]:
  "heap (put_map p kvs s) = heap s" "isa (put_map p kvs s) = isa s" "raw_arenas (put_map p kvs s) = raw_arenas s"
  "upb_arenas (put_map p kvs s) = upb_arenas s" "arena_malloc_ok (put_map p kvs s) = arena_malloc_ok s" "defs (put_map p kvs s) = defs s"
  "maps (put_map p kvs s) = (maps s)(p \<mapsto> \<lparr>map_entries = kvs\<rparr>)" "cheap (put_map p kvs s) = cheap s" "stack_limit (put_map p kvs s) = stack_limit s"
  by (simp_all add: put_map_def)

lemma GetMapEntryDefs_cong: "defs t = defs s \<Longrightarrow> GetMapEntryDefs f s = (Inr x, s) \<Longrightarrow> GetMapEntryDefs f t = (Inr x, t)"
  by (auto simp: GetMapEntryDefs_def bind_xs_def fdef_def mdef_def split: option.splits)

lemma map_holds_put:
  assumes "map_holds s self kf vf arena kvs" "fst (PerlUpb_Map_GetMapPtr (Some self) s) = Inr p"
  shows "map_holds (put_map p kvs' s) self kf vf arena kvs'"
proof -
  from assms obtain f asv kd vd where h: "container_object s self ''Protobuf::Internal::Map'' p f asv arena"
    "GetMapEntryDefs f s = (Inr (kf, vf), s)" "kf \<noteq> NULL" "vf \<noteq> NULL" "fdefs (defs s) kf = Some kd" "fdefs (defs s) vf = Some vd"
    "\<not> is_submsg kd" "\<not> is_submsg vd" "arena \<noteq> NULL" "ample arena s"
    by (auto simp: map_holds_def PerlUpb_Map_GetMapPtr_def container_object_Get)
  have "container_object (put_map p kvs' s) self ''Protobuf::Internal::Map'' p f asv arena"
    by (rule container_object_cong [OF _ _ _ _ h(1)]) simp_all
  moreover have "GetMapEntryDefs f (put_map p kvs' s) = (Inr (kf, vf), put_map p kvs' s)"
    by (rule GetMapEntryDefs_cong [OF _ h(2)]) simp
  ultimately show ?thesis using h unfolding map_holds_def
    by (intro exI [of _ p] exI [of _ f] exI [of _ asv] exI [of _ kd] exI [of _ vd]) (simp add: ample_def)
qed

lemma map_holdsE:
  assumes "map_holds s self kf vf arena kvs"
  obtains p where "fst (PerlUpb_Map_GetMapPtr (Some self) s) = Inr p" "maps s p = Some \<lparr>map_entries = kvs\<rparr>"
  using assms by (auto simp: map_holds_def PerlUpb_Map_GetMapPtr_def container_object_Get)

lemma map_key_eq:
  assumes "map_holds s self kf vf arena kvs" "elem_value E kf arena s k = Some x" "fst (PerlUpb_Map_GetMapPtr (Some self) s) = Inr p"
  shows "map_key E (Some self) k none bad q s = q p vf arena x (PerlUpb_GetArenaFromObject s (Some self)) s"
proof -
  from assms(1,3) obtain f asv kd where h: "container_object s self ''Protobuf::Internal::Map'' p f asv arena"
    "GetMapEntryDefs f s = (Inr (kf, vf), s)" "kf \<noteq> NULL" "fdefs (defs s) kf = Some kd" "\<not> is_submsg kd" "arena \<noteq> NULL" "ample arena s"
    by (auto simp: map_holds_def PerlUpb_Map_GetMapPtr_def container_object_Get)
  have "PerlUpb_SvToUpb_Element E k kf arena s = (Inr (Some x), s)"
    by (rule Element_value_here [OF h(4,5,3,6,7) assms(2)])
  then show ?thesis
    using container_object_Get [OF h(1)] h(2) by (simp add: map_key_def PerlUpb_Map_GetMapPtr_def bind_xs_Inr [of _ s])
qed

lemma map_at_Some: "maps s p = Some \<lparr>map_entries = kvs\<rparr> \<Longrightarrow> map_at p s = (Inr kvs, s)"
  by (simp add: map_at_def)

text \<open>Operations with Perl keys and values, and the dictionary operation each one is.\<close>

datatype map_op = M_Set sv sv | M_Delete sv | M_Clear

fun map_exec :: "perl_env \<Rightarrow> sv \<Rightarrow> map_op \<Rightarrow> (upb_st, unit) xs" where
  "map_exec E self (M_Set k v) = PerlUpb_Map_SetItem E (Some self) k v"
| "map_exec E self (M_Delete k) = PerlUpb_Map_DeleteItem E (Some self) k"
| "map_exec E self M_Clear = PerlUpb_Map_Clear (Some self)"

fun map_op_value :: "(sv \<Rightarrow> upb_MessageValue option) \<Rightarrow> (sv \<Rightarrow> upb_MessageValue option) \<Rightarrow> map_op \<Rightarrow>
    (upb_MessageValue, upb_MessageValue) dict_op option" where
  "map_op_value kc vc (M_Set k v) = (case (kc k, vc v) of (Some x, Some y) \<Rightarrow> Some (D_Put x y) | _ \<Rightarrow> None)"
| "map_op_value kc vc (M_Delete k) = map_option D_Del (kc k)"
| "map_op_value kc vc M_Clear = Some D_Clear"

lemma map_exec_step:
  assumes "map_holds s self kf vf arena kvs"
    and "map_op_value (elem_value E kf arena s) (elem_value E vf arena s) op = Some dop"
  shows "\<exists>p. map_exec E self op s = (Inr (), put_map p (kv.perform dop kvs) s) \<and> fst (PerlUpb_Map_GetMapPtr (Some self) s) = Inr p"
proof (cases op)
  case (M_Set k v)
  with assms(2) obtain x y where xy: "elem_value E kf arena s k = Some x" "elem_value E vf arena s v = Some y" "dop = D_Put x y"
    by (auto split: option.splits)
  obtain p where m: "fst (PerlUpb_Map_GetMapPtr (Some self) s) = Inr p" "maps s p = Some \<lparr>map_entries = kvs\<rparr>"
    by (rule map_holdsE [OF assms(1)])
  from assms(1) obtain vd where v: "vf \<noteq> NULL" "fdefs (defs s) vf = Some vd" "\<not> is_submsg vd" "arena \<noteq> NULL" "ample arena s"
    by (auto simp: map_holds_def)
  have "PerlUpb_SvToUpb_Element E v vf arena s = (Inr (Some y), s)" by (rule Element_value_here [OF v(2,3,1,4,5) xy(2)])
  then show ?thesis using m v(5) M_Set xy(3)
    by (simp add: PerlUpb_Map_SetItem_def map_key_eq [OF assms(1) xy(1) m(1)] upb_Map_Set_def bind_xs_Inr [of _ s] then_xs_def map_at_Some
        arena_malloc_ample store_map_def bind_xs_def)
next
  case (M_Delete k)
  with assms(2) obtain x where x: "elem_value E kf arena s k = Some x" "dop = D_Del x" by auto
  obtain p where m: "fst (PerlUpb_Map_GetMapPtr (Some self) s) = Inr p" "maps s p = Some \<lparr>map_entries = kvs\<rparr>"
    by (rule map_holdsE [OF assms(1)])
  then show ?thesis using M_Delete x(2)
    by (simp add: PerlUpb_Map_DeleteItem_def map_key_eq [OF assms(1) x(1) m(1)] upb_Map_Delete_def bind_xs_Inr [of _ s] map_at_Some
        then_xs_def store_map_def bind_xs_def)
next
  case M_Clear
  from assms(1) obtain p f asv where h: "container_object s self ''Protobuf::Internal::Map'' p f asv arena"
    "maps s p = Some \<lparr>map_entries = kvs\<rparr>" by (auto simp: map_holds_def)
  then show ?thesis using M_Clear assms(2) container_object_Get [OF h(1)]
    by (auto simp: PerlUpb_Map_Clear_def PerlUpb_Map_GetMapPtr_def upb_Map_Clear_def bind_xs_def map_at_Some store_map_def)
qed

lemma elem_value_put_map:
  assumes "fdefs (defs s) f = Some d" "\<not> is_submsg d" "f \<noteq> NULL" "arena \<noteq> NULL" "ample arena s"
  shows "elem_value E f arena (put_map p kvs s) = elem_value E f arena s"
proof
  fix v
  let ?t = "put_map p kvs s"
  have dt: "fdefs (defs ?t) f = Some d" and sc: "same_scalars arena s ?t" using assms by (simp_all add: same_scalars_def ample_def)
  show "elem_value E f arena ?t v = elem_value E f arena s v"
    using convert_scalar_cong [OF sc assms(1,2), of E "sv_to_upb_rec E (stack_limit s)" v "sv_to_upb_rec E (stack_limit ?t)"]
    unfolding elem_value_def Element_at [OF assms(1,3,4)] Element_at [OF dt assms(3,4)] by auto
qed

fun map_run :: "perl_env \<Rightarrow> sv \<Rightarrow> map_op list \<Rightarrow> (upb_st, unit) xs" where
  "map_run E self [] = ret ()"
| "map_run E self (op # ops) = then_xs (map_exec E self op) (map_run E self ops)"

lemma map_run_holds:
  assumes "map_holds s self kf vf arena kvs"
    and "map (map_op_value (elem_value E kf arena s) (elem_value E vf arena s)) ops = map Some dops"
  shows "\<exists>t. map_run E self ops s = (Inr (), t) \<and> map_holds t self kf vf arena (fold kv.perform dops kvs) \<and>
    elem_value E kf arena t = elem_value E kf arena s"
  using assms
proof (induction ops arbitrary: s kvs dops)
  case Nil
  then show ?case by auto
next
  case (Cons op ops)
  then obtain dop rest where d: "dops = dop # rest" "map_op_value (elem_value E kf arena s) (elem_value E vf arena s) op = Some dop"
    "map (map_op_value (elem_value E kf arena s) (elem_value E vf arena s)) ops = map Some rest" by (cases dops) auto
  obtain p where p: "map_exec E self op s = (Inr (), put_map p (kv.perform dop kvs) s)" "fst (PerlUpb_Map_GetMapPtr (Some self) s) = Inr p"
    using map_exec_step [OF Cons.prems(1) d(2)] by blast
  let ?t = "put_map p (kv.perform dop kvs) s"
  have "map_holds ?t self kf vf arena (kv.perform dop kvs)" by (rule map_holds_put [OF Cons.prems(1) p(2)])
  moreover have v: "elem_value E kf arena ?t = elem_value E kf arena s" "elem_value E vf arena ?t = elem_value E vf arena s"
    using Cons.prems(1) elem_value_put_map [of s] unfolding map_holds_def by blast+
  ultimately show ?case using Cons.IH [of ?t "kv.perform dop kvs" rest] d p(1) by (auto simp: then_xs_Inr)
qed

text \<open>
  C2: A map field with scalar keys and values is a finite map: after any sequence of
  \<open>set\<close>, \<open>delete\<close> and \<open>clear\<close> whose keys and values convert, reading a key gives the value
  last set for it (by its converted value, so different Perl scalars may be one key) or
  \<open>undef\<close>, and \<open>exists\<close> tells which.
\<close>

theorem map_refines_dictionary:
  assumes "map_holds s self kf vf arena kvs"
    and "map (map_op_value (elem_value E kf arena s) (elem_value E vf arena s)) ops = map Some dops"
    and "elem_value E kf arena s k = Some x"
  shows "\<exists>t asv. map_run E self ops s = (Inr (), t) \<and>
    PerlUpb_Map_GetItem E (Some self) k t = (case fold dict_spec dops (map_of kvs) x of
        Some y \<Rightarrow> PerlUpb_UpbToSv_Element y vf asv t | None \<Rightarrow> (Inr PL_sv_undef, t)) \<and>
    PerlUpb_Map_Exists E (Some self) k t = (Inr (fold dict_spec dops (map_of kvs) x \<noteq> None), t)"
proof -
  obtain t where t: "map_run E self ops s = (Inr (), t)" "map_holds t self kf vf arena (fold kv.perform dops kvs)"
    "elem_value E kf arena t = elem_value E kf arena s" using map_run_holds [OF assms(1,2)] by blast
  have x: "elem_value E kf arena t k = Some x" using assms(3) t(3) by simp
  obtain p where p: "fst (PerlUpb_Map_GetMapPtr (Some self) t) = Inr p" "maps t p = Some \<lparr>map_entries = fold kv.perform dops kvs\<rparr>"
    by (rule map_holdsE [OF t(2)])
  let ?asv = "PerlUpb_GetArenaFromObject t (Some self)"
  have "upb_Map_Get p x t = (Inr (fold dict_spec dops (map_of kvs) x), t)"
    using p(2) kv.lookup_performs [of dops kvs] by (simp add: upb_Map_Get_def bind_xs_def map_at_Some)
  then have "PerlUpb_Map_GetItem E (Some self) k t = (case fold dict_spec dops (map_of kvs) x of
        Some y \<Rightarrow> PerlUpb_UpbToSv_Element y vf ?asv t | None \<Rightarrow> (Inr PL_sv_undef, t))"
    "PerlUpb_Map_Exists E (Some self) k t = (Inr (fold dict_spec dops (map_of kvs) x \<noteq> None), t)"
    by (simp_all add: PerlUpb_Map_GetItem_def PerlUpb_Map_Exists_def map_key_eq [OF t(2) x p(1)] bind_xs_Inr split: option.split)
  with t(1) show ?thesis by blast
qed

section \<open>The iterator visits every entry\<close>

text \<open>\<open>self\<close> is an iterator, standing before entry \<open>i\<close>, over the map with the entries \<open>kvs\<close>.\<close>

definition iter_at :: "upb_st \<Rightarrow> sv \<Rightarrow> ptr \<Rightarrow> (upb_MessageValue \<times> upb_MessageValue) list \<Rightarrow> nat \<Rightarrow> bool" where
  "iter_at s self kf kvs i \<longleftrightarrow>
     (\<exists>q map_sv kv p f asv arena vf. GetIter (Some self) s = (Inr q, s) \<and> q \<noteq> NULL \<and> cheap s q = Some (CS_MapIterator map_sv i kv) \<and>
        container_object s map_sv ''Protobuf::Internal::Map'' p f asv arena \<and> GetMapEntryDefs f s = (Inr (kf, vf), s) \<and>
        maps s p = Some \<lparr>map_entries = kvs\<rparr>)"

lemma GetIter_cong: "heap t = heap s \<Longrightarrow> isa t = isa s \<Longrightarrow> GetIter v s = (Inr q, s) \<Longrightarrow> GetIter v t = (Inr q, t)"
  by (simp add: GetIter_def struct_object_ptr_cong [of t s])

lemma NextKey_step:
  assumes "iter_at s self kf kvs i"
  shows "\<exists>q c. iter_at (s\<lparr>cheap := (cheap s)(q \<mapsto> c)\<rparr>) self kf kvs (if i < length kvs then Suc i else i) \<and>
    PerlUpb_Map_Iterator_NextKey (Some self) s =
      (if i < length kvs then PerlUpb_UpbToSv_Element (fst (kvs ! i)) kf None (s\<lparr>cheap := (cheap s)(q \<mapsto> c)\<rparr>)
       else (Inr PL_sv_undef, s\<lparr>cheap := (cheap s)(q \<mapsto> c)\<rparr>))"
proof -
  from assms obtain q map_sv kv p f asv arena vf where h: "GetIter (Some self) s = (Inr q, s)" "q \<noteq> NULL"
    "cheap s q = Some (CS_MapIterator map_sv i kv)" "container_object s map_sv ''Protobuf::Internal::Map'' p f asv arena"
    "GetMapEntryDefs f s = (Inr (kf, vf), s)" "maps s p = Some \<lparr>map_entries = kvs\<rparr>" by (auto simp: iter_at_def)
  let ?kv = "if i < length kvs then Some (kvs ! i) else kv" and ?i = "if i < length kvs then Suc i else i"
  let ?c = "CS_MapIterator map_sv ?i ?kv"
  define t where "t = s\<lparr>cheap := (cheap s)(q \<mapsto> ?c)\<rparr>"
  have c: "container_object t map_sv ''Protobuf::Internal::Map'' p f asv arena"
    by (rule container_object_cong [OF _ _ _ _ h(4)]) (simp_all add: t_def)
  moreover have g: "GetMapEntryDefs f t = (Inr (kf, vf), t)" by (rule GetMapEntryDefs_cong [OF _ h(5)]) (simp add: t_def)
  moreover have "GetIter (Some self) t = (Inr q, t)" by (rule GetIter_cong [OF _ _ h(1)]) (simp_all add: t_def)
  ultimately have it: "iter_at t self kf kvs ?i" using h(2,6) unfolding iter_at_def
    by (intro exI [of _ q] exI [of _ map_sv] exI [of _ ?kv] exI [of _ p] exI [of _ f] exI [of _ asv] exI [of _ arena] exI [of _ vf])
      (simp add: t_def)
  have next_: "upb_Map_Next p i s = (Inr (if i < length kvs then (Some (kvs ! i), Suc i) else (None, i)), s)"
    using h(6) by (simp add: upb_Map_Next_def bind_xs_def map_at_Some)
  have load: "load_iter q s = (Inr (map_sv, i, kv), s)" using h(3) by (simp add: load_iter_def c_load_def bind_xs_def)
  have store: "c_store q ?c s = (Inr (), t)" by (simp add: c_store_def t_def)
  have key: "bind_xs (PerlUpb_Map_GetFieldDef (Some map_sv)) (\<lambda>f. bind_xs (GetMapEntryDefs f) (\<lambda>(key_f, _). K key_f)) t = K kf t" for K
    using g container_object_Get(2) [OF c] by (simp add: PerlUpb_Map_GetFieldDef_def bind_xs_Inr [of _ t])
  have "PerlUpb_Map_Iterator_NextKey (Some self) s =
      (if i < length kvs then PerlUpb_UpbToSv_Element (fst (kvs ! i)) kf None t else (Inr PL_sv_undef, t))"
  proof (cases "i < length kvs")
    case True
    then have "c_store q (CS_MapIterator map_sv (Suc i) (Some (kvs ! i))) s = (Inr (), t)" using store by simp
    then show ?thesis using True h(1,2) next_ load container_object_Get(1,5) [OF h(4)] key
      by (cases "kvs ! i") (simp add: PerlUpb_Map_Iterator_NextKey_def PerlUpb_Map_GetMapPtr_def bind_xs_Inr [of _ s] then_xs_Inr [of _ s])
  next
    case False
    then have "c_store q (CS_MapIterator map_sv i kv) s = (Inr (), t)" using store by simp
    then show ?thesis using False h(1,2) next_ load container_object_Get(1,5) [OF h(4)]
      by (simp add: PerlUpb_Map_Iterator_NextKey_def PerlUpb_Map_GetMapPtr_def bind_xs_Inr [of _ s] then_xs_Inr [of _ s])
  qed
  with it show ?thesis unfolding t_def by blast
qed

fun next_keys :: "nat \<Rightarrow> sv \<Rightarrow> (upb_st, sv list) xs" where
  "next_keys 0 self = ret []"
| "next_keys (Suc n) self =
     bind_xs (PerlUpb_Map_Iterator_NextKey (Some self)) (\<lambda>k. bind_xs (next_keys n self) (\<lambda>ks. ret (k # ks)))"

text \<open>The Perl value of a scalar key.\<close>

definition key_sv :: "ptr \<Rightarrow> upb_st \<Rightarrow> upb_MessageValue \<Rightarrow> sv option" where
  "key_sv kf s k = (case fst (PerlUpb_UpbToSv_Element k kf None s) of Inr v \<Rightarrow> Some v | Inl _ \<Rightarrow> None)"

lemma key_sv_typed:
  assumes "fdefs (defs s) f = Some d" "f \<noteq> NULL" "value_of_type (fd_type d) k" "\<not> is_submsg d"
  obtains v where "\<And>t. defs t = defs s \<Longrightarrow> PerlUpb_UpbToSv_Element k f None t = (Inr v, t)" "key_sv f s k = Some v"
proof -
  have at: "PerlUpb_UpbToSv_Element k f None t = convert_singular_upb_to_sv k f None t" for t
    using assms(2) by (simp add: PerlUpb_UpbToSv_Element_def)
  have "\<exists>v. \<forall>t. defs t = defs s \<longrightarrow> convert_singular_upb_to_sv k f None t = (Inr v, t)"
    using assms(1,3,4) to_sv_branches [of _ f d]
    by (cases k) (auto simp: value_of_type_def is_submsg_def)
  then show thesis using that by (auto simp: at key_sv_def)
qed

text \<open>
  C21: Iteration over a map terminates and is complete: a fresh iterator returns the keys
  of all entries, each exactly once and in the map's order, in as many calls of
  \<open>NextKey\<close> as there are entries; every further call returns \<open>undef\<close>.
\<close>

theorem map_iterator_complete:
  assumes "iter_at s self kf kvs 0" "fdefs (defs s) kf = Some kd" "kf \<noteq> NULL" "\<not> is_submsg kd"
    and "\<forall>(k, v) \<in> set kvs. value_of_type (fd_type kd) k"
  shows "\<exists>t. next_keys (length kvs) self s = (Inr (map (\<lambda>(k, v). the (key_sv kf s k)) kvs), t) \<and>
    (\<forall>n. \<exists>u. next_keys n self t = (Inr (replicate n PL_sv_undef), u))"
proof -
  have fin: "\<exists>u. next_keys n self t = (Inr (replicate n PL_sv_undef), u)" if "iter_at t self kf kvs (length kvs)" for n t
    using that
  proof (induction n arbitrary: t)
    case (Suc n)
    from NextKey_step [OF Suc.prems] obtain q c where q: "iter_at (t\<lparr>cheap := (cheap t)(q \<mapsto> c)\<rparr>) self kf kvs (length kvs)"
      "PerlUpb_Map_Iterator_NextKey (Some self) t = (Inr PL_sv_undef, t\<lparr>cheap := (cheap t)(q \<mapsto> c)\<rparr>)" by auto
    then show ?case using Suc.IH [OF q(1)] by (auto simp: bind_xs_def)
  qed simp
  have "\<exists>t. next_keys n self u = (Inr (map (\<lambda>(k, v). the (key_sv kf s k)) (drop i kvs)), t) \<and> iter_at t self kf kvs (length kvs)"
    if "iter_at u self kf kvs i" "defs u = defs s" "i + n = length kvs" for n i u
    using that
  proof (induction n arbitrary: i u)
    case (Suc n)
    then have i: "i < length kvs" by simp
    from NextKey_step [OF Suc.prems(1)] i obtain q c where q: "iter_at (u\<lparr>cheap := (cheap u)(q \<mapsto> c)\<rparr>) self kf kvs (Suc i)"
      "PerlUpb_Map_Iterator_NextKey (Some self) u = PerlUpb_UpbToSv_Element (fst (kvs ! i)) kf None (u\<lparr>cheap := (cheap u)(q \<mapsto> c)\<rparr>)" by auto
    let ?u = "u\<lparr>cheap := (cheap u)(q \<mapsto> c)\<rparr>"
    have "value_of_type (fd_type kd) (fst (kvs ! i))" using assms(5) nth_mem [OF i] by (cases "kvs ! i") auto
    then obtain v where v: "\<And>t. defs t = defs s \<Longrightarrow> PerlUpb_UpbToSv_Element (fst (kvs ! i)) kf None t = (Inr v, t)"
      "key_sv kf s (fst (kvs ! i)) = Some v" using key_sv_typed [OF assms(2,3) _ assms(4), of "fst (kvs ! i)"] by blast
    have "defs ?u = defs s" using Suc.prems(2) by simp
    note v(1) [OF this]
    moreover
    obtain t where "next_keys n self ?u = (Inr (map (\<lambda>(k, v). the (key_sv kf s k)) (drop (Suc i) kvs)), t)"
      "iter_at t self kf kvs (length kvs)"
      using Suc.IH [OF q(1)] Suc.prems by auto
    ultimately show ?case using v(2) q(2) i by (auto simp: bind_xs_def simp flip: Cons_nth_drop_Suc split: prod.split)
  qed auto
  then show ?thesis using assms(1) fin by (metis add_0 drop0)
qed

section \<open>Examples\<close>

text \<open>
  The example state with the object at address 2 for the map \<open>tags\<close> with one entry, and an
  iterator over it at address 3.
\<close>

definition map_boot :: upb_st where
  "map_boot = snd (PerlUpb_Map_GetIterator (newRV 2) (msg_boot\<lparr>heap := (heap msg_boot)(2 \<mapsto>
      hv_store ''_fdef'' (newSViv 0x150) (wrapper_hv 0x5000 (Some (newRV 0)) ''Protobuf::Internal::Map'' 0)), next_addr := 3,
    maps := [0x5000 \<mapsto> \<lparr>map_entries = [(Val_str [97], Val_int32 1)]\<rparr>]\<rparr>))"

lemma map_boot_eq:
  "map_boot = msg_boot\<lparr>heap := (heap msg_boot)(2 \<mapsto> hv_store ''_fdef'' (newSViv 0x150)
        (wrapper_hv 0x5000 (Some (newRV 0)) ''Protobuf::Internal::Map'' 0),
      3 \<mapsto> sv_bless ''Protobuf::Internal::MapIterator'' \<lparr>ref_body = PVMG (newSViv 0x8000), ref_stash = None, ref_magic = [], ref_tied = None\<rparr>),
    next_addr := 4, maps := [0x5000 \<mapsto> \<lparr>map_entries = [(Val_str [97], Val_int32 1)]\<rparr>],
    next_ptr := 0x8100, cheap := [0x8000 \<mapsto> CS_MapIterator (newRV 2) 0 None]\<rparr>"
  by (simp add: map_boot_def PerlUpb_Map_GetIterator_def new_struct_object_def c_malloc_def fresh_ptr_def bind_xs_def then_xs_def alloc_def)

lemma map_boot_container: "container_object map_boot (newRV 2) ''Protobuf::Internal::Map'' 0x5000 0x150 (newRV 0) 0x2000"
proof -
  have "bound_object map_boot (newRV 2) ''Protobuf::Internal::Map'' 0x5000 (Some (newRV 0))"
    by (simp add: bound_object_def sv_derived_from_def map_boot_eq)
  moreover have "arena_sv_ok map_boot (newRV 0) 0x2000"
    using msg_boot_facts(2) by (simp add: arena_sv_ok_def sv_isa_def map_boot_eq)
  moreover have "GetFieldDef (Some (newRV 2)) map_boot = (Inr 0x150, map_boot)"
    by (simp add: GetFieldDef_def rv_hv_def bind_xs_def map_boot_eq iv_ptr_def)
  ultimately show ?thesis by (simp add: container_object_def)
qed

lemma map_boot_defs:
  "GetMapEntryDefs 0x150 map_boot = (Inr (0x111, 0x112), map_boot)" "fdefs (defs map_boot) 0x111 = Some (the (fdefs ex_defs 0x111))"
  "fdefs (defs map_boot) 0x112 = Some (the (fdefs ex_defs 0x112))" "fd_type (the (fdefs ex_defs 0x111)) = kUpb_FieldType_String"
  "\<not> is_submsg (the (fdefs ex_defs 0x111))" "\<not> is_submsg (the (fdefs ex_defs 0x112))"
  "maps map_boot 0x5000 = Some \<lparr>map_entries = [(Val_str [97], Val_int32 1)]\<rparr>" "ample 0x2000 map_boot"
  by (simp_all add: map_boot_eq ex_defs_def ex_field_def is_submsg_def ample_def GetMapEntryDefs_def bind_xs_def fdef_def mdef_def
      upb_MessageDef_FindFieldByNumber_def find_field_def)

lemma map_boot_holds: "map_holds map_boot (newRV 2) 0x111 0x112 0x2000 [(Val_str [97], Val_int32 1)]"
  unfolding map_holds_def using map_boot_container map_boot_defs
  by (intro exI [of _ "0x5000"] exI [of _ "0x150"] exI [of _ "newRV 0"] exI [of _ "the (fdefs ex_defs 0x111)"]
      exI [of _ "the (fdefs ex_defs 0x112)"]) simp

theorem map_refines_dictionary_witness:
  "\<exists>t. map_run ex_env (newRV 2) [M_Delete (newSVpvn [97])] map_boot = (Inr (), t) \<and>
     PerlUpb_Map_Exists ex_env (Some (newRV 2)) (newSVpvn [97]) t = (Inr False, t)"
proof -
  have "PerlUpb_SvToUpb_Element ex_env (newSVpvn [97]) 0x111 0x2000 map_boot = (Inr (Some (Val_str [97])), map_boot)"
    using map_boot_defs(4,8)
    by (simp add: Element_at [OF map_boot_defs(2)] convert_branches(5) [OF map_boot_defs(2)] SvPOK_def newSVpvn_def copy_bytes_def bind_xs_def
        arena_malloc_ample SvPVutf8_def sv_string_def)
  then have k: "elem_value ex_env 0x111 0x2000 map_boot (newSVpvn [97]) = Some (Val_str [97])" by (simp add: elem_value_def)
  from map_refines_dictionary [OF map_boot_holds _ k, of "[M_Delete (newSVpvn [97])]" "[D_Del (Val_str [97])]"] k
  show ?thesis by auto
qed

theorem map_iterator_complete_witness:
  "\<exists>t. next_keys 1 (newRV 3) map_boot = (Inr [SvUTF8_on (newSVpvn [97])], t)"
proof -
  have "GetIter (Some (newRV 3)) map_boot = (Inr 0x8000, map_boot)"
    by (simp add: GetIter_def struct_object_ptr_def sv_derived_from_def map_boot_eq) (simp add: sv_bless_def)
  moreover have "cheap map_boot 0x8000 = Some (CS_MapIterator (newRV 2) 0 None)" by (simp add: map_boot_eq)
  ultimately have it: "iter_at map_boot (newRV 3) 0x111 [(Val_str [97], Val_int32 1)] 0"
    unfolding iter_at_def using map_boot_container map_boot_defs(1,7)
    by (intro exI [of _ "0x8000"] exI [of _ "newRV 2"] exI [of _ None] exI [of _ "0x5000"] exI [of _ "0x150"] exI [of _ "newRV 0"]
        exI [of _ "0x2000"] exI [of _ "0x112"]) simp
  have "key_sv 0x111 map_boot (Val_str [97]) = Some (SvUTF8_on (newSVpvn [97]))"
    by (simp add: key_sv_def to_sv_at [OF map_boot_defs(2)] to_sv_branches(5) [OF map_boot_defs(2,4)])
  then show ?thesis
    using map_iterator_complete [OF it map_boot_defs(2) _ map_boot_defs(5)] map_boot_defs(4) by (auto simp: value_of_type_def)
qed

end
