(* ===== verification/Descriptor.thy ===== *)
theory Descriptor
  imports Utils
begin

text \<open>
  Descriptor objects (\<open>xs/descriptor/*.c\<close>): the Perl wrappers of upb definitions, the
  accessors the Perl layer calls on them, and the registry of message definitions by
  the fingerprint of their name. A definition lives as long as its pool, so its wrapper
  holds no arena.
\<close>

section \<open>Wrappers\<close>

text \<open>The two macros of \<open>xs/descriptor/base.h\<close>.\<close>

definition RETURN_CACHED_OR_CREATE_BLESSED :: "ptr \<Rightarrow> string \<Rightarrow> ('z cache_st_scheme, sv) xs" where
  "RETURN_CACHED_OR_CREATE_BLESSED p cls = PerlUpb_WrapArenaBoundObject p None cls 0"

definition EXTRACT_CACHED_DESCRIPTOR :: "sv option \<Rightarrow> string \<Rightarrow> ('z perl_st_scheme, ptr) xs" where
  "EXTRACT_CACHED_DESCRIPTOR v cls = PerlUpb_GetArenaBoundObject v (Some cls)"

definition PerlUpb_EnumDef_GetWrapper :: "ptr \<Rightarrow> ('z cache_st_scheme, sv) xs" where
  "PerlUpb_EnumDef_GetWrapper e = RETURN_CACHED_OR_CREATE_BLESSED e ''Protobuf::Descriptor::Enum''"

definition PerlUpb_EnumDef_GetEnum :: "sv option \<Rightarrow> ('z perl_st_scheme, ptr) xs" where
  "PerlUpb_EnumDef_GetEnum v = EXTRACT_CACHED_DESCRIPTOR v ''Protobuf::Descriptor::Enum''"

definition PerlUpb_EnumValueDef_GetWrapper :: "ptr \<Rightarrow> ('z cache_st_scheme, sv) xs" where
  "PerlUpb_EnumValueDef_GetWrapper ev = RETURN_CACHED_OR_CREATE_BLESSED ev ''Protobuf::Descriptor::EnumValue''"

definition PerlUpb_EnumValueDef_GetEnumValue :: "sv option \<Rightarrow> ('z perl_st_scheme, ptr) xs" where
  "PerlUpb_EnumValueDef_GetEnumValue v = EXTRACT_CACHED_DESCRIPTOR v ''Protobuf::Descriptor::EnumValue''"

definition PerlUpb_FieldDef_GetWrapper :: "ptr \<Rightarrow> ('z cache_st_scheme, sv) xs" where
  "PerlUpb_FieldDef_GetWrapper f = RETURN_CACHED_OR_CREATE_BLESSED f ''Protobuf::Descriptor::Field''"

definition PerlUpb_FieldDef_GetField :: "sv option \<Rightarrow> ('z perl_st_scheme, ptr) xs" where
  "PerlUpb_FieldDef_GetField v = EXTRACT_CACHED_DESCRIPTOR v ''Protobuf::Descriptor::Field''"

definition PerlUpb_FileDef_GetWrapper :: "ptr \<Rightarrow> ('z cache_st_scheme, sv) xs" where
  "PerlUpb_FileDef_GetWrapper f = RETURN_CACHED_OR_CREATE_BLESSED f ''Protobuf::Descriptor::File''"

definition PerlUpb_FileDef_GetFile :: "sv option \<Rightarrow> ('z perl_st_scheme, ptr) xs" where
  "PerlUpb_FileDef_GetFile v = EXTRACT_CACHED_DESCRIPTOR v ''Protobuf::Descriptor::File''"

definition PerlUpb_OneofDef_GetWrapper :: "ptr \<Rightarrow> ('z cache_st_scheme, sv) xs" where
  "PerlUpb_OneofDef_GetWrapper p = RETURN_CACHED_OR_CREATE_BLESSED p ''Protobuf::Descriptor::OneofDef''"

definition PerlUpb_OneofDef_GetOneof :: "sv option \<Rightarrow> ('z perl_st_scheme, ptr) xs" where
  "PerlUpb_OneofDef_GetOneof v = EXTRACT_CACHED_DESCRIPTOR v ''Protobuf::Descriptor::OneofDef''"

definition PerlUpb_ServiceDef_GetWrapper :: "ptr \<Rightarrow> ('z cache_st_scheme, sv) xs" where
  "PerlUpb_ServiceDef_GetWrapper p =
     (if p = NULL then ret PL_sv_undef else RETURN_CACHED_OR_CREATE_BLESSED p ''Protobuf::Descriptor::Service'')"

definition PerlUpb_MessageDef_GetWrapper :: "ptr \<Rightarrow> ('z cache_st_scheme, sv) xs" where
  "PerlUpb_MessageDef_GetWrapper m = RETURN_CACHED_OR_CREATE_BLESSED m ''Protobuf::Descriptor::MessageDef''"

definition PerlUpb_MessageDef_GetMessage :: "sv option \<Rightarrow> ('z perl_st_scheme, ptr) xs" where
  "PerlUpb_MessageDef_GetMessage v = EXTRACT_CACHED_DESCRIPTOR v ''Protobuf::Descriptor::MessageDef''"

section \<open>Fields\<close>

definition PerlUpb_FieldDef_Name :: "ptr \<Rightarrow> ('z upb_st_scheme, sv) xs" where
  "PerlUpb_FieldDef_Name f = (if f = NULL then ret PL_sv_undef else bind_xs (fdef f) (\<lambda>d. ret (newSVpv (fd_name d))))"

fun field_type_name :: "upb_FieldType \<Rightarrow> string" where
  "field_type_name kUpb_FieldType_Double = ''double''"
| "field_type_name kUpb_FieldType_Float = ''float''"
| "field_type_name kUpb_FieldType_Int64 = ''int64''"
| "field_type_name kUpb_FieldType_UInt64 = ''uint64''"
| "field_type_name kUpb_FieldType_Int32 = ''int32''"
| "field_type_name kUpb_FieldType_Fixed64 = ''fixed64''"
| "field_type_name kUpb_FieldType_Fixed32 = ''fixed32''"
| "field_type_name kUpb_FieldType_Bool = ''bool''"
| "field_type_name kUpb_FieldType_String = ''string''"
| "field_type_name kUpb_FieldType_Group = ''group''"
| "field_type_name kUpb_FieldType_Message = ''message''"
| "field_type_name kUpb_FieldType_Bytes = ''bytes''"
| "field_type_name kUpb_FieldType_UInt32 = ''uint32''"
| "field_type_name kUpb_FieldType_Enum = ''enum''"
| "field_type_name kUpb_FieldType_SFixed32 = ''sfixed32''"
| "field_type_name kUpb_FieldType_SFixed64 = ''sfixed64''"
| "field_type_name kUpb_FieldType_SInt32 = ''sint32''"
| "field_type_name kUpb_FieldType_SInt64 = ''sint64''"

text \<open>\<open>of_field dflt get\<close> is the shape of the accessors: a default for a null pointer.\<close>

definition of_field :: "'a \<Rightarrow> (upb_FieldDef \<Rightarrow> 'a) \<Rightarrow> ptr \<Rightarrow> ('z upb_st_scheme, 'a) xs" where
  "of_field dflt get f = (if f = NULL then ret dflt else bind_xs (fdef f) (\<lambda>d. ret (get d)))"

definition PerlUpb_FieldDef_TypeName :: "ptr \<Rightarrow> ('z upb_st_scheme, string) xs" where
  "PerlUpb_FieldDef_TypeName = of_field ''unknown'' (\<lambda>d. field_type_name (fd_type d))"

definition PerlUpb_FieldDef_LabelName :: "ptr \<Rightarrow> ('z upb_st_scheme, string) xs" where
  "PerlUpb_FieldDef_LabelName = of_field ''unknown'' (\<lambda>d.
     if fd_label d = 1 then ''optional'' else if fd_label d = 2 then ''required''
     else if fd_label d = 3 then ''repeated'' else ''unknown'')"

definition PerlUpb_FieldDef_Type :: "ptr \<Rightarrow> ('z upb_st_scheme, int) xs" where
  "PerlUpb_FieldDef_Type = of_field 0 (\<lambda>d. field_type_num (fd_type d))"

definition PerlUpb_FieldDef_Label :: "ptr \<Rightarrow> ('z upb_st_scheme, int) xs" where
  "PerlUpb_FieldDef_Label = of_field 0 fd_label"

definition PerlUpb_FieldDef_Number :: "ptr \<Rightarrow> ('z upb_st_scheme, u32) xs" where
  "PerlUpb_FieldDef_Number = of_field 0 fd_number"

definition PerlUpb_FieldDef_IsRepeated :: "ptr \<Rightarrow> ('z upb_st_scheme, bool) xs" where
  "PerlUpb_FieldDef_IsRepeated = of_field False fd_repeated"

definition PerlUpb_FieldDef_IsMap :: "ptr \<Rightarrow> ('z upb_st_scheme, bool) xs" where
  "PerlUpb_FieldDef_IsMap f = bind_xs (gets_xs defs) (\<lambda>D. of_field False (is_map D) f)"

definition PerlUpb_FieldDef_IsSubMessage :: "ptr \<Rightarrow> ('z upb_st_scheme, bool) xs" where
  "PerlUpb_FieldDef_IsSubMessage = of_field False is_submsg"

definition PerlUpb_FieldDef_IsExtension :: "ptr \<Rightarrow> ('z upb_st_scheme, bool) xs" where
  "PerlUpb_FieldDef_IsExtension = of_field False fd_is_extension"

definition PerlUpb_FieldDef_IsPacked :: "ptr \<Rightarrow> ('z upb_st_scheme, bool) xs" where
  "PerlUpb_FieldDef_IsPacked = of_field False fd_is_packed"

section \<open>Enum values, services and methods\<close>

definition enumvaluedef :: "ptr \<Rightarrow> ('z upb_st_scheme, upb_EnumValueDef) xs" where
  "enumvaluedef p = (\<lambda>s. case enumvaluedefs (defs s) p of
     None \<Rightarrow> (Inl (Fault ''enum value definition of a bad pointer''), s) | Some d \<Rightarrow> (Inr d, s))"

definition servicedef :: "ptr \<Rightarrow> ('z upb_st_scheme, upb_ServiceDef) xs" where
  "servicedef p = (\<lambda>s. case servicedefs (defs s) p of
     None \<Rightarrow> (Inl (Fault ''service definition of a bad pointer''), s) | Some d \<Rightarrow> (Inr d, s))"

definition methoddef :: "ptr \<Rightarrow> ('z upb_st_scheme, upb_MethodDef) xs" where
  "methoddef p = (\<lambda>s. case methoddefs (defs s) p of
     None \<Rightarrow> (Inl (Fault ''method definition of a bad pointer''), s) | Some d \<Rightarrow> (Inr d, s))"

text \<open>The last component of a dotted name (\<open>_upb_DefBuilder_FullToShort\<close>).\<close>

definition short_name :: "string \<Rightarrow> string" where
  "short_name full = rev (takeWhile (\<lambda>c. c \<noteq> CHR ''.'') (rev full))"

definition PerlUpb_EnumValueDef_Name :: "ptr \<Rightarrow> ('z upb_st_scheme, string) xs" where
  "PerlUpb_EnumValueDef_Name ev = bind_xs (enumvaluedef ev) (\<lambda>d. ret (ev_name d))"

definition PerlUpb_EnumValueDef_Number :: "ptr \<Rightarrow> ('z upb_st_scheme, u32) xs" where
  "PerlUpb_EnumValueDef_Number ev = bind_xs (enumvaluedef ev) (\<lambda>d. ret (ev_number d))"

definition PerlUpb_EnumValueDef_Index :: "ptr \<Rightarrow> ('z upb_st_scheme, int) xs" where
  "PerlUpb_EnumValueDef_Index ev = bind_xs (enumvaluedef ev) (\<lambda>d. ret (ev_index d))"

definition PerlUpb_MethodDef_FullName :: "ptr \<Rightarrow> ('z upb_st_scheme, string) xs" where
  "PerlUpb_MethodDef_FullName m = bind_xs (methoddef m) (\<lambda>d. ret (meth_full_name d))"

definition PerlUpb_MethodDef_Name :: "ptr \<Rightarrow> ('z upb_st_scheme, string) xs" where
  "PerlUpb_MethodDef_Name m = bind_xs (methoddef m) (\<lambda>d. ret (short_name (meth_full_name d)))"

definition PerlUpb_MethodDef_Index :: "ptr \<Rightarrow> ('z upb_st_scheme, int) xs" where
  "PerlUpb_MethodDef_Index m = bind_xs (methoddef m) (\<lambda>d. ret (meth_index d))"

definition PerlUpb_MethodDef_InputType :: "ptr \<Rightarrow> ('z upb_st_scheme, ptr) xs" where
  "PerlUpb_MethodDef_InputType m = bind_xs (methoddef m) (\<lambda>d. ret (meth_input_type d))"

definition PerlUpb_MethodDef_OutputType :: "ptr \<Rightarrow> ('z upb_st_scheme, ptr) xs" where
  "PerlUpb_MethodDef_OutputType m = bind_xs (methoddef m) (\<lambda>d. ret (meth_output_type d))"

definition PerlUpb_MethodDef_ClientStreaming :: "ptr \<Rightarrow> ('z upb_st_scheme, bool) xs" where
  "PerlUpb_MethodDef_ClientStreaming m = bind_xs (methoddef m) (\<lambda>d. ret (meth_client_streaming d))"

definition PerlUpb_MethodDef_ServerStreaming :: "ptr \<Rightarrow> ('z upb_st_scheme, bool) xs" where
  "PerlUpb_MethodDef_ServerStreaming m = bind_xs (methoddef m) (\<lambda>d. ret (meth_server_streaming d))"

definition PerlUpb_MethodDef_Service :: "ptr \<Rightarrow> ('z upb_st_scheme, ptr) xs" where
  "PerlUpb_MethodDef_Service m = bind_xs (methoddef m) (\<lambda>d. ret (meth_service d))"

definition PerlUpb_ServiceDef_FullName :: "ptr \<Rightarrow> ('z upb_st_scheme, string) xs" where
  "PerlUpb_ServiceDef_FullName p = bind_xs (servicedef p) (\<lambda>d. ret (sd_full_name d))"

definition PerlUpb_ServiceDef_Name :: "ptr \<Rightarrow> ('z upb_st_scheme, string) xs" where
  "PerlUpb_ServiceDef_Name p = bind_xs (servicedef p) (\<lambda>d. ret (short_name (sd_full_name d)))"

definition PerlUpb_ServiceDef_Index :: "ptr \<Rightarrow> ('z upb_st_scheme, int) xs" where
  "PerlUpb_ServiceDef_Index p = bind_xs (servicedef p) (\<lambda>d. ret (sd_index d))"

definition PerlUpb_ServiceDef_MethodCount :: "ptr \<Rightarrow> ('z upb_st_scheme, nat) xs" where
  "PerlUpb_ServiceDef_MethodCount p = bind_xs (servicedef p) (\<lambda>d. ret (length (sd_methods d)))"

definition PerlUpb_ServiceDef_Method :: "ptr \<Rightarrow> int \<Rightarrow> ('z upb_st_scheme, ptr) xs" where
  "PerlUpb_ServiceDef_Method p i = bind_xs (servicedef p) (\<lambda>d.
     ret (if i < 0 \<or> int (length (sd_methods d)) \<le> i then NULL else sd_methods d ! nat i))"

definition PerlUpb_ServiceDef_FindMethodByName :: "ptr \<Rightarrow> string \<Rightarrow> ('z upb_st_scheme, ptr) xs" where
  "PerlUpb_ServiceDef_FindMethodByName p name =
     bind_xs (servicedef p) (\<lambda>d. gets_xs (\<lambda>s.
       case find (\<lambda>m. case methoddefs (defs s) m of None \<Rightarrow> False | Some md \<Rightarrow> short_name (meth_full_name md) = name) (sd_methods d) of
         None \<Rightarrow> NULL | Some m \<Rightarrow> m))"

definition PerlUpb_ServiceDef_File :: "ptr \<Rightarrow> ('z upb_st_scheme, ptr) xs" where
  "PerlUpb_ServiceDef_File p = bind_xs (servicedef p) (\<lambda>d. ret (sd_file d))"

section \<open>Messages\<close>

text \<open>
  \<open>strncmp (f_name, name, len) = 0\<close> for a \<open>f_name\<close> of length \<open>len\<close>; \<open>name\<close> is the buffer
  the caller passes.
\<close>

fun find_field_loop :: "string \<Rightarrow> nat \<Rightarrow> ptr list \<Rightarrow> ('z upb_st_scheme, ptr) xs" where
  "find_field_loop name len [] = ret NULL"
| "find_field_loop name len (f # fs) =
     bind_xs (fdef f) (\<lambda>d.
     if length (fd_name d) = len \<and> take len (fd_name d) = take len name then ret f
     else find_field_loop name len fs)"

definition PerlUpb_MessageDef_FindFieldByNameWithSize :: "ptr \<Rightarrow> string \<Rightarrow> nat \<Rightarrow> ('z upb_st_scheme, ptr) xs" where
  "PerlUpb_MessageDef_FindFieldByNameWithSize m name len =
     bind_xs (mdef m) (\<lambda>d. find_field_loop name len (md_fields d))"

fun fnv1a :: "u64 \<Rightarrow> byte list \<Rightarrow> u64" where
  "fnv1a h [] = h"
| "fnv1a h (b # bs) = fnv1a ((h XOR ucast b) * 0x100000001b3) bs"

definition PerlUpb_MessageDef_GetFingerprint :: "ptr \<Rightarrow> ('z upb_st_scheme, u64) xs" where
  "PerlUpb_MessageDef_GetFingerprint m =
     (if m = NULL then ret 0
      else bind_xs (mdef m) (\<lambda>d. ret (fnv1a 0xcbf29ce484222325 (bytes_of (md_full_name d)))))"

text \<open>
  The table is keyed by the decimal digits of the fingerprint in the code, by the number
  here. Neither function tests the registry for null, which it is during global
  destruction.
\<close>

definition PerlUpb_MessageDef_RegisterFingerprint :: "ptr \<Rightarrow> ('z upb_st_scheme, unit) xs" where
  "PerlUpb_MessageDef_RegisterFingerprint m =
     (if m = NULL then ret ()
      else bind_xs (PerlUpb_MessageDef_GetFingerprint m) (\<lambda>fp.
       bind_xs (lift_xs PerlUpb_Registry_Get) (\<lambda>reg.
       case reg of
         None \<Rightarrow> fault ''access through a null registry''
       | Some _ \<Rightarrow>
           bind_xs (PerlUpb_MessageDef_GetWrapper m) (\<lambda>wrapper.
           if \<not> SvOK wrapper
           then croak ''Failed to get wrapper for MessageDef during fingerprint registration'' []
           else modify_xs (\<lambda>s. s\<lparr>registry := map_option (\<lambda>reg.
               reg\<lparr>descriptor_fingerprints := kv_store fp wrapper (descriptor_fingerprints reg)\<rparr>) (registry s)\<rparr>)))))"

definition PerlUpb_MessageDef_FindByFingerprint :: "u64 \<Rightarrow> ('z upb_st_scheme, ptr) xs" where
  "PerlUpb_MessageDef_FindByFingerprint fp =
     bind_xs (lift_xs PerlUpb_Registry_Get) (\<lambda>reg.
     case reg of
       None \<Rightarrow> fault ''access through a null registry''
     | Some reg \<Rightarrow>
         (case map_of (descriptor_fingerprints reg) fp of
            None \<Rightarrow> ret NULL
          | Some v \<Rightarrow> if SvROK v then PerlUpb_MessageDef_GetMessage (Some v) else ret NULL))"

definition PerlUpb_Message_FullName :: "ptr \<Rightarrow> ('z upb_st_scheme, sv) xs" where
  "PerlUpb_Message_FullName m =
     (if m = NULL then ret PL_sv_undef else bind_xs (mdef m) (\<lambda>d. ret (newSVpv (md_full_name d))))"

definition PerlUpb_Message_File :: "ptr \<Rightarrow> ('z upb_st_scheme, sv) xs" where
  "PerlUpb_Message_File m =
     (if m = NULL then ret PL_sv_undef else bind_xs (mdef m) (\<lambda>d. PerlUpb_FileDef_GetWrapper (md_file d)))"

definition PerlUpb_MessageDef_PerlClassName :: "ptr \<Rightarrow> ('z upb_st_scheme, sv) xs" where
  "PerlUpb_MessageDef_PerlClassName m =
     (if m = NULL then ret PL_sv_undef
      else bind_xs (PerlUpb_GetMessageStash m) (\<lambda>stash. ret (newSVpv stash)))"

definition PerlUpb_MessageDef_AuditIdentity :: "sv option \<Rightarrow> ('z cache_st_scheme, unit) xs" where
  "PerlUpb_MessageDef_AuditIdentity self =
     bind_xs (PerlUpb_MessageDef_GetMessage self) (\<lambda>m.
     if m \<noteq> NULL then modify_xs (PerlUpb_ObjCache_LogEvent OBJ_CACHE_EVENT_HIT m) else ret ())"

section \<open>Facts\<close>

text \<open>The linear search finds what the hash table of upb would.\<close>

lemma find_field_loop_eq:
  assumes "\<forall>f \<in> set fs. \<exists>d. fdefs (defs s) f = Some d"
  shows "find_field_loop name (length name) fs s =
    (Inr (case find (\<lambda>f. case fdefs (defs s) f of None \<Rightarrow> False | Some x \<Rightarrow> fd_name x = name) fs of
       None \<Rightarrow> NULL | Some f \<Rightarrow> f), s)"
  using assms by (induction fs) (auto simp: fdef_def bind_xs_def)

lemma FindFieldByName_eq:
  assumes "mdefs (defs s) m = Some d" "\<forall>f \<in> set (md_fields d). \<exists>x. fdefs (defs s) f = Some x"
  shows "PerlUpb_MessageDef_FindFieldByNameWithSize m name (length name) s =
    (Inr (upb_MessageDef_FindFieldByName (defs s) m name), s)"
  using assms find_field_loop_eq [OF assms(2)]
  by (simp add: PerlUpb_MessageDef_FindFieldByNameWithSize_def mdef_def bind_xs_def
      upb_MessageDef_FindFieldByName_def find_field_def)

lemma GetWrapper_returns:
  assumes "ready s" "p \<noteq> NULL"
  obtains v t where "RETURN_CACHED_OR_CREATE_BLESSED p cls s = (Inr v, t)" "ready t" "cache_st.more t = cache_st.more s" "SvOK v"
proof -
  let ?g = "snd (PerlUpb_ObjCache_Get p s)" and ?r = "wrapper_hv p None cls 0"
  note g = Get_spec [OF assms]
  have more: "cache_st.more ?g = cache_st.more s" using g(3) by (simp add: frame_def)
  show thesis
  proof (cases "fst (PerlUpb_ObjCache_Get p s)")
    case None
    let ?h = "?g\<lparr>heap := (heap ?g)(next_addr ?g \<mapsto> ?r), next_addr := Suc (next_addr ?g)\<rparr>"
    have "ready ?h" by (rule iffD2 [OF ready_cong g(2)]) simp_all
    then obtain t where t: "PerlUpb_ObjCache_Add p (Some (newRV (next_addr ?g))) ?h = (Inr (), t)" "ready t" "frame ?h t"
      using assms(2) Add_spec sv_flags(5) by metis
    then show thesis
      using None assms(2) more
      by (intro that [of "newRV (next_addr ?g)" t])
        (simp_all add: RETURN_CACHED_OR_CREATE_BLESSED_def PerlUpb_WrapArenaBoundObject_def then_xs_def bind_xs_def alloc_def frame_def)
  next
    case (Some v)
    moreover have "SvOK v" using Some g(1) by (auto split: option.splits)
    ultimately show thesis
      using assms(2) more g(2) that [of v ?g]
      by (simp add: RETURN_CACHED_OR_CREATE_BLESSED_def PerlUpb_WrapArenaBoundObject_def)
  qed
qed

end
