(* ===== verification/Message_Access.thy ===== *)
theory Message_Access
  imports Upb_To_Sv Descriptor
begin

text \<open>
  Operations on whole messages: fields by definition (\<open>xs/message/access.c\<close>), creation,
  merging and copying (\<open>xs/message/message.c\<close>), the audit (\<open>xs/message/meta.c\<close>) and
  comparison (\<open>xs/message/compare.c\<close>). The encoders, decoders and the comparison of upb
  are the record \<open>upb_codec\<close>, an argument of what uses them.
\<close>

section \<open>The codecs of upb\<close>

datatype upb_EncodeStatus =
    kUpb_EncodeStatus_Ok | kUpb_EncodeStatus_OutOfMemory | kUpb_EncodeStatus_MaxDepthExceeded
  | kUpb_EncodeStatus_MissingRequired | kUpb_EncodeStatus_MaxSizeExceeded

fun encode_status_num :: "upb_EncodeStatus \<Rightarrow> int" where
  "encode_status_num kUpb_EncodeStatus_Ok = 0"
| "encode_status_num kUpb_EncodeStatus_OutOfMemory = 1"
| "encode_status_num kUpb_EncodeStatus_MaxDepthExceeded = 2"
| "encode_status_num kUpb_EncodeStatus_MissingRequired = 3"
| "encode_status_num kUpb_EncodeStatus_MaxSizeExceeded = 4"

text \<open>
  \<open>upb_Encode msg mt options arena\<close>, \<open>upb_Decode data msg mt extreg options arena\<close>,
  \<open>upb_TextEncode msg m\<close> and \<open>upb_JsonEncode msg m pool\<close> (the text, or an error message;
  both read the message only), \<open>upb_JsonDecode text msg m pool options arena\<close> (\<open>None\<close>
  for success), \<open>upb_Message_IsEqual\<close>, \<open>upb_DefPool_AddFile\<close>'s parser and builder below.
\<close>

record upb_codec =
  upb_Encode :: "ptr \<Rightarrow> ptr \<Rightarrow> int \<Rightarrow> ptr \<Rightarrow> (upb_st, upb_EncodeStatus \<times> byte list) xs"
  upb_Decode :: "byte list \<Rightarrow> ptr \<Rightarrow> ptr \<Rightarrow> ptr \<Rightarrow> int \<Rightarrow> ptr \<Rightarrow> (upb_st, upb_DecodeStatus) xs"
  upb_TextEncode :: "ptr \<Rightarrow> ptr \<Rightarrow> (upb_st, byte list) xs"
  upb_JsonEncode :: "ptr \<Rightarrow> ptr \<Rightarrow> ptr \<Rightarrow> (upb_st, string + byte list) xs"
  upb_JsonDecode :: "byte list \<Rightarrow> ptr \<Rightarrow> ptr \<Rightarrow> ptr \<Rightarrow> int \<Rightarrow> ptr \<Rightarrow> (upb_st, string option) xs"
  upb_Message_IsEqual :: "ptr \<Rightarrow> ptr \<Rightarrow> ptr \<Rightarrow> int \<Rightarrow> (upb_st, bool) xs"

section \<open>Fields\<close>

definition PerlUpb_Message_GetField :: "perl_env \<Rightarrow> sv option \<Rightarrow> ptr \<Rightarrow> (upb_st, sv) xs" where
  "PerlUpb_Message_GetField E message_sv f =
     bind_xs (PerlUpb_Message_GetMsg message_sv) (\<lambda>msg.
     if msg = NULL then croak ''Invalid message object'' []
     else bind_xs (fdef f) (\<lambda>d.
       bind_xs (gets_xs (\<lambda>s. is_map (defs s) d)) (\<lambda>mapf.
       if is_submsg d \<or> fd_repeated d \<or> mapf then
         bind_xs (gets_xs (\<lambda>s. PerlUpb_Message_GetArena s message_sv)) (\<lambda>arena_sv.
         bind_xs (PerlUpb_Arena_Get arena_sv) (\<lambda>arena.
         if fd_repeated d \<or> mapf then
           bind_xs (upb_Message_Mutable msg f arena) (\<lambda>p.
           PerlUpb_UpbToSv E (Some (if mapf then Val_map p else Val_array p)) f arena_sv)
         else
           bind_xs (upb_Message_GetFieldByDef msg f) (\<lambda>val. PerlUpb_UpbToSv E (Some val) f arena_sv)))
       else bind_xs (upb_Message_GetFieldByDef msg f) (\<lambda>val. PerlUpb_UpbToSv E (Some val) f None))))"

definition PerlUpb_Message_SetField :: "perl_env \<Rightarrow> sv option \<Rightarrow> ptr \<Rightarrow> sv \<Rightarrow> (upb_st, unit) xs" where
  "PerlUpb_Message_SetField E message_sv f val_sv =
     bind_xs (PerlUpb_Message_GetMsg message_sv) (\<lambda>msg.
     if msg = NULL then croak ''Invalid message object'' []
     else bind_xs (gets_xs (\<lambda>s. PerlUpb_Message_GetArena s message_sv)) (\<lambda>arena_sv.
       bind_xs (PerlUpb_Arena_Get arena_sv) (\<lambda>arena.
       bind_xs (PerlUpb_SvToUpb E val_sv f arena) (\<lambda>val.
       case val of
         None \<Rightarrow> croak ''Failed to convert value for setting field'' []
       | Some val \<Rightarrow> bind_xs (upb_Message_SetFieldByDef msg f val arena) (\<lambda>_. ret ())))))"

definition PerlUpb_Message_HasField :: "sv option \<Rightarrow> ptr \<Rightarrow> ('z upb_st_scheme, bool) xs" where
  "PerlUpb_Message_HasField message_sv f =
     bind_xs (PerlUpb_Message_GetMsg message_sv) (\<lambda>msg.
     if msg = NULL then croak ''Invalid message object'' []
     else bind_xs (fdef f) (\<lambda>d.
       if \<not> fd_has_presence d then croak ''Field does not have presence'' []
       else upb_Message_HasFieldByDef msg f))"

definition PerlUpb_Message_ClearField :: "sv option \<Rightarrow> ptr \<Rightarrow> ('z upb_st_scheme, unit) xs" where
  "PerlUpb_Message_ClearField message_sv f =
     bind_xs (PerlUpb_Message_GetMsg message_sv) (\<lambda>msg.
     if msg = NULL then croak ''Invalid message object'' []
     else upb_Message_ClearFieldByDef msg f)"

text \<open>\<open>None\<close> is a null string, returned for a null message.\<close>

definition PerlUpb_Message_WhichOneof :: "sv option \<Rightarrow> ptr \<Rightarrow> ('z upb_st_scheme, string option) xs" where
  "PerlUpb_Message_WhichOneof message_sv oneof =
     bind_xs (PerlUpb_Message_GetMsg message_sv) (\<lambda>msg.
     if msg = NULL then ret None
     else bind_xs (upb_Message_WhichOneofByDef msg oneof) (\<lambda>f.
       if f = NULL then ret (Some '''') else bind_xs (fdef f) (\<lambda>d. ret (Some (fd_name d)))))"

definition PerlUpb_Message_Clear :: "sv option \<Rightarrow> ('z upb_st_scheme, unit) xs" where
  "PerlUpb_Message_Clear message_sv =
     bind_xs (PerlUpb_Message_GetMsg message_sv) (\<lambda>msg.
     bind_xs (PerlUpb_Message_GetDef message_sv) (\<lambda>m.
     if msg = NULL \<or> m = NULL then croak ''Invalid message object'' []
     else upb_Message_ClearByDef msg m))"

text \<open>
  The loop over the present fields. Each round but the last moves the iterator forward,
  so one round more than the message has fields is enough (\<open>fields_loop_returns\<close>).
\<close>

fun fields_loop :: "nat \<Rightarrow> ptr \<Rightarrow> ptr \<Rightarrow> nat \<Rightarrow> ('z upb_st_scheme, sv list) xs" where
  "fields_loop 0 msg m iter = fault ''out of fuel''"
| "fields_loop (Suc n) msg m iter =
     bind_xs (upb_Message_Next msg m NULL iter) (\<lambda>(r, iter).
     case r of
       None \<Rightarrow> ret []
     | Some (f, _) \<Rightarrow> bind_xs (PerlUpb_FieldDef_GetWrapper f) (\<lambda>w. bind_xs (fields_loop n msg m iter) (\<lambda>ws. ret (w # ws))))"

definition PerlUpb_Message_Fields :: "sv option \<Rightarrow> ('z upb_st_scheme, sv) xs" where
  "PerlUpb_Message_Fields message_sv =
     bind_xs (PerlUpb_Message_GetMsg message_sv) (\<lambda>msg.
     bind_xs (PerlUpb_Message_GetDef message_sv) (\<lambda>m.
     if msg = NULL \<or> m = NULL then croak ''Invalid message object'' []
     else bind_xs (mdef m) (\<lambda>d.
       bind_xs (fields_loop (Suc (length (md_fields d))) msg m 0) (\<lambda>ws.
       bind_xs (alloc (newAV ws)) (\<lambda>a. ret (newRV a))))))"

section \<open>Whole messages\<close>

definition PerlUpb_Message_NewMessage :: "sv option \<Rightarrow> u16 \<Rightarrow> (upb_st, sv) xs" where
  "PerlUpb_Message_NewMessage descriptor_sv flags =
     bind_xs (PerlUpb_MessageDef_GetMessage descriptor_sv) (\<lambda>m.
     if m = NULL then croak ''descriptor_sv must be a Protobuf::MessageDescriptor'' []
     else bind_xs PerlUpb_Arena_New (\<lambda>arena_sv.
       bind_xs (PerlUpb_Arena_Get (Some arena_sv)) (\<lambda>arena.
       bind_xs (mdef m) (\<lambda>d.
       if md_minitable d = NULL then croak ''Failed to get MiniTable for message'' []
       else bind_xs (upb_Message_New arena) (\<lambda>msg.
         if msg = NULL then croak ''Failed to allocate upb_Message'' []
         else PerlUpb_WrapMessage_NoCache msg m (Some arena_sv) flags)))))"

text \<open>\<open>upb_Message_MergeFrom\<close> (\<open>vendor/upb/message/merge.c\<close>): encode, then decode into the target.\<close>

definition upb_Message_MergeFrom :: "upb_codec \<Rightarrow> ptr \<Rightarrow> ptr \<Rightarrow> ptr \<Rightarrow> ptr \<Rightarrow> ptr \<Rightarrow> (upb_st, bool) xs" where
  "upb_Message_MergeFrom C dst src mt extreg arena =
     bind_xs upb_Arena_New (\<lambda>encode_arena.
     bind_xs (upb_Encode C src mt 0 encode_arena) (\<lambda>(e_status, buf).
     if e_status \<noteq> kUpb_EncodeStatus_Ok then then_xs (upb_Arena_Free encode_arena) (ret False)
     else bind_xs (upb_Decode C buf dst mt extreg 0 arena) (\<lambda>d_status.
       then_xs (upb_Arena_Free encode_arena) (ret (d_status = kUpb_DecodeStatus_Ok)))))"

definition PerlUpb_Message_MergeFrom :: "upb_codec \<Rightarrow> sv option \<Rightarrow> sv option \<Rightarrow> (upb_st, unit) xs" where
  "PerlUpb_Message_MergeFrom C dst_sv src_sv =
     bind_xs (PerlUpb_Message_GetMsg dst_sv) (\<lambda>dst_msg.
     bind_xs (PerlUpb_Message_GetMsg src_sv) (\<lambda>src_msg.
     bind_xs (PerlUpb_Message_GetDef dst_sv) (\<lambda>m.
     bind_xs (PerlUpb_Message_GetDef src_sv) (\<lambda>src_m.
     if dst_msg = NULL \<or> src_msg = NULL \<or> m = NULL \<or> src_m = NULL then croak ''Invalid message objects'' []
     else if m \<noteq> src_m then croak ''Messages must have the same descriptor for MergeFrom'' []
     else bind_xs (gets_xs (\<lambda>s. PerlUpb_Message_GetArena s dst_sv)) (\<lambda>dst_arena_sv.
       bind_xs (PerlUpb_Arena_Get dst_arena_sv) (\<lambda>dst_arena.
       bind_xs (mdef m) (\<lambda>d.
       bind_xs (filedef (md_file d)) (\<lambda>file.
       bind_xs (upb_Message_MergeFrom C dst_msg src_msg (md_minitable d) (file_pool file) dst_arena) (\<lambda>ok.
       if \<not> ok then croak ''Failed to merge messages'' [] else ret ())))))))))"

definition PerlUpb_Message_CopyFrom :: "upb_codec \<Rightarrow> sv option \<Rightarrow> sv option \<Rightarrow> (upb_st, unit) xs" where
  "PerlUpb_Message_CopyFrom C dst_sv src_sv =
     bind_xs (PerlUpb_Message_GetMsg dst_sv) (\<lambda>dst_msg.
     bind_xs (PerlUpb_Message_GetDef dst_sv) (\<lambda>m.
     if dst_msg = NULL \<or> m = NULL then croak ''Invalid destination message object'' []
     else then_xs (upb_Message_ClearByDef dst_msg m) (PerlUpb_Message_MergeFrom C dst_sv src_sv)))"

definition PerlUpb_Message_GetDescriptor :: "sv option \<Rightarrow> ('z upb_st_scheme, sv) xs" where
  "PerlUpb_Message_GetDescriptor message_sv =
     bind_xs (PerlUpb_Message_GetDef message_sv) (\<lambda>m.
     if m = NULL then ret PL_sv_undef else PerlUpb_MessageDef_GetWrapper m)"

text \<open>One round of the audit: \<open>False\<close> ends it.\<close>

definition audit_field :: "sv option \<Rightarrow> ptr \<Rightarrow> ptr \<Rightarrow> ('z upb_st_scheme, bool) xs" where
  "audit_field message_sv msg f =
     bind_xs (fdef f) (\<lambda>d.
     bind_xs (rv_hv message_sv) (\<lambda>r.
     case Option.bind (hv_fetch r (fd_name d)) sv_rok of
       None \<Rightarrow> ret True
     | Some inner \<Rightarrow>
         bind_xs (upb_Message_GetFieldByDef msg f) (\<lambda>val.
         if \<not> is_submsg d then ret True
         else if val_ptr val = NULL then ret False
         else bind_xs (lift_xs (PerlUpb_ObjCache_Get (val_ptr val))) (\<lambda>cached.
           case cached of
             None \<Rightarrow> ret True
           | Some c \<Rightarrow> ret (sv_rok c = Some inner)))))"

definition PerlUpb_Message_AuditIntegrity :: "sv option \<Rightarrow> ('z upb_st_scheme, bool) xs" where
  "PerlUpb_Message_AuditIntegrity message_sv =
     bind_xs (PerlUpb_Message_GetMsg message_sv) (\<lambda>msg.
     bind_xs (PerlUpb_Message_GetDef message_sv) (\<lambda>m.
     if msg = NULL \<or> m = NULL then ret False
     else bind_xs (rv_hv message_sv) (\<lambda>_.
       bind_xs (mdef m) (\<lambda>d. all_xs (audit_field message_sv msg) (md_fields d)))))"

definition PerlUpb_Message_IsEqual :: "upb_codec \<Rightarrow> sv option \<Rightarrow> sv option \<Rightarrow> (upb_st, bool) xs" where
  "PerlUpb_Message_IsEqual C message1_sv message2_sv =
     bind_xs (PerlUpb_Message_GetMsg message1_sv) (\<lambda>msg1.
     bind_xs (PerlUpb_Message_GetMsg message2_sv) (\<lambda>msg2.
     if msg1 = NULL \<or> msg2 = NULL then ret False
     else bind_xs (PerlUpb_Message_GetDef message1_sv) (\<lambda>m1.
       bind_xs (PerlUpb_Message_GetDef message2_sv) (\<lambda>m2.
       if m1 \<noteq> m2 then ret False
       else bind_xs (mdef m1) (\<lambda>d.
         if md_minitable d = NULL then ret False
         else upb_Message_IsEqual C msg1 msg2 (md_minitable d) 0)))))"

section \<open>Facts about fields\<close>

text \<open>
  \<open>self\<close> is a wrapper of the live message \<open>msg\<close> with contents \<open>M\<close> in a live arena that
  is not exhausted.
\<close>

definition message_object :: "upb_st \<Rightarrow> sv \<Rightarrow> ptr \<Rightarrow> ptr \<Rightarrow> upb_Message \<Rightarrow> bool" where
  "message_object s self msg arena M \<longleftrightarrow>
     ready s \<and> (\<exists>asv. bound_object s self ''Protobuf::Message'' msg (Some asv) \<and> arena_sv_ok s asv arena) \<and>
     arena \<noteq> NULL \<and> ample arena s \<and> messages s msg = Some M \<and> 0 < stack_limit s"

definition scalar_field :: "upb_defs \<Rightarrow> ptr \<Rightarrow> upb_FieldDef \<Rightarrow> bool" where
  "scalar_field D f d \<longleftrightarrow>
     fdefs D f = Some d \<and> f \<noteq> NULL \<and> \<not> fd_repeated d \<and> \<not> is_submsg d \<and> \<not> fd_is_extension d"

text \<open>The Perl scalar that shows a value of a field of type \<open>ty\<close>.\<close>

definition perl_value :: "upb_FieldType \<Rightarrow> upb_MessageValue \<Rightarrow> sv" where
  "perl_value ty val =
     (case val of
        Val_int32 w \<Rightarrow> newSViv (scast w)
      | Val_uint32 w \<Rightarrow> newSVuv (ucast w)
      | Val_int64 w \<Rightarrow> newSViv w
      | Val_uint64 w \<Rightarrow> newSVuv w
      | Val_bool b \<Rightarrow> if b then PL_sv_yes else PL_sv_no
      | Val_float x \<Rightarrow> newSVnv x
      | Val_double x \<Rightarrow> newSVnv x
      | Val_str bs \<Rightarrow> if ty = kUpb_FieldType_String then SvUTF8_on (newSVpvn bs) else newSVpvn bs
      | _ \<Rightarrow> PL_sv_undef)"

lemma to_sv_scalar:
  assumes "fdefs (defs s) f = Some d" "\<not> is_submsg d" "value_of_type (fd_type d) x"
  shows "convert_singular_upb_to_sv x f asv s = (Inr (perl_value (fd_type d) x), s)"
  using assms(2,3)
  by (cases x) (auto simp: value_of_type_def perl_value_def to_sv_branches [OF assms(1)] is_submsg_def)

lemma message_objectE:
  assumes "message_object s self msg arena M"
  obtains asv where "PerlUpb_Message_GetMsg (Some self) s = (Inr msg, s)" "PerlUpb_Message_GetArena s (Some self) = Some asv"
    "PerlUpb_Arena_Get (Some asv) s = (Inr arena, s)" "msg \<noteq> NULL" "message msg s = (Inr M, s)"
proof -
  obtain asv where "bound_object s self ''Protobuf::Message'' msg (Some asv)" "arena_sv_ok s asv arena" "messages s msg = Some M"
    using assms by (auto simp: message_object_def)
  note o = this
  have "msg \<noteq> NULL" using o(1) by (auto simp: bound_object_def)
  then show thesis
    by (rule that [OF bound_message_Get [OF o(1)] arena_sv_ok_Get [OF o(2)] _ message_Some [OF o(3)]])
qed

lemma message_object_put:
  assumes "message_object s self msg arena M"
  shows "message_object (put_message msg N s) self msg arena N"
proof -
  have "ready s" using assms by (simp add: message_object_def)
  then have "ready (put_message msg N s)" by (rule iffD2 [OF ready_cong, rotated -1]) (simp_all add: put_message_def)
  moreover have "stack_limit (put_message msg N s) = stack_limit s" by (simp add: put_message_def)
  ultimately show ?thesis
    using assms bound_object_cong [of "put_message msg N s" s] arena_sv_ok_cong [of "put_message msg N s" s arena]
    by (auto simp: message_object_def ample_def)
qed

lemma GetField_scalar:
  assumes "message_object s self msg arena M" "scalar_field (defs s) f d" "value_of_type (fd_type d) (field_value d f M)"
  shows "PerlUpb_Message_GetField E (Some self) f s = (Inr (perl_value (fd_type d) (field_value d f M)), s)"
proof -
  obtain asv where g: "PerlUpb_Message_GetMsg (Some self) s = (Inr msg, s)" "msg \<noteq> NULL" "message msg s = (Inr M, s)"
    using assms(1) by (rule message_objectE)
  have d: "fdefs (defs s) f = Some d" "f \<noteq> NULL" "\<not> is_submsg d" "\<not> fd_repeated d" "\<not> is_map (defs s) d"
    using assms(2) by (auto simp: scalar_field_def is_map_def)
  have "PerlUpb_Registry_Get s = (registry s, s)" using assms(1) by (simp add: message_object_def ready_Registry_Get)
  then show ?thesis
    using g d to_sv_scalar [OF d(1,3) assms(3)]
    by (simp add: PerlUpb_Message_GetField_def bind_xs_Inr [of _ s] fdef_Some upb_Message_GetFieldByDef_def PerlUpb_UpbToSv_def)
qed

lemma HasField_eq:
  assumes "message_object s self msg arena M" "fdefs (defs s) f = Some d" "fd_has_presence d" "\<not> fd_is_extension d"
  shows "PerlUpb_Message_HasField (Some self) f s = (Inr (map_of (um_fields M) f \<noteq> None), s)"
proof -
  obtain asv where g: "PerlUpb_Message_GetMsg (Some self) s = (Inr msg, s)" "msg \<noteq> NULL" "message msg s = (Inr M, s)"
    using assms(1) by (rule message_objectE)
  then show ?thesis
    using assms(2-4) by (simp add: PerlUpb_Message_HasField_def bind_xs_Inr [of _ s] fdef_Some upb_Message_HasFieldByDef_def)
qed

lemma ClearField_eq:
  assumes "message_object s self msg arena M" "fdefs (defs s) f = Some d" "\<not> fd_is_extension d"
  shows "PerlUpb_Message_ClearField (Some self) f s = (Inr (), put_message msg (M\<lparr>um_fields := kv_delete f (um_fields M)\<rparr>) s)"
proof -
  obtain asv where g: "PerlUpb_Message_GetMsg (Some self) s = (Inr msg, s)" "msg \<noteq> NULL" "message msg s = (Inr M, s)"
    using assms(1) by (rule message_objectE)
  then show ?thesis
    using assms(2,3) by (simp add: PerlUpb_Message_ClearField_def bind_xs_Inr [of _ s] fdef_Some upb_Message_ClearFieldByDef_def)
qed

lemma SetField_scalar:
  assumes "message_object s self msg arena M" "scalar_field (defs s) f d" "SvOK v" "elem_value E f arena s v = Some x"
  shows "PerlUpb_Message_SetField E (Some self) f v s = (Inr (), put_message msg (set_base_field (defs s) f x M) s)"
    "value_of_type (fd_type d) x"
proof -
  obtain asv where g: "PerlUpb_Message_GetMsg (Some self) s = (Inr msg, s)" "PerlUpb_Message_GetArena s (Some self) = Some asv"
    "PerlUpb_Arena_Get (Some asv) s = (Inr arena, s)" "msg \<noteq> NULL" "message msg s = (Inr M, s)"
    using assms(1) by (rule message_objectE)
  have s: "arena \<noteq> NULL" "ample arena s" "0 < stack_limit s" using assms(1) by (auto simp: message_object_def)
  have d: "fdefs (defs s) f = Some d" "f \<noteq> NULL" "\<not> is_submsg d" "\<not> fd_repeated d" "\<not> fd_is_extension d"
    using assms(2) by (auto simp: scalar_field_def)
  note e = Element_value_here [OF d(1,3,2) s(1,2) assms(4)]
  have "PerlUpb_SvToUpb E v f arena s = (Inr (Some x), s)"
    using e SvToUpb_scalar [OF d(1,4,3,2) s(1) assms(3) s(3,2)] by simp
  then show "PerlUpb_Message_SetField E (Some self) f v s = (Inr (), put_message msg (set_base_field (defs s) f x M) s)"
    using g d by (simp add: PerlUpb_Message_SetField_def bind_xs_Inr [of _ s] fdef_Some upb_Message_SetFieldByDef_def bind_xs_def then_xs_def)
  show "value_of_type (fd_type d) x"
    using e convert_singular_typed [OF d(1)] by (simp add: Element_at [OF d(1,2) s(1)])
qed

lemma map_of_set_base_field:
  "map_of (um_fields (set_base_field D f x M)) g =
     (if g = f then Some x else if same_oneof D f g then None else map_of (um_fields M) g)"
proof -
  have "map_of (filter (\<lambda>(g, _). P g) kvs) g = (if P g then map_of kvs g else None)" for P kvs
    by (induction kvs) auto
  from this [of "\<lambda>g. g = f \<or> \<not> same_oneof D f g" "um_fields M"] show ?thesis by (simp add: set_base_field_def)
qed

text \<open>A oneof whose member list agrees with the field definitions.\<close>

definition oneof_members :: "upb_defs \<Rightarrow> ptr \<Rightarrow> upb_OneofDef \<Rightarrow> bool" where
  "oneof_members D p od \<longleftrightarrow> oneofdefs D p = Some od \<and> \<not> od_synthetic od \<and> p \<noteq> NULL \<and>
     (\<forall>g \<in> set (od_fields od). \<exists>e. fdefs D g = Some e \<and> fd_oneof e = p)"

lemma WhichOneof_set:
  assumes "message_object t self msg arena (set_base_field (defs t) f x M)" "scalar_field (defs t) f d"
    and "oneof_members (defs t) p od" "f \<in> set (od_fields od)"
  shows "PerlUpb_Message_WhichOneof (Some self) p t = (Inr (Some (fd_name d)), t)"
proof -
  let ?N = "set_base_field (defs t) f x M"
  obtain asv where g: "PerlUpb_Message_GetMsg (Some self) t = (Inr msg, t)" "msg \<noteq> NULL" "message msg t = (Inr ?N, t)"
    using assms(1) by (rule message_objectE)
  have d: "fdefs (defs t) f = Some d" "f \<noteq> NULL" using assms(2) by (auto simp: scalar_field_def)
  have "same_oneof (defs t) f g" if mem: "g \<in> set (od_fields od)" for g
  proof -
    have m: "p \<noteq> NULL" "\<forall>g \<in> set (od_fields od). \<exists>e. fdefs (defs t) g = Some e \<and> fd_oneof e = p"
      using assms(3) by (auto simp: oneof_members_def)
    obtain e where "fdefs (defs t) g = Some e" "fd_oneof e = p" using bspec [OF m(2) mem] by auto
    moreover have "fd_oneof d = p" using bspec [OF m(2) assms(4)] d(1) by auto
    ultimately show ?thesis using m(1) d(1) by (simp add: same_oneof_def)
  qed
  then have case_of: "\<forall>g \<in> set (od_fields od). map_of (um_fields ?N) g \<noteq> None \<longleftrightarrow> g = f"
    by (simp add: map_of_set_base_field)
  have found: "find P xs = Some f" if "f \<in> set xs" "\<forall>g \<in> set xs. P g \<longleftrightarrow> g = f" for P and xs :: "ptr list"
    using that by (induction xs) auto
  show ?thesis
    using g d assms(3) found [OF assms(4) case_of]
    by (simp add: PerlUpb_Message_WhichOneof_def bind_xs_Inr [of _ t] upb_Message_WhichOneofByDef_def oneof_members_def fdef_Some)
qed


lemma msg_boot_object: "message_object msg_boot (newRV 1) 0x3000 0x2000 \<lparr>um_fields = [], um_aux = [], um_aux_cap = None\<rparr>"
  unfolding message_object_def using msg_boot_facts(1,2) by (intro conjI exI [of _ "newRV 0"]) simp_all

lemma ex_scalars:
  "scalar_field ex_defs 0x110 (the (fdefs ex_defs 0x110))" "scalar_field ex_defs 0x160 (the (fdefs ex_defs 0x160))"
  "scalar_field ex_defs 0x170 (the (fdefs ex_defs 0x170))"
  by (simp_all add: scalar_field_def ex_defs_def ex_field_def is_submsg_def)


section \<open>Listing the present fields\<close>

text \<open>Whether a field counts as present in a message, as \<open>upb_Message_Next\<close> decides it.\<close>

definition present :: "upb_st \<Rightarrow> upb_Message \<Rightarrow> ptr \<Rightarrow> bool" where
  "present s M f \<longleftrightarrow> (\<exists>d. fdefs (defs s) f = Some d \<and> fst (field_visited f d M s) = Inr True)"

definition fields_readable :: "upb_st \<Rightarrow> upb_Message \<Rightarrow> ptr list \<Rightarrow> bool" where
  "fields_readable s M fs \<longleftrightarrow> (\<forall>f \<in> set fs. f \<noteq> NULL \<and> (\<exists>d b. fdefs (defs s) f = Some d \<and> field_visited f d M s = (Inr b, s)))"

lemma field_visited_cong:
  assumes "cache_st.more t = cache_st.more s" "field_visited f d M s = (Inr b, s)"
  shows "field_visited f d M t = (Inr b, t)"
  using assms(2) upb_frame(3,4) [OF assms(1)]
  by (auto simp: field_visited_def upb_Map_Size_def upb_Array_Size_def map_at_def array_at_def bind_xs_def
      split: if_splits upb_MessageValue.splits option.splits)

lemma fields_readable_cong:
  assumes "cache_st.more t = cache_st.more s" "fields_readable s M fs"
  shows "fields_readable t M fs" "f \<in> set fs \<Longrightarrow> present t M f = present s M f"
  using assms upb_frame(1) [OF assms(1)] field_visited_cong [OF assms(1)]
  by (fastforce simp: fields_readable_def present_def)+

lemma next_field_spec:
  assumes "fields_readable s M fs"
  obtains "next_field M i fs s = (Inr None, s)" "filter (present s M) fs = []"
  | k f v where "next_field M i fs s = (Inr (Some (f, v, Suc (i + k))), s)" "k < length fs" "f \<in> set fs"
      "filter (present s M) fs = f # filter (present s M) (drop (Suc k) fs)"
  using assms
proof (induction fs arbitrary: i thesis)
  case Nil
  then show ?case by simp
next
  case (Cons f fs)
  obtain d b where d: "fdefs (defs s) f = Some d" "field_visited f d M s = (Inr b, s)"
    using Cons.prems(3) by (auto simp: fields_readable_def)
  have rest: "fields_readable s M fs" using Cons.prems(3) by (simp add: fields_readable_def)
  have p: "present s M f = b" using d by (simp add: present_def)
  have step: "next_field M i (f # fs) s =
      (if b then (Inr (Some (f, field_value d f M, Suc i)), s) else next_field M (Suc i) fs s)"
    using d by (simp add: bind_xs_def fdef_Some)
  show ?case
  proof (cases b)
    case True
    then show ?thesis using Cons.prems(2) [of f "field_value d f M" 0] step p by simp
  next
    case False
    show ?thesis
    proof (rule Cons.IH [of "Suc i", OF _ _ rest])
      assume "next_field M (Suc i) fs s = (Inr None, s)" "filter (present s M) fs = []"
      then show ?thesis using Cons.prems(1) step p False by simp
    next
      fix k g v
      assume "next_field M (Suc i) fs s = (Inr (Some (g, v, Suc (Suc i + k))), s)" "k < length fs" "g \<in> set fs"
        "filter (present s M) fs = g # filter (present s M) (drop (Suc k) fs)"
      then show ?thesis using Cons.prems(2) [of g v "Suc k"] step p False by simp
    qed
  qed
qed

lemma fields_loop_returns:
  assumes "ready s" "mdefs (defs s) m = Some d" "messages s msg = Some M" "fields_readable s M (md_fields d)"
    and "iter \<le> length (md_fields d)" "length (md_fields d) - iter < n"
  shows "\<exists>ws t. fields_loop n msg m iter s = (Inr ws, t) \<and> length ws = length (filter (present s M) (drop iter (md_fields d)))"
  using assms
proof (induction n arbitrary: iter s)
  case (Suc n)
  let ?fs = "md_fields d"
  have rd: "fields_readable s M (drop iter ?fs)" using Suc.prems(4) by (auto simp: fields_readable_def dest: in_set_dropD)
  have m: "mdef m s = (Inr d, s)" "message msg s = (Inr M, s)" using Suc.prems(2,3) by (simp_all add: mdef_def message_def)
  show ?case
  proof (rule next_field_spec [OF rd, of iter])
    assume "next_field M iter (drop iter ?fs) s = (Inr None, s)" "filter (present s M) (drop iter ?fs) = []"
    then show ?thesis using m by (simp add: upb_Message_Next_def bind_xs_def Let_def)
  next
    fix k f v
    assume nf: "next_field M iter (drop iter ?fs) s = (Inr (Some (f, v, Suc (iter + k))), s)" "k < length (drop iter ?fs)"
      "f \<in> set (drop iter ?fs)" "filter (present s M) (drop iter ?fs) = f # filter (present s M) (drop (Suc k) (drop iter ?fs))"
    then have "f \<noteq> NULL" using rd by (auto simp: fields_readable_def)
    with Suc.prems(1) obtain w t where t: "PerlUpb_FieldDef_GetWrapper f s = (Inr w, t)" "ready t" "cache_st.more t = cache_st.more s"
      using GetWrapper_returns [of s f] unfolding PerlUpb_FieldDef_GetWrapper_def by metis
    note cong = fields_readable_cong [OF t(3) Suc.prems(4)]
    have "\<exists>ws u. fields_loop n msg m (Suc (iter + k)) t = (Inr ws, u) \<and>
        length ws = length (filter (present t M) (drop (Suc (iter + k)) ?fs))"
      using Suc.IH [of t "Suc (iter + k)"] t(2) upb_frame(1,2) [OF t(3)] Suc.prems(2,3,6) cong(1) nf(2) by auto
    moreover have "filter (present t M) (drop (Suc (iter + k)) ?fs) = filter (present s M) (drop (Suc (iter + k)) ?fs)"
      using cong(2) by (intro filter_cong) (auto dest: in_set_dropD)
    ultimately obtain ws u where "fields_loop n msg m (Suc (iter + k)) t = (Inr ws, u)"
      "length ws = length (filter (present s M) (drop (Suc (iter + k)) ?fs))" by auto
    then show ?thesis using m nf t(1) by (simp add: upb_Message_Next_def bind_xs_def Let_def add.commute)
  qed
qed simp



end
