(* ===== verification/Deep_Copy.thy ===== *)
theory Deep_Copy
  imports Message_Access Unknown_Fields
begin

text \<open>
  Deep copies: what \<open>upb_Message_DeepCopy\<close> (\<open>vendor/upb/message/copy.c\<close>) leaves behind when a
  message object is assigned to a field (\<open>convert_singular_sv_to_upb\<close> of
  \<open>xs/convert/sv_to_upb.c\<close>). A message with everything below it is a tree, \<open>content\<close>; the
  predicates \<open>msg_holds\<close>, \<open>elem_holds\<close> and \<open>field_holds\<close> say that a part of the memory holds a
  tree, with values that fit the definitions. The locale \<open>deep_cloner\<close> is the contract of the
  recursive call: from it follow the loops over elements, entries, fields and auxiliary data,
  and \<open>upb_Message_Copy\<close> keeps it from one nesting depth to the next.
\<close>

section \<open>Trees\<close>

text \<open>
  \<open>C_map\<close> has the keys and the values of a map, \<open>C_msg\<close> the fields and extensions with their
  values and the bytes of the unknown fields.
\<close>

datatype content =
    C_val upb_MessageValue
  | C_array "content list"
  | C_map "upb_MessageValue list" "content list"
  | C_msg "ptr list" "content list" "ptr list" "content list" "byte list"

text \<open>How many objects a copy allocates, and how deep messages are nested.\<close>

primrec cells :: "content \<Rightarrow> nat" where
  "cells (C_val v) = 0"
| "cells (C_array cs) = Suc (sum_list (map cells cs))"
| "cells (C_map ks cs) = Suc (sum_list (map cells cs))"
| "cells (C_msg fs fcs es ecs bs) = Suc (sum_list (map cells fcs) + sum_list (map cells ecs))"

primrec depth :: "content \<Rightarrow> nat" where
  "depth (C_val v) = 0"
| "depth (C_array cs) = fold max (map depth cs) 0"
| "depth (C_map ks cs) = fold max (map depth cs) 0"
| "depth (C_msg fs fcs es ecs bs) = Suc (fold max (map depth ecs) (fold max (map depth fcs) 0))"

lemma fold_max_le: "fold max xs k \<le> n \<longleftrightarrow> k \<le> n \<and> (\<forall>x\<in>set xs. x \<le> n)" for xs :: "nat list"
  by (induction xs arbitrary: k) auto

lemma depth_le [simp]:
  "depth (C_array cs) \<le> n \<longleftrightarrow> (\<forall>c\<in>set cs. depth c \<le> n)" "depth (C_map ks cs) \<le> n \<longleftrightarrow> (\<forall>c\<in>set cs. depth c \<le> n)"
  "depth (C_msg fs fcs es ecs bs) \<le> Suc n \<longleftrightarrow> (\<forall>c\<in>set fcs \<union> set ecs. depth c \<le> n)"
  by (auto simp: fold_max_le)

declare depth.simps(2-4) [simp del]

section \<open>Memory that holds a tree\<close>

record store =
  st_messages :: "ptr \<Rightarrow> upb_Message option"
  st_arrays :: "ptr \<Rightarrow> upb_Array option"
  st_maps :: "ptr \<Rightarrow> upb_Map option"

definition store_le :: "store \<Rightarrow> store \<Rightarrow> bool" where
  "store_le h k \<longleftrightarrow> st_messages h \<subseteq>\<^sub>m st_messages k \<and> st_arrays h \<subseteq>\<^sub>m st_arrays k \<and> st_maps h \<subseteq>\<^sub>m st_maps k"

text \<open>The objects of a state at a set of addresses.\<close>

definition cut_store :: "ptr set \<Rightarrow> upb_st \<Rightarrow> store" where
  "cut_store P s = \<lparr>st_messages = messages s |` P, st_arrays = arrays s |` P, st_maps = maps s |` P\<rparr>"

abbreviation before :: "ptr \<Rightarrow> upb_st \<Rightarrow> store" where "before a s \<equiv> cut_store {p. p < a} s"
abbreviation since :: "ptr \<Rightarrow> upb_st \<Rightarrow> store" where "since a s \<equiv> cut_store {p. a \<le> p} s"

definition scalar_val :: "upb_MessageValue \<Rightarrow> bool" where
  "scalar_val v \<longleftrightarrow> (case v of Val_msg _ \<Rightarrow> False | Val_array _ \<Rightarrow> False | Val_map _ \<Rightarrow> False | _ \<Rightarrow> True)"

inductive msg_holds :: "upb_defs \<Rightarrow> store \<Rightarrow> ptr \<Rightarrow> ptr \<Rightarrow> content \<Rightarrow> bool"
  and elem_holds :: "upb_defs \<Rightarrow> store \<Rightarrow> upb_FieldDef \<Rightarrow> upb_MessageValue \<Rightarrow> content \<Rightarrow> bool"
  and field_holds :: "upb_defs \<Rightarrow> store \<Rightarrow> upb_FieldDef \<Rightarrow> upb_MessageValue \<Rightarrow> content \<Rightarrow> bool"
  for D h where
  elem_scalar: "scalar_val v \<Longrightarrow> elem_holds D h d v (C_val v)"
| elem_msg: "msg_holds D h (fd_msg_subdef d) p c \<Longrightarrow> elem_holds D h d (Val_msg p) c"
| field_elem: "elem_holds D h d v c \<Longrightarrow> field_holds D h d v c"
| field_null: "v = Val_msg NULL \<or> v = Val_array NULL \<or> v = Val_map NULL \<Longrightarrow> field_holds D h d v (C_val v)"
| field_array: "p \<noteq> NULL \<Longrightarrow> st_arrays h p = Some A \<Longrightarrow> arr_ok A \<Longrightarrow> arr_elems A = map Some vs \<Longrightarrow>
    list_all2 (elem_holds D h d) vs cs \<Longrightarrow> field_holds D h d (Val_array p) (C_array cs)"
| field_map: "p \<noteq> NULL \<Longrightarrow> st_maps h p = Some m \<Longrightarrow>
    fdefs D (upb_MessageDef_FindFieldByNumber D (fd_msg_subdef d) 2) = Some vd \<Longrightarrow>
    map fst (map_entries m) = ks \<Longrightarrow> distinct ks \<Longrightarrow>
    list_all2 (elem_holds D h vd) (map snd (map_entries m)) cs \<Longrightarrow> field_holds D h d (Val_map p) (C_map ks cs)"
| msg: "p \<noteq> NULL \<Longrightarrow> st_messages h p = Some M \<Longrightarrow> mdefs D m = Some md \<Longrightarrow>
    distinct (md_fields md) \<Longrightarrow> (\<forall>f\<in>set (md_fields md). fdefs D f \<noteq> None) \<Longrightarrow>
    map fst (um_fields M) = fs \<Longrightarrow> distinct fs \<Longrightarrow> set fs \<subseteq> set (md_fields md) \<Longrightarrow>
    list_all2 (\<lambda>x c. \<exists>d. fdefs D (fst x) = Some d \<and> field_holds D h d (snd x) c) (um_fields M) fcs \<Longrightarrow>
    map fst (ext_entries (um_aux M)) = es \<Longrightarrow> distinct es \<Longrightarrow>
    list_all2 (\<lambda>x c. \<exists>d. fdefs D (fst x) = Some d \<and>
      (if fd_repeated d then (\<exists>cs. c = C_array cs) \<and> field_holds D h d (snd x) c else elem_holds D h d (snd x) c))
      (ext_entries (um_aux M)) ecs \<Longrightarrow>
    concat (unknown_chunks (um_aux M)) = bs \<Longrightarrow> msg_holds D h m p (C_msg fs fcs es ecs bs)"

text \<open>The value of an extension; a repeated one has an array.\<close>

abbreviation ext_holds :: "upb_defs \<Rightarrow> store \<Rightarrow> upb_FieldDef \<Rightarrow> upb_MessageValue \<Rightarrow> content \<Rightarrow> bool" where
  "ext_holds D h d v c \<equiv> (if fd_repeated d then (\<exists>cs. c = C_array cs) \<and> field_holds D h d v c else elem_holds D h d v c)"

lemmas holds_induct = msg_holds_elem_holds_field_holds.inducts

inductive_cases msg_holdsE: "msg_holds D h m p c"
inductive_cases elem_holdsE: "elem_holds D h d v c"
inductive_cases field_arrayE: "field_holds D h d v (C_array cs)"
inductive_cases field_mapE: "field_holds D h d v (C_map ks cs)"
inductive_cases field_holdsE: "field_holds D h d v c"

lemma holds_mono:
  "msg_holds D h m p c \<Longrightarrow> store_le h k \<Longrightarrow> msg_holds D k m p c"
  "elem_holds D h d v c \<Longrightarrow> store_le h k \<Longrightarrow> elem_holds D k d v c"
  "field_holds D h d v c \<Longrightarrow> store_le h k \<Longrightarrow> field_holds D k d v c"
proof (induction rule: holds_induct)
  case (field_array p A vs d cs)
  then show ?case
    by (intro msg_holds_elem_holds_field_holds.field_array [of p k A]) (auto simp: store_le_def map_le_def dom_def elim: list_all2_mono)
next
  case (field_map p m d vd ks cs)
  then show ?case
    by (intro msg_holds_elem_holds_field_holds.field_map [of p k m]) (auto simp: store_le_def map_le_def dom_def elim: list_all2_mono)
next
  case (msg p M m md fs fcs es ecs bs)
  have "st_messages k p = Some M" using msg by (auto simp: store_le_def map_le_def dom_def)
  then show ?case
    using msg by (intro msg_holds_elem_holds_field_holds.msg) (auto elim!: list_all2_mono split: if_splits)
qed (auto intro: msg_holds_elem_holds_field_holds.intros)

section \<open>Allocation\<close>

text \<open>Everything but the objects of upb and the pointer to the free memory.\<close>

definition rest_of :: "upb_st \<Rightarrow> upb_st" where
  "rest_of s = s\<lparr>messages := Map.empty, arrays := Map.empty, maps := Map.empty, next_ptr := 0, try_extend_ok := []\<rparr>"

definition empty_above :: "upb_st \<Rightarrow> bool" where
  "empty_above s \<longleftrightarrow> (\<forall>p\<ge>next_ptr s. messages s p = None \<and> arrays s p = None \<and> maps s p = None)"

definition same_below :: "ptr \<Rightarrow> upb_st \<Rightarrow> upb_st \<Rightarrow> bool" where
  "same_below a s t \<longleftrightarrow> (\<forall>p<a. messages t p = messages s p \<and> arrays t p = arrays s p \<and> maps t p = maps s p)"

text \<open>Room for \<open>k\<close> more objects.\<close>

definition room :: "nat \<Rightarrow> upb_st \<Rightarrow> bool" where
  "room k s \<longleftrightarrow> unat (next_ptr s) + 256 * k < 2 ^ 64 \<and> next_ptr s \<noteq> NULL \<and> empty_above s"

text \<open>From \<open>s\<close> to \<open>t\<close> at most \<open>k\<close> objects were allocated, and nothing below \<open>a\<close> was touched.\<close>

definition grown :: "ptr \<Rightarrow> nat \<Rightarrow> upb_st \<Rightarrow> upb_st \<Rightarrow> bool" where
  "grown a k s t \<longleftrightarrow> rest_of t = rest_of s \<and> next_ptr s \<le> next_ptr t \<and> unat (next_ptr t) \<le> unat (next_ptr s) + 256 * k \<and>
     same_below a s t \<and> empty_above t"

lemma rest_of_simps:
  "defs (rest_of u) = defs u" "heap (rest_of u) = heap u" "isa (rest_of u) = isa u" "raw_arenas (rest_of u) = raw_arenas u"
  "upb_arenas (rest_of u) = upb_arenas u" "stack_limit (rest_of u) = stack_limit u" "ample arena (rest_of u) = ample arena u"
  by (simp_all add: rest_of_def ample_def)

lemma rest_of_fields:
  assumes "rest_of t = rest_of s"
  shows "defs t = defs s" "heap t = heap s" "isa t = isa s" "raw_arenas t = raw_arenas s" "upb_arenas t = upb_arenas s"
    "stack_limit t = stack_limit s" "ample arena t = ample arena s"
  using rest_of_simps [where u = t] rest_of_simps [where u = s] unfolding assms by simp_all

lemma grown_fields: "grown a k s t \<Longrightarrow> defs t = defs s" "grown a k s t \<Longrightarrow> ample arena t = ample arena s"
  unfolding grown_def using rest_of_fields by blast+

lemma grown_refl: "empty_above s \<Longrightarrow> grown a 0 s s"
  by (simp add: grown_def same_below_def)

lemma grown_trans: "grown a k s t \<Longrightarrow> grown b j t u \<Longrightarrow> a \<le> b \<Longrightarrow> grown a (k + j) s u"
  by (fastforce simp: grown_def same_below_def)

lemma grown_weaken: "grown b k s t \<Longrightarrow> a \<le> b \<Longrightarrow> k \<le> j \<Longrightarrow> grown a j s t"
  by (fastforce simp: grown_def same_below_def)

lemma grown_room: "grown a k s t \<Longrightarrow> room (k + j) s \<Longrightarrow> room j t"
  by (auto simp: grown_def room_def)

lemma room_le: "room k s \<Longrightarrow> j \<le> k \<Longrightarrow> room j s"
  by (auto simp: room_def)

lemma grown_before: "grown b k s t \<Longrightarrow> a \<le> b \<Longrightarrow> before a t = before a s"
  by (auto simp: grown_def same_below_def cut_store_def restrict_map_def fun_eq_iff)

lemma grown_since: "grown b k s t \<Longrightarrow> next_ptr s \<le> b \<Longrightarrow> empty_above s \<Longrightarrow> store_le (since a s) (since a t)"
  by (auto simp: store_le_def map_le_def cut_store_def restrict_map_def grown_def same_below_def empty_above_def
      split: if_splits) (metis linorder_not_le option.distinct(1) order_less_le_trans)+

lemma since_le: "a \<le> b \<Longrightarrow> store_le (since b s) (since a s)"
  by (auto simp: store_le_def map_le_def cut_store_def restrict_map_def split: if_splits)

lemma next_ptr_step:
  assumes "room (Suc k) s"
  shows "unat (next_ptr s + 256) = unat (next_ptr s) + 256" "next_ptr s < next_ptr s + 256" "next_ptr s + 256 \<noteq> NULL"
proof -
  have "unat (next_ptr s) + unat (256 :: ptr) < 2 ^ LENGTH(64)" using assms by (simp add: room_def)
  then have "unat (next_ptr s + 256) = unat (next_ptr s) + unat (256 :: ptr)" by (rule unat_add_lem [THEN iffD1])
  then show *: "unat (next_ptr s + 256) = unat (next_ptr s) + 256" by simp
  then show "next_ptr s < next_ptr s + 256" by (simp add: word_less_nat_alt)
  from * show "next_ptr s + 256 \<noteq> NULL" by (metis add_gr_0 less_numeral_extra(3) unat_0 zero_less_numeral)
qed

lemma put_map_apply: "maps s p = Some m \<Longrightarrow> map_at p s = (Inr (map_entries m), s)"
  by (simp add: map_at_def)

lemma rest_of_put [simp]:
  "rest_of (put_message p M s) = rest_of s" "rest_of (put_array p A s) = rest_of s" "rest_of (put_map p kvs s) = rest_of s"
  by (simp_all add: rest_of_def put_message_def put_array_def put_map_def)

lemma next_ptr_put [simp]: "next_ptr (put_map p kvs s) = next_ptr s" "next_ptr (put_array p A s) = next_ptr s"
  by (simp_all add: put_map_def put_array_def)

lemma put_map_parts [simp]:
  "maps (put_map p kvs s) = (maps s)(p \<mapsto> \<lparr>map_entries = kvs\<rparr>)" "messages (put_map p kvs s) = messages s"
  "arrays (put_map p kvs s) = arrays s" "defs (put_map p kvs s) = defs s"
  by (simp_all add: put_map_def)

lemma grown_put:
  assumes "grown a k s t" "a \<le> p" "p < next_ptr t"
  shows "grown a k s (put_message p M t)" "grown a k s (put_array p A t)" "grown a k s (put_map p kvs t)"
  using assms by (auto simp: grown_def same_below_def empty_above_def)

lemma since_put:
  assumes "p < a"
  shows "since a (put_message p M s) = since a s" "since a (put_array p A s) = since a s" "since a (put_map p kvs s) = since a s"
  using assms by (auto simp: cut_store_def restrict_map_def fun_eq_iff)

lemma grown_step:
  assumes "room (Suc k) s"
  shows "grown (next_ptr s + 256) 1 s (s\<lparr>next_ptr := next_ptr s + 256\<rparr>)"
proof -
  note n = next_ptr_step [OF assms]
  have "empty_above (s\<lparr>next_ptr := next_ptr s + 256\<rparr>)"
    using assms n(2) by (auto simp: room_def empty_above_def)
  moreover have "rest_of (s\<lparr>next_ptr := next_ptr s + 256\<rparr>) = rest_of s" by (simp add: rest_of_def)
  ultimately show ?thesis using n by (simp add: grown_def same_below_def)
qed

text \<open>The three kinds of objects are allocated alike; \<open>after_new s\<close> is the state without the object.\<close>

abbreviation after_new :: "upb_st \<Rightarrow> upb_st" where
  "after_new s \<equiv> s\<lparr>next_ptr := next_ptr s + 256\<rparr>"

lemma grown_new:
  assumes "room (Suc k) s"
  shows "grown (next_ptr s) 1 s (put_message (next_ptr s) M (after_new s))"
    "grown (next_ptr s) 1 s (put_array (next_ptr s) A (after_new s))"
    "grown (next_ptr s) 1 s (put_map (next_ptr s) kvs (after_new s))"
proof -
  have "grown (next_ptr s) 1 s (after_new s)"
    using grown_step [OF assms] next_ptr_step(2) [OF assms] by (auto intro: grown_weaken)
  then show "grown (next_ptr s) 1 s (put_message (next_ptr s) M (after_new s))"
    "grown (next_ptr s) 1 s (put_array (next_ptr s) A (after_new s))"
    "grown (next_ptr s) 1 s (put_map (next_ptr s) kvs (after_new s))"
    using next_ptr_step(2) [OF assms] by (auto intro!: grown_put)
qed

lemma New_eq:
  assumes "ample arena s"
  shows "upb_Message_New arena s = (Inr (next_ptr s),
      put_message (next_ptr s) \<lparr>um_fields = [], um_aux = [], um_aux_cap = None\<rparr> (after_new s))"
    "upb_Map_New arena s = (Inr (next_ptr s), put_map (next_ptr s) [] (after_new s))"
  using assms by (simp_all add: upb_Message_New_def upb_Map_New_def bind_xs_def then_xs_def arena_malloc_ample fresh_ptr_def
      put_message_def put_map_def)

text \<open>From \<open>s\<close> to \<open>t\<close> only \<open>dst\<close> was written of what was there, and at most \<open>k\<close> objects were allocated.\<close>

definition grown_at :: "ptr \<Rightarrow> nat \<Rightarrow> upb_st \<Rightarrow> upb_st \<Rightarrow> bool" where
  "grown_at dst k s t \<longleftrightarrow> rest_of t = rest_of s \<and> next_ptr s \<le> next_ptr t \<and> unat (next_ptr t) \<le> unat (next_ptr s) + 256 * k \<and>
     (\<forall>p<next_ptr s. p \<noteq> dst \<longrightarrow> messages t p = messages s p \<and> arrays t p = arrays s p \<and> maps t p = maps s p) \<and> empty_above t"

lemma grown_at_refl: "empty_above s \<Longrightarrow> grown_at dst 0 s s"
  by (simp add: grown_at_def)

lemma grown_at_trans: "grown_at dst k s t \<Longrightarrow> grown_at dst j t u \<Longrightarrow> grown_at dst (k + j) s u"
  by (fastforce simp: grown_at_def)

lemma grown_at_of: "grown (next_ptr s) k s t \<Longrightarrow> grown_at dst k s t"
  by (simp add: grown_at_def grown_def same_below_def)

lemma grown_at_put: "grown_at dst k s t \<Longrightarrow> dst < next_ptr t \<Longrightarrow> grown_at dst k s (put_message dst M t)"
  by (auto simp: grown_at_def empty_above_def)

lemma grown_at_grown: "grown_at dst k s t \<Longrightarrow> dst \<le> next_ptr s \<Longrightarrow> grown dst k s t"
  by (auto simp: grown_at_def grown_def same_below_def)

lemma grown_at_since: "grown_at dst k s t \<Longrightarrow> dst < b \<Longrightarrow> empty_above s \<Longrightarrow> store_le (since b s) (since b t)"
  by (auto simp: store_le_def map_le_def cut_store_def restrict_map_def grown_at_def empty_above_def split: if_splits)
    (metis leD linorder_not_le option.distinct(1))+

section \<open>Loops\<close>

lemma kv_store_same: "map_of kvs k = Some v \<Longrightarrow> kv_store k v kvs = kvs"
  by (induction kvs) (auto split: if_splits)

lemma kv_store_keys: "map_of kvs k \<noteq> None \<Longrightarrow> map fst (kv_store k v kvs) = map fst kvs"
  by (induction kvs) (auto split: if_splits)

lemma put_message_same: "messages s p = Some M \<Longrightarrow> put_message p M s = s"
  by (simp add: put_message_def fun_upd_idem)

lemma kv_store_new: "k \<notin> fst ` set kvs \<Longrightarrow> kv_store k v kvs = kvs @ [(k, v)]"
  by (induction kvs) auto

lemma all_xs_inv:
  assumes "\<And>i u. i < length xs \<Longrightarrow> I i u \<Longrightarrow> \<exists>v. f (xs ! i) u = (Inr True, v) \<and> I (Suc i) v" "I 0 s"
  shows "\<exists>t. all_xs f xs s = (Inr True, t) \<and> I (length xs) t"
  using assms
proof (induction xs arbitrary: I s)
  case (Cons x xs)
  obtain u where u: "f x s = (Inr True, u)" "I 1 u" using Cons.prems(1) [of 0 s] Cons.prems(2) by auto
  have "\<exists>t. all_xs f xs u = (Inr True, t) \<and> I (Suc (length xs)) t"
    using Cons.prems(1) [of "Suc i" for i] u(2) by (intro Cons.IH [of "\<lambda>i. I (Suc i)"]) auto
  then show ?case using u(1) by (simp add: bind_xs_def)
qed simp

text \<open>A new extension is entered with \<open>z\<close>, and overwritten in place.\<close>

lemma CreateExtension_ample:
  assumes "messages u dst = Some M" "find_ext e (um_aux M) = None" "ample arena u" "arena \<noteq> NULL"
  shows "\<exists>cap. upb_Message_GetOrCreateExtension dst e z arena u =
    (Inr True, put_message dst (M\<lparr>um_aux_cap := cap, um_aux := um_aux M @ [Aux_ext e z]\<rparr>) u)"
proof -
  obtain cap where "upb_Message_ReserveSlot dst arena u = (Inr True, put_message dst (M\<lparr>um_aux_cap := cap\<rparr>) u)"
    using assms(1,3) by (rule ReserveSlot_ample)
  moreover have "ample arena (put_message dst K u)" for K using assms(3) by (simp add: ample_def)
  ultimately show ?thesis
    using assms by (auto simp: upb_Message_GetOrCreateExtension_def upb_Message_SetExtension_def bind_xs_def then_xs_def
        message_def arena_malloc_ample)
qed

lemma set_ext_last: "find_ext e aux = None \<Longrightarrow> set_ext e v (aux @ [Aux_ext e z]) = aux @ [Aux_ext e v]"
proof (induction aux)
  case (Cons x aux)
  then show ?case by (cases x) (auto simp: find_ext_entries split: if_splits)
qed simp

lemma ext_entries_nth:
  assumes "j < length aux" "aux ! j = Aux_ext e v"
  shows "length (ext_entries (take j aux)) < length (ext_entries aux)" "ext_entries aux ! length (ext_entries (take j aux)) = (e, v)"
    "distinct (map fst (ext_entries aux)) \<Longrightarrow> e \<notin> fst ` set (ext_entries (take j aux))"
proof -
  have "ext_entries aux = ext_entries (take j aux) @ (e, v) # ext_entries (drop (Suc j) aux)"
    using arg_cong [OF id_take_nth_drop [OF assms(1)], of ext_entries] assms(2) by simp
  then show "length (ext_entries (take j aux)) < length (ext_entries aux)" "ext_entries aux ! length (ext_entries (take j aux)) = (e, v)"
    "distinct (map fst (ext_entries aux)) \<Longrightarrow> e \<notin> fst ` set (ext_entries (take j aux))"
    by simp_all
qed

lemma ext_entries_one: "length (ext_entries [x]) = (if is_ext_entry x then 1 else 0)"
  by (cases x) (simp_all add: is_ext_entry_def)

text \<open>\<open>_upb_Message_Copy\<close> over its recursive call, and that call at a depth of \<open>n\<close>.\<close>

definition copy_with :: "(ptr \<Rightarrow> ptr \<Rightarrow> (upb_st, ptr) xs) \<Rightarrow> ptr \<Rightarrow> ptr \<Rightarrow> ptr \<Rightarrow> ptr \<Rightarrow> (upb_st, bool) xs" where
  "copy_with clone arena dst src m =
     bind_xs (message src) (\<lambda>S. bind_xs (message dst) (\<lambda>M.
     then_xs (store_message dst (M\<lparr>um_fields := um_fields S\<rparr>))
     (bind_xs (mdef m) (\<lambda>d.
      bind_xs (all_xs (copy_field clone arena dst S) (md_fields d)) (\<lambda>ok.
      if \<not> ok then ret False else all_xs (copy_aux clone arena dst) (um_aux S))))))"

definition message_clone :: "nat \<Rightarrow> ptr \<Rightarrow> ptr \<Rightarrow> ptr \<Rightarrow> (upb_st, ptr) xs" where
  "message_clone n arena p m = bind_xs (upb_Message_New arena) (\<lambda>q.
     bind_xs (upb_Message_Copy n arena q p m) (\<lambda>ok. ret (if ok then q else NULL)))"

lemma Copy_with: "upb_Message_Copy (Suc n) arena dst src m = copy_with (message_clone n arena) arena dst src m"
  unfolding copy_with_def message_clone_def by (simp add: Let_def)

section \<open>The recursive call and the loops around it\<close>

text \<open>Ready for a copy of at most \<open>k\<close> objects of a source that lies below \<open>a\<close>.\<close>

definition can_copy :: "ptr \<Rightarrow> upb_defs \<Rightarrow> ptr \<Rightarrow> nat \<Rightarrow> upb_st \<Rightarrow> bool" where
  "can_copy arena D a k s \<longleftrightarrow> arena \<noteq> NULL \<and> defs s = D \<and> ample arena s \<and> a \<le> next_ptr s \<and> room k s"

lemma can_copy_grown: "can_copy arena D a (k + j) s \<Longrightarrow> grown b k s t \<Longrightarrow> can_copy arena D a j t"
  using grown_fields [of b k s t] grown_room [of b k s t j] by (auto simp: can_copy_def grown_def)

lemma can_copy_le: "can_copy arena D a k s \<Longrightarrow> j \<le> k \<Longrightarrow> can_copy arena D a j s"
  by (auto simp: can_copy_def room_le)

lemma can_copy_put [simp]:
  assumes "p < next_ptr s"
  shows "can_copy arena D a k (put_message p M s) = can_copy arena D a k s"
    "can_copy arena D a k (put_array p A s) = can_copy arena D a k s" "can_copy arena D a k (put_map p kvs s) = can_copy arena D a k s"
  using assms by (auto simp: can_copy_def room_def ample_def empty_above_def put_map_def)

lemma sum_take_Suc: "i < length cs \<Longrightarrow> sum_list (map cells (take (Suc i) cs)) = sum_list (map cells (take i cs)) + cells (cs ! i)"
  by (simp add: take_Suc_conv_app_nth)

lemma sum_take_le: "sum_list (map cells (take i cs)) \<le> sum_list (map cells cs)"
  by (metis append_take_drop_id le_add1 map_append sum_list_append)

text \<open>What the copy of one field costs: nothing, when the field is not set.\<close>

definition cost :: "ptr list \<Rightarrow> content list \<Rightarrow> ptr \<Rightarrow> nat" where
  "cost fs cs f = (case map_of (zip fs cs) f of None \<Rightarrow> 0 | Some c \<Rightarrow> cells c)"

lemma cost_total:
  assumes "distinct gs" "distinct fs" "set fs \<subseteq> set gs" "length fs = length cs"
  shows "sum_list (map (cost fs cs) gs) = sum_list (map cells cs)"
proof -
  have "sum_list (map (cost fs cs) gs) = (\<Sum>f\<in>set gs. cost fs cs f)" using assms(1) by (simp add: sum_list_distinct_conv_sum_set)
  also have "\<dots> = (\<Sum>f\<in>set fs. cost fs cs f)"
    using assms(3,4) by (intro sum.mono_neutral_right) (auto simp: cost_def split: option.splits dest: map_of_SomeD set_zip_leftD)
  also have "\<dots> = sum_list (map (cost fs cs) fs)" using assms(2) by (simp add: sum_list_distinct_conv_sum_set)
  also have "map (cost fs cs) fs = map cells cs"
    using assms(2,4) by (intro nth_equalityI) (simp_all add: cost_def map_of_zip_nth)
  finally show ?thesis .
qed

text \<open>
  The fields: \<open>M\<close> has the same fields as \<open>S\<close>, those of \<open>F\<close> with a copy of their content behind \<open>b\<close>
  and the others as they are in \<open>S\<close>.
\<close>

definition fields_copied :: "upb_defs \<Rightarrow> ptr \<Rightarrow> upb_st \<Rightarrow> upb_Message \<Rightarrow> content list \<Rightarrow> ptr set \<Rightarrow> upb_Message \<Rightarrow> bool" where
  "fields_copied D b u S fcs F M \<longleftrightarrow> map fst (um_fields M) = map fst (um_fields S) \<and>
     (\<forall>f c. f \<in> F \<longrightarrow> map_of (zip (map fst (um_fields S)) fcs) f = Some c \<longrightarrow>
       (\<exists>d w. fdefs D f = Some d \<and> map_of (um_fields M) f = Some w \<and> field_holds D (since b u) d w c)) \<and>
     (\<forall>f. f \<notin> F \<longrightarrow> map_of (um_fields M) f = map_of (um_fields S) f)"

text \<open>
  An object was allocated at the free memory of \<open>s\<close>, and the first \<open>j\<close> of its elements have been
  copied behind it, to \<open>ws\<close>.
\<close>

definition copied :: "upb_defs \<Rightarrow> upb_FieldDef \<Rightarrow> upb_st \<Rightarrow> content list \<Rightarrow> nat \<Rightarrow> upb_MessageValue list \<Rightarrow> upb_st \<Rightarrow> bool" where
  "copied D d s cs j ws u \<longleftrightarrow> grown (next_ptr s) (Suc (sum_list (map cells (take j cs)))) s u \<and> next_ptr s + 256 \<le> next_ptr u \<and>
     list_all2 (elem_holds D (since (next_ptr s + 256) u) d) ws (take j cs)"

lemma copied_after: "copied D d s cs j ws u \<Longrightarrow> room (Suc k) s \<Longrightarrow> next_ptr s < next_ptr u"
  using next_ptr_step(2) [of k s] by (auto simp: copied_def)

lemma copied_put:
  assumes "copied D d s cs j ws u" "room (Suc k) s"
  shows "copied D d s cs j ws (put_array (next_ptr s) A u)" "copied D d s cs j ws (put_map (next_ptr s) kvs u)"
  using assms(1) grown_put(2,3) [OF _ order_refl copied_after [OF assms]] since_put(2,3) [OF next_ptr_step(2) [OF assms(2)]]
  by (simp_all add: copied_def)

lemma copied_all:
  assumes "copied D d s cs (length cs) ws t" "room (Suc k) s"
  shows "grown (next_ptr s) (Suc (sum_list (map cells cs))) s t" "list_all2 (elem_holds D (since (next_ptr s) t) d) ws cs"
  using assms(1) since_le [of "next_ptr s" "next_ptr s + 256" t] next_ptr_step(2) [OF assms(2)]
  by (auto simp: copied_def elim!: list_all2_mono intro: holds_mono(2))

lemma fields_copied_all:
  assumes "fields_copied D b u S fcs F M" "set (map fst (um_fields S)) \<subseteq> F" "distinct (map fst (um_fields S))" "length fcs = length (um_fields S)"
  shows "list_all2 (\<lambda>x c. \<exists>d. fdefs D (fst x) = Some d \<and> field_holds D (since b u) d (snd x) c) (um_fields M) fcs"
proof (rule list_all2_all_nthI)
  let ?ks = "map fst (um_fields S)"
  have ks: "map fst (um_fields M) = ?ks" using assms(1) by (simp add: fields_copied_def)
  then show len: "length (um_fields M) = length fcs" using assms(4) by (metis length_map)
  fix i
  assume i: "i < length (um_fields M)"
  then have k: "?ks ! i = fst (um_fields M ! i)" "i < length ?ks" by (simp_all flip: ks)
  then have "?ks ! i \<in> F" using assms(2) nth_mem by blast
  moreover have "map_of (zip ?ks fcs) (?ks ! i) = Some (fcs ! i)" using assms(3,4) k(2) by (intro map_of_zip_nth) simp_all
  ultimately obtain d w where "fdefs D (?ks ! i) = Some d" "map_of (um_fields M) (?ks ! i) = Some w" "field_holds D (since b u) d w (fcs ! i)"
    using assms(1) unfolding fields_copied_def by blast
  moreover have "map_of (um_fields M) (fst (um_fields M ! i)) = Some (snd (um_fields M ! i))"
    using i assms(3) ks by (intro map_of_is_SomeI) simp_all
  ultimately show "\<exists>d. fdefs D (fst (um_fields M ! i)) = Some d \<and> field_holds D (since b u) d (snd (um_fields M ! i)) (fcs ! i)"
    using k(1) by auto
qed

text \<open>The first \<open>j\<close> entries of \<open>aux\<close> have been copied to the message at \<open>dst\<close>, their values behind \<open>b\<close>.\<close>

definition auxs_copied ::
    "upb_defs \<Rightarrow> ptr \<Rightarrow> ptr \<Rightarrow> upb_st \<Rightarrow> aux_entry list \<Rightarrow> content list \<Rightarrow> (ptr \<times> upb_MessageValue) list \<Rightarrow> nat \<Rightarrow> upb_st \<Rightarrow> bool" where
  "auxs_copied D dst b s aux ecs F j u \<longleftrightarrow>
     (\<exists>M. grown_at dst (sum_list (map cells (take (length (ext_entries (take j aux))) ecs))) s u \<and> messages u dst = Some M \<and>
       um_fields M = F \<and> concat (unknown_chunks (um_aux M)) = concat (unknown_chunks (take j aux)) \<and>
       map fst (ext_entries (um_aux M)) = map fst (ext_entries (take j aux)) \<and>
       list_all2 (\<lambda>x c. \<exists>d. fdefs D (fst x) = Some d \<and> ext_holds D (since b u) d (snd x) c) (ext_entries (um_aux M))
         (take (length (ext_entries (take j aux))) ecs))"

locale deep_cloner =
  fixes arena :: ptr
    and D :: upb_defs
    and n :: nat
    and clone :: "ptr \<Rightarrow> ptr \<Rightarrow> (upb_st, ptr) xs"
  assumes clone_ok: "msg_holds D (before a s) m p c \<Longrightarrow> depth c \<le> n \<Longrightarrow> can_copy arena D a (cells c) s \<Longrightarrow>
    \<exists>t. clone p m s = (Inr (next_ptr s), t) \<and> grown (next_ptr s) (cells c) s t \<and> msg_holds D (since (next_ptr s) t) m (next_ptr s) c"
begin

lemma clone_value:
  assumes "elem_holds D (before a s) d v c" "depth c \<le> n" "can_copy arena D a (cells c) s"
  shows "\<exists>w t. upb_Clone_MessageValue clone arena d v s = (Inr (Some w), t) \<and> grown (next_ptr s) (cells c) s t \<and>
    elem_holds D (since (next_ptr s) t) d w c"
  using assms(1)
proof (cases rule: elem_holds.cases)
  case elem_scalar
  have "arena_malloc arena s = (Inr True, s)" "empty_above s"
    using assms(3) arena_malloc_ample by (auto simp: can_copy_def room_def)
  then have "upb_Clone_MessageValue clone arena d v s = (Inr (Some v), s)"
    using elem_scalar by (cases v) (simp_all add: upb_Clone_MessageValue_def bind_xs_def scalar_val_def)
  then show ?thesis
    using elem_scalar \<open>empty_above s\<close> msg_holds_elem_holds_field_holds.elem_scalar by (auto intro!: exI grown_refl)
next
  case (elem_msg p)
  have "p \<noteq> NULL" "next_ptr s \<noteq> NULL" using elem_msg(2) assms(3) by (auto elim: msg_holdsE simp: can_copy_def room_def)
  then show ?thesis
    using clone_ok [OF elem_msg(2) assms(2,3)] elem_msg(1) msg_holds_elem_holds_field_holds.elem_msg
    by (auto simp: upb_Clone_MessageValue_def bind_xs_def)
qed

text \<open>One more element, behind those that have been copied to \<open>since b\<close>.\<close>

lemma clone_next:
  assumes "grown q k s u" "b \<le> next_ptr u" "a \<le> q" "list_all2 (elem_holds D (since b u) d) ws cs"
    and "elem_holds D (before a s) d v c" "depth c \<le> n" "can_copy arena D a (k + cells c) s" "q \<le> next_ptr s"
  shows "\<exists>w t. upb_Clone_MessageValue clone arena d v u = (Inr (Some w), t) \<and> grown (next_ptr u) (cells c) u t \<and>
    grown q (k + cells c) s t \<and> b \<le> next_ptr t \<and> list_all2 (elem_holds D (since b t) d) (ws @ [w]) (cs @ [c])"
proof -
  have "elem_holds D (before a u) d v c" using assms(5) grown_before [OF assms(1,3)] by simp
  moreover have u: "can_copy arena D a (cells c) u" by (rule can_copy_grown [OF assms(7,1)])
  ultimately obtain w t where t: "upb_Clone_MessageValue clone arena d v u = (Inr (Some w), t)" "grown (next_ptr u) (cells c) u t"
    "elem_holds D (since (next_ptr u) t) d w c"
    using clone_value assms(6) by blast
  have le: "next_ptr s \<le> next_ptr u" "next_ptr u \<le> next_ptr t" using assms(1) t(2) by (simp_all add: grown_def)
  have "store_le (since b u) (since b t)"
    using t(2) u by (intro grown_since) (auto simp: can_copy_def room_def)
  then have "list_all2 (elem_holds D (since b t) d) ws cs"
    using assms(4) by (auto elim: list_all2_mono intro: holds_mono(2))
  moreover have "elem_holds D (since b t) d w c"
    using t(3) since_le [OF assms(2)] by (rule holds_mono(2))
  moreover have "grown q (k + cells c) s t" using grown_trans [OF assms(1) t(2)] le(1) assms(8) by simp
  ultimately show ?thesis using t(1,2) assms(2) le(2) by (auto intro!: exI list_all2_appendI)
qed

text \<open>The same, for the object that is allocated first and whose elements \<open>cs\<close> are copied in order.\<close>

lemma clone_nth:
  assumes "copied D d s cs j ws u" "j < length cs" "elem_holds D (before a s) d v (cs ! j)" "\<forall>c\<in>set cs. depth c \<le> n"
    and "can_copy arena D a (Suc (sum_list (map cells cs))) s"
  shows "\<exists>w t. upb_Clone_MessageValue clone arena d v u = (Inr (Some w), t) \<and> grown (next_ptr u) (cells (cs ! j)) u t \<and>
    copied D d s cs (Suc j) (ws @ [w]) t"
proof -
  have "can_copy arena D a (Suc (sum_list (map cells (take j cs))) + cells (cs ! j)) s"
    using sum_take_le [of "Suc j" cs] sum_take_Suc [OF assms(2)] by (intro can_copy_le [OF assms(5)]) simp
  moreover have "a \<le> next_ptr s" using assms(5) by (simp add: can_copy_def)
  moreover have "depth (cs ! j) \<le> n" using assms(2,4) by simp
  ultimately show ?thesis
    using clone_next [of "next_ptr s" _ s u "next_ptr s + 256" a d ws "take j cs" v "cs ! j"] assms(1,3) sum_take_Suc [OF assms(2)]
    unfolding copied_def take_Suc_conv_app_nth [OF assms(2)] by fastforce
qed

lemma array_step:
  assumes u: "copied D d s cs j ws u" "arrays u (next_ptr s) = Some B" "arr_ok B" "arr_size B = length cs" "take j (arr_elems B) = map Some ws"
    and p: "arrays s p = Some A" "p < a" "arr_ok A" "arr_size A = length cs" "arr_elems A ! j = Some v"
    and j: "j < length cs" "elem_holds D (before a s) d v (cs ! j)" "\<forall>c\<in>set cs. depth c \<le> n"
    and s: "can_copy arena D a (Suc (sum_list (map cells cs))) s"
  shows "\<exists>w t. bind_xs (upb_Array_Get p j) (\<lambda>v. bind_xs (upb_Clone_MessageValue clone arena d v) (\<lambda>w.
      case w of None \<Rightarrow> ret False | Some w \<Rightarrow> then_xs (upb_Array_Set (next_ptr s) j w) (ret True))) u = (Inr True, t) \<and>
    copied D d s cs (Suc j) (ws @ [w]) t \<and> arrays t (next_ptr s) = Some (arr_set j w B) \<and>
    take (Suc j) (arr_elems (arr_set j w B)) = map Some (ws @ [w])"
proof -
  let ?q = "next_ptr s"
  have r: "room (Suc (sum_list (map cells cs))) s" "a \<le> ?q" using s by (auto simp: can_copy_def)
  obtain w t where t: "upb_Clone_MessageValue clone arena d v u = (Inr (Some w), t)" "grown (next_ptr u) (cells (cs ! j)) u t"
    "copied D d s cs (Suc j) (ws @ [w]) t"
    using clone_nth [OF u(1) j s] by blast
  have "arrays u p = Some A" using u(1) p(1,2) r(2) by (auto simp: copied_def grown_def same_below_def)
  then have "upb_Array_Get p j u = (Inr v, u)" using Array_Get_eq [of u p A j v] p(3-5) j(1) by simp
  moreover have "arrays t ?q = Some B" using t(2) u(2) copied_after [OF u(1) r(1)] by (auto simp: grown_def same_below_def)
  moreover have "take (Suc j) (arr_elems (arr_set j w B)) = map Some (ws @ [w])"
    using upb_seq.elems_put [OF u(3), of j w] u(5) arr_size_elems [OF u(3)] u(4) j(1) by (simp add: take_Suc_conv_app_nth)
  ultimately show ?thesis
    using t(1) j(1) u(4) copied_put(1) [OF t(3) r(1)]
    by (intro exI [of _ w] exI [of _ "put_array ?q (arr_set j w B) t"]) (simp add: bind_xs_def then_xs_def Array_Set_eq)
qed

lemma clone_array:
  assumes "field_holds D (before a s) d (Val_array p) (C_array cs)" "\<forall>c\<in>set cs. depth c \<le> n" "can_copy arena D a (cells (C_array cs)) s"
  shows "\<exists>t. upb_Array_DeepClone clone arena d p s = (Inr (next_ptr s), t) \<and> grown (next_ptr s) (cells (C_array cs)) s t \<and>
    field_holds D (since (next_ptr s) t) d (Val_array (next_ptr s)) (C_array cs)"
proof -
  obtain A vs where A: "st_arrays (before a s) p = Some A" "arr_ok A" "arr_elems A = map Some vs" "list_all2 (elem_holds D (before a s) d) vs cs"
    using assms(1) by (auto elim!: field_arrayE elim: elem_holds.cases msg_holds.cases)
  then have p: "p < a" "arrays s p = Some A" by (auto simp: cut_store_def restrict_map_def split: if_splits)
  have N: "arr_size A = length cs" "length vs = length cs"
    using arr_size_elems [OF A(2)] A(3,4) by (auto dest: list_all2_lengthD)
  let ?q = "next_ptr s" and ?B = "\<lparr>arr_ctype = upb_FieldType_CType (fd_type d), arr_data = replicate 4 None, arr_size = 0\<rparr>"
  let ?s2 = "put_array ?q (arr_resize (length cs) ?B) (after_new s)"
  have c: "ample arena s" "room (Suc (sum_list (map cells cs))) s" "?q \<noteq> NULL"
    using assms(3) by (auto simp: can_copy_def room_def)
  have okB: "arr_ok ?B" by (simp add: arr_ok_def)
  define body where "body = (\<lambda>i. bind_xs (upb_Array_Get p i) (\<lambda>v. bind_xs (upb_Clone_MessageValue clone arena d v) (\<lambda>w.
      case w of None \<Rightarrow> ret False | Some w \<Rightarrow> then_xs (upb_Array_Set ?q i w) (ret True))))"
  define I where "I = (\<lambda>j u. \<exists>B ws. copied D d s cs j ws u \<and> arrays u ?q = Some B \<and>
      arr_ok B \<and> arr_size B = length cs \<and> take j (arr_elems B) = map Some ws)"
  have "\<exists>v. body ([0..<length cs] ! j) u = (Inr True, v) \<and> I (Suc j) v" if j: "j < length [0..<length cs]" and I: "I j u" for j u
  proof -
    have j': "j < length cs" "elem_holds D (before a s) d (vs ! j) (cs ! j)" "arr_elems A ! j = Some (vs ! j)"
      using j A(3,4) N by (simp_all add: list_all2_conv_all_nth)
    from I obtain B ws where B: "copied D d s cs j ws u" "arrays u ?q = Some B" "arr_ok B" "arr_size B = length cs" "take j (arr_elems B) = map Some ws"
      unfolding I_def by blast
    then obtain w t where "body j u = (Inr True, t)" "copied D d s cs (Suc j) (ws @ [w]) t" "arrays t ?q = Some (arr_set j w B)"
      "take (Suc j) (arr_elems (arr_set j w B)) = map Some (ws @ [w])"
      using array_step [OF B p(2,1) A(2) N(1) j'(3,1,2) assms(2)] assms(3) unfolding body_def by auto
    moreover have "arr_ok (arr_set j w B)" "arr_size (arr_set j w B) = length cs" using B(3,4) j'(1) upb_seq.ok_put by (auto simp: arr_set_def)
    ultimately show ?thesis using j' unfolding I_def by auto
  qed
  moreover have "I 0 ?s2"
    unfolding I_def copied_def using grown_new(2) [OF c(2)] upb_seq.ok_resize [OF okB] by (auto simp: arr_resize_facts)
  ultimately obtain t where t: "all_xs body [0..<length cs] ?s2 = (Inr True, t)" "I (length cs) t"
    using all_xs_inv [of "[0..<length cs]" I body ?s2] by auto
  then obtain B ws where B: "copied D d s cs (length cs) ws t" "arrays t ?q = Some B" "arr_ok B" "arr_elems B = map Some ws"
    unfolding I_def by (auto simp: arr_size_elems)
  have "upb_Array_DeepClone clone arena d p s = (Inr ?q, t)"
    using p(2) N(1) c t(1) Array_New_eq [OF c(1,3)] unfolding upb_Array_DeepClone_def body_def
    by (simp add: bind_xs_def Array_Size_eq ResizeUninitialized_eq ample_def)
  moreover have "field_holds D (since ?q t) d (Val_array ?q) (C_array cs)"
    using B c(3) copied_all [OF B(1) c(2)] by (intro field_array [of ?q _ B ws]) (simp_all add: cut_store_def)
  ultimately show ?thesis using copied_all(1) [OF B(1) c(2)] by simp
qed

lemma map_step:
  assumes u: "copied D vd s cs j ws u" "maps u (next_ptr s) = Some \<lparr>map_entries = zip (take j ks) ws\<rparr>" "distinct ks" "length ks = length cs"
    and j: "j < length cs" "elem_holds D (before a s) vd v (cs ! j)" "\<forall>c\<in>set cs. depth c \<le> n"
    and s: "can_copy arena D a (Suc (sum_list (map cells cs))) s"
  shows "\<exists>w t. bind_xs (upb_Clone_MessageValue clone arena vd v) (\<lambda>w.
      case w of None \<Rightarrow> ret False | Some w \<Rightarrow> upb_Map_Set (next_ptr s) (ks ! j) w arena) u = (Inr True, t) \<and>
    copied D vd s cs (Suc j) (ws @ [w]) t \<and> maps t (next_ptr s) = Some \<lparr>map_entries = zip (take (Suc j) ks) (ws @ [w])\<rparr>"
proof -
  let ?q = "next_ptr s"
  have r: "room (Suc (sum_list (map cells cs))) s" "ample arena s" using s by (auto simp: can_copy_def)
  have len: "length ws = j" using u(1) j(1) by (auto simp: copied_def dest: list_all2_lengthD)
  obtain w t where t: "upb_Clone_MessageValue clone arena vd v u = (Inr (Some w), t)" "grown (next_ptr u) (cells (cs ! j)) u t"
    "copied D vd s cs (Suc j) (ws @ [w]) t"
    using clone_nth [OF u(1) j s] by blast
  have "maps t ?q = Some \<lparr>map_entries = zip (take j ks) ws\<rparr>" using t(2) u(2) copied_after [OF u(1) r(1)] by (auto simp: grown_def same_below_def)
  moreover have "ample arena t" using t(3) r(2) grown_fields(2) unfolding copied_def by blast
  moreover have "kv_store (ks ! j) w (zip (take j ks) ws) = zip (take (Suc j) ks) (ws @ [w])"
  proof -
    have "ks ! j \<notin> set (take j ks)" using u(3,4) j(1) by (auto simp: in_set_conv_nth distinct_conv_nth)
    then have "ks ! j \<notin> fst ` set (zip (take j ks) ws)" by (auto dest: set_zip_leftD)
    then show ?thesis using j(1) u(4) len by (simp add: kv_store_new take_Suc_conv_app_nth)
  qed
  ultimately show ?thesis
    using t(1) copied_put(2) [OF t(3) r(1)]
    by (intro exI [of _ w] exI [of _ "put_map ?q (zip (take (Suc j) ks) (ws @ [w])) t"])
      (simp add: bind_xs_def then_xs_def upb_Map_Set_def map_at_def arena_malloc_ample store_map_def)
qed

lemma clone_map:
  assumes "field_holds D (before a s) d (Val_map p) (C_map ks cs)" "\<forall>c\<in>set cs. depth c \<le> n" "can_copy arena D a (cells (C_map ks cs)) s"
  shows "\<exists>t. upb_Map_DeepClone clone arena d p s = (Inr (next_ptr s), t) \<and> grown (next_ptr s) (cells (C_map ks cs)) s t \<and>
    field_holds D (since (next_ptr s) t) d (Val_map (next_ptr s)) (C_map ks cs)"
proof -
  obtain m vd where m: "st_maps (before a s) p = Some m" "fdefs D (upb_MessageDef_FindFieldByNumber D (fd_msg_subdef d) 2) = Some vd"
    "map fst (map_entries m) = ks" "distinct ks" "list_all2 (elem_holds D (before a s) vd) (map snd (map_entries m)) cs"
    using assms(1) by (auto elim!: field_mapE elim: elem_holds.cases msg_holds.cases)
  then have p: "p < a" "maps s p = Some m" by (auto simp: cut_store_def restrict_map_def split: if_splits)
  let ?kvs = "map_entries m" and ?q = "next_ptr s"
  let ?s1 = "put_map ?q [] (after_new s)"
  have N: "length ks = length cs" "length ?kvs = length cs" using m(3,5) by (auto dest: list_all2_lengthD)
  have c: "defs s = D" "ample arena s" "a \<le> ?q" "room (Suc (sum_list (map cells cs))) s" "?q \<noteq> NULL"
    using assms(3) by (auto simp: can_copy_def room_def)
  define body where "body = (\<lambda>(k, v). bind_xs (upb_Clone_MessageValue clone arena vd v) (\<lambda>w.
      case w of None \<Rightarrow> ret False | Some w \<Rightarrow> upb_Map_Set ?q k w arena))"
  define I where "I = (\<lambda>j u. \<exists>ws. copied D vd s cs j ws u \<and> maps u ?q = Some \<lparr>map_entries = zip (take j ks) ws\<rparr>)"
  have "\<exists>v. body (?kvs ! j) u = (Inr True, v) \<and> I (Suc j) v" if j: "j < length ?kvs" and I: "I j u" for j u
  proof -
    have kv: "?kvs ! j = (ks ! j, snd (?kvs ! j))" using j m(3) by (auto simp: prod_eq_iff)
    have "elem_holds D (before a s) vd (snd (?kvs ! j)) (cs ! j)" using m(5) j by (simp add: list_all2_conv_all_nth)
    moreover from I obtain ws where "copied D vd s cs j ws u" "maps u ?q = Some \<lparr>map_entries = zip (take j ks) ws\<rparr>" unfolding I_def by blast
    ultimately have "\<exists>t. body (ks ! j, snd (?kvs ! j)) u = (Inr True, t) \<and> I (Suc j) t"
      unfolding I_def body_def prod.case
      using map_step [OF _ _ m(4) N(1) _ _ assms(2)] assms(3) j N(2) by (metis cells.simps(3))
    then show ?thesis by (subst kv)
  qed
  moreover have "I 0 ?s1"
    unfolding I_def copied_def using grown_new(3) [OF c(4)] by auto
  ultimately obtain t where t: "all_xs body ?kvs ?s1 = (Inr True, t)" "I (length ?kvs) t"
    using all_xs_inv [of "?kvs" I body ?s1] by auto
  then obtain ws where w: "copied D vd s cs (length cs) ws t" "maps t ?q = Some \<lparr>map_entries = zip ks ws\<rparr>"
    unfolding I_def using N by auto
  note all = copied_all [OF w(1) c(4)]
  have "p \<noteq> ?q" using p(1) c(3) by auto
  then have "upb_Map_DeepClone clone arena d p s = (Inr ?q, t)"
    using p(2) c m(2) t(1) New_eq(2) [OF c(2)] unfolding upb_Map_DeepClone_def body_def
    by (simp add: bind_xs_def map_at_def)
  moreover have "field_holds D (since ?q t) d (Val_map ?q) (C_map ks cs)"
    using w(2) m(2,4) c(5) N all(2) list_all2_lengthD [OF all(2)]
    by (intro field_map [of ?q _ "\<lparr>map_entries = zip ks ws\<rparr>"]) (simp_all add: cut_store_def)
  ultimately show ?thesis using all(1) by simp
qed

subsection \<open>One field\<close>

lemma copy_one_field:
  assumes "messages u dst = Some M" "dst < next_ptr u" "fdefs D f = Some d" "map_of (um_fields S) f = Some v" "map_of (um_fields M) f = Some v"
    and "field_holds D (before a u) d v c" "depth c \<le> n" "can_copy arena D a (cells c) u"
  shows "\<exists>w t. copy_field clone arena dst S f u = (Inr True, put_message dst (M\<lparr>um_fields := kv_store f w (um_fields M)\<rparr>) t) \<and>
    grown (next_ptr u) (cells c) u t \<and> field_holds D (since (next_ptr u) t) d w c \<and> messages t dst = Some M"
proof -
  have u: "defs u = D" "ample arena u" "next_ptr u \<noteq> NULL" "empty_above u" using assms(8) by (auto simp: can_copy_def room_def)
  note eval = copy_field_def bind_xs_def then_xs_def fdef_def message_def Let_def arena_malloc_ample [OF u(2)]
  have dst: "messages t dst = Some M" if "grown (next_ptr u) k u t" for k t
    using that assms(1,2) by (auto simp: grown_def same_below_def)
  have same: ?thesis if "copy_field clone arena dst S f u = (Inr True, u)" "c = C_val v" "field_holds D (since (next_ptr u) u) d v c"
    using that assms(1,5) u(4) by (intro exI [of _ v] exI [of _ u]) (simp add: kv_store_same put_message_same grown_refl)
  show ?thesis
    using assms(6)
  proof (cases rule: field_holds.cases)
    case field_elem
    then show ?thesis
    proof (cases rule: elem_holds.cases)
      case elem_scalar
      then show ?thesis
        using assms(3,4) u(1) by (intro same) (cases v; simp add: eval scalar_val_def msg_holds_elem_holds_field_holds.intros)+
    next
      case (elem_msg p)
      have "p \<noteq> NULL" using elem_msg(2) by (auto elim: msg_holdsE)
      moreover obtain t where t: "clone p (fd_msg_subdef d) u = (Inr (next_ptr u), t)" "grown (next_ptr u) (cells c) u t"
        "msg_holds D (since (next_ptr u) t) (fd_msg_subdef d) (next_ptr u) c"
        using clone_ok [OF elem_msg(2) assms(7,8)] by blast
      ultimately have "copy_field clone arena dst S f u =
          (Inr True, put_message dst (M\<lparr>um_fields := kv_store f (Val_msg (next_ptr u)) (um_fields M)\<rparr>) t)"
        using elem_msg(1) assms(3,4) u(1,3) dst [OF t(2)] by (simp add: eval)
      then show ?thesis using t dst [OF t(2)] msg_holds_elem_holds_field_holds.intros by blast
    qed
  next
    case field_null
    then show ?thesis
      using assms(3,4) u(1) by (intro same) (auto simp add: eval msg_holds_elem_holds_field_holds.field_null)
  next
    case (field_array p A vs cs)
    obtain t where t: "upb_Array_DeepClone clone arena d p u = (Inr (next_ptr u), t)" "grown (next_ptr u) (cells c) u t"
      "field_holds D (since (next_ptr u) t) d (Val_array (next_ptr u)) c"
      using clone_array [of a u d p cs] assms(6-8) field_array(1,2) by auto
    then have "copy_field clone arena dst S f u =
        (Inr True, put_message dst (M\<lparr>um_fields := kv_store f (Val_array (next_ptr u)) (um_fields M)\<rparr>) t)"
      using field_array(1,3) assms(3,4) u(1) dst [OF t(2)] by (simp add: eval)
    then show ?thesis using t dst [OF t(2)] by blast
  next
    case (field_map p m vd ks cs)
    obtain t where t: "upb_Map_DeepClone clone arena d p u = (Inr (next_ptr u), t)" "grown (next_ptr u) (cells c) u t"
      "field_holds D (since (next_ptr u) t) d (Val_map (next_ptr u)) c"
      using clone_map [of a u d p ks cs] assms(6-8) field_map(1,2) by auto
    then have "copy_field clone arena dst S f u =
        (Inr True, put_message dst (M\<lparr>um_fields := kv_store f (Val_map (next_ptr u)) (um_fields M)\<rparr>) t)"
      using field_map(1,3) assms(3,4) u(1,3) dst [OF t(2)] by (simp add: eval)
    then show ?thesis using t dst [OF t(2)] by blast
  qed
qed

lemma fields_copied_step:
  assumes M: "fields_copied D b u S fcs F M" and u: "messages u dst = Some M" "dst < b" "b \<le> next_ptr u"
    and f: "f \<notin> F" "fdefs D f \<noteq> None" "length fcs = length (um_fields S)" "distinct (map fst (um_fields S))"
    and holds: "list_all2 (\<lambda>x c. \<exists>d. fdefs D (fst x) = Some d \<and> field_holds D (before a u) d (snd x) c) (um_fields S) fcs"
    and n: "\<forall>c\<in>set fcs. depth c \<le> n" "can_copy arena D a (cost (map fst (um_fields S)) fcs f) u"
  shows "\<exists>M' t. copy_field clone arena dst S f u = (Inr True, t) \<and> grown_at dst (cost (map fst (um_fields S)) fcs f) u t \<and>
    messages t dst = Some M' \<and> um_aux M' = um_aux M \<and> fields_copied D b t S fcs (insert f F) M'"
proof (cases "map_of (zip (map fst (um_fields S)) fcs) f")
  case None
  then have "f \<notin> set (map fst (um_fields S))" using f(3) map_of_zip_is_None [of "map fst (um_fields S)" fcs f] by simp
  then have "map_of (um_fields S) f = None" by (simp add: map_of_eq_None_iff)
  moreover have "defs u = D" "empty_above u" using n(2) by (simp_all add: can_copy_def room_def)
  ultimately have "copy_field clone arena dst S f u = (Inr True, u)" "grown_at dst 0 u u"
    using f(2) by (auto simp: copy_field_def bind_xs_def fdef_def Let_def grown_at_refl)
  moreover have "fields_copied D b u S fcs (insert f F) M"
    using M None by (auto simp: fields_copied_def)
  ultimately show ?thesis using u(1) None by (auto simp: cost_def)
next
  case (Some c)
  then obtain i where i: "i < length (um_fields S)" "fst (um_fields S ! i) = f" "fcs ! i = c"
    using f(3) by (auto dest!: map_of_SomeD simp: set_zip)
  then obtain d where d: "fdefs D f = Some d" "field_holds D (before a u) d (snd (um_fields S ! i)) c"
    using holds by (auto simp: list_all2_conv_all_nth)
  have S: "map_of (um_fields S) f = Some (snd (um_fields S ! i))"
    using i f(4) nth_mem [OF i(1)] by (intro map_of_is_SomeI) auto
  then have M': "map_of (um_fields M) f = Some (snd (um_fields S ! i))" using M f(1) by (simp add: fields_copied_def)
  have c: "depth c \<le> n" "can_copy arena D a (cells c) u" using n i f(3) Some by (auto simp: cost_def)
  have e: "empty_above u" using n(2) by (simp add: can_copy_def room_def)
  have dst: "dst < next_ptr u" using u(2,3) by simp
  obtain w t where t: "copy_field clone arena dst S f u = (Inr True, put_message dst (M\<lparr>um_fields := kv_store f w (um_fields M)\<rparr>) t)"
    "grown (next_ptr u) (cells c) u t" "field_holds D (since (next_ptr u) t) d w c" "messages t dst = Some M"
    using copy_one_field [OF u(1) dst d(1) S M' d(2) c] by blast
  let ?M = "M\<lparr>um_fields := kv_store f w (um_fields M)\<rparr>" and ?t = "put_message dst (M\<lparr>um_fields := kv_store f w (um_fields M)\<rparr>) t"
  have g: "grown_at dst (cells c) u ?t"
    using grown_at_of [OF t(2)] t(2) dst by (intro grown_at_put) (auto simp: grown_def)
  have "field_holds D (since b ?t) d w c"
    using holds_mono(3) [OF t(3) since_le [OF u(3)]] since_put(1) [OF u(2)] by simp
  moreover have le: "store_le (since b u) (since b ?t)" by (rule grown_at_since [OF g u(2) e])
  ultimately have "fields_copied D b ?t S fcs (insert f F) ?M"
    using M M' Some d(1) kv_store_keys [of "um_fields M" f w] holds_mono(3) [OF _ le]
    by (auto simp: fields_copied_def) blast+
  then show ?thesis using t(1) g Some by (auto simp: cost_def)
qed

lemma copy_fields:
  assumes s: "messages s dst = Some M" "dst < next_ptr s" "a \<le> dst" "um_fields M = um_fields S"
    and fs: "distinct gs" "\<forall>f\<in>set gs. fdefs D f \<noteq> None" "distinct (map fst (um_fields S))" "set (map fst (um_fields S)) \<subseteq> set gs"
    and holds: "list_all2 (\<lambda>x c. \<exists>d. fdefs D (fst x) = Some d \<and> field_holds D (before a s) d (snd x) c) (um_fields S) fcs"
    and n: "\<forall>c\<in>set fcs. depth c \<le> n" "can_copy arena D a (sum_list (map cells fcs)) s"
  shows "\<exists>M' t. all_xs (copy_field clone arena dst S) gs s = (Inr True, t) \<and> grown_at dst (sum_list (map cells fcs)) s t \<and>
    messages t dst = Some M' \<and> um_aux M' = um_aux M \<and> fields_copied D (next_ptr s) t S fcs (set gs) M'"
proof -
  let ?ks = "map fst (um_fields S)" and ?b = "next_ptr s"
  have len: "length fcs = length (um_fields S)" using holds by (auto dest: list_all2_lengthD)
  have total: "sum_list (map (cost ?ks fcs) gs) = sum_list (map cells fcs)" using cost_total fs len by simp
  define K where "K = (\<lambda>j. sum_list (map (cost ?ks fcs) (take j gs)))"
  define I where "I = (\<lambda>j u. \<exists>M'. grown_at dst (K j) s u \<and> messages u dst = Some M' \<and> um_aux M' = um_aux M \<and>
      fields_copied D ?b u S fcs (set (take j gs)) M')"
  have "\<exists>t. copy_field clone arena dst S (gs ! j) u = (Inr True, t) \<and> I (Suc j) t" if j: "j < length gs" and I: "I j u" for j u
  proof -
    from I obtain M1 where u: "grown_at dst (K j) s u" "messages u dst = Some M1" "um_aux M1 = um_aux M"
      "fields_copied D ?b u S fcs (set (take j gs)) M1"
      unfolding I_def by blast
    have K: "K (Suc j) = K j + cost ?ks fcs (gs ! j)" using j by (simp add: K_def take_Suc_conv_app_nth)
    have "K (Suc j) + sum_list (map (cost ?ks fcs) (drop (Suc j) gs)) = sum_list (map cells fcs)"
      unfolding K_def total [symmetric] by (simp flip: map_append sum_list_append)
    then have "can_copy arena D a (K j + cost ?ks fcs (gs ! j)) s" using K by (intro can_copy_le [OF n(2)]) simp
    moreover have g: "grown dst (K j) s u" using grown_at_grown [OF u(1)] s(2) by simp
    ultimately have room: "can_copy arena D a (cost ?ks fcs (gs ! j)) u" by (rule can_copy_grown)
    have j': "gs ! j \<notin> set (take j gs)" using fs(1) j by (auto simp: in_set_conv_nth distinct_conv_nth)
    have d: "fdefs D (gs ! j) \<noteq> None" using fs(2) j by simp
    have b: "?b \<le> next_ptr u" using u(1) by (simp add: grown_at_def)
    have "list_all2 (\<lambda>x c. \<exists>d. fdefs D (fst x) = Some d \<and> field_holds D (before a u) d (snd x) c) (um_fields S) fcs"
      using holds grown_before [OF g s(3)] by simp
    then obtain M' t where t: "copy_field clone arena dst S (gs ! j) u = (Inr True, t)" "grown_at dst (cost ?ks fcs (gs ! j)) u t"
      "messages t dst = Some M'" "um_aux M' = um_aux M1" "fields_copied D ?b t S fcs (insert (gs ! j) (set (take j gs))) M'"
      using fields_copied_step [OF u(4,2) s(2) b j' d len fs(3) _ n(1) room] by blast
    have "I (Suc j) t"
      unfolding I_def using grown_at_trans [OF u(1) t(2)] t(3-5) u(3) K j by (auto simp: take_Suc_conv_app_nth)
    then show ?thesis using t(1) by blast
  qed
  moreover have "I 0 s"
    unfolding I_def K_def using s(1,4) n(2) by (auto simp: grown_at_refl fields_copied_def can_copy_def room_def)
  ultimately obtain t where "all_xs (copy_field clone arena dst S) gs s = (Inr True, t)" "I (length gs) t"
    using all_xs_inv [of gs I "copy_field clone arena dst S" s] by auto
  then show ?thesis unfolding I_def K_def using total by auto
qed

subsection \<open>Auxiliary data\<close>

lemma copy_extension:
  assumes u: "messages u dst = Some M" "dst < next_ptr u" "a \<le> dst" "find_ext e (um_aux M) = None"
    and d: "fdefs D e = Some d" "ext_holds D (before a u) d v c" "depth c \<le> n" "can_copy arena D a (cells c) u"
  shows "\<exists>w M' t. copy_aux clone arena dst (Aux_ext e v) u = (Inr True, t) \<and> grown_at dst (cells c) u t \<and> messages t dst = Some M' \<and>
    um_fields M' = um_fields M \<and> um_aux M' = um_aux M @ [Aux_ext e w] \<and> ext_holds D (since (next_ptr u) t) d w c"
proof -
  have c: "defs u = D" "ample arena u" "arena \<noteq> NULL" "empty_above u" "next_ptr u \<noteq> NULL" using d(4) by (auto simp: can_copy_def room_def)
  define z where "z = (if fd_repeated d then Val_array NULL else upb_MessageValue_Zero (upb_FieldType_CType (fd_type d)))"
  obtain cap where cap: "upb_Message_GetOrCreateExtension dst e z arena u =
      (Inr True, put_message dst (M\<lparr>um_aux_cap := cap, um_aux := um_aux M @ [Aux_ext e z]\<rparr>) u)"
    using CreateExtension_ample [OF u(1,4) c(2,3)] by blast
  let ?M = "\<lambda>w. M\<lparr>um_aux_cap := cap, um_aux := um_aux M @ [Aux_ext e w]\<rparr>"
  have at: "grown_at dst 0 u (put_message dst K u)" for K using grown_at_put [OF grown_at_refl [OF c(4)] u(2)] .
  have before: "before a (put_message dst K u) = before a u" for K
    using grown_before [OF grown_at_grown [OF at] u(3)] u(2) by simp
  have fin: ?thesis if t: "copy_aux clone arena dst (Aux_ext e v) u = (Inr True, put_message dst (?M w) t)"
      "grown (next_ptr u) (cells c) (put_message dst K u) t" "ext_holds D (since (next_ptr u) t) d w c" for w t K
  proof -
    have "grown_at dst (cells c) u t"
      using grown_at_trans [OF at grown_at_of] t(2) by fastforce
    then have "grown_at dst (cells c) u (put_message dst (?M w) t)"
      using u(2) by (intro grown_at_put) (auto simp: grown_at_def)
    then show ?thesis using t(1,3) since_put(1) [OF u(2)] by (intro exI conjI) (assumption | simp)+
  qed
  show ?thesis
  proof (cases "fd_repeated d")
    case False
    let ?u = "put_message dst (?M v) u"
    obtain w t where t: "upb_Clone_MessageValue clone arena d v ?u = (Inr (Some w), t)" "grown (next_ptr u) (cells c) ?u t"
      "elem_holds D (since (next_ptr u) t) d w c"
      using clone_value [of a ?u d v c] d False before u(2) by auto
    have "messages t dst = Some (?M v)" using t(2) u(2) by (auto simp: grown_def same_below_def)
    then have "copy_aux clone arena dst (Aux_ext e v) u = (Inr True, put_message dst (?M w) t)"
      using cap False c(1) d(1) t(1) set_ext_last [OF u(4)]
      by (simp add: copy_aux_def Let_def bind_xs_def then_xs_def fdef_def message_def z_def)
    then show ?thesis using t(2,3) False by (intro fin) auto
  next
    case True
    then obtain cs where cs: "c = C_array cs" "field_holds D (before a u) d v (C_array cs)" using d(2) by auto
    then obtain p where p: "v = Val_array p" "p \<noteq> NULL" by (auto elim!: field_arrayE elim: elem_holds.cases msg_holds.cases)
    let ?u = "put_message dst (?M z) u"
    obtain t where t: "upb_Array_DeepClone clone arena d p ?u = (Inr (next_ptr u), t)" "grown (next_ptr u) (cells c) ?u t"
      "field_holds D (since (next_ptr u) t) d (Val_array (next_ptr u)) c"
      using clone_array [of a ?u d p cs] d(3,4) cs p before u(2) by auto
    have "messages t dst = Some (?M z)" using t(2) u(2) by (auto simp: grown_def same_below_def)
    then have "copy_aux clone arena dst (Aux_ext e v) u = (Inr True, put_message dst (?M (Val_array (next_ptr u))) t)"
      using cap True c(1,5) d(1) t(1) p set_ext_last [OF u(4)]
      by (simp add: copy_aux_def Let_def bind_xs_def then_xs_def fdef_def message_def z_def)
    then show ?thesis using t(2,3) True cs(1) by (intro fin) auto
  qed
qed

lemma copy_one_aux:
  assumes u: "messages u dst = Some M" "dst < b" "b \<le> next_ptr u" "a \<le> dst" "can_copy arena D a k u"
    and ext: "\<And>e v. x = Aux_ext e v \<Longrightarrow> find_ext e (um_aux M) = None \<and> depth c \<le> n \<and> cells c \<le> k \<and>
      (\<exists>d. fdefs D e = Some d \<and> ext_holds D (before a u) d v c)"
  shows "\<exists>M' t ws. copy_aux clone arena dst x u = (Inr True, t) \<and> grown_at dst (if is_ext_entry x then cells c else 0) u t \<and>
    messages t dst = Some M' \<and> um_fields M' = um_fields M \<and>
    concat (unknown_chunks (um_aux M')) = concat (unknown_chunks (um_aux M)) @ concat (unknown_chunks [x]) \<and>
    ext_entries (um_aux M') = ext_entries (um_aux M) @ ws \<and> map fst ws = map fst (ext_entries [x]) \<and>
    list_all2 (\<lambda>x c. \<exists>d. fdefs D (fst x) = Some d \<and> ext_holds D (since b t) d (snd x) c) ws (if is_ext_entry x then [c] else [])"
proof (cases x)
  case Aux_null
  have "empty_above u" using u(5) by (simp add: can_copy_def room_def)
  then show ?thesis using u(1) Aux_null by (simp add: copy_aux_def is_ext_entry_def grown_at_refl)
next
  case (Aux_unknown al data)
  have "ample arena u" "empty_above u" using u(5) by (simp_all add: can_copy_def room_def)
  then obtain t M' where t: "upb_Message_AddUnknown_Copy dst data arena u = (Inr True, t)" "only_messages u t"
    "messages t = (messages u)(dst \<mapsto> M')" "um_fields M' = um_fields M"
    "concat (unknown_chunks (um_aux M')) = concat (unknown_chunks (um_aux M)) @ data" "ext_entries (um_aux M') = ext_entries (um_aux M)"
    using AddUnknown_entries [OF u(1)] by blast
  then obtain ms os where "t = u\<lparr>messages := ms, try_extend_ok := os\<rparr>" by (auto simp: only_messages_def)
  then have "grown_at dst 0 u t"
    using t(3) u(2,3) \<open>empty_above u\<close> by (auto simp: grown_at_def empty_above_def rest_of_def)
  then show ?thesis using t Aux_unknown by (auto simp: copy_aux_def is_ext_entry_def)
next
  case (Aux_ext e v)
  then obtain d where d: "find_ext e (um_aux M) = None" "depth c \<le> n" "can_copy arena D a (cells c) u" "fdefs D e = Some d"
    "ext_holds D (before a u) d v c"
    using ext can_copy_le [OF u(5)] by blast
  obtain w M' t where t: "copy_aux clone arena dst (Aux_ext e v) u = (Inr True, t)" "grown_at dst (cells c) u t" "messages t dst = Some M'"
    "um_fields M' = um_fields M" "um_aux M' = um_aux M @ [Aux_ext e w]" "ext_holds D (since (next_ptr u) t) d w c"
    using copy_extension [OF u(1) less_le_trans [OF u(2,3)] u(4) d(1,4,5,2,3)] by blast
  have "ext_holds D (since b t) d w c" using t(6) holds_mono(2,3) since_le [OF u(3)] by (auto split: if_splits)
  then show ?thesis
    using t d(4) Aux_ext by (intro exI [of _ M'] exI [of _ t] exI [of _ "[(e, w)]"]) (simp add: is_ext_entry_def)
qed

lemma auxs_copied_step:
  assumes s: "dst < next_ptr s" "a \<le> dst" "b \<le> next_ptr s" "dst < b"
    and es: "distinct (map fst (ext_entries aux))"
    and holds: "list_all2 (\<lambda>x c. \<exists>d. fdefs D (fst x) = Some d \<and> ext_holds D (before a s) d (snd x) c) (ext_entries aux) ecs"
    and n: "\<forall>c\<in>set ecs. depth c \<le> n" "can_copy arena D a (sum_list (map cells ecs)) s"
    and j: "j < length aux" and I: "auxs_copied D dst b s aux ecs F j u"
  shows "\<exists>t. copy_aux clone arena dst (aux ! j) u = (Inr True, t) \<and> auxs_copied D dst b s aux ecs F (Suc j) t"
proof -
  let ?H = "\<lambda>u x c. \<exists>d. fdefs D (fst x) = Some d \<and> ext_holds D (since b u) d (snd x) c"
  let ?k = "\<lambda>j. length (ext_entries (take j aux))"
  let ?K = "\<lambda>j. sum_list (map cells (take (?k j) ecs))"
  from I obtain M1 where u: "grown_at dst (?K j) s u" "messages u dst = Some M1" "um_fields M1 = F"
    "concat (unknown_chunks (um_aux M1)) = concat (unknown_chunks (take j aux))"
    "map fst (ext_entries (um_aux M1)) = map fst (ext_entries (take j aux))" "list_all2 (?H u) (ext_entries (um_aux M1)) (take (?k j) ecs)"
    unfolding auxs_copied_def by blast
  let ?x = "aux ! j" and ?c = "ecs ! ?k j"
  have tk: "take (Suc j) aux = take j aux @ [?x]" using j by (simp add: take_Suc_conv_app_nth)
  have kj: "?k j < length ecs" if "is_ext_entry ?x"
    using that ext_entries_nth(1) [OF j] list_all2_lengthD [OF holds] by (cases ?x) (auto simp: is_ext_entry_def)
  have tS: "take (?k (Suc j)) ecs = take (?k j) ecs @ (if is_ext_entry ?x then [?c] else [])"
    using kj by (simp add: tk ext_entries_one take_Suc_conv_app_nth)
  have g: "grown dst (?K j) s u" using grown_at_grown [OF u(1)] s(1) by simp
  have sum: "?K (Suc j) = ?K j + (if is_ext_entry ?x then cells ?c else 0)" by (simp add: tS)
  then have "can_copy arena D a (?K j + (if is_ext_entry ?x then cells ?c else 0)) s"
    using sum_take_le [of "?k (Suc j)" ecs] by (intro can_copy_le [OF n(2)]) simp
  then have room: "can_copy arena D a (if is_ext_entry ?x then cells ?c else 0) u" using g by (rule can_copy_grown)
  have b: "b \<le> next_ptr u" using u(1) s(3) by (auto simp: grown_at_def)
  have "find_ext e (um_aux M1) = None \<and> depth ?c \<le> n \<and> cells ?c \<le> (if is_ext_entry ?x then cells ?c else 0) \<and>
      (\<exists>d. fdefs D e = Some d \<and> ext_holds D (before a u) d v ?c)" if x: "?x = Aux_ext e v" for e v
  proof -
    have "e \<notin> set (map fst (ext_entries (um_aux M1)))" unfolding u(5) using ext_entries_nth(3) [OF j x es] by simp
    then have "find_ext e (um_aux M1) = None" by (simp add: find_ext_entries map_of_eq_None_iff)
    moreover have "is_ext_entry ?x" using x by (simp add: is_ext_entry_def)
    moreover have "\<exists>d. fdefs D e = Some d \<and> ext_holds D (before a u) d v ?c"
      using list_all2_nthD [OF holds ext_entries_nth(1) [OF j x]]
      by (simp only: ext_entries_nth(2) [OF j x] grown_before [OF g s(2)] prod.sel)
    ultimately show ?thesis using n(1) kj by simp
  qed
  then obtain M' t ws where t: "copy_aux clone arena dst ?x u = (Inr True, t)" "grown_at dst (if is_ext_entry ?x then cells ?c else 0) u t"
    "messages t dst = Some M'" "um_fields M' = um_fields M1"
    "concat (unknown_chunks (um_aux M')) = concat (unknown_chunks (um_aux M1)) @ concat (unknown_chunks [?x])"
    "ext_entries (um_aux M') = ext_entries (um_aux M1) @ ws" "map fst ws = map fst (ext_entries [?x])"
    "list_all2 (?H t) ws (if is_ext_entry ?x then [?c] else [])"
    using copy_one_aux [OF u(2) s(4) b s(2) room, of ?x ?c] by blast
  have "store_le (since b u) (since b t)" using room by (intro grown_at_since [OF t(2) s(4)]) (simp add: can_copy_def room_def)
  then have "?H u x c \<Longrightarrow> ?H t x c" for x c by (auto split: if_splits intro: holds_mono(2,3))
  then have "list_all2 (?H t) (ext_entries (um_aux M1)) (take (?k j) ecs)" by (rule list_all2_mono [OF u(6)])
  then have "list_all2 (?H t) (ext_entries (um_aux M')) (take (?k (Suc j)) ecs)" unfolding tS t(6) by (rule list_all2_appendI) (rule t(8))
  moreover have "grown_at dst (?K (Suc j)) s t" using grown_at_trans [OF u(1) t(2)] sum by simp
  ultimately have "auxs_copied D dst b s aux ecs F (Suc j) t"
    unfolding auxs_copied_def using t(3-7) u(3-5) by (intro exI [of _ M'] conjI) (assumption | simp add: tk)+
  then show ?thesis using t(1) by blast
qed

lemma copy_auxs:
  assumes s: "messages s dst = Some M" "dst < next_ptr s" "a \<le> dst" "um_aux M = []" "b \<le> next_ptr s" "dst < b"
    and es: "distinct (map fst (ext_entries aux))"
    and holds: "list_all2 (\<lambda>x c. \<exists>d. fdefs D (fst x) = Some d \<and> ext_holds D (before a s) d (snd x) c) (ext_entries aux) ecs"
    and n: "\<forall>c\<in>set ecs. depth c \<le> n" "can_copy arena D a (sum_list (map cells ecs)) s"
  shows "\<exists>M' t. all_xs (copy_aux clone arena dst) aux s = (Inr True, t) \<and> grown_at dst (sum_list (map cells ecs)) s t \<and>
    messages t dst = Some M' \<and> um_fields M' = um_fields M \<and> concat (unknown_chunks (um_aux M')) = concat (unknown_chunks aux) \<and>
    map fst (ext_entries (um_aux M')) = map fst (ext_entries aux) \<and>
    list_all2 (\<lambda>x c. \<exists>d. fdefs D (fst x) = Some d \<and> ext_holds D (since b t) d (snd x) c) (ext_entries (um_aux M')) ecs"
proof -
  let ?I = "auxs_copied D dst b s aux ecs (um_fields M)"
  have "?I 0 s" using s(1,4) n(2) by (auto simp: auxs_copied_def grown_at_refl can_copy_def room_def)
  then obtain t where "all_xs (copy_aux clone arena dst) aux s = (Inr True, t)" "?I (length aux) t"
    using all_xs_inv [of aux ?I "copy_aux clone arena dst" s] auxs_copied_step [OF s(2,3,5,6) es holds n] by blast
  then show ?thesis unfolding auxs_copied_def using list_all2_lengthD [OF holds] by auto
qed

subsection \<open>The message\<close>

text \<open>The body of \<open>upb_Message_Copy\<close>, into a message without auxiliary data.\<close>

lemma copy_body:
  assumes c: "msg_holds D (before a s) m src c" "depth c \<le> Suc n" "can_copy arena D a (cells c - 1) s"
    and dst: "messages s dst = Some M" "um_aux M = []" "dst < next_ptr s" "a \<le> dst" "dst \<noteq> NULL"
  shows "\<exists>t. copy_with clone arena dst src m s = (Inr True, t) \<and> grown_at dst (cells c - 1) s t \<and> msg_holds D (since dst t) m dst c"
  using c(1)
proof (cases rule: msg_holds.cases)
  case (msg S md fs fcs es ecs bs)
  let ?M = "M\<lparr>um_fields := um_fields S\<rparr>" and ?b = "next_ptr s"
  let ?s = "put_message dst ?M s" and ?kf = "sum_list (map cells fcs)" and ?ke = "sum_list (map cells ecs)"
  have k: "cells c - 1 = ?kf + ?ke" using msg(1) by simp
  have e: "empty_above s" "defs s = D" using c(3) by (auto simp: can_copy_def room_def)
  have S: "messages s src = Some S" "src \<noteq> dst" using msg(3) dst(4) by (auto simp: cut_store_def restrict_map_def split: if_splits)
  have at: "grown_at dst 0 s ?s" by (rule grown_at_put [OF grown_at_refl [OF e(1)] dst(3)])
  have before: "before a ?s = before a s" using grown_before [OF grown_at_grown [OF at] dst(4)] dst(3) by simp
  have d: "\<forall>c\<in>set fcs. depth c \<le> n" "\<forall>c\<in>set ecs. depth c \<le> n" using c(2) msg(1) by auto
  have cc: "can_copy arena D a (?kf + ?ke) ?s" using c(3) dst(3) k by simp
  obtain M1 u where u: "all_xs (copy_field clone arena dst S) (md_fields md) ?s = (Inr True, u)" "grown_at dst ?kf ?s u"
    "messages u dst = Some M1" "um_aux M1 = []" "fields_copied D ?b u S fcs (set (md_fields md)) M1"
    using copy_fields [of ?s dst ?M a S "md_fields md" fcs] dst(2-4) msg(5-10) before d(1) can_copy_le [OF cc] by auto
  have g: "grown dst ?kf ?s u" using grown_at_grown [OF u(2)] dst(3) by simp
  have bu: "?b \<le> next_ptr u" "dst < next_ptr u" using u(2) dst(3) by (auto simp: grown_at_def)
  have cu: "can_copy arena D a ?ke u" by (rule can_copy_grown [OF cc g])
  have exts: "list_all2 (\<lambda>x c. \<exists>d. fdefs D (fst x) = Some d \<and> ext_holds D (before a u) d (snd x) c) (ext_entries (um_aux S)) ecs"
    unfolding grown_before [OF g dst(4)] before by (rule msg(13))
  obtain M2 t where t: "all_xs (copy_aux clone arena dst) (um_aux S) u = (Inr True, t)" "grown_at dst ?ke u t"
    "messages t dst = Some M2" "um_fields M2 = um_fields M1" "concat (unknown_chunks (um_aux M2)) = bs"
    "map fst (ext_entries (um_aux M2)) = es"
    "list_all2 (\<lambda>x c. \<exists>d. fdefs D (fst x) = Some d \<and> ext_holds D (since ?b t) d (snd x) c) (ext_entries (um_aux M2)) ecs"
    using copy_auxs [OF u(3) bu(2) dst(4) u(4) bu(1) dst(3) _ exts d(2) cu] msg(11,12,14) by auto
  have le: "store_le (since ?b t) (since dst t)" using dst(3) by (intro since_le) simp
  have "store_le (since ?b u) (since ?b t)" (is "store_le ?h _")
    using cu by (intro grown_at_since [OF t(2) dst(3)]) (simp add: can_copy_def room_def)
  then have to: "field_holds D ?h d w c \<Longrightarrow> field_holds D (since dst t) d w c" for d w c using holds_mono(3) le by blast
  have "list_all2 (\<lambda>x c. \<exists>d. fdefs D (fst x) = Some d \<and> field_holds D ?h d (snd x) c) (um_fields M2) fcs"
    using fields_copied_all [OF u(5)] msg(7-9) list_all2_lengthD [OF msg(10)] unfolding t(4) by simp
  then have fields: "list_all2 (\<lambda>x c. \<exists>d. fdefs D (fst x) = Some d \<and> field_holds D (since dst t) d (snd x) c) (um_fields M2) fcs"
    by (rule list_all2_mono) (use to in blast)
  have "copy_with clone arena dst src m s = (Inr True, t)"
    using S dst(1) e(2) msg(4) u(1) t(1) by (simp add: copy_with_def bind_xs_def then_xs_def message_def mdef_def)
  moreover have "grown_at dst (cells c - 1) s t"
    using grown_at_trans [OF at grown_at_trans [OF u(2) t(2)]] k by simp
  moreover have "msg_holds D (since dst t) m dst c"
    unfolding msg(1)
  proof (rule msg_holds_elem_holds_field_holds.msg [of dst _ M2 _ m md, OF dst(5) _ msg(4-6) _ msg(8,9) fields t(6) msg(12) _ t(5)])
    show "st_messages (since dst t) dst = Some M2" using t(3) by (simp add: cut_store_def)
    show "map fst (um_fields M2) = fs" using u(5) t(4) msg(7) by (simp add: fields_copied_def)
    show "list_all2 (\<lambda>x c. \<exists>d. fdefs D (fst x) = Some d \<and> ext_holds D (since dst t) d (snd x) c) (ext_entries (um_aux M2)) ecs"
      using t(7) by (rule list_all2_mono) (use le holds_mono(2,3) in \<open>auto split: if_splits\<close>)
  qed
  ultimately show ?thesis by blast
qed

end

section \<open>The interpretation\<close>

lemma message_clone_ok:
  assumes "msg_holds D (before a s) m p c" "depth c \<le> n" "can_copy arena D a (cells c) s"
  shows "\<exists>t. message_clone n arena p m s = (Inr (next_ptr s), t) \<and> grown (next_ptr s) (cells c) s t \<and>
    msg_holds D (since (next_ptr s) t) m (next_ptr s) c"
  using assms
proof (induction n arbitrary: a s m p c)
  case 0
  then show ?case by (auto elim!: msg_holdsE simp: depth.simps)
next
  case (Suc n)
  then have cloner: "deep_cloner arena D n (message_clone n arena)" by unfold_locales
  let ?q = "next_ptr s"
  let ?s = "put_message ?q \<lparr>um_fields = [], um_aux = [], um_aux_cap = None\<rparr> (after_new s)"
  obtain k where k: "cells c = Suc k" using Suc.prems(1) by (auto elim: msg_holdsE)
  have c: "ample arena s" "room (Suc k) s" "a \<le> ?q" "?q \<noteq> NULL" "can_copy arena D a (1 + k) s"
    using Suc.prems(3) k by (auto simp: can_copy_def room_def)
  have g: "grown ?q 1 s ?s" by (rule grown_new(1) [OF c(2)])
  have "?q < next_ptr ?s" using next_ptr_step(2) [OF c(2)] by simp
  moreover have "msg_holds D (before a ?s) m p c" using Suc.prems(1) grown_before [OF g c(3)] by simp
  moreover have "can_copy arena D a (cells c - 1) ?s" using can_copy_grown [OF c(5) g] k by simp
  ultimately obtain t where t: "copy_with (message_clone n arena) arena ?q p m ?s = (Inr True, t)" "grown_at ?q k ?s t"
      "msg_holds D (since ?q t) m ?q c"
    using deep_cloner.copy_body [OF cloner _ Suc.prems(2), of a ?s m p ?q] c(3,4) k by auto
  have "grown ?q (1 + k) s t"
    using grown_trans [OF g grown_at_grown [OF t(2)]] next_ptr_step(2) [OF c(2)] by simp
  then show ?case
    using t(1,3) New_eq(1) [OF c(1)] c(4) k
    by (simp add: message_clone_def [of "Suc n"] bind_xs_def Copy_with del: upb_Message_Copy.simps)
qed

interpretation message_cloner: deep_cloner arena D n "message_clone n arena" for arena D n
  by unfold_locales (rule message_clone_ok)

section \<open>Assigning a message\<close>

text \<open>A new message and a deep copy into it are the recursive call at the depth of the C stack.\<close>

lemma new_deep_copy:
  assumes "msg_holds (defs s) (before (next_ptr s) s) m src c" "depth c \<le> stack_limit s" "room (cells c) s" "ample arena s" "arena \<noteq> NULL"
  shows "\<exists>u t. upb_Message_New arena s = (Inr (next_ptr s), u) \<and> upb_Message_DeepCopy (next_ptr s) src m arena u = (Inr True, t) \<and>
    grown (next_ptr s) (cells c) s t \<and> msg_holds (defs s) (since (next_ptr s) t) m (next_ptr s) c"
proof -
  let ?q = "next_ptr s"
  let ?u = "put_message ?q \<lparr>um_fields = [], um_aux = [], um_aux_cap = None\<rparr> (after_new s)"
  have "can_copy arena (defs s) ?q (cells c) s" "?q \<noteq> NULL" using assms(3-5) by (auto simp: can_copy_def room_def)
  then obtain t where t: "message_clone (stack_limit s) arena src m s = (Inr ?q, t)" "grown ?q (cells c) s t"
    "msg_holds (defs s) (since ?q t) m ?q c"
    using message_cloner.clone_ok [OF assms(1,2)] by blast
  have new: "upb_Message_New arena s = (Inr ?q, ?u)" by (rule New_eq(1) [OF assms(4)])
  have "upb_Message_Copy (stack_limit s) arena ?q src m ?u = (Inr True, t)"
    using t(1) new \<open>?q \<noteq> NULL\<close> unfolding message_clone_def by (auto simp: bind_xs_def split: prod.splits sum.splits if_splits)
  moreover have "upb_Message_ClearByDef ?q m ?u = (Inr (), ?u)" by (simp add: upb_Message_ClearByDef_def bind_xs_def message_def)
  moreover have "stack_limit ?u = stack_limit s" by (simp add: put_message_def)
  ultimately have "upb_Message_DeepCopy ?q src m arena ?u = (Inr True, t)"
    by (simp add: upb_Message_DeepCopy_def bind_xs_def then_xs_def)
  then show ?thesis using new t by blast
qed

text \<open>A wrapper is an object, so its conversion does not read it as a hash.\<close>

lemma SvToUpb_message_object:
  assumes v: "message_object s v src arena' S" "PerlUpb_Message_GetDef (Some v) s = (Inr (fd_msg_subdef d), s)"
    and f: "fdefs (defs s) f = Some d" "is_submsg d" "\<not> fd_repeated d" "f \<noteq> NULL"
    and c: "msg_holds (defs s) (before (next_ptr s) s) (fd_msg_subdef d) src c" "depth c \<le> stack_limit s" "room (cells c) s"
    and arena: "ample arena s" "arena \<noteq> NULL"
  shows "\<exists>t. PerlUpb_SvToUpb E v f arena s = (Inr (Some (Val_msg (next_ptr s))), t) \<and> grown (next_ptr s) (cells c) s t \<and>
    msg_holds (defs s) (since (next_ptr s) t) (fd_msg_subdef d) (next_ptr s) c"
proof -
  obtain asv where g: "PerlUpb_Message_GetMsg (Some v) s = (Inr src, s)" "src \<noteq> NULL" using v(1) by (rule message_objectE)
  obtain k where k: "stack_limit s = Suc k" using v(1) by (auto simp: message_object_def gr0_conv_Suc)
  obtain u t where t: "upb_Message_New arena s = (Inr (next_ptr s), u)"
    "upb_Message_DeepCopy (next_ptr s) src (fd_msg_subdef d) arena u = (Inr True, t)" "grown (next_ptr s) (cells c) s t"
    "msg_holds (defs s) (since (next_ptr s) t) (fd_msg_subdef d) (next_ptr s) c"
    using new_deep_copy [OF c arena] by blast
  have md: "mdefs (defs s) (fd_msg_subdef d) \<noteq> None" using c(1) by (auto elim: msg_holdsE)
  have obj: "SvOK v" "sv_isobject s v" using v(1) by (auto simp: message_object_def bound_object_def sv_derived_from_def
        sv_isobject_def SvOK_def SvROK_def deref_def bind_eq_Some_conv split: option.splits)
  have "convert_message_object v d arena s = (Inr (Some (Val_msg (next_ptr s))), t)"
    using g t(1,2) v(2) by (simp add: convert_message_object_def bind_xs_def)
  then have "convert_message E (sv_to_upb_rec E k) v d arena s = (Inr (Some (Val_msg (next_ptr s))), t)"
    using md obj by (auto simp: convert_message_def bind_xs_def mdef_def split: option.split)
  then have "PerlUpb_SvToUpb E v f arena s = (Inr (Some (Val_msg (next_ptr s))), t)"
    using f obj(1) k arena(2) convert_branches(11) [OF f(1,2)]
    by (simp add: PerlUpb_SvToUpb_def bind_xs_def sv_to_upb_body_def fdef_def)
  then show ?thesis using t(3,4) by blast
qed

text \<open>
  C6: Assigning a message object to a message field stores a copy that is independent of the
  source: the field gets a new message, which holds the same content (fields, elements and
  entries in order, extensions, unknown bytes, messages at every depth), in memory that was
  free before. Of the memory in use only the target message itself is written. So whatever
  happens to the source afterwards, as long as the new memory is left alone the field still
  holds that content; the target may be a part of the source, or the source itself.
\<close>

theorem assigned_message_is_independent:
  assumes "message_object s self msg arena M" "message_object s v src arena' S"
    and "PerlUpb_Message_GetDef (Some v) s = (Inr (fd_msg_subdef d), s)"
    and "fdefs (defs s) f = Some d" "is_submsg d" "\<not> fd_repeated d" "\<not> fd_is_extension d" "f \<noteq> NULL"
    and "msg_holds (defs s) (before (next_ptr s) s) (fd_msg_subdef d) src c" "depth c \<le> stack_limit s" "room (cells c) s"
  shows "\<exists>t. PerlUpb_Message_SetField E (Some self) f v s = (Inr (), t) \<and>
    messages t msg = Some (set_base_field (defs s) f (Val_msg (next_ptr s)) M) \<and>
    msg_holds (defs s) (since (next_ptr s) t) (fd_msg_subdef d) (next_ptr s) c \<and>
    (\<forall>p<next_ptr s. p \<noteq> msg \<longrightarrow> messages t p = messages s p \<and> arrays t p = arrays s p \<and> maps t p = maps s p) \<and>
    (\<forall>u. store_le (since (next_ptr s) t) (since (next_ptr s) u) \<longrightarrow>
      msg_holds (defs s) (since (next_ptr s) u) (fd_msg_subdef d) (next_ptr s) c)"
proof -
  obtain asv where g: "PerlUpb_Message_GetMsg (Some self) s = (Inr msg, s)" "PerlUpb_Message_GetArena s (Some self) = Some asv"
    "PerlUpb_Arena_Get (Some asv) s = (Inr arena, s)" "msg \<noteq> NULL"
    using assms(1) by (rule message_objectE)
  have arena: "ample arena s" "arena \<noteq> NULL" "messages s msg = Some M" using assms(1) by (auto simp: message_object_def)
  obtain t where t: "PerlUpb_SvToUpb E v f arena s = (Inr (Some (Val_msg (next_ptr s))), t)" "grown (next_ptr s) (cells c) s t"
    "msg_holds (defs s) (since (next_ptr s) t) (fd_msg_subdef d) (next_ptr s) c"
    using SvToUpb_message_object [OF assms(2-6,8-11) arena(1,2)] by blast
  have "\<not> next_ptr s \<le> msg" using assms(11) arena(3) by (auto simp: room_def empty_above_def)
  then have msg: "msg < next_ptr s" by simp
  let ?t = "put_message msg (set_base_field (defs s) f (Val_msg (next_ptr s)) M) t"
  have "messages t msg = Some M" "defs t = defs s" using t(2) msg arena(3) grown_fields(1) [OF t(2)] by (auto simp: grown_def same_below_def)
  then have "PerlUpb_Message_SetField E (Some self) f v s = (Inr (), ?t)"
    using g t(1) assms(4,7) by (simp add: PerlUpb_Message_SetField_def upb_Message_SetFieldByDef_def bind_xs_def then_xs_def fdef_def message_def)
  moreover have holds: "msg_holds (defs s) (since (next_ptr s) ?t) (fd_msg_subdef d) (next_ptr s) c"
    using t(3) since_put(1) [OF msg] by simp
  moreover have "\<forall>p<next_ptr s. p \<noteq> msg \<longrightarrow> messages ?t p = messages s p \<and> arrays ?t p = arrays s p \<and> maps ?t p = maps s p"
    using t(2) by (simp add: grown_def same_below_def)
  ultimately show ?thesis using holds_mono(1) [OF holds] by (intro exI [of _ ?t]) simp
qed

subsection \<open>An example\<close>

text \<open>
  A message with a number, an array, a child, a map, unknown bytes and an extension. It is
  assigned to its own field \<open>child\<close>.
\<close>

definition copy_msg :: upb_Message where
  "copy_msg = \<lparr>um_fields = [(0x140, Val_msg 0x3100), (0x110, Val_int32 7), (0x130, Val_array 0x3200), (0x150, Val_map 0x3300)],
     um_aux = [Aux_unknown True [1, 2], Aux_ext 0x1A0 (Val_int32 9), Aux_null, Aux_unknown False [3]], um_aux_cap = Some 4\<rparr>"

definition copy_boot :: upb_st where
  "copy_boot = msg_boot\<lparr>messages := [0x3000 \<mapsto> copy_msg, 0x3100 \<mapsto> \<lparr>um_fields = [(0x120, Val_str [65])], um_aux = [], um_aux_cap = None\<rparr>],
     arrays := [0x3200 \<mapsto> \<lparr>arr_ctype = kUpb_CType_Int32, arr_data = [Some (Val_int32 1), Some (Val_int32 2), None, None], arr_size = 2\<rparr>],
     maps := [0x3300 \<mapsto> \<lparr>map_entries = [(Val_str [66], Val_int32 3)]\<rparr>]\<rparr>"

definition copy_tree :: content where
  "copy_tree = C_msg [0x140, 0x110, 0x130, 0x150]
     [C_msg [0x120] [C_val (Val_str [65])] [] [] [], C_val (Val_int32 7), C_array [C_val (Val_int32 1), C_val (Val_int32 2)],
      C_map [Val_str [66]] [C_val (Val_int32 3)]] [0x1A0] [C_val (Val_int32 9)] [1, 2, 3]"

lemma copy_boot_object: "message_object copy_boot (newRV 1) 0x3000 0x2000 copy_msg"
proof -
  have h: "heap copy_boot = heap msg_boot" "isa copy_boot = isa msg_boot" "upb_arenas copy_boot = upb_arenas msg_boot"
    "raw_arenas copy_boot = raw_arenas msg_boot" "stack_limit copy_boot = 10" "ample 0x2000 copy_boot" "messages copy_boot 0x3000 = Some copy_msg"
    using msg_boot_facts by (simp_all add: copy_boot_def ample_def)
  have "ready copy_boot" by (rule iffD2 [OF ready_cong msg_boot_facts(15)]) (simp_all add: copy_boot_def)
  moreover have "bound_object copy_boot (newRV 1) ''Protobuf::Message'' 0x3000 (Some (newRV 0))"
    using msg_boot_facts(1) by (auto simp: bound_object_def sv_derived_from_def deref_def h split: option.splits)
  moreover have "arena_sv_ok copy_boot (newRV 0) 0x2000"
    using msg_boot_facts(2) by (simp add: arena_sv_ok_def sv_isa_def deref_def h)
  ultimately show ?thesis using h(5-7) by (auto simp: message_object_def)
qed

lemma copy_boot_holds: "msg_holds ex_defs (before 0x8000 copy_boot) 0x100 0x3000 copy_tree"
proof -
  let ?h = "before 0x8000 copy_boot" and ?md = "the (mdefs ex_defs 0x100)"
  define e where "e = (\<lambda>f. the (fdefs ex_defs f))"
  have md: "mdefs ex_defs 0x100 = Some ?md" "distinct (md_fields ?md)" "\<forall>f\<in>set (md_fields ?md). fdefs ex_defs f \<noteq> None"
    and fs: "md_fields ?md = [0x110, 0x120, 0x130, 0x140, 0x150, 0x160, 0x170, 0x178]"
    by (simp_all add: ex_defs_def)
  have fd: "fdefs ex_defs 0x110 = Some (e 0x110)" "fdefs ex_defs 0x120 = Some (e 0x120)" "fdefs ex_defs 0x130 = Some (e 0x130)"
    "fdefs ex_defs 0x140 = Some (e 0x140)" "fdefs ex_defs 0x150 = Some (e 0x150)" "fdefs ex_defs 0x1A0 = Some (e 0x1A0)"
    "fd_msg_subdef (e 0x140) = 0x100" "\<not> fd_repeated (e 0x1A0)"
    and vd: "fdefs ex_defs (upb_MessageDef_FindFieldByNumber ex_defs (fd_msg_subdef (e 0x150)) 2) = Some (e 0x112)"
    by (simp_all add: e_def ex_defs_def ex_field_def upb_MessageDef_FindFieldByNumber_def find_field_def)
  have h: "st_messages ?h 0x3000 = Some copy_msg" "st_messages ?h 0x3100 = Some \<lparr>um_fields = [(0x120, Val_str [65])], um_aux = [], um_aux_cap = None\<rparr>"
    "st_arrays ?h 0x3200 = Some \<lparr>arr_ctype = kUpb_CType_Int32, arr_data = [Some (Val_int32 1), Some (Val_int32 2), None, None], arr_size = 2\<rparr>"
    "st_maps ?h 0x3300 = Some \<lparr>map_entries = [(Val_str [66], Val_int32 3)]\<rparr>"
    by (simp_all add: cut_store_def copy_boot_def)
  have scalar: "elem_holds ex_defs ?h d v (C_val v)" if "scalar_val v" for d v using that by (rule elem_scalar)
  have child: "msg_holds ex_defs ?h 0x100 0x3100 (C_msg [0x120] [C_val (Val_str [65])] [] [] [])"
    by (rule msg [OF _ h(2) md]) (auto simp: fs fd(2) scalar_val_def intro!: field_elem scalar)
  have arr: "field_holds ex_defs ?h d (Val_array 0x3200) (C_array [C_val (Val_int32 1), C_val (Val_int32 2)])" for d
    by (rule field_array [OF _ h(3), of "[Val_int32 1, Val_int32 2]"])
      (auto simp: arr_ok_def arr_elems_def take_Cons' scalar_val_def intro!: scalar)
  have mp: "field_holds ex_defs ?h (e 0x150) (Val_map 0x3300) (C_map [Val_str [66]] [C_val (Val_int32 3)])"
    by (rule field_map [OF _ h(4) vd]) (auto simp: scalar_val_def intro!: scalar)
  have "field_holds ex_defs ?h (e 0x140) (Val_msg 0x3100) (C_msg [0x120] [C_val (Val_str [65])] [] [] [])"
    using child fd(7) by (intro field_elem elem_msg) simp
  then show ?thesis
    unfolding copy_tree_def using arr mp
    by (intro msg [OF _ h(1) md]) (auto simp: copy_msg_def fs fd scalar_val_def intro!: field_elem scalar)
qed

theorem assigned_message_is_independent_witness:
  "\<exists>t. PerlUpb_Message_SetField ex_env (Some (newRV 1)) 0x140 (newRV 1) copy_boot = (Inr (), t) \<and>
    messages t 0x3000 = Some (copy_msg\<lparr>um_fields := [(0x140, Val_msg 0x8000), (0x110, Val_int32 7), (0x130, Val_array 0x3200), (0x150, Val_map 0x3300)]\<rparr>) \<and>
    msg_holds ex_defs (since 0x8000 t) 0x100 0x8000 copy_tree"
proof -
  let ?d = "the (fdefs ex_defs 0x140)"
  have d: "fdefs ex_defs 0x140 = Some ?d" "is_submsg ?d" "\<not> fd_repeated ?d" "\<not> fd_is_extension ?d" "fd_msg_subdef ?d = 0x100"
    by (simp_all add: ex_defs_def ex_field_def is_submsg_def)
  have s: "defs copy_boot = ex_defs" "next_ptr copy_boot = 0x8000" "stack_limit copy_boot = 10" by (simp_all add: copy_boot_def)
  have def_of: "PerlUpb_Message_GetDef (Some (newRV 1)) copy_boot = (Inr 0x100, copy_boot)"
    by (simp add: PerlUpb_Message_GetDef_def rv_hv_def bind_xs_def copy_boot_def msg_boot_def)
  have c: "depth copy_tree \<le> 10" "cells copy_tree = 4" by (simp_all add: copy_tree_def depth.simps)
  have room: "room 4 copy_boot" by (auto simp: room_def empty_above_def copy_boot_def word_le_nat_alt split: if_splits)
  have "same_oneof ex_defs 0x140 g = False" for g by (simp add: same_oneof_def ex_defs_def ex_field_def split: option.splits)
  then have set: "set_base_field ex_defs 0x140 (Val_msg 0x8000) copy_msg =
      copy_msg\<lparr>um_fields := [(0x140, Val_msg 0x8000), (0x110, Val_int32 7), (0x130, Val_array 0x3200), (0x150, Val_map 0x3300)]\<rparr>"
    by (simp add: set_base_field_def copy_msg_def)
  show ?thesis
    using assigned_message_is_independent [OF copy_boot_object copy_boot_object, of ?d "0x140" copy_tree ex_env, unfolded s d(5) set]
      def_of d copy_boot_holds c room by auto
qed

end
