(* ===== verification/Fast_Accessors.thy ===== *)
theory Fast_Accessors
  imports Message_Access
begin

text \<open>
  The accessors installed for each field of a message class
  (\<open>xs/protobuf/fast_accessors.c\<close>): getter, setter, \<open>has_\<close> and \<open>clear_\<close>. The getter
  memoises what it returned in the hash \<open>_cache\<close> of the object; setting and clearing
  through these accessors mark the memo as dirty. An XSUB takes the argument stack and
  returns the values it leaves; the field definition of the CV is its first argument.
\<close>

section \<open>Flags\<close>

definition PERL_UPB_MG_CACHE_DIRTY :: u16 where "PERL_UPB_MG_CACHE_DIRTY = 0x01"
definition PERL_UPB_MG_PROFILE_WRITE_HEAVY :: u16 where "PERL_UPB_MG_PROFILE_WRITE_HEAVY = 0x02"

definition mg_flag :: "magic option \<Rightarrow> u16 \<Rightarrow> bool" where
  "mg_flag mg flag \<longleftrightarrow> (case mg of None \<Rightarrow> False | Some m \<Rightarrow> mg_private m AND flag \<noteq> 0)"

definition mark_dirty :: "sv \<Rightarrow> 'z perl_st_scheme \<Rightarrow> 'z perl_st_scheme" where
  "mark_dirty self s =
     (case PerlUpb_GetMagic s (Some self) of
        None \<Rightarrow> s
      | Some mg \<Rightarrow>
          if mg_flag (Some mg) PERL_UPB_MG_PROFILE_WRITE_HEAVY then s
          else rv_update (Some self) (mg_update Wrapper_vtbl (\<lambda>m. m\<lparr>mg_private := mg_private m OR PERL_UPB_MG_CACHE_DIRTY\<rparr>)) s)"

section \<open>The accessors\<close>

text \<open>Objects that are not backed by upb are asked through their Perl methods.\<close>

definition fallback_discard :: "perl_env \<Rightarrow> string \<Rightarrow> sv list \<Rightarrow> (upb_st, sv list) xs" where
  "fallback_discard E meth args = bind_xs (call_method E meth args) (\<lambda>_. ret [])"

definition fallback_scalar :: "perl_env \<Rightarrow> string \<Rightarrow> sv list \<Rightarrow> (upb_st, sv list) xs" where
  "fallback_scalar E meth args =
     bind_xs (call_method E meth args) (\<lambda>vs.
     if length vs \<noteq> 1 then croak (meth @ '' method failed'') [] else bind_xs (pop_sv vs) (\<lambda>v. ret [v]))"

text \<open>Fetch or create the memo hash; its address.\<close>

definition memo_hash :: "sv \<Rightarrow> (upb_st, addr) xs" where
  "memo_hash self =
     bind_xs (rv_hv (Some self)) (\<lambda>r.
     bind_xs (gets_xs (\<lambda>s. Option.bind (hv_fetch r ''_cache'') (\<lambda>v. Option.bind (sv_rok v) (\<lambda>c.
       case heap s c of None \<Rightarrow> None | Some q \<Rightarrow> if is_HV q then Some c else None)))) (\<lambda>c.
     case c of
       Some c \<Rightarrow> ret c
     | None \<Rightarrow>
         bind_xs (alloc newHV) (\<lambda>c.
         then_xs (modify_xs (rv_update (Some self) (hv_store ''_cache'' (newRV c)))) (ret c))))"

definition fast_get :: "perl_env \<Rightarrow> ptr \<Rightarrow> sv \<Rightarrow> (upb_st, sv) xs" where
  "fast_get E f self =
     bind_xs (gets_xs (\<lambda>s. PerlUpb_GetMagic s (Some self))) (\<lambda>mg.
     if mg_flag mg PERL_UPB_MG_PROFILE_WRITE_HEAVY then PerlUpb_Message_GetField E (Some self) f
     else
       then_xs (if mg_flag mg PERL_UPB_MG_CACHE_DIRTY
                then modify_xs (rv_update (Some self) (\<lambda>r.
                  mg_update Wrapper_vtbl (\<lambda>m. m\<lparr>mg_private := mg_private m AND NOT PERL_UPB_MG_CACHE_DIRTY\<rparr>)
                    (hv_delete ''_cache'' r)))
                else ret ())
       (bind_xs (fdef f) (\<lambda>d.
        bind_xs (memo_hash self) (\<lambda>c.
        bind_xs (gets_xs (\<lambda>s. Option.bind (heap s c) (\<lambda>q. hv_fetch q (fd_name d)))) (\<lambda>cached.
        if (case cached of None \<Rightarrow> False | Some v \<Rightarrow> SvOK v) then ret (the cached)
        else
          bind_xs (PerlUpb_Message_GetField E (Some self) f) (\<lambda>result.
          then_xs (modify_xs (write_ref c (hv_store (fd_name d) result))) (ret result)))))))"

definition fast_set :: "perl_env \<Rightarrow> ptr \<Rightarrow> sv \<Rightarrow> sv \<Rightarrow> (upb_st, sv list) xs" where
  "fast_set E f self v =
     then_xs (PerlUpb_Message_SetField E (Some self) f v) (then_xs (modify_xs (mark_dirty self)) (ret []))"

definition PerlUpb_FastAccessor :: "perl_env \<Rightarrow> ptr \<Rightarrow> sv list \<Rightarrow> (upb_st, sv list) xs" where
  "PerlUpb_FastAccessor E f args =
     (case args of
        [] \<Rightarrow> croak ''Usage: $msg->field([value])'' []
      | self # rest \<Rightarrow>
          bind_xs (gets_xs (\<lambda>s. PerlUpb_IsXSBacked s (Some self))) (\<lambda>backed.
          if \<not> backed then
            bind_xs (fdef f) (\<lambda>d.
            case rest of
              v # _ \<Rightarrow> fallback_discard E ''set'' [self, newSVpv (fd_name d), v]
            | [] \<Rightarrow> fallback_scalar E ''get'' [self, newSVpv (fd_name d)])
          else case rest of
              v # _ \<Rightarrow> fast_set E f self v
            | [] \<Rightarrow> bind_xs (fast_get E f self) (\<lambda>v. ret [v])))"

definition PerlUpb_FastSetter :: "perl_env \<Rightarrow> ptr \<Rightarrow> sv list \<Rightarrow> (upb_st, sv list) xs" where
  "PerlUpb_FastSetter E f args =
     (case args of
        [self, v] \<Rightarrow>
          bind_xs (gets_xs (\<lambda>s. PerlUpb_IsXSBacked s (Some self))) (\<lambda>backed.
          if \<not> backed then bind_xs (fdef f) (\<lambda>d. fallback_discard E ''set'' [self, newSVpv (fd_name d), v])
          else fast_set E f self v)
      | _ \<Rightarrow> croak ''Usage: $msg->set_field(value)'' [])"

definition PerlUpb_FastHas :: "perl_env \<Rightarrow> ptr \<Rightarrow> sv list \<Rightarrow> (upb_st, sv list) xs" where
  "PerlUpb_FastHas E f args =
     (case args of
        [self] \<Rightarrow>
          bind_xs (gets_xs (\<lambda>s. PerlUpb_IsXSBacked s (Some self))) (\<lambda>backed.
          if \<not> backed then bind_xs (fdef f) (\<lambda>d. fallback_scalar E ''has'' [self, newSVpv (fd_name d)])
          else bind_xs (PerlUpb_Message_HasField (Some self) f) (\<lambda>has. ret [if has then PL_sv_yes else PL_sv_no]))
      | _ \<Rightarrow> croak ''Usage: $msg->has_field()'' [])"

definition PerlUpb_FastClear :: "perl_env \<Rightarrow> ptr \<Rightarrow> sv list \<Rightarrow> (upb_st, sv list) xs" where
  "PerlUpb_FastClear E f args =
     (case args of
        [self] \<Rightarrow>
          bind_xs (gets_xs (\<lambda>s. PerlUpb_IsXSBacked s (Some self))) (\<lambda>backed.
          if \<not> backed then bind_xs (fdef f) (\<lambda>d. fallback_discard E ''clear'' [self, newSVpv (fd_name d)])
          else then_xs (PerlUpb_Message_ClearField (Some self) f) (then_xs (modify_xs (mark_dirty self)) (ret [])))
      | _ \<Rightarrow> croak ''Usage: $msg->clear_field()'' [])"

section \<open>Installation\<close>

text \<open>
  The \<open>newXS\<close> calls in order, with the field stored in the CV. A name is cut to the 511
  characters that fit its buffer.
\<close>

datatype xsub = FastAccessor | FastSetter | FastHas | FastClear

definition full_name_buf :: "string \<Rightarrow> string" where
  "full_name_buf name = take 511 name"

definition field_accessors :: "string \<Rightarrow> ptr \<Rightarrow> upb_FieldDef \<Rightarrow> (string \<times> xsub \<times> ptr) list" where
  "field_accessors perl_class f d =
     [(full_name_buf (perl_class @ ''::'' @ fd_name d), FastAccessor, f),
      (full_name_buf (perl_class @ ''::set_'' @ fd_name d), FastSetter, f)]
     @ (if fd_has_presence d then [(full_name_buf (perl_class @ ''::has_'' @ fd_name d), FastHas, f)] else [])
     @ [(full_name_buf (perl_class @ ''::clear_'' @ fd_name d), FastClear, f)]"

definition PerlUpb_InstallFastAccessors :: "string \<Rightarrow> ptr \<Rightarrow> ('z upb_st_scheme, (string \<times> xsub \<times> ptr) list) xs" where
  "PerlUpb_InstallFastAccessors perl_class m =
     bind_xs (mdef m) (\<lambda>md.
     bind_xs (map_xs (\<lambda>f. bind_xs (fdef f) (\<lambda>d. ret (field_accessors perl_class f d))) (md_fields md)) (\<lambda>xss.
     ret (concat xss)))"

section \<open>Facts\<close>

text \<open>Updates of an object that leave what identifies it alone.\<close>

definition keeps_object :: "(referent \<Rightarrow> referent) \<Rightarrow> bool" where
  "keeps_object F \<longleftrightarrow> (\<forall>r. is_HV (F r) = is_HV r \<and> ref_stash (F r) = ref_stash r \<and>
     (mg_findext (F r) Wrapper_vtbl = None) = (mg_findext r Wrapper_vtbl = None) \<and>
     (\<forall>k. k \<noteq> ''_cache'' \<longrightarrow> hv_fetch (F r) k = hv_fetch r k))"

lemma deref_write_ref:
  "deref (write_ref a F s) v = (if Option.bind v sv_rok = Some a then map_option F (deref s v) else deref s v)"
  by (cases v) (auto simp: deref_def split: Option.bind_splits)

lemma defs_write_ref [simp]: "defs (write_ref a F s) = defs s"
  by (simp add: write_ref_def)

lemma message_object_write:
  assumes "message_object s self msg arena M" "keeps_object F"
  shows "message_object (write_ref a F s) self msg arena M"
proof -
  let ?t = "write_ref a F s"
  obtain asv where o: "bound_object s self ''Protobuf::Message'' msg (Some asv)" "arena_sv_ok s asv arena"
    using assms(1) by (auto simp: message_object_def)
  have "ready s" using assms(1) by (simp add: message_object_def)
  then have "ready ?t" by (rule iffD2 [OF ready_cong, rotated -1]) (simp_all add: write_ref_def)
  moreover have "bound_object ?t self ''Protobuf::Message'' msg (Some asv)"
    using o(1) assms(2)
    by (auto simp: bound_object_def sv_derived_from_def deref_write_ref keeps_object_def simp del: not_None_eq split: option.splits)
  moreover have "arena_sv_ok ?t asv arena"
    using o(2) assms(2) by (auto simp: arena_sv_ok_def sv_isa_def deref_write_ref keeps_object_def split: option.splits)
  moreover have "messages ?t = messages s" "ample arena ?t = ample arena s" "stack_limit ?t = stack_limit s"
    by (simp_all add: write_ref_def ample_def)
  ultimately show ?thesis using assms(1) by (auto simp: message_object_def)
qed

lemma message_object_unblessed:
  assumes "message_object s self msg arena M" "heap s c = Some q" "ref_stash q = None"
  shows "message_object (write_ref c F s) self msg arena M" "sv_rok self \<noteq> Some c"
proof -
  let ?t = "write_ref c F s"
  obtain asv where o: "bound_object s self ''Protobuf::Message'' msg (Some asv)" "arena_sv_ok s asv arena"
    using assms(1) by (auto simp: message_object_def)
  show self: "sv_rok self \<noteq> Some c"
    using o(1) assms(2,3) by (auto simp: bound_object_def sv_derived_from_def deref_def)
  have asv: "sv_rok asv \<noteq> Some c"
    using o(2) assms(2,3) by (auto simp: arena_sv_ok_def sv_isa_def deref_def)
  have "ready s" using assms(1) by (simp add: message_object_def)
  then have "ready ?t" by (rule iffD2 [OF ready_cong, rotated -1]) (simp_all add: write_ref_def)
  moreover have "bound_object ?t self ''Protobuf::Message'' msg (Some asv)"
    using o(1) self by (auto simp: bound_object_def sv_derived_from_def deref_write_ref split: option.splits)
  moreover have "arena_sv_ok ?t asv arena"
    using o(2) asv by (simp add: arena_sv_ok_def sv_isa_def deref_write_ref)
  moreover have "messages ?t = messages s" "ample arena ?t = ample arena s" "stack_limit ?t = stack_limit s"
    by (simp_all add: write_ref_def ample_def)
  ultimately show "message_object ?t self msg arena M" using assms(1) by (auto simp: message_object_def)
qed

lemma message_object_alloc:
  assumes "message_object s self msg arena M" "heap_ok s"
  shows "message_object (s\<lparr>heap := (heap s)(next_addr s \<mapsto> q), next_addr := Suc (next_addr s)\<rparr>) self msg arena M"
proof -
  let ?t = "s\<lparr>heap := (heap s)(next_addr s \<mapsto> q), next_addr := Suc (next_addr s)\<rparr>"
  obtain asv where o: "bound_object s self ''Protobuf::Message'' msg (Some asv)" "arena_sv_ok s asv arena"
    using assms(1) by (auto simp: message_object_def)
  have live: "deref ?t (Some v) = deref s (Some v)" if "deref s (Some v) \<noteq> None" for v
    using that assms(2) by (auto simp: deref_def heap_ok_def split: Option.bind_splits)
  have "ready s" using assms(1) by (simp add: message_object_def)
  then have "ready ?t" by (rule iffD2 [OF ready_cong, rotated -1]) simp_all
  moreover have "bound_object ?t self ''Protobuf::Message'' msg (Some asv)"
    using o(1) live [of self] by (auto simp: bound_object_def sv_derived_from_def split: option.splits)
  moreover have "arena_sv_ok ?t asv arena"
    using o(2) live [of asv] by (auto simp: arena_sv_ok_def sv_isa_def)
  ultimately show ?thesis using assms(1) by (auto simp: message_object_def ample_def)
qed

lemma heap_ok_simps [simp]:
  "heap_ok (write_ref a F s) = heap_ok s" "heap_ok (put_message p N s) = heap_ok s"
  by (auto simp: heap_ok_def)

text \<open>
  The memo of \<open>self\<close> is clean and in use, and holds \<open>w\<close> for the field named \<open>name\<close>.
\<close>

definition memo_holds :: "upb_st \<Rightarrow> sv \<Rightarrow> string \<Rightarrow> sv \<Rightarrow> bool" where
  "memo_holds s self name w \<longleftrightarrow>
     \<not> mg_flag (PerlUpb_GetMagic s (Some self)) PERL_UPB_MG_PROFILE_WRITE_HEAVY \<and>
     \<not> mg_flag (PerlUpb_GetMagic s (Some self)) PERL_UPB_MG_CACHE_DIRTY \<and>
     (\<exists>r c q. deref s (Some self) = Some r \<and> is_HV r \<and> hv_fetch r ''_cache'' = Some (newRV c) \<and>
        heap s c = Some q \<and> is_HV q \<and> hv_fetch q name = Some w \<and> SvOK w)"

lemma fast_get_hit:
  assumes "memo_holds s self (fd_name d) w" "fdefs (defs s) f = Some d"
  shows "fast_get E f self s = (Inr w, s)"
proof -
  obtain r c q where "deref s (Some self) = Some r" "is_HV r" "hv_fetch r ''_cache'' = Some (newRV c)"
    "heap s c = Some q" "is_HV q" "hv_fetch q (fd_name d) = Some w" "SvOK w"
    using assms(1) by (auto simp: memo_holds_def)
  then have "memo_hash self s = (Inr c, s)"
    by (simp add: memo_hash_def bind_xs_def rv_hv_def)
  with assms \<open>heap s c = Some q\<close> \<open>hv_fetch q (fd_name d) = Some w\<close> \<open>SvOK w\<close> show ?thesis
    by (simp add: fast_get_def memo_holds_def then_xs_def bind_xs_Inr [of _ s] fdef_Some)
qed

lemma memo_holds_put: "memo_holds (put_message p N s) self name w = memo_holds s self name w"
  by (simp add: memo_holds_def PerlUpb_GetMagic_def deref_cong [of "put_message p N s" s])

lemma mg_private_bits:
  fixes p :: u16
  shows "(p OR PERL_UPB_MG_CACHE_DIRTY) AND PERL_UPB_MG_PROFILE_WRITE_HEAVY = p AND PERL_UPB_MG_PROFILE_WRITE_HEAVY"
    "(p OR PERL_UPB_MG_CACHE_DIRTY) AND PERL_UPB_MG_CACHE_DIRTY \<noteq> 0"
    "(p AND NOT PERL_UPB_MG_CACHE_DIRTY) AND PERL_UPB_MG_CACHE_DIRTY = 0"
    "(p AND NOT PERL_UPB_MG_CACHE_DIRTY) AND PERL_UPB_MG_PROFILE_WRITE_HEAVY = p AND PERL_UPB_MG_PROFILE_WRITE_HEAVY"
proof -
  have "bit ((p OR 1) AND 1) 0" by (simp add: bit_simps)
  then show "(p OR PERL_UPB_MG_CACHE_DIRTY) AND PERL_UPB_MG_CACHE_DIRTY \<noteq> 0"
    unfolding PERL_UPB_MG_CACHE_DIRTY_def by (metis bit_0_eq bot_fun_def bot_bool_def)
qed (unfold PERL_UPB_MG_CACHE_DIRTY_def PERL_UPB_MG_PROFILE_WRITE_HEAVY_def,
    (rule bit_word_eqI, auto simp: bit_simps bit_1_iff)+)

lemma keeps_object_intros:
  "keeps_object (hv_store ''_cache'' v)"
  "(\<And>m. mg_vtbl (g m) = mg_vtbl m) \<Longrightarrow> keeps_object (mg_update Wrapper_vtbl g)"
  "(\<And>m. mg_vtbl (g m) = mg_vtbl m) \<Longrightarrow> keeps_object (\<lambda>r. mg_update Wrapper_vtbl g (hv_delete ''_cache'' r))"
proof -
  have "hv_fetch (hv_store ''_cache'' v r) k = hv_fetch r k" if "k \<noteq> ''_cache''" for r k
    using that by (cases "is_HV r") (simp, auto simp: hv_store_def is_HV_def split: sv_body.splits)
  then show "keeps_object (hv_store ''_cache'' v)" by (simp add: keeps_object_def)
qed (simp_all add: keeps_object_def)

lemma message_object_self:
  assumes "message_object s self msg arena M"
  obtains a r m where "sv_rok self = Some a" "heap s a = Some r" "is_HV r" "mg_findext r Wrapper_vtbl = Some m"
    "PerlUpb_GetMagic s (Some self) = Some m" "PerlUpb_IsXSBacked s (Some self)"
proof -
  obtain asv r where "deref s (Some self) = Some r" "is_HV r" "mg_findext r Wrapper_vtbl \<noteq> None" "iv_ptr (hv_fetch r ''_upb_ptr'') = Some msg"
    using assms by (auto simp: message_object_def bound_object_def)
  moreover from this obtain a m where "sv_rok self = Some a" "heap s a = Some r" "mg_findext r Wrapper_vtbl = Some m"
    by (auto simp: deref_def split: Option.bind_splits)
  ultimately show thesis
    by (intro that [of a r m]) (auto simp: PerlUpb_GetMagic_def PerlUpb_IsXSBacked_def iv_ptr_def split: option.splits)
qed

lemma perl_value_ok: "value_of_type ty x \<Longrightarrow> upb_FieldType_CType ty \<noteq> kUpb_CType_Message \<Longrightarrow> SvOK (perl_value ty x)"
  by (cases x) (auto simp: value_of_type_def perl_value_def sv_defs PL_sv_yes_def PL_sv_no_def)

lemma fast_get_dirty:
  assumes "message_object s self msg arena M" "heap_ok s" "scalar_field (defs s) f d" "value_of_type (fd_type d) (field_value d f M)"
    and "mg_flag (PerlUpb_GetMagic s (Some self)) PERL_UPB_MG_CACHE_DIRTY"
    and "\<not> mg_flag (PerlUpb_GetMagic s (Some self)) PERL_UPB_MG_PROFILE_WRITE_HEAVY"
  obtains t where "fast_get E f self s = (Inr (perl_value (fd_type d) (field_value d f M)), t)" "heap_ok t" "defs t = defs s"
    "memo_holds t self (fd_name d) (perl_value (fd_type d) (field_value d f M))" "message_object t self msg arena M"
proof -
  obtain a r m where o: "sv_rok self = Some a" "heap s a = Some r" "is_HV r" "mg_findext r Wrapper_vtbl = Some m"
    "PerlUpb_GetMagic s (Some self) = Some m"
    using assms(1) by (rule message_object_self)
  let ?w = "perl_value (fd_type d) (field_value d f M)" and ?c = "next_addr s"
  let ?F = "\<lambda>r. mg_update Wrapper_vtbl (\<lambda>m. m\<lparr>mg_private := mg_private m AND NOT PERL_UPB_MG_CACHE_DIRTY\<rparr>) (hv_delete ''_cache'' r)"
  let ?s1 = "write_ref a ?F s"
  let ?s2 = "?s1\<lparr>heap := (heap ?s1)(?c \<mapsto> newHV), next_addr := Suc ?c\<rparr>"
  let ?s3 = "write_ref a (hv_store ''_cache'' (newRV ?c)) ?s2" and ?G = "hv_store (fd_name d) ?w"
  let ?t = "write_ref ?c ?G ?s3"
  have ac: "a \<noteq> ?c" using assms(2) o(2) by (auto simp: heap_ok_def)
  have d: "fdefs (defs s) f = Some d" "SvOK ?w"
    using assms(3,4) perl_value_ok by (auto simp: scalar_field_def is_submsg_def)
  have ok1: "heap_ok ?s1" using assms(2) by simp
  have "message_object ?s1 self msg arena M"
    by (rule message_object_write [OF assms(1) keeps_object_intros(3)]) simp
  from message_object_alloc [OF this ok1, of newHV] have "message_object ?s2 self msg arena M" by simp
  then have m3: "message_object ?s3 self msg arena M" by (rule message_object_write [OF _ keeps_object_intros(1)])
  have h3: "heap ?s3 ?c = Some newHV" "heap ?s3 a = Some (hv_store ''_cache'' (newRV ?c) (?F r))" using ac o(2) by simp_all
  have get: "PerlUpb_Message_GetField E (Some self) f ?s3 = (Inr ?w, ?s3)"
    by (rule GetField_scalar [OF m3]) (use assms(3,4) in simp_all)
  have memo: "memo_hash self ?s1 = (Inr ?c, ?s3)"
    using o(1-3) by (simp add: memo_hash_def rv_hv_def bind_xs_def deref_def alloc_def then_xs_def rv_update_def)
  have "fast_get E f self s = (Inr ?w, ?t)"
    using assms(5,6) o(1,5) d h3(1) get memo
    by (simp add: fast_get_def rv_update_def bind_xs_Inr [of _ ?s1] bind_xs_Inr [of _ ?s3] bind_xs_Inr [of "fdef f" ?s1, OF fdef_Some]
        del: heap_write_ref)
  moreover have "message_object ?t self msg arena M"
    by (rule message_object_unblessed(1) [OF m3 h3(1)]) simp
  moreover have "heap_ok ?t" using assms(2) o(2) by (auto simp: heap_ok_def less_Suc_eq)
  moreover have "memo_holds ?t self (fd_name d) ?w"
  proof -
    have "heap ?t a = Some (hv_store ''_cache'' (newRV ?c) (?F r))" "heap ?t ?c = Some (?G newHV)" using h3 ac by simp_all
    moreover from this have "PerlUpb_GetMagic ?t (Some self) = Some (m\<lparr>mg_private := mg_private m AND NOT PERL_UPB_MG_CACHE_DIRTY\<rparr>)"
      using o(1,4) by (simp add: PerlUpb_GetMagic_def deref_def del: heap_write_ref)
    ultimately show ?thesis
      using assms(6) o d(2) unfolding memo_holds_def
      by (auto simp: mg_flag_def mg_private_bits deref_def simp del: heap_write_ref)
  qed
  ultimately show thesis by (intro that [of ?t]) simp_all
qed

section \<open>Memo and message\<close>

lemma mark_dirty_object:
  assumes "message_object s self msg arena M"
  shows "message_object (mark_dirty self s) self msg arena M" "heap_ok (mark_dirty self s) = heap_ok s"
    "defs (mark_dirty self s) = defs s"
    "mg_flag (PerlUpb_GetMagic (mark_dirty self s) (Some self)) PERL_UPB_MG_PROFILE_WRITE_HEAVY =
       mg_flag (PerlUpb_GetMagic s (Some self)) PERL_UPB_MG_PROFILE_WRITE_HEAVY"
    "\<not> mg_flag (PerlUpb_GetMagic s (Some self)) PERL_UPB_MG_PROFILE_WRITE_HEAVY \<Longrightarrow>
       mg_flag (PerlUpb_GetMagic (mark_dirty self s) (Some self)) PERL_UPB_MG_CACHE_DIRTY"
proof -
  let ?G = "\<lambda>m. m\<lparr>mg_private := mg_private m OR PERL_UPB_MG_CACHE_DIRTY\<rparr>"
  obtain a r m where o: "sv_rok self = Some a" "heap s a = Some r" "mg_findext r Wrapper_vtbl = Some m"
    "PerlUpb_GetMagic s (Some self) = Some m"
    using assms by (rule message_object_self)
  have md: "mark_dirty self s = (if mg_flag (Some m) PERL_UPB_MG_PROFILE_WRITE_HEAVY then s else write_ref a (mg_update Wrapper_vtbl ?G) s)"
    using o by (simp add: mark_dirty_def rv_update_def)
  have mg: "PerlUpb_GetMagic (write_ref a (mg_update Wrapper_vtbl ?G) s) (Some self) = Some (?G m)"
    using o by (simp add: PerlUpb_GetMagic_def deref_def)
  show "message_object (mark_dirty self s) self msg arena M"
    using message_object_write [OF assms keeps_object_intros(2)] assms by (auto simp: md)
  show "heap_ok (mark_dirty self s) = heap_ok s" "defs (mark_dirty self s) = defs s" by (simp_all add: md)
  show "mg_flag (PerlUpb_GetMagic (mark_dirty self s) (Some self)) PERL_UPB_MG_PROFILE_WRITE_HEAVY =
      mg_flag (PerlUpb_GetMagic s (Some self)) PERL_UPB_MG_PROFILE_WRITE_HEAVY"
    using mg o(4) by (auto simp: md mg_flag_def mg_private_bits)
  show "\<not> mg_flag (PerlUpb_GetMagic s (Some self)) PERL_UPB_MG_PROFILE_WRITE_HEAVY \<Longrightarrow>
      mg_flag (PerlUpb_GetMagic (mark_dirty self s) (Some self)) PERL_UPB_MG_CACHE_DIRTY"
    using mg o(4) by (auto simp: md mg_flag_def PERL_UPB_MG_CACHE_DIRTY_def)
qed

text \<open>Setting through the accessor.\<close>

definition after_fast_set :: "upb_st \<Rightarrow> sv \<Rightarrow> ptr \<Rightarrow> ptr \<Rightarrow> upb_MessageValue \<Rightarrow> upb_Message \<Rightarrow> upb_st" where
  "after_fast_set s self msg f x M = mark_dirty self (put_message msg (set_base_field (defs s) f x M) s)"

lemma fast_set_eq:
  assumes "message_object s self msg arena M" "scalar_field (defs s) f d" "SvOK v" "elem_value E f arena s v = Some x"
  shows "PerlUpb_FastAccessor E f [self, v] s = (Inr [], after_fast_set s self msg f x M)"
proof -
  have "PerlUpb_IsXSBacked s (Some self)" using assms(1) by (rule message_object_self)
  then show ?thesis
    by (simp add: PerlUpb_FastAccessor_def fast_set_def after_fast_set_def
        then_xs_Inr [of "PerlUpb_Message_SetField E (Some self) f v" s, OF SetField_scalar(1) [OF assms]])
qed

lemma fast_get_eq:
  assumes "message_object s self msg arena M"
  shows "PerlUpb_FastAccessor E f [self] s = bind_xs (fast_get E f self) (\<lambda>v. ret [v]) s"
proof -
  have "PerlUpb_IsXSBacked s (Some self)" using assms by (rule message_object_self)
  then show ?thesis by (simp add: PerlUpb_FastAccessor_def)
qed

lemma GetMagic_put: "PerlUpb_GetMagic (put_message p N s) v = PerlUpb_GetMagic s v"
  by (simp add: PerlUpb_GetMagic_def deref_cong [of "put_message p N s" s])

lemma fast_read_back:
  assumes "message_object s self msg arena M" "heap_ok s" "scalar_field (defs s) f d" "SvOK v" "elem_value E f arena s v = Some x"
    and "t = after_fast_set s self msg f x M" "w = perl_value (fd_type d) x"
    and "\<not> mg_flag (PerlUpb_GetMagic s (Some self)) PERL_UPB_MG_PROFILE_WRITE_HEAVY"
  obtains u where "fast_get E f self t = (Inr w, u)" "memo_holds u self (fd_name d) w" "defs u = defs s"
    "message_object u self msg arena (set_base_field (defs s) f x M)"
proof -
  let ?N = "set_base_field (defs s) f x M"
  have d: "fdefs (defs s) f = Some d" "\<not> fd_is_extension d" using assms(3) by (auto simp: scalar_field_def)
  have fv: "field_value d f ?N = x" using d by (simp add: field_value_def map_of_set_base_field)
  note n = message_object_put [OF assms(1), of ?N]
  note md = mark_dirty_object [OF n]
  show thesis
    by (rule fast_get_dirty [OF md(1), of f d E, unfolded fv, folded after_fast_set_def assms(6,7)])
      (use md assms(2,3,8) SetField_scalar(2) [OF assms(1,3,4,5)] in \<open>auto simp: after_fast_set_def assms(6) GetMagic_put intro: that\<close>)
qed

text \<open>
  C12: The generated accessor is coherent with itself: after setting a scalar field through it,
  reading through it gives the value that was set, whatever the memo of earlier reads
  held, and reading again gives the same value without touching the state; this holds
  with and without the write-heavy profile.
\<close>

theorem fast_accessor_set_get:
  assumes "message_object s self msg arena M" "heap_ok s" "scalar_field (defs s) f d" "SvOK v" "elem_value E f arena s v = Some x"
  shows "\<exists>t u. PerlUpb_FastAccessor E f [self, v] s = (Inr [], t) \<and>
    PerlUpb_FastAccessor E f [self] t = (Inr [perl_value (fd_type d) x], u) \<and>
    PerlUpb_FastAccessor E f [self] u = (Inr [perl_value (fd_type d) x], u)"
proof -
  let ?t = "after_fast_set s self msg f x M" and ?N = "set_base_field (defs s) f x M" and ?w = "perl_value (fd_type d) x"
  have d: "fdefs (defs s) f = Some d" "\<not> fd_is_extension d" using assms(3) by (auto simp: scalar_field_def)
  note set = fast_set_eq [OF assms(1,3-5)]
  note md = mark_dirty_object [OF message_object_put [OF assms(1), of ?N], folded after_fast_set_def]
  show ?thesis
  proof (cases "mg_flag (PerlUpb_GetMagic s (Some self)) PERL_UPB_MG_PROFILE_WRITE_HEAVY")
    case True
    have "field_value d f ?N = x" using d by (simp add: field_value_def map_of_set_base_field)
    then have "PerlUpb_Message_GetField E (Some self) f ?t = (Inr ?w, ?t)"
      using GetField_scalar [OF md(1), of f d E] md(3) assms(3) SetField_scalar(2) [OF assms(1,3-5)] by simp
    then have "fast_get E f self ?t = (Inr ?w, ?t)"
      using True md(4) by (simp add: fast_get_def GetMagic_put)
    then have "PerlUpb_FastAccessor E f [self] ?t = (Inr [?w], ?t)"
      using fast_get_eq [OF md(1), of E f] by (simp add: bind_xs_Inr [of _ ?t])
    then show ?thesis using set by blast
  next
    case False
    obtain u where u: "fast_get E f self ?t = (Inr ?w, u)" "memo_holds u self (fd_name d) ?w" "defs u = defs s"
      "message_object u self msg arena ?N"
      by (rule fast_read_back [OF assms refl refl False])
    have "PerlUpb_FastAccessor E f [self] ?t = (Inr [?w], u)"
      using fast_get_eq [OF md(1), of E f] u(1) by (simp add: bind_xs_Inr [of _ ?t])
    moreover have "PerlUpb_FastAccessor E f [self] u = (Inr [?w], u)"
      using fast_get_eq [OF u(4), of E f] fast_get_hit [OF u(2), of f E] u(3) d(1) by (simp add: bind_xs_Inr [of _ u])
    ultimately show ?thesis using set by blast
  qed
qed

text \<open>
  The generated getter can be stale: once it has been read, a write of the same field with
  \<open>PerlUpb_Message_SetField\<close>, which the generic \<open>set\<close> method uses and which does not mark
  the memo, changes the message, as \<open>PerlUpb_Message_GetField\<close> shows, but the getter goes
  on returning the old value.
\<close>

theorem fast_getter_stale:
  assumes "message_object s self msg arena M" "heap_ok s" "scalar_field (defs s) f d" "SvOK v" "elem_value E f arena s v = Some x"
    and "\<not> mg_flag (PerlUpb_GetMagic s (Some self)) PERL_UPB_MG_PROFILE_WRITE_HEAVY"
    and "SvOK v'" "\<forall>u. defs u = defs s \<and> ample arena u \<longrightarrow> elem_value E f arena u v' = Some x'"
  shows "\<exists>t u y. PerlUpb_FastAccessor E f [self, v] s = (Inr [], t) \<and>
    PerlUpb_FastAccessor E f [self] t = (Inr [perl_value (fd_type d) x], u) \<and>
    PerlUpb_Message_SetField E (Some self) f v' u = (Inr (), y) \<and>
    PerlUpb_Message_GetField E (Some self) f y = (Inr (perl_value (fd_type d) x'), y) \<and>
    PerlUpb_FastAccessor E f [self] y = (Inr [perl_value (fd_type d) x], y)"
proof -
  let ?t = "after_fast_set s self msg f x M" and ?N = "set_base_field (defs s) f x M" and ?w = "perl_value (fd_type d) x"
  have d: "fdefs (defs s) f = Some d" "\<not> fd_is_extension d" using assms(3) by (auto simp: scalar_field_def)
  note md = mark_dirty_object [OF message_object_put [OF assms(1), of ?N], folded after_fast_set_def]
  obtain u where u: "fast_get E f self ?t = (Inr ?w, u)" "memo_holds u self (fd_name d) ?w" "defs u = defs s"
    "message_object u self msg arena ?N"
    by (rule fast_read_back [OF assms(1-5) refl refl assms(6)])
  have first: "PerlUpb_FastAccessor E f [self] ?t = (Inr [?w], u)"
    using fast_get_eq [OF md(1), of E f] u(1) by (simp add: bind_xs_Inr [of _ ?t])
  let ?K = "set_base_field (defs u) f x' ?N" and ?y = "put_message msg (set_base_field (defs u) f x' ?N) u"
  have "elem_value E f arena u v' = Some x'" using assms(8) u(3,4) by (simp add: message_object_def)
  with u(3,4) assms(3,7) have set: "PerlUpb_Message_SetField E (Some self) f v' u = (Inr (), ?y)" "value_of_type (fd_type d) x'"
    using SetField_scalar [of u self msg arena ?N f d v' E x'] by simp_all
  note y = message_object_put [OF u(4), of ?K]
  have "field_value d f ?K = x'" using d by (simp add: field_value_def map_of_set_base_field)
  then have "PerlUpb_Message_GetField E (Some self) f ?y = (Inr (perl_value (fd_type d) x'), ?y)"
    using GetField_scalar [OF y, of f d E] u(3) assms(3) set(2) by simp
  moreover have "fast_get E f self ?y = (Inr ?w, ?y)"
    using fast_get_hit [of ?y self d ?w f E] u(2,3) d(1) by (simp add: memo_holds_put)
  then have "PerlUpb_FastAccessor E f [self] ?y = (Inr [?w], ?y)"
    using fast_get_eq [OF y, of E f] by (simp add: bind_xs_Inr [of _ ?y])
  ultimately show ?thesis using fast_set_eq [OF assms(1,3-5)] first set(1) by blast
qed

lemma msg_boot_heap_ok: "heap_ok msg_boot"
  by (auto simp: heap_ok_def msg_boot_def split: if_splits)

lemma msg_boot_flag_values:
  assumes "defs u = ex_defs"
  shows "elem_value ex_env 0x160 0x2000 u (newSViv w) = Some (Val_bool (w \<noteq> 0))"
proof -
  have d: "fdefs (defs u) 0x160 = Some (the (fdefs ex_defs 0x160))" using assms by (simp add: ex_defs_def)
  show ?thesis
    by (simp add: elem_value_def Element_at [OF d] convert_branches(7) [OF d] ex_defs_def ex_field_def SvTRUE_def sv_defs)
qed

theorem fast_accessor_set_get_witness:
  "\<exists>t u. PerlUpb_FastAccessor ex_env 0x160 [newRV 1, newSViv 1] msg_boot = (Inr [], t) \<and>
    PerlUpb_FastAccessor ex_env 0x160 [newRV 1] t = (Inr [PL_sv_yes], u)"
  using fast_accessor_set_get [OF msg_boot_object msg_boot_heap_ok, of "0x160" "the (fdefs ex_defs 0x160)" "newSViv 1" ex_env "Val_bool True"]
    ex_scalars(2) msg_boot_flag_values [of msg_boot 1]
  by (auto simp: perl_value_def)

theorem fast_getter_stale_witness:
  "\<exists>t u y. PerlUpb_FastAccessor ex_env 0x160 [newRV 1, newSViv 1] msg_boot = (Inr [], t) \<and>
    PerlUpb_FastAccessor ex_env 0x160 [newRV 1] t = (Inr [PL_sv_yes], u) \<and>
    PerlUpb_Message_SetField ex_env (Some (newRV 1)) 0x160 (newSViv 0) u = (Inr (), y) \<and>
    PerlUpb_FastAccessor ex_env 0x160 [newRV 1] y = (Inr [PL_sv_yes], y)"
proof -
  have "\<not> mg_flag (PerlUpb_GetMagic msg_boot (Some (newRV 1))) PERL_UPB_MG_PROFILE_WRITE_HEAVY"
    by (simp add: mg_flag_def PerlUpb_GetMagic_def msg_boot_def)
  then show ?thesis
    using fast_getter_stale [OF msg_boot_object msg_boot_heap_ok, of "0x160" "the (fdefs ex_defs 0x160)" "newSViv 1" ex_env "Val_bool True" "newSViv 0" "Val_bool False"]
      ex_scalars(2) msg_boot_flag_values [of _ 1] msg_boot_flag_values [of _ 0]
    by (auto simp: perl_value_def)
qed

end
