(* ===== verification/Serialize.thy ===== *)
theory Serialize
  imports Message_Access Wire
begin

text \<open>
  Serialization (\<open>xs/message/serialize.c\<close>): the wire, text and JSON formats to and from
  Perl strings and file handles, and the framing of messages on a handle by their length.
  The codecs themselves are the record \<open>upb_codec\<close>. \<open>malloc\<close> of the C library is taken to
  succeed; \<open>upb_Arena_Malloc\<close> may fail. A handle is found by the address its reference
  holds.
\<close>

section \<open>File handles\<close>

text \<open>\<open>sv_2io\<close> croaks itself when the scalar is no handle, so the test for null is never taken.\<close>

definition sv_2io :: "sv \<Rightarrow> (upb_st, addr \<times> perlio) xs" where
  "sv_2io v = (\<lambda>s. case Option.bind (sv_rok v) (\<lambda>a. map_option (Pair a) (ios s a)) of
     None \<Rightarrow> (Inl (Croak ''Bad filehandle'' []), s) | Some h \<Rightarrow> (Inr h, s))"

definition put_io :: "addr \<Rightarrow> perlio \<Rightarrow> upb_st \<Rightarrow> upb_st" where
  "put_io h io s = s\<lparr>ios := (ios s)(h \<mapsto> io)\<rparr>"

definition io_at :: "addr \<Rightarrow> (upb_st, perlio) xs" where
  "io_at h = (\<lambda>s. case ios s h of None \<Rightarrow> (Inl (Fault ''access to a closed handle''), s) | Some io \<Rightarrow> (Inr io, s))"

text \<open>
  \<open>PerlIO_read\<close> of \<open>n\<close> bytes: at most what is left, and at most what the next entry of
  \<open>io_reads\<close> allows (an empty result is the end of the file or an error).
\<close>

definition PerlIO_read :: "addr \<Rightarrow> nat \<Rightarrow> (upb_st, byte list) xs" where
  "PerlIO_read h n =
     bind_xs (io_at h) (\<lambda>io.
     case io_in io of
       None \<Rightarrow> fault ''read from a handle that is not open for reading''
     | Some bs \<Rightarrow>
         let k = min n (case io_reads io of [] \<Rightarrow> n | x # _ \<Rightarrow> x)
         in then_xs (modify_xs (put_io h (io\<lparr>io_in := Some (drop k bs), io_reads := tl (io_reads io)\<rparr>))) (ret (take k bs)))"

definition PerlIO_write :: "addr \<Rightarrow> byte list \<Rightarrow> (upb_st, nat) xs" where
  "PerlIO_write h bs =
     bind_xs (io_at h) (\<lambda>io.
     case io_out io of
       None \<Rightarrow> fault ''write to a handle that is not open for writing''
     | Some out \<Rightarrow>
         let k = min (length bs) (case io_writes io of [] \<Rightarrow> length bs | x # _ \<Rightarrow> x)
         in then_xs (modify_xs (put_io h (io\<lparr>io_out := Some (out @ take k bs), io_writes := tl (io_writes io)\<rparr>))) (ret k))"

section \<open>The wire format\<close>

text \<open>\<open>upb_Decode\<close> into a message that may be null.\<close>

definition decode_into :: "upb_codec \<Rightarrow> byte list \<Rightarrow> ptr \<Rightarrow> ptr \<Rightarrow> ptr \<Rightarrow> (upb_st, upb_DecodeStatus) xs" where
  "decode_into C data msg mt arena =
     (if msg = NULL then fault ''decode into a null message'' else upb_Decode C data msg mt NULL 0 arena)"

definition PerlUpb_Message_Parse :: "perl_env \<Rightarrow> upb_codec \<Rightarrow> sv option \<Rightarrow> sv \<Rightarrow> (upb_st, sv) xs" where
  "PerlUpb_Message_Parse E C descriptor_sv data_sv =
     bind_xs (PerlUpb_MessageDef_GetMessage descriptor_sv) (\<lambda>m.
     if m = NULL then croak ''descriptor_sv must be a Protobuf::MessageDescriptor'' []
     else bind_xs (SvPVbyte_xs (num E) data_sv) (\<lambda>data.
       bind_xs PerlUpb_Arena_New (\<lambda>arena_sv.
       bind_xs (PerlUpb_Arena_Get (Some arena_sv)) (\<lambda>arena.
       bind_xs (mdef m) (\<lambda>d.
       if md_minitable d = NULL then croak ''Failed to get MiniTable for message'' []
       else bind_xs (upb_Message_New arena) (\<lambda>msg.
         if msg = NULL then croak ''Failed to allocate upb_Message'' []
         else bind_xs (decode_into C data msg (md_minitable d) arena) (\<lambda>status.
           then_xs (if status \<noteq> kUpb_DecodeStatus_Ok then PerlUpb_DecodeStatus_Die status (Some ''parse message'') else ret ())
           (PerlUpb_WrapMessage msg m (Some arena_sv) 0))))))))"

definition PerlUpb_Message_ParseFrom :: "perl_env \<Rightarrow> upb_codec \<Rightarrow> sv option \<Rightarrow> sv \<Rightarrow> (upb_st, unit) xs" where
  "PerlUpb_Message_ParseFrom E C message_sv data_sv =
     bind_xs (PerlUpb_Message_GetMsg message_sv) (\<lambda>msg.
     bind_xs (PerlUpb_Message_GetDef message_sv) (\<lambda>m.
     if msg = NULL \<or> m = NULL then croak ''Invalid message object'' []
     else bind_xs (SvPVbyte_xs (num E) data_sv) (\<lambda>data.
       bind_xs (gets_xs (\<lambda>s. PerlUpb_Message_GetArena s message_sv)) (\<lambda>arena_sv.
       bind_xs (PerlUpb_Arena_Get arena_sv) (\<lambda>arena.
       bind_xs (mdef m) (\<lambda>d.
       bind_xs (decode_into C data msg (md_minitable d) arena) (\<lambda>status.
       if status \<noteq> kUpb_DecodeStatus_Ok then PerlUpb_DecodeStatus_Die status (Some ''parse and merge message'') else ret ())))))))"

definition kUpb_EncodeOption_Deterministic :: int where "kUpb_EncodeOption_Deterministic = 1"
definition kUpb_EncodeOption_CheckRequired :: int where "kUpb_EncodeOption_CheckRequired = 4"

text \<open>The two serializers differ in their options and in the text of their errors.\<close>

definition serialize_with :: "upb_codec \<Rightarrow> int \<Rightarrow> string \<Rightarrow> sv option \<Rightarrow> (upb_st, sv) xs" where
  "serialize_with C options what message_sv =
     bind_xs (PerlUpb_Message_GetMsg message_sv) (\<lambda>msg.
     bind_xs (PerlUpb_Message_GetDef message_sv) (\<lambda>m.
     if msg = NULL \<or> m = NULL then croak ''Invalid message object'' []
     else bind_xs (mdef m) (\<lambda>d.
       if md_minitable d = NULL then croak ''Failed to get MiniTable'' []
       else bind_xs (PerlUpb_Arena_Acquire PERL_UPB_LIFECYCLE_TRANSIENT) (\<lambda>enc_arena.
         bind_xs (upb_Encode C msg (md_minitable d) options enc_arena) (\<lambda>(status, buf).
         then_xs (PerlUpb_Arena_Release enc_arena PERL_UPB_LIFECYCLE_TRANSIENT)
         (if status = kUpb_EncodeStatus_Ok then ret (newSVpvn buf)
          else if status = kUpb_EncodeStatus_MissingRequired
          then croak (what @ '': Missing required fields'') []
          else croak (what @ '': %d'') [CInt (encode_status_num status)]))))))"

definition PerlUpb_Message_Serialize :: "upb_codec \<Rightarrow> sv option \<Rightarrow> (upb_st, sv) xs" where
  "PerlUpb_Message_Serialize C = serialize_with C kUpb_EncodeOption_CheckRequired ''Failed to serialize message''"

definition PerlUpb_Message_Serialize_Deterministic :: "upb_codec \<Rightarrow> sv option \<Rightarrow> (upb_st, sv) xs" where
  "PerlUpb_Message_Serialize_Deterministic C =
     serialize_with C (kUpb_EncodeOption_Deterministic OR kUpb_EncodeOption_CheckRequired)
       ''Failed to serialize message deterministically''"

section \<open>Text and JSON\<close>

text \<open>
  The encoders are called twice, first without a buffer for the size, then with a buffer
  of that size and one byte more.
\<close>

definition second_pass :: "byte list \<Rightarrow> byte list \<Rightarrow> (upb_st, byte list) xs" where
  "second_pass first second =
     (if Suc (length first) < length second then fault ''read past the end of the buffer'' else ret second)"

definition PerlUpb_Message_ToText :: "upb_codec \<Rightarrow> sv option \<Rightarrow> (upb_st, sv) xs" where
  "PerlUpb_Message_ToText C message_sv =
     bind_xs (PerlUpb_Message_GetMsg message_sv) (\<lambda>msg.
     bind_xs (PerlUpb_Message_GetDef message_sv) (\<lambda>m.
     if msg = NULL \<or> m = NULL then croak ''Invalid message object'' []
     else bind_xs (upb_TextEncode C msg m) (\<lambda>first.
       bind_xs (upb_TextEncode C msg m) (\<lambda>second.
       bind_xs (second_pass first second) (\<lambda>buf. ret (SvUTF8_on (newSVpvn buf)))))))"

definition json_text :: "upb_codec \<Rightarrow> ptr \<Rightarrow> ptr \<Rightarrow> (upb_st, byte list) xs" where
  "json_text C msg m =
     bind_xs (mdef m) (\<lambda>d.
     bind_xs (filedef (md_file d)) (\<lambda>file.
     bind_xs (upb_JsonEncode C msg m (file_pool file)) (\<lambda>first.
     case first of
       Inl err \<Rightarrow> croak ''JSON Encode error: %s'' [CStr err]
     | Inr first \<Rightarrow>
         bind_xs (upb_JsonEncode C msg m (file_pool file)) (\<lambda>second.
         case second of
           Inl err \<Rightarrow> croak ''JSON Encode error: %s'' [CStr err]
         | Inr second \<Rightarrow> second_pass first second))))"

definition PerlUpb_Message_ToJson :: "upb_codec \<Rightarrow> sv option \<Rightarrow> (upb_st, sv) xs" where
  "PerlUpb_Message_ToJson C message_sv =
     bind_xs (PerlUpb_Message_GetMsg message_sv) (\<lambda>msg.
     bind_xs (PerlUpb_Message_GetDef message_sv) (\<lambda>m.
     if msg = NULL \<or> m = NULL then croak ''Invalid message object'' []
     else bind_xs (json_text C msg m) (\<lambda>buf. ret (SvUTF8_on (newSVpvn buf)))))"

definition PerlUpb_Message_JsonToHandle :: "upb_codec \<Rightarrow> sv option \<Rightarrow> sv \<Rightarrow> (upb_st, unit) xs" where
  "PerlUpb_Message_JsonToHandle C message_sv fh_sv =
     bind_xs (PerlUpb_Message_GetMsg message_sv) (\<lambda>msg.
     bind_xs (PerlUpb_Message_GetDef message_sv) (\<lambda>m.
     if msg = NULL \<or> m = NULL then croak ''Invalid message object'' []
     else bind_xs (sv_2io fh_sv) (\<lambda>(h, io).
       if io_out io = None then croak ''File handle not open for writing'' []
       else bind_xs (json_text C msg m) (\<lambda>buf. bind_xs (PerlIO_write h buf) (\<lambda>_. ret ())))))"

definition upb_JsonDecode_IgnoreUnknown :: int where "upb_JsonDecode_IgnoreUnknown = 1"

definition json_options :: "upb_st \<Rightarrow> sv option \<Rightarrow> int" where
  "json_options s options_sv =
     (case deref s options_sv of
        None \<Rightarrow> 0
      | Some r \<Rightarrow>
          (case hv_fetch r ''ignore_unknown'' of
             None \<Rightarrow> 0
           | Some v \<Rightarrow> if SvTRUE v then upb_JsonDecode_IgnoreUnknown else 0))"

definition PerlUpb_Message_FromJson :: "perl_env \<Rightarrow> upb_codec \<Rightarrow> sv option \<Rightarrow> sv \<Rightarrow> sv option \<Rightarrow> (upb_st, sv) xs" where
  "PerlUpb_Message_FromJson E C descriptor_sv json_sv options_sv =
     bind_xs (PerlUpb_MessageDef_GetMessage descriptor_sv) (\<lambda>m.
     if m = NULL then croak ''descriptor_sv must be a Protobuf::MessageDescriptor'' []
     else bind_xs (gets_xs (\<lambda>s. json_options s options_sv)) (\<lambda>options.
       bind_xs PerlUpb_Arena_New (\<lambda>arena_sv.
       bind_xs (PerlUpb_Arena_Get (Some arena_sv)) (\<lambda>arena.
       bind_xs (mdef m) (\<lambda>d.
       if md_minitable d = NULL then croak ''Failed to get MiniTable for message'' []
       else bind_xs (upb_Message_New arena) (\<lambda>msg.
         if msg = NULL then croak ''Failed to allocate upb_Message'' []
         else bind_xs (filedef (md_file d)) (\<lambda>file.
           bind_xs (upb_JsonDecode C (SvPVutf8 (num E) json_sv) msg m (file_pool file) options arena) (\<lambda>err.
           case err of
             Some err \<Rightarrow> croak ''Failed to parse JSON: %s'' [CStr err]
           | None \<Rightarrow> PerlUpb_WrapMessage msg m (Some arena_sv) 0))))))))"

section \<open>Messages on a handle\<close>

text \<open>The result of the write is not looked at.\<close>

definition WriteVarint :: "addr \<Rightarrow> u64 \<Rightarrow> (upb_st, unit) xs" where
  "WriteVarint h val = bind_xs (PerlIO_write h (varint_bytes val)) (\<lambda>_. ret ())"

definition PerlUpb_Message_ToHandle :: "upb_codec \<Rightarrow> sv option \<Rightarrow> sv \<Rightarrow> bool \<Rightarrow> (upb_st, unit) xs" where
  "PerlUpb_Message_ToHandle C message_sv fh_sv length_prefixed =
     bind_xs (PerlUpb_Message_GetMsg message_sv) (\<lambda>msg.
     bind_xs (PerlUpb_Message_GetDef message_sv) (\<lambda>m.
     if msg = NULL \<or> m = NULL then croak ''Invalid message object'' []
     else bind_xs (sv_2io fh_sv) (\<lambda>(h, io).
       if io_out io = None then croak ''File handle not open for writing'' []
       else bind_xs (mdef m) (\<lambda>d.
         bind_xs (PerlUpb_Arena_Acquire PERL_UPB_LIFECYCLE_TRANSIENT) (\<lambda>enc_arena.
         bind_xs (upb_Encode C msg (md_minitable d) kUpb_EncodeOption_CheckRequired enc_arena) (\<lambda>(status, buf).
         if status \<noteq> kUpb_EncodeStatus_Ok
         then then_xs (PerlUpb_Arena_Release enc_arena PERL_UPB_LIFECYCLE_TRANSIENT)
                (croak ''Serialization failed: %d'' [CInt (encode_status_num status)])
         else
           then_xs (if length_prefixed then WriteVarint h (of_nat (length buf)) else ret ())
           (bind_xs (if 0 < length buf then PerlIO_write h buf else ret (length buf)) (\<lambda>written.
            then_xs (PerlUpb_Arena_Release enc_arena PERL_UPB_LIFECYCLE_TRANSIENT)
            (if written < length buf
             then croak ''Failed to write full message to handle: %d of %zu bytes written'' [CInt (int written), CInt (int (length buf))]
             else ret ())))))))))"

text \<open>
  \<open>ReadVarint\<close> on a handle reads single bytes, which come or do not come; the entries of
  \<open>io_reads\<close> bound longer reads only.
\<close>

definition read_varint :: "addr \<Rightarrow> (upb_st, u64 \<times> bool) xs" where
  "read_varint h =
     bind_xs (io_at h) (\<lambda>io.
     case io_in io of
       None \<Rightarrow> fault ''read from a handle that is not open for reading''
     | Some bs \<Rightarrow>
         (case ReadVarint bs of
            (val, ok, rest) \<Rightarrow> then_xs (modify_xs (put_io h (io\<lparr>io_in := Some rest\<rparr>))) (ret (val, ok))))"

text \<open>
  The length-prefixed branch: \<open>None\<close> when no length could be read. The comparison of the
  bytes read with the length is signed, so a length of \<open>2 ^ 63\<close> or more passes it and the
  decoder would read past the buffer.
\<close>

definition read_prefixed :: "ptr \<Rightarrow> addr \<Rightarrow> (upb_st, byte list option) xs" where
  "read_prefixed arena h =
     bind_xs (read_varint h) (\<lambda>(total_to_read, ok).
     if \<not> ok then ret None
     else bind_xs (arena_malloc arena) (\<lambda>buf_ok.
       bind_xs (PerlIO_read h (unat total_to_read)) (\<lambda>bs.
       if \<not> buf_ok \<and> bs \<noteq> [] then fault ''read into a null buffer''
       else if int (length bs) < sint total_to_read
       then croak ''Unexpected EOF reading length-prefixed message: expected %zu, got %zd''
              [CInt (uint total_to_read), CInt (int (length bs))]
       else if length bs < unat total_to_read then fault ''decode past the end of the buffer''
       else ret (Some bs))))"

text \<open>
  The loop that reads to the end of the file; \<open>buf\<close> is what was read so far and
  \<open>capacity\<close> the size of the buffer (a buffer of \<open>2 ^ 63\<close> bytes, where doubling the
  capacity would wrap, does not exist).
\<close>

definition grow_buffer :: "ptr \<Rightarrow> nat \<Rightarrow> byte list \<Rightarrow> (upb_st, nat) xs" where
  "grow_buffer arena capacity buf =
     (if length buf = capacity
      then bind_xs (arena_malloc arena) (\<lambda>ok. if ok then ret (capacity * 2) else fault ''memcpy to a null pointer'')
      else ret capacity)"

definition io_left :: "addr \<Rightarrow> upb_st \<Rightarrow> nat" where
  "io_left h s = (case ios s h of None \<Rightarrow> 0 | Some io \<Rightarrow> (case io_in io of None \<Rightarrow> 0 | Some bs \<Rightarrow> length bs))"

lemma io_left_grow: "grow_buffer arena capacity buf s = (r, t) \<Longrightarrow> ios t = ios s"
  by (auto simp: grow_buffer_def arena_malloc_def bind_xs_def split: if_splits list.splits)

lemma io_left_read:
  assumes "PerlIO_read h n s = (Inr bs, t)" "bs \<noteq> []"
  shows "io_left h t < io_left h s"
  using assms
  by (auto simp: PerlIO_read_def io_at_def bind_xs_def then_xs_def put_io_def io_left_def Let_def
      split: option.splits list.splits)

lemma read_step_decreases:
  "(Inr c, t) = grow_buffer arena capacity buf s \<Longrightarrow> (Inr bs, u) = PerlIO_read h n t \<Longrightarrow> bs \<noteq> [] \<Longrightarrow> io_left h u < io_left h s"
  using io_left_read [of h n t bs u] io_left_grow [of arena capacity buf s "Inr c" t] by (simp add: io_left_def)

function read_to_eof :: "ptr \<Rightarrow> addr \<Rightarrow> nat \<Rightarrow> byte list \<Rightarrow> (upb_st, byte list) xs" where
  "read_to_eof arena h capacity buf s =
     (case grow_buffer arena capacity buf s of
        (Inl e, t) \<Rightarrow> (Inl e, t)
      | (Inr capacity, t) \<Rightarrow>
          (case PerlIO_read h (capacity - length buf) t of
             (Inl e, u) \<Rightarrow> (Inl e, u)
           | (Inr bs, u) \<Rightarrow> if bs = [] then (Inr buf, u) else read_to_eof arena h capacity (buf @ bs) u))"
  by pat_completeness auto
termination
  by (relation "measure (\<lambda>(_, h, _, _, s). io_left h s)") (auto intro: read_step_decreases dest: sym)

declare read_to_eof.simps [simp del]

definition read_all :: "ptr \<Rightarrow> addr \<Rightarrow> (upb_st, byte list) xs" where
  "read_all arena h =
     bind_xs (arena_malloc arena) (\<lambda>ok.
     if ok then read_to_eof arena h 4096 []
     else bind_xs (PerlIO_read h 4096) (\<lambda>bs. if bs = [] then ret [] else fault ''read into a null buffer''))"

definition PerlUpb_Message_FromHandle :: "upb_codec \<Rightarrow> sv option \<Rightarrow> sv \<Rightarrow> bool \<Rightarrow> (upb_st, sv) xs" where
  "PerlUpb_Message_FromHandle C descriptor_sv fh_sv length_prefixed =
     bind_xs (PerlUpb_MessageDef_GetMessage descriptor_sv) (\<lambda>m.
     if m = NULL then croak ''descriptor_sv must be a Protobuf::MessageDescriptor'' []
     else bind_xs (sv_2io fh_sv) (\<lambda>(h, io).
       if io_in io = None then croak ''File handle not open for reading'' []
       else bind_xs PerlUpb_Arena_New (\<lambda>arena_sv.
         bind_xs (PerlUpb_Arena_Get (Some arena_sv)) (\<lambda>arena.
         bind_xs (if length_prefixed then read_prefixed arena h else bind_xs (read_all arena h) (\<lambda>bs. ret (Some bs))) (\<lambda>data.
         case data of
           None \<Rightarrow> ret PL_sv_undef
         | Some data \<Rightarrow>
             bind_xs (mdef m) (\<lambda>d.
             bind_xs (upb_Message_New arena) (\<lambda>msg.
             bind_xs (decode_into C data msg (md_minitable d) arena) (\<lambda>status.
             then_xs (if status \<noteq> kUpb_DecodeStatus_Ok
                      then PerlUpb_DecodeStatus_Die status (Some ''parse message from handle'') else ret ())
             (PerlUpb_WrapMessage msg m (Some arena_sv) 0)))))))))"

section \<open>Reading to the end\<close>

lemma put_io_frame [simp]:
  "ample arena (put_io h io s) = ample arena s" "ios (put_io h io s) = (ios s)(h \<mapsto> io)"
  by (simp_all add: put_io_def ample_def)

lemma PerlIO_read_eq:
  assumes "ios s h = Some io" "io_in io = Some bs" "k = min n (case io_reads io of [] \<Rightarrow> n | x # _ \<Rightarrow> x)"
  shows "PerlIO_read h n s = (Inr (take k bs), put_io h (io\<lparr>io_in := Some (drop k bs), io_reads := tl (io_reads io)\<rparr>) s)"
  using assms by (simp add: PerlIO_read_def io_at_def bind_xs_def Let_def)

text \<open>What is left on a handle after \<open>data\<close> was read.\<close>

definition io_rest :: "upb_st \<Rightarrow> addr \<Rightarrow> byte list option" where
  "io_rest s h = Option.bind (ios s h) io_in"

lemma read_to_eof_spec:
  assumes "ios s h = Some io" "io_in io = Some bs" "ample arena s" "length buf \<le> capacity" "0 < capacity"
  shows "\<exists>data rest t. read_to_eof arena h capacity buf s = (Inr (buf @ data), t) \<and> bs = data @ rest \<and>
    io_rest t h = Some rest \<and> ((\<forall>n \<in> set (io_reads io). 0 < n) \<longrightarrow> rest = [])"
  using assms
proof (induction "length bs" arbitrary: bs buf capacity s io rule: less_induct)
  case less
  define room where "room = (if length buf = capacity then capacity * 2 else capacity)"
  have room: "grow_buffer arena capacity buf s = (Inr room, s)" "length buf < room"
    using less.prems(3-5) by (auto simp: grow_buffer_def room_def arena_malloc_ample bind_xs_def)
  define k where "k = min (room - length buf) (case io_reads io of [] \<Rightarrow> room - length buf | x # _ \<Rightarrow> x)"
  let ?io = "io\<lparr>io_in := Some (drop k bs), io_reads := tl (io_reads io)\<rparr>" and ?s = "put_io h (io\<lparr>io_in := Some (drop k bs), io_reads := tl (io_reads io)\<rparr>) s"
  have read: "PerlIO_read h (room - length buf) s = (Inr (take k bs), ?s)"
    by (rule PerlIO_read_eq [OF less.prems(1,2) k_def])
  have step: "read_to_eof arena h capacity buf s =
      (if take k bs = [] then (Inr buf, ?s) else read_to_eof arena h room (buf @ take k bs) ?s)"
    using room(1) read by (subst read_to_eof.simps) simp
  show ?case
  proof (cases "take k bs = []")
    case True
    then have "bs = [] \<or> k = 0" by auto
    moreover have "k = 0 \<Longrightarrow> \<exists>n \<in> set (io_reads io). n = 0"
      using room(2) by (auto simp: k_def split: list.splits)
    moreover have "drop k bs = bs" using True by auto
    ultimately show ?thesis using step True
      by (intro exI [of _ "[]"] exI [of _ bs] exI [of _ ?s]) (auto simp: io_rest_def)
  next
    case False
    have "length (drop k bs) < length bs" using False by auto
    moreover have "length (buf @ take k bs) \<le> room" using room(2) by (auto simp: k_def)
    ultimately have "\<exists>data rest t. read_to_eof arena h room (buf @ take k bs) ?s = (Inr ((buf @ take k bs) @ data), t) \<and>
        drop k bs = data @ rest \<and> io_rest t h = Some rest \<and> ((\<forall>n \<in> set (io_reads ?io). 0 < n) \<longrightarrow> rest = [])"
      using less.prems(3) room(2) by (intro less.hyps) simp_all
    then obtain data rest t where "read_to_eof arena h room (buf @ take k bs) ?s = (Inr ((buf @ take k bs) @ data), t)"
      "drop k bs = data @ rest" "io_rest t h = Some rest" "(\<forall>n \<in> set (io_reads ?io). 0 < n) \<longrightarrow> rest = []" by blast
    moreover have "bs = take k bs @ drop k bs" by simp
    moreover have "set (tl (io_reads io)) \<subseteq> set (io_reads io)" by (cases "io_reads io") auto
    ultimately show ?thesis using step False
      by (intro exI [of _ "take k bs @ data"] exI [of _ rest] exI [of _ t]) auto
  qed
qed


text \<open>The example state with a handle at address 5.\<close>

definition io_boot :: "byte list \<Rightarrow> nat list \<Rightarrow> upb_st" where
  "io_boot bs sizes = put_io 5 \<lparr>io_in = Some bs, io_reads = sizes, io_out = Some [], io_writes = []\<rparr> msg_boot"


section \<open>Framing\<close>

definition frame_bytes :: "byte list \<Rightarrow> byte list" where
  "frame_bytes bs = varint_bytes (of_nat (length bs)) @ bs"

lemma PerlIO_write_eq:
  assumes "ios s h = Some io" "io_out io = Some out" "io_writes io = []"
  shows "PerlIO_write h bs s = (Inr (length bs), put_io h (io\<lparr>io_out := Some (out @ bs), io_writes := []\<rparr>) s)"
  using assms by (simp add: PerlIO_write_def io_at_def bind_xs_def Let_def)

lemma read_prefixed_frame:
  assumes "ios s h = Some io" "io_in io = Some (frame_bytes bs @ rest)" "io_reads io = []" "ample arena s" "length bs < 2 ^ 63"
  shows "\<exists>t. read_prefixed arena h s = (Inr (Some bs), t) \<and> io_rest t h = Some rest"
proof -
  let ?n = "of_nat (length bs) :: u64"
  have n: "unat ?n = length bs" using assms(5) by (simp add: unsigned_of_nat take_bit_nat_eq_self_iff)
  then have "uint ?n = int (length bs)" by (simp add: uint_nat)
  then have n': "sint ?n = int (length bs)"
    using assms(5) by (simp add: sint_uint signed_take_bit_int_eq_self_iff)
  let ?s = "put_io h (io\<lparr>io_in := Some (bs @ rest)\<rparr>) s"
  have "read_varint h s = (Inr (?n, True), ?s)"
    using assms(1,2) by (simp add: read_varint_def io_at_def bind_xs_def frame_bytes_def ReadVarint_decode decode_varint_bytes)
  moreover have "arena_malloc arena ?s = (Inr True, ?s)" using assms(4) by (simp add: arena_malloc_ample)
  moreover have "PerlIO_read h (length bs) ?s = (Inr bs, put_io h (io\<lparr>io_in := Some rest, io_reads := []\<rparr>) ?s)"
    using PerlIO_read_eq [of ?s h "io\<lparr>io_in := Some (bs @ rest)\<rparr>" "bs @ rest" "length bs" "length bs"] assms(3) by simp
  ultimately show ?thesis
    using n n' by (auto simp: read_prefixed_def bind_xs_Inr [of _ s] bind_xs_Inr [of _ ?s] io_rest_def)
qed

text \<open>A transient arena for an encoder, acquired and released again.\<close>

lemma transient_arena:
  fixes s :: upb_st
  assumes "ready s" "cached_transient_arena (the (registry s)) = NULL" "arena_init_ok s = []"
  obtains a u where "PerlUpb_Arena_Acquire PERL_UPB_LIFECYCLE_TRANSIENT s = (Inr a, u)" "ios u = ios s" "messages u = messages s" "ready u"
    "\<forall>t :: upb_st. registry t = registry u \<and> ready t \<and> upb_arenas t = upb_arenas u \<longrightarrow>
      (\<exists>v. PerlUpb_Arena_Release a PERL_UPB_LIFECYCLE_TRANSIENT t = (Inr (), v) \<and> ios v = ios t)"
proof -
  obtain reg where reg: "registry s = Some reg" using assms(1) by (rule readyE)
  let ?u = "s\<lparr>next_ptr := next_ptr s + 256, arena_init_ok := [], upb_arenas := insert (next_ptr s) (upb_arenas s)\<rparr>"
  have acq: "PerlUpb_Arena_Acquire PERL_UPB_LIFECYCLE_TRANSIENT s = (Inr (next_ptr s), ?u)"
    using assms reg by (simp add: PerlUpb_Arena_Acquire_def ready_Registry_Get upb_Arena_Init_def)
  have "ready ?u" by (rule iffD2 [OF ready_cong assms(1)]) simp_all
  moreover have "\<exists>v. PerlUpb_Arena_Release (next_ptr s) PERL_UPB_LIFECYCLE_TRANSIENT t = (Inr (), v) \<and> ios v = ios t"
    if "registry t = registry ?u" "ready t" "upb_arenas t = upb_arenas ?u" for t :: upb_st
    using that reg by (simp add: PerlUpb_Arena_Release_def ready_Registry_Get upb_Arena_Free_def)
  ultimately show thesis using acq by (intro that [of "next_ptr s" ?u]) auto
qed

lemma put_io_ready: "ready s \<Longrightarrow> ready (put_io h io s)" "registry (put_io h io s) = registry s" "upb_arenas (put_io h io s) = upb_arenas s"
  by (rule iffD2 [OF ready_cong]) (simp_all add: put_io_def)

text \<open>
  C4: Messages on a handle: \<open>PerlUpb_Message_ToHandle\<close> with a length prefix appends the length
  and the encoded bytes to what the handle already holds (given an encoder that succeeds,
  and full writes), and from a handle that holds those bytes, followed by anything else,
  the reader of \<open>PerlUpb_Message_FromHandle\<close> takes exactly the encoded bytes to decode and
  leaves the rest for the next message; at the end of the file it reports that there is
  no message.
\<close>

theorem handle_framing_roundtrip:
  assumes "message_object s self msg arena M" "PerlUpb_Message_GetDef (Some self) s = (Inr m, s)" "m \<noteq> NULL" "mdefs (defs s) m = Some d"
    and "cached_transient_arena (the (registry s)) = NULL" "arena_init_ok s = []"
    and "sv_rok fh = Some h" "ios s h = Some io" "io_out io = Some out" "io_writes io = []"
    and "\<forall>a t. messages t = messages s \<longrightarrow>
      upb_Encode C msg (md_minitable d) kUpb_EncodeOption_CheckRequired a t = (Inr (kUpb_EncodeStatus_Ok, bs), t)"
    and "length bs < 2 ^ 63"
  shows "\<exists>t io'. PerlUpb_Message_ToHandle C (Some self) fh True s = (Inr (), t) \<and> ios t h = Some io' \<and>
    io_out io' = Some (out @ frame_bytes bs) \<and>
    (\<forall>r g ga rest. ios r g = Some \<lparr>io_in = Some (frame_bytes bs @ rest), io_reads = [], io_out = None, io_writes = []\<rparr> \<and> ample ga r \<longrightarrow>
      (\<exists>r'. read_prefixed ga g r = (Inr (Some bs), r') \<and> io_rest r' g = Some rest)) \<and>
    (\<forall>r g ga. ios r g = Some \<lparr>io_in = Some [], io_reads = [], io_out = None, io_writes = []\<rparr> \<longrightarrow>
      fst (read_prefixed ga g r) = Inr None)"
proof -
  obtain asv where o: "PerlUpb_Message_GetMsg (Some self) s = (Inr msg, s)" "msg \<noteq> NULL"
    using assms(1) by (rule message_objectE)
  have "ready s" using assms(1) by (simp add: message_object_def)
  from this assms(5,6) obtain a u where u: "PerlUpb_Arena_Acquire PERL_UPB_LIFECYCLE_TRANSIENT s = (Inr a, u)" "ios u = ios s"
    "messages u = messages s" "ready u"
    "\<forall>t :: upb_st. registry t = registry u \<and> ready t \<and> upb_arenas t = upb_arenas u \<longrightarrow>
      (\<exists>v. PerlUpb_Arena_Release a PERL_UPB_LIFECYCLE_TRANSIENT t = (Inr (), v) \<and> ios v = ios t)"
    by (rule transient_arena)
  let ?v = "varint_bytes (of_nat (length bs))"
  let ?io1 = "io\<lparr>io_out := Some (out @ ?v), io_writes := []\<rparr>" and ?io2 = "io\<lparr>io_out := Some ((out @ ?v) @ bs), io_writes := []\<rparr>"
  let ?u1 = "put_io h ?io1 u"
  define u2 where "u2 = (if bs = [] then ?u1 else put_io h ?io2 ?u1)"
  have enc: "upb_Encode C msg (md_minitable d) kUpb_EncodeOption_CheckRequired a u = (Inr (kUpb_EncodeStatus_Ok, bs), u)"
    using assms(11) u(3) by simp
  have w1: "WriteVarint h (of_nat (length bs)) u = (Inr (), ?u1)"
    using PerlIO_write_eq [of u h io out ?v] assms(8-10) u(2) by (simp add: WriteVarint_def bind_xs_def)
  have w2: "(if 0 < length bs then PerlIO_write h bs else ret (length bs)) ?u1 = (Inr (length bs), u2)"
    using PerlIO_write_eq [of ?u1 h ?io1 "out @ ?v" bs] by (simp add: u2_def)
  have "\<exists>v. PerlUpb_Arena_Release a PERL_UPB_LIFECYCLE_TRANSIENT u2 = (Inr (), v) \<and> ios v = ios u2"
    using u(4) spec [OF u(5), of u2] by (simp add: u2_def put_io_ready)
  then obtain v where v: "PerlUpb_Arena_Release a PERL_UPB_LIFECYCLE_TRANSIENT u2 = (Inr (), v)" "ios v = ios u2" by blast
  have "sv_2io fh s = (Inr (h, io), s)" "mdef m s = (Inr d, s)" using assms(4,7,8) by (simp_all add: sv_2io_def mdef_def)
  then have "PerlUpb_Message_ToHandle C (Some self) fh True s = (Inr (), v)"
    using o assms(2,3,9) u(1) enc w1 w2 v(1)
    by (simp add: PerlUpb_Message_ToHandle_def bind_xs_Inr [of _ s] bind_xs_Inr [of _ u] bind_xs_Inr [of _ ?u1] then_xs_Inr [of _ u]
        then_xs_Inr [of _ u2])
  moreover have "\<exists>io'. ios v h = Some io' \<and> io_out io' = Some (out @ frame_bytes bs)"
    using v(2) by (auto simp: u2_def frame_bytes_def)
  moreover have "\<exists>r'. read_prefixed ga g r = (Inr (Some bs), r') \<and> io_rest r' g = Some rest"
    if "ios r g = Some \<lparr>io_in = Some (frame_bytes bs @ rest), io_reads = [], io_out = None, io_writes = []\<rparr>" "ample ga r" for r g ga rest
    by (rule read_prefixed_frame [OF that(1) _ _ that(2) assms(12)]) simp_all
  moreover have "fst (read_prefixed ga g r) = Inr None"
    if "ios r g = Some \<lparr>io_in = Some [], io_reads = [], io_out = None, io_writes = []\<rparr>" for r g ga
    using that by (simp add: read_prefixed_def read_varint_def io_at_def bind_xs_def ReadVarint_decode decode_varint_def)
  ultimately show ?thesis by blast
qed

text \<open>A codec for evaluating the model: every message encodes to the same two bytes.\<close>

definition ex_codec :: upb_codec where
  "ex_codec = \<lparr>upb_Encode = (\<lambda>_ _ _ _. ret (kUpb_EncodeStatus_Ok, [8, 1])), upb_Decode = (\<lambda>_ _ _ _ _ _. ret kUpb_DecodeStatus_Ok),
     upb_TextEncode = (\<lambda>_ _. ret []), upb_JsonEncode = (\<lambda>_ _ _. ret (Inr [])), upb_JsonDecode = (\<lambda>_ _ _ _ _ _. ret None),
     upb_Message_IsEqual = (\<lambda>a b _ _. ret (a = b))\<rparr>"

theorem handle_framing_roundtrip_witness:
  "\<exists>t io'. PerlUpb_Message_ToHandle ex_codec (Some (newRV 1)) (newRV 5) True (io_boot [] []) = (Inr (), t) \<and> ios t 5 = Some io' \<and>
    io_out io' = Some (frame_bytes [8, 1])"
proof -
  let ?s = "io_boot [] []" and ?d = "the (mdefs ex_defs 0x100)"
  have obj: "message_object ?s (newRV 1) 0x3000 0x2000 \<lparr>um_fields = [], um_aux = [], um_aux_cap = None\<rparr>"
  proof -
    have "heap ?s = heap msg_boot" "isa ?s = isa msg_boot" "raw_arenas ?s = raw_arenas msg_boot" "upb_arenas ?s = upb_arenas msg_boot"
      "messages ?s = messages msg_boot" "stack_limit ?s = stack_limit msg_boot" "ample 0x2000 ?s = ample 0x2000 msg_boot" "ready ?s"
      using put_io_ready(1) [OF msg_boot_facts(15)] by (simp_all add: io_boot_def put_io_def ample_def)
    then show ?thesis
      using msg_boot_object bound_object_cong [of ?s msg_boot] arena_sv_ok_cong [of ?s msg_boot "0x2000"]
      by (auto simp: message_object_def ample_def)
  qed
  have def: "PerlUpb_Message_GetDef (Some (newRV 1)) ?s = (Inr 0x100, ?s)"
    by (simp add: PerlUpb_Message_GetDef_def rv_hv_def bind_xs_def io_boot_def put_io_def msg_boot_def)
  have md: "mdefs (defs ?s) 0x100 = Some ?d" by (simp add: io_boot_def put_io_def ex_defs_def)
  have reg: "cached_transient_arena (the (registry ?s)) = NULL" "arena_init_ok ?s = []"
    by (simp_all add: io_boot_def put_io_def msg_boot_def upb_boot_def cache_st.extend_def cache_boot_def perl_boot_def PerlUpb_ObjCache_Init_def
        PerlUpb_Registry_Get_def PerlUpb_Registry_Init_def bind_xs_def then_xs_def Let_def)
  have io: "ios ?s 5 = Some \<lparr>io_in = Some [], io_reads = [], io_out = Some [], io_writes = []\<rparr>" by (simp add: io_boot_def)
  have enc: "\<forall>a t. messages t = messages ?s \<longrightarrow>
      upb_Encode ex_codec 0x3000 (md_minitable ?d) kUpb_EncodeOption_CheckRequired a t = (Inr (kUpb_EncodeStatus_Ok, [8, 1]), t)"
    by (simp add: ex_codec_def)
  from handle_framing_roundtrip [OF obj def _ md reg sv_flags(5) io _ _ enc, of "[]"]
  show ?thesis by (elim exE conjE impE | simp)+
qed

end
