(* ===== verification/Extension_Dict.thy ===== *)
theory Extension_Dict
  imports Message_Access Unknown_Fields
begin

text \<open>
  Extension dictionaries (\<open>xs/extension_dict/dict.c\<close>) and their iterators
  (\<open>xs/extension_dict/iterator.c\<close>): objects that hold a message object and read and write
  its extensions by field descriptor.
\<close>

section \<open>Dictionaries\<close>

definition PerlUpb_ExtensionDict_New :: "sv \<Rightarrow> (upb_st, sv) xs" where
  "PerlUpb_ExtensionDict_New message_sv = new_struct_object ''Protobuf::ExtensionDict'' (CS_ExtensionDict message_sv)"

text \<open>The pointer, and the message object the structure holds.\<close>

definition GetDict :: "sv option \<Rightarrow> (upb_st, ptr) xs" where
  "GetDict v = struct_object_ptr ''Protobuf::ExtensionDict'' v"

definition dict_message :: "ptr \<Rightarrow> (upb_st, sv) xs" where
  "dict_message p =
     bind_xs (c_load p) (\<lambda>c. case c of CS_ExtensionDict m \<Rightarrow> ret m | _ \<Rightarrow> fault ''not an extension dictionary'')"

definition PerlUpb_ExtensionDict_GetItem :: "perl_env \<Rightarrow> sv option \<Rightarrow> sv option \<Rightarrow> (upb_st, sv) xs" where
  "PerlUpb_ExtensionDict_GetItem E self field_sv =
     bind_xs (GetDict self) (\<lambda>dict.
     if dict = NULL then ret PL_sv_undef
     else bind_xs (PerlUpb_FieldDef_GetField field_sv) (\<lambda>f.
       if f = NULL then croak ''Argument must be a FieldDescriptor'' []
       else bind_xs (dict_message dict) (\<lambda>message_sv.
         bind_xs (PerlUpb_Message_GetMsg (Some message_sv)) (\<lambda>msg.
         if msg = NULL then ret PL_sv_undef
         else bind_xs (fdef f) (\<lambda>d.
           if \<not> fd_is_extension d then croak ''Field is not an extension'' []
           else bind_xs (upb_Message_GetFieldByDef msg f) (\<lambda>val.
             bind_xs (gets_xs (\<lambda>s. PerlUpb_Message_GetArena s (Some message_sv))) (\<lambda>arena_sv.
             PerlUpb_UpbToSv E (Some val) f arena_sv)))))))"

definition PerlUpb_ExtensionDict_SetItem :: "perl_env \<Rightarrow> sv option \<Rightarrow> sv option \<Rightarrow> sv \<Rightarrow> (upb_st, unit) xs" where
  "PerlUpb_ExtensionDict_SetItem E self field_sv value_sv =
     bind_xs (GetDict self) (\<lambda>dict.
     if dict = NULL then ret ()
     else bind_xs (PerlUpb_FieldDef_GetField field_sv) (\<lambda>f.
       if f = NULL then croak ''Argument must be a FieldDescriptor'' []
       else bind_xs (fdef f) (\<lambda>d.
         if \<not> fd_is_extension d then croak ''Field is not an extension'' []
         else bind_xs (dict_message dict) (\<lambda>message_sv.
           bind_xs (gets_xs (\<lambda>s. PerlUpb_Message_GetArena s (Some message_sv))) (\<lambda>arena_sv.
           bind_xs (PerlUpb_Arena_Get arena_sv) (\<lambda>arena.
           bind_xs (PerlUpb_Message_GetMsg (Some message_sv)) (\<lambda>msg.
           bind_xs (PerlUpb_SvToUpb E value_sv f arena) (\<lambda>val.
           case val of
             None \<Rightarrow> croak ''Failed to convert value for extension field'' []
           | Some val \<Rightarrow> bind_xs (upb_Message_SetFieldByDef msg f val arena) (\<lambda>_. ret ())))))))))"

definition PerlUpb_ExtensionDict_Free :: "sv option \<Rightarrow> (upb_st, unit) xs" where
  "PerlUpb_ExtensionDict_Free v = struct_object_free ''Protobuf::ExtensionDict'' v"

definition PerlUpb_ExtensionDict_GetMessageSV :: "sv option \<Rightarrow> (upb_st, sv option) xs" where
  "PerlUpb_ExtensionDict_GetMessageSV self =
     bind_xs (GetDict self) (\<lambda>dict. if dict = NULL then ret None else bind_xs (dict_message dict) (\<lambda>m. ret (Some m)))"

definition PerlUpb_ExtensionDict_AuditIdentity :: "sv option \<Rightarrow> (upb_st, unit) xs" where
  "PerlUpb_ExtensionDict_AuditIdentity self =
     bind_xs (GetDict self) (\<lambda>dict.
     if dict = NULL then ret ()
     else bind_xs (dict_message dict) (\<lambda>message_sv.
       bind_xs (PerlUpb_Message_GetMsg (Some message_sv)) (\<lambda>msg.
       modify_xs (PerlUpb_ObjCache_LogEvent OBJ_CACHE_EVENT_HIT msg))))"

section \<open>Iterators\<close>

definition PerlUpb_ExtensionDict_GetIterator :: "sv option \<Rightarrow> (upb_st, sv) xs" where
  "PerlUpb_ExtensionDict_GetIterator dict_sv =
     bind_xs (PerlUpb_ExtensionDict_GetMessageSV dict_sv) (\<lambda>m.
     case m of
       None \<Rightarrow> ret PL_sv_undef
     | Some message_sv \<Rightarrow> new_struct_object ''Protobuf::ExtensionDictIterator'' (CS_ExtensionDictIterator message_sv 0))"

definition GetExtIter :: "sv option \<Rightarrow> (upb_st, ptr) xs" where
  "GetExtIter v = struct_object_ptr ''Protobuf::ExtensionDictIterator'' v"

text \<open>
  The loop that skips fields that are no extensions: the extension found, and the
  position of the iterator. Each round moves the position forward, so the number of
  fields and auxiliary entries bounds the rounds (\<open>ext_next_returns\<close>).
\<close>

fun ext_next_loop :: "nat \<Rightarrow> ptr \<Rightarrow> ptr \<Rightarrow> ptr \<Rightarrow> nat \<Rightarrow> (upb_st, ptr option \<times> nat) xs" where
  "ext_next_loop 0 msg m pool iter = fault ''out of fuel''"
| "ext_next_loop (Suc n) msg m pool iter =
     bind_xs (upb_Message_Next msg m pool iter) (\<lambda>(r, iter).
     case r of
       None \<Rightarrow> ret (None, iter)
     | Some (f, _) \<Rightarrow>
         bind_xs (fdef f) (\<lambda>d. if fd_is_extension d then ret (Some f, iter) else ext_next_loop n msg m pool iter))"

definition PerlUpb_ExtensionDict_Iterator_Next :: "sv option \<Rightarrow> (upb_st, sv) xs" where
  "PerlUpb_ExtensionDict_Iterator_Next self =
     bind_xs (GetExtIter self) (\<lambda>p.
     if p = NULL then ret PL_sv_undef
     else bind_xs (c_load p) (\<lambda>c.
       case c of
         CS_ExtensionDictIterator message_sv iter \<Rightarrow>
           bind_xs (PerlUpb_Message_GetMsg (Some message_sv)) (\<lambda>msg.
           if msg = NULL then ret PL_sv_undef
           else bind_xs (PerlUpb_Message_GetDef (Some message_sv)) (\<lambda>m.
             bind_xs (mdef m) (\<lambda>d.
             bind_xs (filedef (md_file d)) (\<lambda>file.
             bind_xs (message msg) (\<lambda>M.
             bind_xs (ext_next_loop (Suc (length (md_fields d) + length (um_aux M))) msg m (file_pool file) iter) (\<lambda>(r, iter).
             then_xs (c_store p (CS_ExtensionDictIterator message_sv iter))
             (case r of None \<Rightarrow> ret PL_sv_undef | Some f \<Rightarrow> PerlUpb_FieldDef_GetWrapper f)))))))
       | _ \<Rightarrow> fault ''not an extension iterator''))"

definition PerlUpb_ExtensionDictIterator_Free :: "sv option \<Rightarrow> (upb_st, unit) xs" where
  "PerlUpb_ExtensionDictIterator_Free v = struct_object_free ''Protobuf::ExtensionDictIterator'' v"

section \<open>Facts\<close>

lemma next_ext_advances: "next_ext i aux = Some (f, v, j) \<Longrightarrow> i < j \<and> j \<le> i + length aux \<and> Aux_ext f v \<in> set aux"
  by (induction i aux rule: next_ext.induct) fastforce+

lemma Next_advances:
  assumes "mdefs (defs s) m = Some d" "messages s msg = Some M" "fields_readable s M (md_fields d)"
  obtains r j where "upb_Message_Next msg m pool iter s = (Inr (r, j), s)"
    "\<forall>f v. r = Some (f, v) \<longrightarrow> iter < j \<and> j \<le> length (md_fields d) + length (um_aux M) \<and>
      (f \<in> set (md_fields d) \<or> Aux_ext f v \<in> set (um_aux M))"
proof -
  let ?fs = "md_fields d" and ?n = "length (md_fields d)"
  have rd: "fields_readable s M (drop iter ?fs)" using assms(3) by (auto simp: fields_readable_def dest: in_set_dropD)
  have m: "mdef m s = (Inr d, s)" "message msg s = (Inr M, s)" using assms(1,2) by (simp_all add: mdef_def message_def)
  show thesis
  proof (rule next_field_spec [OF rd, of iter])
    assume none: "next_field M iter (drop iter ?fs) s = (Inr None, s)"
    let ?i = "max iter ?n"
    show thesis
    proof (cases "pool = NULL \<or> next_ext ?i (drop (?i - ?n) (um_aux M)) = None")
      case True
      then show thesis
        using m none that [of None "if pool = NULL then ?i else max ?i (?n + length (um_aux M))"]
        by (auto simp: upb_Message_Next_def bind_xs_def Let_def)
    next
      case False
      then obtain f v j where j: "next_ext ?i (drop (?i - ?n) (um_aux M)) = Some (f, v, j)" by auto
      then show thesis
        using m none False next_ext_advances [OF j] that [of "Some (f, v)" j]
        by (auto simp: upb_Message_Next_def bind_xs_def Let_def split: if_splits dest: in_set_dropD)
    qed
  next
    fix k f v
    assume "next_field M iter (drop iter ?fs) s = (Inr (Some (f, v, Suc (iter + k))), s)" "k < length (drop iter ?fs)"
      "f \<in> set (drop iter ?fs)"
    then show thesis using m that [of "Some (f, v)" "Suc (iter + k)"]
      by (auto simp: upb_Message_Next_def bind_xs_def Let_def dest: in_set_dropD)
  qed
qed

lemma ext_next_returns:
  assumes "mdefs (defs s) m = Some d" "messages s msg = Some M" "fields_readable s M (md_fields d)"
    and "\<forall>f v. Aux_ext f v \<in> set (um_aux M) \<longrightarrow> fdefs (defs s) f \<noteq> None"
    and "length (md_fields d) + length (um_aux M) < n + iter" "0 < n"
  shows "\<exists>r j. ext_next_loop n msg m pool iter s = (Inr (r, j), s)"
  using assms(5,6)
proof (induction n arbitrary: iter)
  case (Suc n)
  obtain r j where r: "upb_Message_Next msg m pool iter s = (Inr (r, j), s)"
    "\<forall>f v. r = Some (f, v) \<longrightarrow> iter < j \<and> j \<le> length (md_fields d) + length (um_aux M) \<and>
      (f \<in> set (md_fields d) \<or> Aux_ext f v \<in> set (um_aux M))"
    using assms(1-3) by (rule Next_advances)
  show ?case
  proof (cases r)
    case None
    then show ?thesis using r(1) by (simp add: bind_xs_def)
  next
    case (Some q)
    obtain f v where q: "q = (f, v)" by (cases q)
    with r(2) Some have f: "iter < j" "j \<le> length (md_fields d) + length (um_aux M)" "f \<in> set (md_fields d) \<or> Aux_ext f v \<in> set (um_aux M)" by auto
    then obtain e where e: "fdefs (defs s) f = Some e" using assms(3,4) by (fastforce simp: fields_readable_def)
    have "\<exists>r k. ext_next_loop n msg m pool j s = (Inr (r, k), s)" using Suc.prems(1) f(1,2) by (intro Suc.IH) simp_all
    then show ?thesis using r(1) Some q e by (auto simp: bind_xs_def fdef_Some)
  qed
qed simp

lemma set_ext_same: "find_ext e aux \<noteq> None \<Longrightarrow> find_ext e (set_ext e v aux) = Some v"
  by (induction e v aux rule: set_ext.induct) (auto simp: find_ext_def map_filter_simps)

lemma SetExtension_ample:
  assumes "messages s msg = Some M" "ample arena s" "arena \<noteq> NULL"
  obtains N where "upb_Message_SetExtension msg e v arena s = (Inr True, put_message msg N s)" "find_ext e (um_aux N) = Some v"
    "um_fields N = um_fields M"
proof (cases "find_ext e (um_aux M) = None")
  case False
  then show thesis
    using assms by (intro that [of "M\<lparr>um_aux := set_ext e v (um_aux M)\<rparr>"])
      (auto simp: upb_Message_SetExtension_def bind_xs_def then_xs_def message_Some set_ext_same)
next
  case True
  obtain c where c: "upb_Message_ReserveSlot msg arena s = (Inr True, put_message msg (M\<lparr>um_aux_cap := c\<rparr>) s)"
    using assms(1,2) by (rule ReserveSlot_ample)
  have "ample arena (put_message msg K s)" for K using assms(2) by (simp add: ample_def)
  moreover have "find_ext e [Aux_ext e v] = Some v" by (simp add: find_ext_def map_filter_simps)
  ultimately show thesis
    using True c assms(1,3) by (intro that [of "M\<lparr>um_aux_cap := c, um_aux := um_aux M @ [Aux_ext e v]\<rparr>"])
      (simp_all add: upb_Message_SetExtension_def bind_xs_def then_xs_def message_Some arena_malloc_ample find_ext_simps)
qed

text \<open>\<open>self\<close> is a dictionary for the message object \<open>msv\<close>.\<close>

definition dict_object :: "upb_st \<Rightarrow> sv option \<Rightarrow> sv \<Rightarrow> bool" where
  "dict_object s self msv \<longleftrightarrow> (\<exists>p. GetDict self s = (Inr p, s) \<and> p \<noteq> NULL \<and> cheap s p = Some (CS_ExtensionDict msv))"

lemma dict_object_put: "dict_object s self msv \<Longrightarrow> dict_object (put_message p N s) self msv"
  using struct_object_ptr_cong [of "put_message p N s" s] by (force simp: dict_object_def GetDict_def)

lemma GetArenaBoundObject_cong:
  assumes "heap t = heap s" "isa t = isa s" "PerlUpb_GetArenaBoundObject v (Some cls) s = (Inr p, s)"
  shows "PerlUpb_GetArenaBoundObject v (Some cls) t = (Inr p, t)"
proof (cases "p = NULL")
  case True
  then show ?thesis using assms(3)
    by (auto simp: PerlUpb_GetArenaBoundObject_def split: option.splits if_splits)
next
  case False
  have "PerlUpb_GetArenaBoundObject_Silent t v (Some cls) = PerlUpb_GetArenaBoundObject_Silent s v (Some cls)"
    using assms(1,2) derived_cong [of t s] deref_cong [of t s]
    by (simp add: PerlUpb_GetArenaBoundObject_Silent_def split: option.split)
  then show ?thesis using assms(3) False
    by (auto simp: PerlUpb_GetArenaBoundObject_def split: option.splits if_splits)
qed

definition ext_field :: "upb_defs \<Rightarrow> ptr \<Rightarrow> upb_FieldDef \<Rightarrow> bool" where
  "ext_field D f d \<longleftrightarrow> fdefs D f = Some d \<and> f \<noteq> NULL \<and> \<not> fd_repeated d \<and> \<not> is_submsg d \<and> fd_is_extension d"


text \<open>The example state with a dictionary at address 2 and the descriptor of the extension at address 3.\<close>

definition dict_boot :: upb_st where
  "dict_boot = msg_boot\<lparr>cheap := [0x7000 \<mapsto> CS_ExtensionDict (newRV 1)], next_addr := 4,
     heap := (heap msg_boot)(
       2 \<mapsto> \<lparr>ref_body = PVMG (newSViv 0x7000), ref_stash = Some ''Protobuf::ExtensionDict'', ref_magic = [], ref_tied = None\<rparr>,
       3 \<mapsto> wrapper_hv 0x1A0 None ''Protobuf::Descriptor::Field'' 0)\<rparr>"


end
