(* ===== verification/Descriptor_Pool.thy ===== *)
theory Descriptor_Pool
  imports Descriptor
begin

text \<open>
  Descriptor pools (\<open>xs/descriptor_pool/pool.c\<close>, \<open>add.c\<close>, \<open>find.c\<close>): the Perl objects that
  own or share a upb definition pool, adding serialized files to one, and looking
  definitions up by name. Parsing a serialized descriptor and building definitions from it
  are upb's, and the record \<open>pool_codec\<close> here. Releasing a pool removes its symbol tables;
  the definitions in it are not tracked one by one.
\<close>

section \<open>Pools of upb\<close>

text \<open>
  \<open>'p\<close> is a parsed \<open>FileDescriptorProto\<close>. \<open>add_file\<close> is \<open>upb_DefPool_AddFile\<close>: the new file
  definition, or the message of the error status.
\<close>

record 'p pool_codec =
  parse_file :: "byte list \<Rightarrow> 'p option"
  parse_file_set :: "byte list \<Rightarrow> 'p list option"
  add_file :: "ptr \<Rightarrow> 'p \<Rightarrow> (upb_st, string + ptr) xs"

definition put_pool :: "ptr \<Rightarrow> upb_DefPool option \<Rightarrow> upb_st \<Rightarrow> upb_st" where
  "put_pool p dp s = s\<lparr>defs := (defs s)\<lparr>pools := (pools (defs s))(p := dp)\<rparr>\<rparr>"

definition empty_pool :: upb_DefPool where
  "empty_pool = \<lparr>dp_files = [], dp_messages = [], dp_enums = [], dp_services = [], dp_extensions = []\<rparr>"

text \<open>A pool needs an arena of its own, so it fails when none can be had.\<close>

definition upb_DefPool_New :: "(upb_st, ptr) xs" where
  "upb_DefPool_New = (\<lambda>s.
     case arena_init_ok s of
       False # os \<Rightarrow> (Inr NULL, s\<lparr>arena_init_ok := os\<rparr>)
     | _ \<Rightarrow> (Inr (next_ptr s), put_pool (next_ptr s) (Some empty_pool)
              (s\<lparr>next_ptr := next_ptr s + 256, arena_init_ok := tl (arena_init_ok s)\<rparr>)))"

definition upb_DefPool_Free :: "ptr \<Rightarrow> (upb_st, unit) xs" where
  "upb_DefPool_Free p = (\<lambda>s. case pools (defs s) p of
     None \<Rightarrow> (Inl (Fault ''upb_DefPool_Free of a dead pool''), s)
   | Some _ \<Rightarrow> (Inr (), put_pool p None s))"

definition find_symbol :: "(upb_DefPool \<Rightarrow> (string \<times> ptr) list) \<Rightarrow> ptr \<Rightarrow> string \<Rightarrow> (upb_st, ptr) xs" where
  "find_symbol table pool name = (\<lambda>s. case pools (defs s) pool of
     None \<Rightarrow> (Inl (Fault ''access to a dead pool''), s)
   | Some dp \<Rightarrow> (Inr (case map_of (table dp) name of None \<Rightarrow> NULL | Some p \<Rightarrow> p), s))"

section \<open>Pool objects\<close>

definition PerlUpb_DescriptorPool_CreateRaw :: "(upb_st, ptr) xs" where
  "PerlUpb_DescriptorPool_CreateRaw =
     bind_xs (c_malloc (CS_DescriptorPool NULL False)) (\<lambda>p.
     bind_xs upb_DefPool_New (\<lambda>pool.
     if pool = NULL then then_xs (c_free p) (croak ''Failed to create upb_DefPool'' [])
     else then_xs (c_store p (CS_DescriptorPool pool False)) (ret p)))"

definition load_pool :: "ptr \<Rightarrow> (upb_st, ptr \<times> bool) xs" where
  "load_pool p =
     bind_xs (c_load p) (\<lambda>c. case c of CS_DescriptorPool pool frozen \<Rightarrow> ret (pool, frozen) | _ \<Rightarrow> fault ''not a descriptor pool'')"

definition PerlUpb_DescriptorPool_DestroyRaw :: "ptr \<Rightarrow> (upb_st, unit) xs" where
  "PerlUpb_DescriptorPool_DestroyRaw p =
     bind_xs (gets_xs PL_dirty) (\<lambda>dirty.
     if dirty \<or> p = NULL then ret ()
     else bind_xs (load_pool p) (\<lambda>(pool, _).
       bind_xs (gets_xs generated_pool_ptr) (\<lambda>generated.
       then_xs (if pool \<noteq> NULL \<and> pool \<noteq> generated
                then then_xs (modify_xs (PerlUpb_ObjCache_Delete pool)) (upb_DefPool_Free pool)
                else ret ())
       (c_free p))))"

definition pool_ptr_of :: "referent \<Rightarrow> ptr" where
  "pool_ptr_of r = (case iv_ptr (hv_fetch r ''_pool_ptr'') of None \<Rightarrow> NULL | Some p \<Rightarrow> p)"

text \<open>The structure a scalar points to; null for a hash without one.\<close>

definition pool_struct :: "sv option \<Rightarrow> (upb_st, ptr) xs" where
  "pool_struct v = (\<lambda>s.
     if \<not> sv_isa s v ''Protobuf::DescriptorPool''
     then (Inl (Croak ''Argument is not a Protobuf::DescriptorPool object'' []), s)
     else case deref s v of None \<Rightarrow> (Inr NULL, s) | Some r \<Rightarrow> (Inr (if is_HV r then pool_ptr_of r else NULL), s))"

definition PerlUpb_DescriptorPool_GetPool :: "sv option \<Rightarrow> (upb_st, ptr) xs" where
  "PerlUpb_DescriptorPool_GetPool v =
     bind_xs (pool_struct v) (\<lambda>p. if p = NULL then ret NULL else bind_xs (load_pool p) (\<lambda>(pool, _). ret pool))"

definition PerlUpb_DescriptorPool_Freeze :: "sv option \<Rightarrow> (upb_st, unit) xs" where
  "PerlUpb_DescriptorPool_Freeze v =
     bind_xs (PerlUpb_DescriptorPool_GetPool v) (\<lambda>pool.
     if pool = NULL then ret ()
     else bind_xs (pool_struct v) (\<lambda>p. c_store p (CS_DescriptorPool pool True)))"

definition PerlUpb_DescriptorPool_IsFrozen :: "sv option \<Rightarrow> (upb_st, bool) xs" where
  "PerlUpb_DescriptorPool_IsFrozen v =
     bind_xs (PerlUpb_DescriptorPool_GetPool v) (\<lambda>pool.
     if pool = NULL then ret False
     else bind_xs (pool_struct v) (\<lambda>p. bind_xs (load_pool p) (\<lambda>(_, frozen). ret frozen)))"

text \<open>The object around a structure, entered in the cache under the pool's address.\<close>

definition pool_object :: "ptr \<Rightarrow> referent" where
  "pool_object p = sv_bless ''Protobuf::DescriptorPool'' (hv_store ''_pool_ptr'' (newSViv p) newHV)"

definition wrap_pool :: "ptr \<Rightarrow> ptr \<Rightarrow> (upb_st, sv) xs" where
  "wrap_pool p pool =
     bind_xs (alloc (pool_object p)) (\<lambda>a.
     then_xs (PerlUpb_ObjCache_Add pool (Some (newRV a))) (ret (newRV a)))"

definition PerlUpb_DescriptorPool_New :: "(upb_st, sv) xs" where
  "PerlUpb_DescriptorPool_New =
     bind_xs PerlUpb_DescriptorPool_CreateRaw (\<lambda>raw.
     bind_xs (load_pool raw) (\<lambda>(pool, _). wrap_pool raw pool))"

definition PerlUpb_DescriptorPool_GetWrapper :: "ptr \<Rightarrow> (upb_st, sv) xs" where
  "PerlUpb_DescriptorPool_GetWrapper pool =
     (if pool = NULL then ret PL_sv_undef
      else bind_xs (lift_xs (PerlUpb_ObjCache_Get pool)) (\<lambda>cached.
       case cached of
         Some v \<Rightarrow> ret v
       | None \<Rightarrow> bind_xs (c_malloc (CS_DescriptorPool pool False)) (\<lambda>p. wrap_pool p pool)))"

definition PerlUpb_DescriptorPool_Free :: "sv option \<Rightarrow> (upb_st, unit) xs" where
  "PerlUpb_DescriptorPool_Free v =
     bind_xs (gets_xs (\<lambda>s. if sv_isa s v ''Protobuf::DescriptorPool'' then deref s v else None)) (\<lambda>r.
     case r of
       None \<Rightarrow> ret ()
     | Some r \<Rightarrow>
         if \<not> is_HV r then ret ()
         else (case iv_ptr (hv_fetch r ''_pool_ptr'') of
             None \<Rightarrow> ret ()
           | Some p \<Rightarrow>
               then_xs (PerlUpb_DescriptorPool_DestroyRaw p) (modify_xs (rv_update v (hv_store ''_pool_ptr'' (newSViv 0))))))"

definition PerlUpb_DescriptorPool_GetPoolRaw :: "ptr \<Rightarrow> (upb_st, ptr) xs" where
  "PerlUpb_DescriptorPool_GetPoolRaw p = (if p = NULL then ret NULL else bind_xs (load_pool p) (\<lambda>(pool, _). ret pool))"

definition PerlUpb_DescriptorPool_FileCount :: "sv option \<Rightarrow> (upb_st, int) xs" where
  "PerlUpb_DescriptorPool_FileCount v = ret 0"

definition PerlUpb_DescriptorPool_GetFile :: "sv option \<Rightarrow> int \<Rightarrow> (upb_st, sv) xs" where
  "PerlUpb_DescriptorPool_GetFile v index = ret PL_sv_undef"

text \<open>\<open>generated_pool_iv\<close> is the integer of the package variable \<open>_generated_pool_ptr\<close>.\<close>

definition PerlUpb_DescriptorPool_GeneratedPool :: "(upb_st, sv) xs" where
  "PerlUpb_DescriptorPool_GeneratedPool =
     bind_xs (gets_xs (\<lambda>s. (generated_pool_ptr s, generated_pool_iv s))) (\<lambda>(generated, iv).
     bind_xs
       (if generated \<noteq> NULL then ret generated
        else case iv of
            Some p \<Rightarrow> then_xs (modify_xs (\<lambda>s. s\<lparr>generated_pool_ptr := p\<rparr>)) (ret p)
          | None \<Rightarrow>
              bind_xs upb_DefPool_New (\<lambda>p.
              then_xs (modify_xs (\<lambda>s. s\<lparr>generated_pool_ptr := p, generated_pool_iv := Some p\<rparr>)) (ret p)))
       PerlUpb_DescriptorPool_GetWrapper)"

section \<open>Adding files\<close>

definition strstr :: "string \<Rightarrow> string \<Rightarrow> bool" where
  "strstr s sub \<longleftrightarrow> list_ex (\<lambda>i. take (length sub) (drop i s) = sub) [0..<Suc (length s)]"

text \<open>What follows the last space, if there is one.\<close>

definition after_last_space :: "string \<Rightarrow> string option" where
  "after_last_space s = (if CHR '' '' \<in> set s then Some (rev (takeWhile (\<lambda>c. c \<noteq> CHR '' '') (rev s))) else None)"

definition file_of :: "ptr \<Rightarrow> (upb_st, string) xs" where
  "file_of p = bind_xs (filedef p) (\<lambda>f. ret (file_name f))"

definition enumdef :: "ptr \<Rightarrow> (upb_st, upb_EnumDef) xs" where
  "enumdef p = (\<lambda>s. case enumdefs (defs s) p of
     None \<Rightarrow> (Inl (Fault ''enum definition of a bad pointer''), s) | Some d \<Rightarrow> (Inr d, s))"

text \<open>Kind and file of the symbol that is already defined.\<close>

definition duplicate_info :: "ptr \<Rightarrow> string \<Rightarrow> (upb_st, string \<times> string) xs" where
  "duplicate_info pool symbol =
     bind_xs (find_symbol dp_messages pool symbol) (\<lambda>m.
     if m \<noteq> NULL then bind_xs (mdef m) (\<lambda>d. bind_xs (file_of (md_file d)) (\<lambda>f. ret (''message'', f)))
     else bind_xs (find_symbol dp_enums pool symbol) (\<lambda>e.
       if e \<noteq> NULL then bind_xs (enumdef e) (\<lambda>d. bind_xs (file_of (ed_file d)) (\<lambda>f. ret (''enum'', f)))
       else bind_xs (find_symbol dp_services pool symbol) (\<lambda>v.
         if v \<noteq> NULL then bind_xs (servicedef v) (\<lambda>d. bind_xs (file_of (sd_file d)) (\<lambda>f. ret (''service'', f)))
         else ret (''symbol'', ''unknown file''))))"

text \<open>\<open>what\<close> and \<open>args\<close> begin the message: the set reports the number of the file.\<close>

definition croak_add_failed :: "ptr \<Rightarrow> string \<Rightarrow> carg list \<Rightarrow> string \<Rightarrow> (upb_st, 'a) xs" where
  "croak_add_failed pool what args msg =
     (let plain = croak (what @ '': %s'') (args @ [CStr msg])
      in if strstr msg ''duplicate symbol'' then
           (case after_last_space msg of
              Some symbol \<Rightarrow>
                bind_xs (duplicate_info pool symbol) (\<lambda>(type_str, existing_file_name).
                croak (what @ '': %s (duplicate %s '' @ [CHR 0x27] @ ''%s'' @ [CHR 0x27] @ '' already defined in %s)'')
                  (args @ [CStr msg, CStr type_str, CStr symbol, CStr existing_file_name]))
            | None \<Rightarrow> plain)
         else if strstr msg ''duplicate file name''
         then croak (what @ '': %s (already defined in this DescriptorPool)'') (args @ [CStr msg])
         else plain)"

definition PerlUpb_DescriptorPool_AddSerializedFile :: "str_num \<Rightarrow> 'p pool_codec \<Rightarrow> sv option \<Rightarrow> sv \<Rightarrow> (upb_st, sv) xs" where
  "PerlUpb_DescriptorPool_AddSerializedFile N P self serialized =
     bind_xs (PerlUpb_DescriptorPool_IsFrozen self) (\<lambda>frozen.
     if frozen then croak ''Cannot add file to a frozen DescriptorPool'' []
     else bind_xs (PerlUpb_DescriptorPool_GetPool self) (\<lambda>pool.
       if pool = NULL then ret PL_sv_undef
       else bind_xs (SvPVbyte_xs N serialized) (\<lambda>data.
         bind_xs (PerlUpb_Arena_Acquire PERL_UPB_LIFECYCLE_TRANSIENT) (\<lambda>arena.
         case parse_file P data of
           None \<Rightarrow> then_xs (PerlUpb_Arena_Release arena PERL_UPB_LIFECYCLE_TRANSIENT)
                     (croak ''Failed to parse FileDescriptorProto'' [])
         | Some proto \<Rightarrow>
             bind_xs (add_file P pool proto) (\<lambda>file.
             then_xs (PerlUpb_Arena_Release arena PERL_UPB_LIFECYCLE_TRANSIENT)
             (case file of
                Inl msg \<Rightarrow> croak_add_failed pool ''Failed to add file to pool'' [] msg
              | Inr file \<Rightarrow> PerlUpb_FileDef_GetWrapper file))))))"

text \<open>The loop over the files of a set; \<open>i\<close> counts them.\<close>

fun add_files_loop :: "'p pool_codec \<Rightarrow> ptr \<Rightarrow> ptr \<Rightarrow> nat \<Rightarrow> 'p list \<Rightarrow> (upb_st, sv list) xs" where
  "add_files_loop P pool arena i [] = ret []"
| "add_files_loop P pool arena i (proto # protos) =
     bind_xs (add_file P pool proto) (\<lambda>file.
     case file of
       Inl msg \<Rightarrow>
         then_xs (PerlUpb_Arena_Release arena PERL_UPB_LIFECYCLE_TRANSIENT)
         (croak_add_failed pool ''Failed to add file %zu to pool'' [CInt (int i)] msg)
     | Inr file \<Rightarrow>
         bind_xs (PerlUpb_FileDef_GetWrapper file) (\<lambda>w.
         bind_xs (add_files_loop P pool arena (Suc i) protos) (\<lambda>ws. ret (w # ws))))"

definition PerlUpb_DescriptorPool_AddSerializedFileDescriptorSet ::
    "str_num \<Rightarrow> 'p pool_codec \<Rightarrow> sv option \<Rightarrow> sv \<Rightarrow> (upb_st, sv) xs" where
  "PerlUpb_DescriptorPool_AddSerializedFileDescriptorSet N P self serialized =
     bind_xs (PerlUpb_DescriptorPool_IsFrozen self) (\<lambda>frozen.
     if frozen then croak ''Cannot add file to a frozen DescriptorPool'' []
     else bind_xs (PerlUpb_DescriptorPool_GetPool self) (\<lambda>pool.
       if pool = NULL then ret PL_sv_undef
       else bind_xs (SvPVbyte_xs N serialized) (\<lambda>data.
         bind_xs (PerlUpb_Arena_Acquire PERL_UPB_LIFECYCLE_TRANSIENT) (\<lambda>arena.
         case parse_file_set P data of
           None \<Rightarrow> then_xs (PerlUpb_Arena_Release arena PERL_UPB_LIFECYCLE_TRANSIENT)
                     (croak ''Failed to parse FileDescriptorSet'' [])
         | Some protos \<Rightarrow>
             bind_xs (add_files_loop P pool arena 0 protos) (\<lambda>ws.
             then_xs (PerlUpb_Arena_Release arena PERL_UPB_LIFECYCLE_TRANSIENT)
             (bind_xs (alloc (newAV ws)) (\<lambda>a. ret (newRV a))))))))"

section \<open>Looking up\<close>

definition find_and_wrap ::
    "(upb_DefPool \<Rightarrow> (string \<times> ptr) list) \<Rightarrow> (ptr \<Rightarrow> (upb_st, sv) xs) \<Rightarrow> sv option \<Rightarrow> string \<Rightarrow> (upb_st, sv) xs" where
  "find_and_wrap table wrap self name =
     bind_xs (PerlUpb_DescriptorPool_GetPool self) (\<lambda>pool.
     if pool = NULL then ret PL_sv_undef else bind_xs (find_symbol table pool name) wrap)"

definition PerlUpb_DescriptorPool_FindFileByName :: "sv option \<Rightarrow> string \<Rightarrow> (upb_st, sv) xs" where
  "PerlUpb_DescriptorPool_FindFileByName = find_and_wrap dp_files PerlUpb_FileDef_GetWrapper"

definition PerlUpb_DescriptorPool_FindMessageByName :: "sv option \<Rightarrow> string \<Rightarrow> (upb_st, sv) xs" where
  "PerlUpb_DescriptorPool_FindMessageByName = find_and_wrap dp_messages PerlUpb_MessageDef_GetWrapper"

definition PerlUpb_DescriptorPool_FindEnumByName :: "sv option \<Rightarrow> string \<Rightarrow> (upb_st, sv) xs" where
  "PerlUpb_DescriptorPool_FindEnumByName = find_and_wrap dp_enums PerlUpb_EnumDef_GetWrapper"

definition PerlUpb_DescriptorPool_FindServiceByName :: "sv option \<Rightarrow> string \<Rightarrow> (upb_st, sv) xs" where
  "PerlUpb_DescriptorPool_FindServiceByName = find_and_wrap dp_services PerlUpb_ServiceDef_GetWrapper"

definition PerlUpb_DescriptorPool_FindExtensionByName :: "sv option \<Rightarrow> string \<Rightarrow> (upb_st, sv) xs" where
  "PerlUpb_DescriptorPool_FindExtensionByName = find_and_wrap dp_extensions PerlUpb_FieldDef_GetWrapper"

section \<open>Freezing and ownership\<close>

text \<open>\<open>v\<close> is a pool object with the structure at \<open>p\<close>, for the pool \<open>pool\<close>.\<close>

definition pool_handle :: "upb_st \<Rightarrow> sv option \<Rightarrow> ptr \<Rightarrow> ptr \<Rightarrow> bool \<Rightarrow> bool" where
  "pool_handle s v p pool frozen \<longleftrightarrow> pool_struct v s = (Inr p, s) \<and> p \<noteq> NULL \<and> pool \<noteq> NULL \<and>
     cheap s p = Some (CS_DescriptorPool pool frozen)"

lemma pool_handle_reads:
  assumes "pool_handle s v p pool frozen"
  shows "PerlUpb_DescriptorPool_GetPool v s = (Inr pool, s)" "PerlUpb_DescriptorPool_IsFrozen v s = (Inr frozen, s)"
  using assms
  by (simp_all add: pool_handle_def PerlUpb_DescriptorPool_GetPool_def PerlUpb_DescriptorPool_IsFrozen_def load_pool_def c_load_def bind_xs_def)

lemma pool_struct_cong:
  assumes "heap t = heap s" "pool_struct v s = (Inr p, s)"
  shows "pool_struct v t = (Inr p, t)"
  using assms deref_cong [of t s] by (auto simp: pool_struct_def sv_isa_def split: option.splits if_splits)

text \<open>
  C23: Freezing a pool: after \<open>PerlUpb_DescriptorPool_Freeze\<close> the object reports that it is
  frozen, and both ways of adding serialized files end in a \<open>croak\<close> for every input, with
  nothing parsed and no state changed, while looking up names works as before.
\<close>

theorem pool_frozen_rejects:
  assumes "pool_handle s v p pool frozen"
  shows "\<exists>t. PerlUpb_DescriptorPool_Freeze v s = (Inr (), t) \<and> PerlUpb_DescriptorPool_IsFrozen v t = (Inr True, t) \<and>
    (\<forall>data. PerlUpb_DescriptorPool_AddSerializedFile N P v data t =
      (Inl (Croak ''Cannot add file to a frozen DescriptorPool'' []), t)) \<and>
    (\<forall>data. PerlUpb_DescriptorPool_AddSerializedFileDescriptorSet N P v data t =
      (Inl (Croak ''Cannot add file to a frozen DescriptorPool'' []), t)) \<and>
    (\<forall>table wrap name dp. pools (defs s) pool = Some dp \<longrightarrow>
      find_and_wrap table wrap v name t = wrap (case map_of (table dp) name of None \<Rightarrow> NULL | Some q \<Rightarrow> q) t)"
proof -
  let ?t = "s\<lparr>cheap := (cheap s)(p \<mapsto> CS_DescriptorPool pool True)\<rparr>"
  have "pool_struct v ?t = (Inr p, ?t)" using assms by (intro pool_struct_cong [of ?t s]) (simp_all add: pool_handle_def)
  then have t: "pool_handle ?t v p pool True" using assms by (simp add: pool_handle_def)
  note r = pool_handle_reads [OF t]
  have "PerlUpb_DescriptorPool_Freeze v s = (Inr (), ?t)"
    using assms pool_handle_reads(1) [OF assms]
    by (simp add: PerlUpb_DescriptorPool_Freeze_def bind_xs_def c_store_def pool_handle_def)
  moreover have "PerlUpb_DescriptorPool_AddSerializedFile N P v data ?t = (Inl (Croak ''Cannot add file to a frozen DescriptorPool'' []), ?t)"
    "PerlUpb_DescriptorPool_AddSerializedFileDescriptorSet N P v data ?t = (Inl (Croak ''Cannot add file to a frozen DescriptorPool'' []), ?t)" for data
    using r(2) by (simp_all add: PerlUpb_DescriptorPool_AddSerializedFile_def PerlUpb_DescriptorPool_AddSerializedFileDescriptorSet_def bind_xs_Inr [of _ ?t])
  moreover have "find_and_wrap table wrap v name ?t = wrap (case map_of (table dp) name of None \<Rightarrow> NULL | Some q \<Rightarrow> q) ?t"
    if "pools (defs s) pool = Some dp" for table wrap name dp
    using that r(1) t by (simp add: find_and_wrap_def bind_xs_Inr [of _ ?t] find_symbol_def pool_handle_def bind_xs_def)
  ultimately show ?thesis using r(2) by blast
qed

lemma frame_pool:
  fixes s :: upb_st
  assumes "frame s t"
  shows "heap t = heap s" "next_addr t = next_addr s" "defs t = defs s" "next_ptr t = next_ptr s" "cheap t = cheap s"
    "generated_pool_ptr t = generated_pool_ptr s" "PL_dirty t = PL_dirty s"
proof -
  have m: "cache_st.more t = cache_st.more s" using assms by (simp add: frame_def)
  then show "cheap t = cheap s" "generated_pool_ptr t = generated_pool_ptr s" by (cases s; cases t; simp)+
qed (use assms upb_frame [of t s] in \<open>auto simp: frame_def\<close>)

lemma DestroyRaw_spec:
  assumes "ready s" "cheap s p = Some (CS_DescriptorPool pool frozen)" "p \<noteq> NULL" "pool \<noteq> NULL" "pool \<noteq> generated_pool_ptr s"
  shows "pools (defs s) pool = None \<Longrightarrow> fst (PerlUpb_DescriptorPool_DestroyRaw p s) = Inl (Fault ''upb_DefPool_Free of a dead pool'')"
    "pools (defs s) pool \<noteq> None \<Longrightarrow> \<exists>u. PerlUpb_DescriptorPool_DestroyRaw p s = (Inr (), u) \<and> ready u \<and> heap u = heap s \<and>
      next_addr u = next_addr s \<and> cheap u = (cheap s)(p := None) \<and> pools (defs u) pool = None \<and> generated_pool_ptr u = generated_pool_ptr s"
proof -
  let ?d = "PerlUpb_ObjCache_Delete pool s" and ?u = "\<lambda>d. (put_pool pool None d)\<lparr>cheap := (cheap s)(p := None)\<rparr>"
  note d = Delete_spec(1) [OF assms(1,4)] frame_pool [OF Delete_spec(2) [OF assms(1,4)]]
  have "\<not> PL_dirty s" using assms(1) by (simp add: ready_def)
  then have eq: "PerlUpb_DescriptorPool_DestroyRaw p s = (then_xs (upb_DefPool_Free pool) (c_free p)) ?d"
    using assms(2-5) by (simp add: PerlUpb_DescriptorPool_DestroyRaw_def load_pool_def c_load_def bind_xs_def then_xs_def)
  show "pools (defs s) pool = None \<Longrightarrow> fst (PerlUpb_DescriptorPool_DestroyRaw p s) = Inl (Fault ''upb_DefPool_Free of a dead pool'')"
    using eq d(4) by (simp add: upb_DefPool_Free_def then_xs_def bind_xs_def)
  assume "pools (defs s) pool \<noteq> None"
  moreover have "ready (?u ?d)" by (rule iffD2 [OF ready_cong d(1)]) (simp_all add: put_pool_def)
  ultimately show "\<exists>u. PerlUpb_DescriptorPool_DestroyRaw p s = (Inr (), u) \<and> ready u \<and> heap u = heap s \<and>
      next_addr u = next_addr s \<and> cheap u = (cheap s)(p := None) \<and> pools (defs u) pool = None \<and> generated_pool_ptr u = generated_pool_ptr s"
    using eq d assms(2) by (auto simp: upb_DefPool_Free_def then_xs_def bind_xs_def c_free_def put_pool_def)
qed

text \<open>A pool object for an empty pool, with a codec that knows a single file.\<close>

definition ex_pool_codec :: "string pool_codec" where
  "ex_pool_codec = \<lparr>parse_file = (\<lambda>bs. if bs = [] then None else Some (string_of bs)),
     parse_file_set = (\<lambda>bs. Some [string_of bs]), add_file = (\<lambda>pool proto. ret (Inl ''duplicate file name''))\<rparr>"

definition pool_boot :: upb_st where
  "pool_boot = snd (PerlUpb_DescriptorPool_New msg_boot)"

lemma pool_boot_handle: "pool_handle pool_boot (Some (newRV 2)) 0x8000 0x8100 False"
proof -
  let ?k = "(put_pool 0x8100 (Some empty_pool) (msg_boot\<lparr>next_ptr := 0x8200, arena_init_ok := tl (arena_init_ok msg_boot)\<rparr>))
    \<lparr>cheap := [0x8000 \<mapsto> CS_DescriptorPool 0x8100 False], heap := (heap msg_boot)(2 \<mapsto> pool_object 0x8000), next_addr := 3\<rparr>"
  have "ready ?k" by (rule iffD2 [OF ready_cong msg_boot_facts(15)]) (simp_all add: put_pool_def)
  moreover have "(0x8100 :: ptr) \<noteq> NULL" by simp
  ultimately obtain t where t: "PerlUpb_ObjCache_Add 0x8100 (Some (newRV 2)) ?k = (Inr (), t)" "frame ?k t"
    by (rule Add_spec [OF _ _ sv_flags(5)])
  have "arena_init_ok msg_boot = []" by (simp add: msg_boot_def upb_boot_def cache_st.extend_def arena_st.extend_def arena_boot_def)
  then have "PerlUpb_DescriptorPool_New msg_boot = (Inr (newRV 2), t)"
    using t(1) by (simp add: PerlUpb_DescriptorPool_New_def PerlUpb_DescriptorPool_CreateRaw_def upb_DefPool_New_def load_pool_def
        c_malloc_def c_load_def c_store_def fresh_ptr_def wrap_pool_def alloc_def bind_xs_def then_xs_def put_pool_def)
  then show ?thesis using frame_pool [OF t(2)]
    by (simp add: pool_boot_def pool_handle_def pool_struct_def sv_isa_def pool_ptr_of_def pool_object_def iv_ptr_def)
qed

theorem pool_frozen_rejects_witness:
  "\<exists>t. PerlUpb_DescriptorPool_Freeze (Some (newRV 2)) pool_boot = (Inr (), t) \<and>
     PerlUpb_DescriptorPool_AddSerializedFile ex_num ex_pool_codec (Some (newRV 2)) (newSVpvn [10, 0]) t =
       (Inl (Croak ''Cannot add file to a frozen DescriptorPool'' []), t)"
  using pool_frozen_rejects [OF pool_boot_handle, of ex_num ex_pool_codec] by blast

text \<open>
  A pool can get a second owner: when the weak cache entry of a pool is gone,
  \<open>PerlUpb_DescriptorPool_GetWrapper\<close> makes a new structure for it, which is not frozen,
  and each of the two objects releases the pool, the second time after it is gone.
\<close>

theorem pool_second_owner:
  assumes "pool_handle s v p pool frozen" "ready s" "fst (PerlUpb_ObjCache_Get pool s) = None" "heap_ok s"
    and "pools (defs s) pool \<noteq> None" "pool \<noteq> generated_pool_ptr s" "p \<noteq> next_ptr s" "next_ptr s \<noteq> NULL"
  shows "\<exists>w t u. PerlUpb_DescriptorPool_GetWrapper pool s = (Inr w, t) \<and>
    PerlUpb_DescriptorPool_GetPool (Some w) t = (Inr pool, t) \<and> PerlUpb_DescriptorPool_IsFrozen (Some w) t = (Inr False, t) \<and>
    PerlUpb_DescriptorPool_Free (Some w) t = (Inr (), u) \<and>
    fst (PerlUpb_DescriptorPool_Free v u) = Inl (Fault ''upb_DefPool_Free of a dead pool'')"
proof -
  let ?g = "snd (PerlUpb_ObjCache_Get pool s)" and ?p = "next_ptr s" and ?a = "next_addr s"
  have h: "pool \<noteq> NULL" "p \<noteq> NULL" "cheap s p = Some (CS_DescriptorPool pool frozen)" "pool_struct v s = (Inr p, s)"
    using assms(1) by (simp_all add: pool_handle_def)
  note g = Get_spec(2) [OF assms(2) h(1)] frame_pool [OF Get_spec(3) [OF assms(2) h(1)]]
  let ?k = "?g\<lparr>next_ptr := ?p + 256, cheap := (cheap s)(?p \<mapsto> CS_DescriptorPool pool False),
    heap := (heap s)(?a \<mapsto> pool_object ?p), next_addr := Suc ?a\<rparr>"
  have "ready ?k" by (rule iffD2 [OF ready_cong g(1)]) simp_all
  from this h(1) obtain t where t: "PerlUpb_ObjCache_Add pool (Some (newRV ?a)) ?k = (Inr (), t)" "ready t" "frame ?k t"
    by (rule Add_spec [OF _ _ sv_flags(5)])
  note ft = frame_pool [OF t(3)]
  have wrap: "PerlUpb_DescriptorPool_GetWrapper pool s = (Inr (newRV ?a), t)"
    using assms(3) h(1) t(1) g
    by (simp add: PerlUpb_DescriptorPool_GetWrapper_def c_malloc_def fresh_ptr_def wrap_pool_def alloc_def then_xs_def bind_xs_def)
  have obj: "is_HV (pool_object ?p)" "hv_fetch (pool_object ?p) ''_pool_ptr'' = Some (newSViv ?p)" "ref_stash (pool_object ?p) = Some ''Protobuf::DescriptorPool''"
    by (simp_all add: pool_object_def)
  have "pool_handle t (Some (newRV ?a)) ?p pool False"
    using ft obj h(1) assms(8) by (simp add: pool_handle_def pool_struct_def sv_isa_def pool_ptr_of_def iv_ptr_def)
  note r = pool_handle_reads [OF this]
  have tp: "cheap t ?p = Some (CS_DescriptorPool pool False)" "pool \<noteq> generated_pool_ptr t" "pools (defs t) pool \<noteq> None"
    using ft g assms(5,6) by simp_all
  from DestroyRaw_spec(2) [OF t(2) tp(1) assms(8) h(1) tp(2,3)] obtain u0 where
    u0: "PerlUpb_DescriptorPool_DestroyRaw ?p t = (Inr (), u0)" "ready u0" "heap u0 = heap t" "cheap u0 = (cheap t)(?p := None)"
      "pools (defs u0) pool = None" "generated_pool_ptr u0 = generated_pool_ptr t" by blast
  let ?u = "write_ref ?a (hv_store ''_pool_ptr'' (newSViv 0)) u0"
  have free: "PerlUpb_DescriptorPool_Free (Some (newRV ?a)) t = (Inr (), ?u)"
    using u0(1) ft(1) obj by (simp add: PerlUpb_DescriptorPool_Free_def sv_isa_def iv_ptr_def bind_xs_def then_xs_def)
  obtain q where q: "deref s v = Some q" "is_HV q" "ref_stash q = Some ''Protobuf::DescriptorPool''" "iv_ptr (hv_fetch q ''_pool_ptr'') = Some p"
    using h(2,4) by (auto simp: pool_struct_def sv_isa_def pool_ptr_of_def split: if_splits option.splits)
  have "deref ?u v = Some q"
    using q(1) assms(4) u0(3) ft(1) by (cases v) (auto simp: deref_def heap_ok_def split: Option.bind_splits)
  moreover have "fst (PerlUpb_DescriptorPool_DestroyRaw p ?u) = Inl (Fault ''upb_DefPool_Free of a dead pool'')"
  proof (rule DestroyRaw_spec(1))
    show "ready ?u" by (rule iffD2 [OF ready_cong u0(2)]) (simp_all add: write_ref_def)
    show "cheap ?u p = Some (CS_DescriptorPool pool frozen)" using u0(4) ft(5) h(3) assms(7) by (simp add: write_ref_def)
    show "pool \<noteq> generated_pool_ptr ?u" "pools (defs ?u) pool = None" using u0(5,6) tp(2) by (simp_all add: write_ref_def)
  qed (use h in simp_all)
  ultimately have "fst (PerlUpb_DescriptorPool_Free v ?u) = Inl (Fault ''upb_DefPool_Free of a dead pool'')"
    using q by (auto simp: PerlUpb_DescriptorPool_Free_def sv_isa_def bind_xs_def then_xs_def split: prod.split sum.split)
  then show ?thesis using wrap r free by blast
qed

end
