(* ===== verification/Descriptor_Containers.thy ===== *)
theory Descriptor_Containers
  imports Descriptor
begin

text \<open>
  Descriptor containers (\<open>xs/descriptor_containers/*.c\<close>): read-only maps by name and by
  number and sequences over the parts of a definition, and the iterator over the maps.
  What a container enumerates comes from a table of functions its creator supplies; the
  tables are the parameter \<open>V\<close>, by their address. Definitions do not change, so all
  functions of a table but the one that wraps an item are functions of their arguments.
\<close>

section \<open>Tables of functions\<close>

record PerlUpb_ByNameMap_VTable =
  nm_count :: "ptr \<Rightarrow> int"
  nm_lookup :: "ptr \<Rightarrow> string \<Rightarrow> ptr"
  nm_key :: "ptr \<Rightarrow> int \<Rightarrow> string option"
  nm_value :: "ptr \<Rightarrow> int \<Rightarrow> ptr"
  nm_wrap :: "ptr \<Rightarrow> (upb_st, sv) xs"

record PerlUpb_ByNumberMap_VTable =
  nb_count :: "ptr \<Rightarrow> int"
  nb_lookup :: "ptr \<Rightarrow> u32 \<Rightarrow> ptr"
  nb_key :: "ptr \<Rightarrow> int \<Rightarrow> u32"
  nb_value :: "ptr \<Rightarrow> int \<Rightarrow> ptr"
  nb_wrap :: "ptr \<Rightarrow> (upb_st, sv) xs"

record PerlUpb_GenericSequence_VTable =
  sq_count :: "ptr \<Rightarrow> int"
  sq_get :: "ptr \<Rightarrow> int \<Rightarrow> ptr"
  sq_wrap :: "ptr \<Rightarrow> (upb_st, sv) xs"

record vtables =
  name_vt :: "ptr \<Rightarrow> PerlUpb_ByNameMap_VTable"
  number_vt :: "ptr \<Rightarrow> PerlUpb_ByNumberMap_VTable"
  sequence_vt :: "ptr \<Rightarrow> PerlUpb_GenericSequence_VTable"

section \<open>Maps by name\<close>

definition PerlUpb_ByNameMap_New :: "sv \<Rightarrow> ptr \<Rightarrow> ptr \<Rightarrow> (upb_st, sv) xs" where
  "PerlUpb_ByNameMap_New parent_sv parent vtable =
     new_struct_object ''Protobuf::Internals::DescriptorByNameMap'' (CS_ByNameMap parent parent_sv vtable)"

definition PerlUpb_ByNameMap_Get :: "sv option \<Rightarrow> (upb_st, ptr) xs" where
  "PerlUpb_ByNameMap_Get v = struct_object_ptr ''Protobuf::Internals::DescriptorByNameMap'' v"

text \<open>The operations begin with the map of \<open>self\<close>: \<open>none\<close> without one.\<close>

definition with_name_map ::
    "vtables \<Rightarrow> sv option \<Rightarrow> 'a \<Rightarrow> (PerlUpb_ByNameMap_VTable \<Rightarrow> ptr \<Rightarrow> (upb_st, 'a) xs) \<Rightarrow> (upb_st, 'a) xs" where
  "with_name_map V self none k =
     bind_xs (PerlUpb_ByNameMap_Get self) (\<lambda>p.
     if p = NULL then ret none
     else bind_xs (c_load p) (\<lambda>c.
       case c of CS_ByNameMap parent _ vt \<Rightarrow> k (name_vt V vt) parent | _ \<Rightarrow> fault ''not a map by name''))"

definition PerlUpb_ByNameMap_Count :: "vtables \<Rightarrow> sv option \<Rightarrow> (upb_st, int) xs" where
  "PerlUpb_ByNameMap_Count V self = with_name_map V self 0 (\<lambda>vt parent. ret (nm_count vt parent))"

definition PerlUpb_ByNameMap_Lookup :: "vtables \<Rightarrow> sv option \<Rightarrow> string \<Rightarrow> (upb_st, sv) xs" where
  "PerlUpb_ByNameMap_Lookup V self name =
     with_name_map V self PL_sv_undef (\<lambda>vt parent.
     let item = nm_lookup vt parent name in if item = NULL then ret PL_sv_undef else nm_wrap vt item)"

definition PerlUpb_ByNameMap_Key :: "vtables \<Rightarrow> sv option \<Rightarrow> int \<Rightarrow> (upb_st, sv) xs" where
  "PerlUpb_ByNameMap_Key V self index =
     with_name_map V self PL_sv_undef (\<lambda>vt parent.
     ret (case nm_key vt parent index of None \<Rightarrow> PL_sv_undef | Some key \<Rightarrow> newSVpv key))"

definition PerlUpb_ByNameMap_Value :: "vtables \<Rightarrow> sv option \<Rightarrow> int \<Rightarrow> (upb_st, sv) xs" where
  "PerlUpb_ByNameMap_Value V self index =
     with_name_map V self PL_sv_undef (\<lambda>vt parent.
     let item = nm_value vt parent index in if item = NULL then ret PL_sv_undef else nm_wrap vt item)"

text \<open>The loop of \<open>AsHash\<close> over the indices still to come; \<open>kvs\<close> is the hash so far.\<close>

fun as_hash_loop :: "PerlUpb_ByNameMap_VTable \<Rightarrow> ptr \<Rightarrow> int list \<Rightarrow> (string \<times> sv) list \<Rightarrow> (upb_st, (string \<times> sv) list) xs" where
  "as_hash_loop vt parent [] kvs = ret kvs"
| "as_hash_loop vt parent (i # idx) kvs =
     (case nm_key vt parent i of
        None \<Rightarrow> as_hash_loop vt parent idx kvs
      | Some key \<Rightarrow>
          if nm_value vt parent i = NULL then as_hash_loop vt parent idx kvs
          else bind_xs (nm_wrap vt (nm_value vt parent i)) (\<lambda>val. as_hash_loop vt parent idx (kv_store key val kvs)))"

definition PerlUpb_ByNameMap_AsHash :: "vtables \<Rightarrow> sv option \<Rightarrow> (upb_st, sv) xs" where
  "PerlUpb_ByNameMap_AsHash V self =
     with_name_map V self PL_sv_undef (\<lambda>vt parent.
     bind_xs (as_hash_loop vt parent [0..nm_count vt parent - 1] []) (\<lambda>kvs.
     bind_xs (alloc (newHV\<lparr>ref_body := PVHV kvs\<rparr>)) (\<lambda>a. ret (newRV a))))"

definition PerlUpb_ByNameMap_Free :: "sv option \<Rightarrow> (upb_st, unit) xs" where
  "PerlUpb_ByNameMap_Free v = struct_object_free ''Protobuf::Internals::DescriptorByNameMap'' v"

section \<open>Maps by number\<close>

definition PerlUpb_ByNumberMap_New :: "sv \<Rightarrow> ptr \<Rightarrow> ptr \<Rightarrow> (upb_st, sv) xs" where
  "PerlUpb_ByNumberMap_New parent_sv parent vtable =
     new_struct_object ''Protobuf::Internals::DescriptorByNumberMap'' (CS_ByNumberMap parent parent_sv vtable)"

definition PerlUpb_ByNumberMap_Get :: "sv option \<Rightarrow> (upb_st, ptr) xs" where
  "PerlUpb_ByNumberMap_Get v = struct_object_ptr ''Protobuf::Internals::DescriptorByNumberMap'' v"

definition with_number_map ::
    "vtables \<Rightarrow> sv option \<Rightarrow> 'a \<Rightarrow> (PerlUpb_ByNumberMap_VTable \<Rightarrow> ptr \<Rightarrow> (upb_st, 'a) xs) \<Rightarrow> (upb_st, 'a) xs" where
  "with_number_map V self none k =
     bind_xs (PerlUpb_ByNumberMap_Get self) (\<lambda>p.
     if p = NULL then ret none
     else bind_xs (c_load p) (\<lambda>c.
       case c of CS_ByNumberMap parent _ vt \<Rightarrow> k (number_vt V vt) parent | _ \<Rightarrow> fault ''not a map by number''))"

definition PerlUpb_ByNumberMap_Count :: "vtables \<Rightarrow> sv option \<Rightarrow> (upb_st, int) xs" where
  "PerlUpb_ByNumberMap_Count V self = with_number_map V self 0 (\<lambda>vt parent. ret (nb_count vt parent))"

definition PerlUpb_ByNumberMap_Lookup :: "vtables \<Rightarrow> sv option \<Rightarrow> u32 \<Rightarrow> (upb_st, sv) xs" where
  "PerlUpb_ByNumberMap_Lookup V self num =
     with_number_map V self PL_sv_undef (\<lambda>vt parent.
     let item = nb_lookup vt parent num in if item = NULL then ret PL_sv_undef else nb_wrap vt item)"

definition PerlUpb_ByNumberMap_Key :: "vtables \<Rightarrow> sv option \<Rightarrow> int \<Rightarrow> (upb_st, sv) xs" where
  "PerlUpb_ByNumberMap_Key V self index =
     with_number_map V self PL_sv_undef (\<lambda>vt parent. ret (newSVuv (ucast (nb_key vt parent index))))"

definition PerlUpb_ByNumberMap_Value :: "vtables \<Rightarrow> sv option \<Rightarrow> int \<Rightarrow> (upb_st, sv) xs" where
  "PerlUpb_ByNumberMap_Value V self index =
     with_number_map V self PL_sv_undef (\<lambda>vt parent.
     let item = nb_value vt parent index in if item = NULL then ret PL_sv_undef else nb_wrap vt item)"

definition PerlUpb_ByNumberMap_Free :: "sv option \<Rightarrow> (upb_st, unit) xs" where
  "PerlUpb_ByNumberMap_Free v = struct_object_free ''Protobuf::Internals::DescriptorByNumberMap'' v"

section \<open>Sequences\<close>

definition PerlUpb_GenericSequence_New :: "sv \<Rightarrow> ptr \<Rightarrow> ptr \<Rightarrow> (upb_st, sv) xs" where
  "PerlUpb_GenericSequence_New parent_sv parent vtable =
     new_struct_object ''Protobuf::Internals::DescriptorSequence'' (CS_GenericSequence parent parent_sv vtable)"

definition PerlUpb_GenericSequence_Get :: "sv option \<Rightarrow> (upb_st, ptr) xs" where
  "PerlUpb_GenericSequence_Get v = struct_object_ptr ''Protobuf::Internals::DescriptorSequence'' v"

definition with_sequence ::
    "vtables \<Rightarrow> sv option \<Rightarrow> 'a \<Rightarrow> (PerlUpb_GenericSequence_VTable \<Rightarrow> ptr \<Rightarrow> (upb_st, 'a) xs) \<Rightarrow> (upb_st, 'a) xs" where
  "with_sequence V self none k =
     bind_xs (PerlUpb_GenericSequence_Get self) (\<lambda>p.
     if p = NULL then ret none
     else bind_xs (c_load p) (\<lambda>c.
       case c of CS_GenericSequence parent _ vt \<Rightarrow> k (sequence_vt V vt) parent | _ \<Rightarrow> fault ''not a sequence''))"

definition PerlUpb_GenericSequence_Count :: "vtables \<Rightarrow> sv option \<Rightarrow> (upb_st, int) xs" where
  "PerlUpb_GenericSequence_Count V self = with_sequence V self 0 (\<lambda>vt parent. ret (sq_count vt parent))"

definition PerlUpb_GenericSequence_GetItem :: "vtables \<Rightarrow> sv option \<Rightarrow> int \<Rightarrow> (upb_st, sv) xs" where
  "PerlUpb_GenericSequence_GetItem V self index =
     with_sequence V self PL_sv_undef (\<lambda>vt parent.
     let item = sq_get vt parent index in if item = NULL then ret PL_sv_undef else sq_wrap vt item)"

definition PerlUpb_GenericSequence_Free :: "sv option \<Rightarrow> (upb_st, unit) xs" where
  "PerlUpb_GenericSequence_Free v = struct_object_free ''Protobuf::Internals::DescriptorSequence'' v"

section \<open>The iterator over maps\<close>

definition PerlUpb_DescriptorMapIterator_New :: "sv \<Rightarrow> (upb_st, sv) xs" where
  "PerlUpb_DescriptorMapIterator_New container_sv =
     new_struct_object ''Protobuf::Internals::DescriptorMapIterator'' (CS_DescriptorMapIterator container_sv 0)"

definition PerlUpb_DescriptorMapIterator_Get :: "sv option \<Rightarrow> (upb_st, ptr) xs" where
  "PerlUpb_DescriptorMapIterator_Get v = struct_object_ptr ''Protobuf::Internals::DescriptorMapIterator'' v"

definition load_map_iter :: "ptr \<Rightarrow> (upb_st, sv \<times> int) xs" where
  "load_map_iter p =
     bind_xs (c_load p) (\<lambda>c. case c of CS_DescriptorMapIterator v i \<Rightarrow> ret (v, i) | _ \<Rightarrow> fault ''not a map iterator'')"

text \<open>One branch of \<open>NextKey\<close>: \<open>key\<close> of the entry at the index, which is advanced first.\<close>

definition step_key :: "ptr \<Rightarrow> sv \<Rightarrow> int \<Rightarrow> int \<Rightarrow> (sv option \<Rightarrow> int \<Rightarrow> (upb_st, sv) xs) \<Rightarrow> (upb_st, sv) xs" where
  "step_key iter container_sv index n key =
     (if n \<le> index then ret PL_sv_undef
      else then_xs (c_store iter (CS_DescriptorMapIterator container_sv (index + 1))) (key (Some container_sv) index))"

definition PerlUpb_DescriptorMapIterator_NextKey :: "vtables \<Rightarrow> sv option \<Rightarrow> (upb_st, sv) xs" where
  "PerlUpb_DescriptorMapIterator_NextKey V self =
     bind_xs (PerlUpb_DescriptorMapIterator_Get self) (\<lambda>iter.
     if iter = NULL then ret PL_sv_undef
     else bind_xs (load_map_iter iter) (\<lambda>(container_sv, index).
       bind_xs (PerlUpb_ByNameMap_Get (Some container_sv)) (\<lambda>name_map.
       if name_map \<noteq> NULL then
         bind_xs (PerlUpb_ByNameMap_Count V (Some container_sv)) (\<lambda>n.
         step_key iter container_sv index n (PerlUpb_ByNameMap_Key V))
       else bind_xs (PerlUpb_ByNumberMap_Get (Some container_sv)) (\<lambda>num_map.
         if num_map \<noteq> NULL then
           bind_xs (PerlUpb_ByNumberMap_Count V (Some container_sv)) (\<lambda>n.
           step_key iter container_sv index n (PerlUpb_ByNumberMap_Key V))
         else ret PL_sv_undef))))"

definition PerlUpb_DescriptorMapIterator_NextValue :: "vtables \<Rightarrow> sv option \<Rightarrow> (upb_st, sv) xs" where
  "PerlUpb_DescriptorMapIterator_NextValue V self =
     bind_xs (PerlUpb_DescriptorMapIterator_Get self) (\<lambda>iter.
     if iter = NULL then ret PL_sv_undef
     else bind_xs (load_map_iter iter) (\<lambda>(container_sv, index).
       if index = 0 then ret PL_sv_undef
       else bind_xs (PerlUpb_ByNameMap_Get (Some container_sv)) (\<lambda>name_map.
         if name_map \<noteq> NULL then PerlUpb_ByNameMap_Value V (Some container_sv) (index - 1)
         else bind_xs (PerlUpb_ByNumberMap_Get (Some container_sv)) (\<lambda>num_map.
           if num_map \<noteq> NULL then PerlUpb_ByNumberMap_Value V (Some container_sv) (index - 1)
           else ret PL_sv_undef))))"

definition PerlUpb_DescriptorMapIterator_Free :: "sv option \<Rightarrow> (upb_st, unit) xs" where
  "PerlUpb_DescriptorMapIterator_Free v = struct_object_free ''Protobuf::Internals::DescriptorMapIterator'' v"

section \<open>Walking a map\<close>

text \<open>
  What the iterator sees of a map: \<open>ks\<close> are its keys by index and \<open>ws\<close> how the items are
  wrapped. \<open>iter_on\<close> is an iterator with its structure at \<open>q\<close>, at index \<open>i\<close> of \<open>c\<close>.
\<close>

definition wrap_item :: "(ptr \<Rightarrow> (upb_st, sv) xs) \<Rightarrow> ptr \<Rightarrow> (upb_st, sv) xs" where
  "wrap_item wrap item = (if item = NULL then ret PL_sv_undef else wrap item)"

definition name_view :: "vtables \<Rightarrow> upb_st \<Rightarrow> sv \<Rightarrow> sv list \<Rightarrow> (upb_st, sv) xs list \<Rightarrow> bool" where
  "name_view V s c ks ws \<longleftrightarrow> (\<exists>p parent psv a. let vt = name_vt V a in
     PerlUpb_ByNameMap_Get (Some c) s = (Inr p, s) \<and> p \<noteq> NULL \<and> cheap s p = Some (CS_ByNameMap parent psv a) \<and>
     nm_count vt parent = int (length ks) \<and> length ws = length ks \<and>
     (\<forall>i < length ks. ks ! i = (case nm_key vt parent (int i) of None \<Rightarrow> PL_sv_undef | Some k \<Rightarrow> newSVpv k) \<and>
       ws ! i = wrap_item (nm_wrap vt) (nm_value vt parent (int i))))"

definition number_view :: "vtables \<Rightarrow> upb_st \<Rightarrow> sv \<Rightarrow> sv list \<Rightarrow> (upb_st, sv) xs list \<Rightarrow> bool" where
  "number_view V s c ks ws \<longleftrightarrow> (\<exists>p parent psv a. let vt = number_vt V a in
     PerlUpb_ByNameMap_Get (Some c) s = (Inr NULL, s) \<and>
     PerlUpb_ByNumberMap_Get (Some c) s = (Inr p, s) \<and> p \<noteq> NULL \<and> cheap s p = Some (CS_ByNumberMap parent psv a) \<and>
     nb_count vt parent = int (length ks) \<and> length ws = length ks \<and>
     (\<forall>i < length ks. ks ! i = newSVuv (ucast (nb_key vt parent (int i))) \<and>
       ws ! i = wrap_item (nb_wrap vt) (nb_value vt parent (int i))))"

definition iter_on :: "upb_st \<Rightarrow> sv \<Rightarrow> ptr \<Rightarrow> sv \<Rightarrow> nat \<Rightarrow> bool" where
  "iter_on s self q c i \<longleftrightarrow> PerlUpb_DescriptorMapIterator_Get (Some self) s = (Inr q, s) \<and> q \<noteq> NULL \<and>
     cheap s q = Some (CS_DescriptorMapIterator c (int i))"

definition advance :: "ptr \<Rightarrow> sv \<Rightarrow> nat \<Rightarrow> upb_st \<Rightarrow> upb_st" where
  "advance q c i s = s\<lparr>cheap := (cheap s)(q \<mapsto> CS_DescriptorMapIterator c (int i + 1))\<rparr>"

fun walk_keys :: "vtables \<Rightarrow> nat \<Rightarrow> sv \<Rightarrow> (upb_st, sv list) xs" where
  "walk_keys V 0 self = ret []"
| "walk_keys V (Suc n) self =
     bind_xs (PerlUpb_DescriptorMapIterator_NextKey V (Some self)) (\<lambda>k. bind_xs (walk_keys V n self) (\<lambda>ks. ret (k # ks)))"

lemma iter_on_advance: "iter_on s self q c i \<Longrightarrow> iter_on (advance q c i s) self q c (Suc i)"
  by (simp add: iter_on_def advance_def PerlUpb_DescriptorMapIterator_Get_def struct_object_ptr_cong [of "s\<lparr>cheap := h\<rparr>" s for h])

text \<open>The contract between the iterator and the maps it walks.\<close>

locale walkable =
  fixes view :: "vtables \<Rightarrow> upb_st \<Rightarrow> sv \<Rightarrow> sv list \<Rightarrow> (upb_st, sv) xs list \<Rightarrow> bool"
  assumes next_key: "view V s c ks ws \<Longrightarrow> iter_on s self q c i \<Longrightarrow>
      PerlUpb_DescriptorMapIterator_NextKey V (Some self) s =
        (if i < length ks then (Inr (ks ! i), advance q c i s) else (Inr PL_sv_undef, s))"
    and next_value: "view V s c ks ws \<Longrightarrow> iter_on s self q c (Suc i) \<Longrightarrow> i < length ks \<Longrightarrow>
      PerlUpb_DescriptorMapIterator_NextValue V (Some self) s = (ws ! i) s"
    and view_advance: "view V s c ks ws \<Longrightarrow> iter_on s self q c i \<Longrightarrow> view V (advance q c i s) c ks ws"
begin

lemma walk:
  assumes "view V s c ks ws" "iter_on s self q c i" "i + n \<le> length ks"
  shows "\<exists>t. walk_keys V n self s = (Inr (take n (drop i ks)), t) \<and> view V t c ks ws \<and> iter_on t self q c (i + n)"
  using assms
proof (induction n arbitrary: i s)
  case (Suc n)
  let ?t = "advance q c i s"
  from Suc.prems have i: "i < length ks" by simp
  have "view V ?t c ks ws" "iter_on ?t self q c (Suc i)"
    using Suc.prems view_advance iter_on_advance by auto
  then obtain t where "walk_keys V n self ?t = (Inr (take n (drop (Suc i) ks)), t)" "view V t c ks ws" "iter_on t self q c (i + Suc n)"
    using Suc.IH [of ?t "Suc i"] Suc.prems(3) by auto
  then show ?case using next_key [OF Suc.prems(1,2)] i
    by (auto simp: bind_xs_def take_Suc_conv_app_nth simp flip: Cons_nth_drop_Suc)
qed auto

lemma walk_end:
  assumes "view V s c ks ws" "iter_on s self q c (length ks)"
  shows "walk_keys V n self s = (Inr (replicate n PL_sv_undef), s)"
  using next_key [OF assms] by (induction n) (simp_all add: bind_xs_def)

lemma complete:
  assumes "view V s c ks ws" "iter_on s self q c 0"
  shows "\<exists>t. walk_keys V (length ks) self s = (Inr ks, t) \<and> (\<forall>n. walk_keys V n self t = (Inr (replicate n PL_sv_undef), t))"
    and "i < length ks \<Longrightarrow> \<exists>t. walk_keys V (Suc i) self s = (Inr (take (Suc i) ks), t) \<and>
      PerlUpb_DescriptorMapIterator_NextValue V (Some self) t = (ws ! i) t"
  using walk [OF assms, of "length ks"] walk_end walk [OF assms, of "Suc i"] next_value by fastforce+

end

text \<open>Both kinds of map keep the contract.\<close>

lemmas map_get_defs = PerlUpb_ByNameMap_Get_def PerlUpb_ByNumberMap_Get_def PerlUpb_DescriptorMapIterator_Get_def

lemma with_name_map_at:
  assumes "PerlUpb_ByNameMap_Get self s = (Inr p, s)" "p \<noteq> NULL" "cheap s p = Some (CS_ByNameMap parent psv a)"
  shows "with_name_map V self none k s = k (name_vt V a) parent s"
  using assms by (simp add: with_name_map_def c_load_def bind_xs_def)

lemma with_number_map_at:
  assumes "PerlUpb_ByNumberMap_Get self s = (Inr p, s)" "p \<noteq> NULL" "cheap s p = Some (CS_ByNumberMap parent psv a)"
  shows "with_number_map V self none k s = k (number_vt V a) parent s"
  using assms by (simp add: with_number_map_def c_load_def bind_xs_def)

lemma map_gets_cong:
  assumes "heap t = heap s" "isa t = isa s"
  shows "PerlUpb_ByNameMap_Get v s = (Inr p, s) \<Longrightarrow> PerlUpb_ByNameMap_Get v t = (Inr p, t)"
    "PerlUpb_ByNumberMap_Get v s = (Inr p, s) \<Longrightarrow> PerlUpb_ByNumberMap_Get v t = (Inr p, t)"
  using struct_object_ptr_cong [OF assms] by (simp_all add: map_get_defs)

lemma iter_on_load: "iter_on s self q c i \<Longrightarrow> load_map_iter q s = (Inr (c, int i), s)"
  by (simp add: iter_on_def load_map_iter_def c_load_def bind_xs_def)

lemma advance_frame [simp]: "heap (advance q c i s) = heap s" "isa (advance q c i s) = isa s"
  by (simp_all add: advance_def)

lemma cheap_advance:
  "iter_on s self q c i \<Longrightarrow> cheap s p = Some x \<Longrightarrow> \<nexists>v j. x = CS_DescriptorMapIterator v j \<Longrightarrow> cheap (advance q c i s) p = Some x"
  by (auto simp: iter_on_def advance_def)

lemma name_view_advance: "name_view V s c ks ws \<Longrightarrow> iter_on s self q c i \<Longrightarrow> name_view V (advance q c i s) c ks ws"
  unfolding name_view_def Let_def
  by (elim exE conjE, intro exI conjI, rule map_gets_cong(1) [of _ s])
    (auto intro: cheap_advance simp del: fun_upd_apply)

lemma number_view_advance: "number_view V s c ks ws \<Longrightarrow> iter_on s self q c i \<Longrightarrow> number_view V (advance q c i s) c ks ws"
  unfolding number_view_def Let_def
  by (elim exE conjE, intro exI conjI, rule map_gets_cong(1) [of _ s])
    (auto intro: cheap_advance map_gets_cong(2) [of _ s] simp del: fun_upd_apply)

lemma step_key_at:
  "step_key q c (int i) (int n) key s = (if i < n then key (Some c) (int i) (advance q c i s) else (Inr PL_sv_undef, s))"
  by (simp add: step_key_def then_xs_def bind_xs_def c_store_def advance_def)

interpretation by_name: walkable name_view
proof
  fix V s c ks ws self q i
  assume v: "name_view V s c ks ws" and it: "iter_on s self q c i"
  from v obtain p parent psv a where p: "PerlUpb_ByNameMap_Get (Some c) s = (Inr p, s)" "p \<noteq> NULL" "cheap s p = Some (CS_ByNameMap parent psv a)"
    "nm_count (name_vt V a) parent = int (length ks)"
    "\<And>i. i < length ks \<Longrightarrow> ks ! i = (case nm_key (name_vt V a) parent (int i) of None \<Rightarrow> PL_sv_undef | Some k \<Rightarrow> newSVpv k)"
    by (auto simp: name_view_def Let_def)
  let ?t = "advance q c i s"
  have "cheap ?t p = cheap s p" using it p(3) by (auto simp: iter_on_def advance_def)
  then have key: "i < length ks \<Longrightarrow> PerlUpb_ByNameMap_Key V (Some c) (int i) ?t = (Inr (ks ! i), ?t)"
    using p(5) [of i] map_gets_cong(1) [OF _ _ p(1), of ?t] p(2,3)
    by (simp add: PerlUpb_ByNameMap_Key_def with_name_map_at [of _ ?t p parent psv a])
  have "PerlUpb_ByNameMap_Count V (Some c) s = (Inr (int (length ks)), s)"
    using p(4) by (simp add: PerlUpb_ByNameMap_Count_def with_name_map_at [OF p(1-3)])
  then show "PerlUpb_DescriptorMapIterator_NextKey V (Some self) s = (if i < length ks then (Inr (ks ! i), ?t) else (Inr PL_sv_undef, s))"
    using it p(1,2) key iter_on_load [OF it]
    by (simp add: PerlUpb_DescriptorMapIterator_NextKey_def iter_on_def bind_xs_Inr [of _ s] step_key_at)
  show "name_view V ?t c ks ws" by (rule name_view_advance [OF v it])
next
  fix V s c ks ws self q i
  assume v: "name_view V s c ks ws" and it: "iter_on s self q c (Suc i)" and i: "i < length ks"
  from v i obtain p parent psv a where p: "PerlUpb_ByNameMap_Get (Some c) s = (Inr p, s)" "p \<noteq> NULL" "cheap s p = Some (CS_ByNameMap parent psv a)"
    "ws ! i = wrap_item (nm_wrap (name_vt V a)) (nm_value (name_vt V a) parent (int i))"
    by (auto simp: name_view_def Let_def)
  show "PerlUpb_DescriptorMapIterator_NextValue V (Some self) s = (ws ! i) s"
    using it p iter_on_load [OF it]
    by (simp add: with_name_map_at [OF p(1-3)] PerlUpb_DescriptorMapIterator_NextValue_def iter_on_def bind_xs_Inr [of _ s] PerlUpb_ByNameMap_Value_def wrap_item_def Let_def)
qed

interpretation by_number: walkable number_view
proof
  fix V s c ks ws self q i
  assume v: "number_view V s c ks ws" and it: "iter_on s self q c i"
  from v obtain p parent psv a where p: "PerlUpb_ByNumberMap_Get (Some c) s = (Inr p, s)" "p \<noteq> NULL" "cheap s p = Some (CS_ByNumberMap parent psv a)"
    "nb_count (number_vt V a) parent = int (length ks)" "PerlUpb_ByNameMap_Get (Some c) s = (Inr NULL, s)"
    "\<And>i. i < length ks \<Longrightarrow> ks ! i = newSVuv (ucast (nb_key (number_vt V a) parent (int i)))"
    by (auto simp: number_view_def Let_def)
  let ?t = "advance q c i s"
  have "cheap ?t p = cheap s p" using it p(3) by (auto simp: iter_on_def advance_def)
  then have key: "i < length ks \<Longrightarrow> PerlUpb_ByNumberMap_Key V (Some c) (int i) ?t = (Inr (ks ! i), ?t)"
    using p(6) [of i] map_gets_cong(2) [OF _ _ p(1), of ?t] p(2,3)
    by (simp add: PerlUpb_ByNumberMap_Key_def with_number_map_at [of _ ?t p parent psv a])
  have "PerlUpb_ByNumberMap_Count V (Some c) s = (Inr (int (length ks)), s)"
    using p(4) by (simp add: PerlUpb_ByNumberMap_Count_def with_number_map_at [OF p(1-3)])
  then show "PerlUpb_DescriptorMapIterator_NextKey V (Some self) s = (if i < length ks then (Inr (ks ! i), ?t) else (Inr PL_sv_undef, s))"
    using it p(1,2,5) key iter_on_load [OF it]
    by (simp add: PerlUpb_DescriptorMapIterator_NextKey_def iter_on_def bind_xs_Inr [of _ s] step_key_at)
  show "number_view V ?t c ks ws" by (rule number_view_advance [OF v it])
next
  fix V s c ks ws self q i
  assume v: "number_view V s c ks ws" and it: "iter_on s self q c (Suc i)" and i: "i < length ks"
  from v i obtain p parent psv a where p: "PerlUpb_ByNumberMap_Get (Some c) s = (Inr p, s)" "p \<noteq> NULL" "cheap s p = Some (CS_ByNumberMap parent psv a)"
    "ws ! i = wrap_item (nb_wrap (number_vt V a)) (nb_value (number_vt V a) parent (int i))" "PerlUpb_ByNameMap_Get (Some c) s = (Inr NULL, s)"
    by (auto simp: number_view_def Let_def)
  show "PerlUpb_DescriptorMapIterator_NextValue V (Some self) s = (ws ! i) s"
    using it p iter_on_load [OF it]
    by (simp add: with_number_map_at [OF p(1-3)] PerlUpb_DescriptorMapIterator_NextValue_def iter_on_def bind_xs_Inr [of _ s] PerlUpb_ByNumberMap_Value_def wrap_item_def Let_def)
qed

text \<open>
  C28: Walking a descriptor map terminates and is complete, for maps by name and by number: a
  fresh iterator returns all keys, each once and in the order of their indices, then
  \<open>undef\<close> for ever; and after the key of any entry, \<open>NextValue\<close> gives the item of that
  same entry.
\<close>

theorem descriptor_map_walk:
  assumes "name_view V s c ks ws \<or> number_view V s c ks ws" "iter_on s self q c 0"
  shows "(\<exists>t. walk_keys V (length ks) self s = (Inr ks, t) \<and> (\<forall>n. walk_keys V n self t = (Inr (replicate n PL_sv_undef), t))) \<and>
    (\<forall>i < length ks. \<exists>t. walk_keys V (Suc i) self s = (Inr (take (Suc i) ks), t) \<and>
      PerlUpb_DescriptorMapIterator_NextValue V (Some self) t = (ws ! i) t)"
  using assms by_name.complete [of V s c ks ws self q] by_number.complete [of V s c ks ws self q] by blast

text \<open>A map by name with the two fields of a definition, and a fresh iterator over it.\<close>

definition ex_vtables :: vtables where
  "ex_vtables =
     \<lparr>name_vt = (\<lambda>a. \<lparr>nm_count = (\<lambda>p. 2), nm_lookup = (\<lambda>p k. if k = ''id'' then 0x110 else if k = ''tag'' then 0x120 else NULL),
        nm_key = (\<lambda>p i. if i = 0 then Some ''id'' else if i = 1 then Some ''tag'' else None),
        nm_value = (\<lambda>p i. if i = 0 then 0x110 else if i = 1 then 0x120 else NULL), nm_wrap = PerlUpb_FieldDef_GetWrapper\<rparr>),
      number_vt = (\<lambda>a. \<lparr>nb_count = (\<lambda>p. 0), nb_lookup = (\<lambda>p k. NULL), nb_key = (\<lambda>p i. 0), nb_value = (\<lambda>p i. NULL),
        nb_wrap = PerlUpb_FieldDef_GetWrapper\<rparr>),
      sequence_vt = (\<lambda>a. \<lparr>sq_count = (\<lambda>p. 0), sq_get = (\<lambda>p i. NULL), sq_wrap = PerlUpb_FieldDef_GetWrapper\<rparr>)\<rparr>"

definition ex_maps :: upb_st where
  "ex_maps = snd (bind_xs (PerlUpb_ByNameMap_New (newRV 1) 0x100 0x40) PerlUpb_DescriptorMapIterator_New msg_boot)"

lemma ex_maps_eq:
  "ex_maps = msg_boot\<lparr>heap := (heap msg_boot)(
       2 \<mapsto> sv_bless ''Protobuf::Internals::DescriptorByNameMap'' \<lparr>ref_body = PVMG (newSViv 0x8000), ref_stash = None, ref_magic = [], ref_tied = None\<rparr>,
       3 \<mapsto> sv_bless ''Protobuf::Internals::DescriptorMapIterator'' \<lparr>ref_body = PVMG (newSViv 0x8100), ref_stash = None, ref_magic = [], ref_tied = None\<rparr>),
     next_addr := 4, next_ptr := 0x8200,
     cheap := [0x8000 \<mapsto> CS_ByNameMap 0x100 (newRV 1) 0x40, 0x8100 \<mapsto> CS_DescriptorMapIterator (newRV 2) 0]\<rparr>"
  by (simp add: ex_maps_def PerlUpb_ByNameMap_New_def PerlUpb_DescriptorMapIterator_New_def new_struct_object_def c_malloc_def
      fresh_ptr_def bind_xs_def then_xs_def alloc_def)

theorem descriptor_map_walk_witness:
  "\<exists>t. walk_keys ex_vtables 2 (newRV 3) ex_maps = (Inr [newSVpv ''id'', newSVpv ''tag''], t) \<and>
     walk_keys ex_vtables 5 (newRV 3) t = (Inr (replicate 5 PL_sv_undef), t)"
proof -
  let ?ks = "[newSVpv ''id'', newSVpv ''tag'']" and ?ws = "map PerlUpb_FieldDef_GetWrapper [0x110, 0x120]"
  have "PerlUpb_ByNameMap_Get (Some (newRV 2)) ex_maps = (Inr 0x8000, ex_maps)"
    by (simp add: map_get_defs struct_object_ptr_def sv_derived_from_def ex_maps_eq) (simp add: sv_bless_def)
  then have "name_view ex_vtables ex_maps (newRV 2) ?ks ?ws"
    unfolding name_view_def Let_def
    by (intro exI [of _ "0x8000"] exI [of _ "0x100"] exI [of _ "newRV 1"] exI [of _ "0x40"])
      (auto simp: ex_maps_eq ex_vtables_def wrap_item_def less_Suc_eq nth_Cons')
  moreover have "iter_on ex_maps (newRV 3) 0x8100 (newRV 2) 0"
    by (simp add: iter_on_def map_get_defs struct_object_ptr_def sv_derived_from_def ex_maps_eq) (simp add: sv_bless_def)
  ultimately show ?thesis using descriptor_map_walk [of ex_vtables ex_maps "newRV 2" ?ks ?ws "newRV 3" "0x8100"] by (auto simp: numeral_2_eq_2)
qed

end
