(* ===== verification/Attach.thy ===== *)
theory Attach
  imports Descriptor_Pool
begin

text \<open>
  \<open>PerlUpb_Arena_AttachMessage\<close> of \<open>xs/protobuf/arena_tmpfs.c\<close>, where arenas, descriptor pools and
  message wrappers meet: it takes the bytes at an offset of a mapped arena for a message
  of a type in the generated pool.
\<close>

definition PerlUpb_Arena_AttachMessage :: "sv option \<Rightarrow> string \<Rightarrow> size_t \<Rightarrow> (upb_st, sv) xs" where
  "PerlUpb_Arena_AttachMessage arena_sv name offset =
     bind_xs (PerlUpb_Arena_IsTmpfs arena_sv) (\<lambda>tmpfs.
     if \<not> tmpfs then croak ''Arena is not a tmpfs arena'' []
     else bind_xs (arena_block arena_sv) (\<lambda>block.
       case block of
         None \<Rightarrow> fault ''SvIV of a missing _arena_ptr entry''
       | Some b \<Rightarrow>
           if bl_size b \<le> offset
           then croak ''Offset %zu out of bounds for arena size %zu'' [CInt (uint offset), CInt (uint (bl_size b))]
           else bind_xs PerlUpb_DescriptorPool_GeneratedPool (\<lambda>pool_sv.
             bind_xs (PerlUpb_DescriptorPool_GetPool (Some pool_sv)) (\<lambda>pool.
             bind_xs (find_symbol dp_messages pool name) (\<lambda>m.
             if m = NULL then croak ''Message definition not found: %s'' [CStr name]
             else PerlUpb_WrapMessage (bl_region b + offset) m arena_sv 0)))))"

text \<open>A tmpfs arena object with its block allocator.\<close>

definition tmpfs_block :: "upb_st \<Rightarrow> sv option \<Rightarrow> PerlUpb_BlockAlloc \<Rightarrow> bool" where
  "tmpfs_block s v b \<longleftrightarrow> PerlUpb_Arena_IsTmpfs v s = (Inr True, s) \<and> arena_block v s = (Inr (Some b), s)"

lemma attach_out_of_bounds:
  assumes "tmpfs_block s v b" "bl_size b \<le> offset"
  shows "PerlUpb_Arena_AttachMessage v name offset s =
    (Inl (Croak ''Offset %zu out of bounds for arena size %zu'' [CInt (uint offset), CInt (uint (bl_size b))]), s)"
  using assms by (simp add: PerlUpb_Arena_AttachMessage_def tmpfs_block_def bind_xs_Inr [of _ s])

text \<open>
  The offset of an attached message: \<open>PerlUpb_Arena_GetOffset\<close> gives back the offset that
  \<open>AttachMessage\<close> was called with, as long as the region does not wrap around the end of the
  address space.
\<close>

lemma offset_of_attached:
  assumes "tmpfs_block s v b" "offset < bl_size b" "uint (bl_region b) + uint (bl_size b) < 2 ^ 64"
  shows "PerlUpb_Arena_GetOffset v (bl_region b + offset) s = (Inr offset, s)"
proof -
  have lt: "uint offset < uint (bl_size b)" using assms(2) by (simp add: word_less_def)
  then have "uint (bl_region b + offset) = uint (bl_region b) + uint offset" "uint (bl_region b + bl_size b) = uint (bl_region b) + uint (bl_size b)"
    using assms(3) by (simp_all add: uint_word_ariths)
  then have "\<not> bl_region b + offset < bl_region b" "\<not> bl_region b + bl_size b \<le> bl_region b + offset"
    using lt by (simp_all add: word_less_def word_le_def)
  then show ?thesis using assms(1) by (simp add: PerlUpb_Arena_GetOffset_def tmpfs_block_def bind_xs_Inr [of _ s])
qed

lemma attach_lookup_failure:
  assumes "tmpfs_block s v b" "offset < bl_size b" "PerlUpb_DescriptorPool_GeneratedPool s = (Inr w, t)"
    and "PerlUpb_DescriptorPool_GetPool (Some w) t = (Inr pool, t)" "pools (defs t) pool = Some dp" "map_of (dp_messages dp) name = None"
  shows "PerlUpb_Arena_AttachMessage v name offset s = (Inl (Croak ''Message definition not found: %s'' [CStr name]), t)"
  using assms by (simp add: PerlUpb_Arena_AttachMessage_def tmpfs_block_def bind_xs_Inr [of _ s] bind_xs_Inr [of _ t] find_symbol_def bind_xs_def)

end
