(* ===== verification/Cache_Locks.thy ===== *)
theory Cache_Locks
  imports Obj_Cache
begin

text \<open>
  The mutexes of the object cache when several threads run. Each Perl thread has its own
  interpreter, so its own registry, hash and queue, but the mutexes of
  \<open>xs/protobuf/obj_cache.c\<close> are static variables that all threads share. The lock calls of
  an operation depend on the state of its own interpreter only, and \<open>lock_trace\<close> records
  them; a thread is here the list of lock calls it still has to make, with the mutexes it
  holds. Mutexes are not recursive: who locks one twice waits for ever.

  The locale \<open>lock_discipline\<close> is the contract that rules deadlock out: every operation
  locks in the order of a rank and gives back what it took. The operations without
  \<open>PerlUpb_ObjCache_Clear\<close> keep it, and so do all operations as long as no \<open>Add\<close> evicts;
  together, an evicting \<open>Add\<close> and a \<open>Clear\<close> lock in opposite orders.
\<close>

section \<open>Threads\<close>

type_synonym lock_thread = "mutex list \<times> lock_event list"

inductive lock_step :: "lock_thread list \<Rightarrow> lock_thread list \<Rightarrow> bool" where
  acquire: "i < length ts \<Longrightarrow> ts ! i = (held, Acq m # es) \<Longrightarrow> \<forall>t\<in>set ts. m \<notin> set (fst t) \<Longrightarrow>
    lock_step ts (ts[i := (m # held, es)])"
| release: "i < length ts \<Longrightarrow> ts ! i = (held, Rel m # es) \<Longrightarrow> m \<in> set held \<Longrightarrow>
    lock_step ts (ts[i := (remove1 m held, es)])"

definition finished :: "lock_thread list \<Rightarrow> bool" where
  "finished ts \<longleftrightarrow> (\<forall>t\<in>set ts. snd t = [])"

text \<open>A step of a given thread, and a whole schedule, as functions.\<close>

definition thread_step :: "nat \<Rightarrow> lock_thread list \<Rightarrow> lock_thread list option" where
  "thread_step i ts =
     (if length ts \<le> i then None
      else case ts ! i of
          (held, []) \<Rightarrow> None
        | (held, Acq m # es) \<Rightarrow> if \<exists>t\<in>set ts. m \<in> set (fst t) then None else Some (ts[i := (m # held, es)])
        | (held, Rel m # es) \<Rightarrow> if m \<in> set held then Some (ts[i := (remove1 m held, es)]) else None)"

primrec run_schedule :: "nat list \<Rightarrow> lock_thread list \<Rightarrow> lock_thread list option" where
  "run_schedule [] ts = Some ts"
| "run_schedule (i # is) ts = (case thread_step i ts of None \<Rightarrow> None | Some ts \<Rightarrow> run_schedule is ts)"

lemma lock_step_iff: "lock_step ts ts' \<longleftrightarrow> (\<exists>i<length ts. thread_step i ts = Some ts')"
proof
  assume "lock_step ts ts'"
  then show "\<exists>i<length ts. thread_step i ts = Some ts'"
  proof cases
    case (acquire i held m es)
    then show ?thesis by (intro exI [of _ i]) (simp add: thread_step_def)
  next
    case (release i held m es)
    then show ?thesis by (intro exI [of _ i]) (simp add: thread_step_def)
  qed
next
  assume "\<exists>i<length ts. thread_step i ts = Some ts'"
  then obtain i where i: "i < length ts" "thread_step i ts = Some ts'" by blast
  obtain h es where t: "ts ! i = (h, es)" by fastforce
  show "lock_step ts ts'"
  proof (cases es)
    case (Cons e fs)
    then show ?thesis
      using i t by (cases e) (auto simp: thread_step_def intro: lock_step.intros split: if_splits)
  qed (use i t in \<open>simp add: thread_step_def\<close>)
qed

lemma run_schedule_reaches: "run_schedule is ts = Some ts' \<Longrightarrow> lock_step\<^sup>*\<^sup>* ts ts'"
proof (induction "is" arbitrary: ts)
  case (Cons i "is")
  then obtain ts1 where "thread_step i ts = Some ts1" "lock_step\<^sup>*\<^sup>* ts1 ts'"
    by (auto split: option.splits)
  moreover from this(1) have "lock_step ts ts1"
    unfolding lock_step_iff by (intro exI [of _ i]) (auto simp: thread_step_def split: if_splits)
  ultimately show ?case by (simp add: converse_rtranclp_into_rtranclp)
qed simp

text \<open>Every step takes one lock call, so a run ends after as many steps as there are calls.\<close>

definition calls_left :: "lock_thread list \<Rightarrow> nat" where
  "calls_left ts = sum_list (map (length \<circ> snd) ts)"

lemma calls_left_update:
  assumes "i < length ts" "ts ! i = (h, e # es)"
  shows "calls_left ts = Suc (calls_left (ts[i := (h', es)]))"
proof -
  have "ts = take i ts @ (h, e # es) # drop (Suc i) ts"
    using assms by (metis id_take_nth_drop)
  then have "calls_left ts = calls_left (take i ts) + Suc (length es) + calls_left (drop (Suc i) ts)"
    by (metis (no_types, lifting) add.assoc calls_left_def comp_apply length_Cons list.simps(9) map_append snd_conv
        sum_list.Cons sum_list.append)
  then show ?thesis
    using assms(1) by (simp add: calls_left_def upd_conv_take_nth_drop)
qed

lemma lock_step_calls: "lock_step ts ts' \<Longrightarrow> calls_left ts = Suc (calls_left ts')"
  by (induction rule: lock_step.induct) (simp_all add: calls_left_update)

text \<open>No mutex is held twice, by two threads or by one.\<close>

definition exclusive :: "lock_thread list \<Rightarrow> bool" where
  "exclusive ts \<longleftrightarrow> distinct (concat (map fst ts))"

lemma exclusive_update:
  assumes "i < length ts" "exclusive ts" "distinct h"
    and "set h \<subseteq> set (fst (ts ! i)) \<or> (\<forall>m. m \<in> set h - set (fst (ts ! i)) \<longrightarrow> (\<forall>t\<in>set ts. m \<notin> set (fst t)))"
  shows "exclusive (ts[i := (h, es)])"
proof -
  have ts: "ts = take i ts @ ts ! i # drop (Suc i) ts"
    using assms(1) by (metis id_take_nth_drop)
  let ?l = "concat (map fst (take i ts))" and ?r = "concat (map fst (drop (Suc i) ts))"
  have "exclusive (take i ts @ ts ! i # drop (Suc i) ts)"
    using assms(2) ts by simp
  then have d: "distinct ?l" "distinct ?r" "set ?l \<inter> set ?r = {}"
    "set (fst (ts ! i)) \<inter> (set ?l \<union> set ?r) = {}"
    by (auto simp: exclusive_def)
  have "m \<notin> set ?l \<union> set ?r" if "\<forall>t\<in>set ts. m \<notin> set (fst t)" for m
    using that by (auto dest: in_set_takeD in_set_dropD)
  then have "set h \<inter> (set ?l \<union> set ?r) = {}"
    using assms(4) d(4) by blast
  then have "distinct (?l @ h @ ?r)"
    using d assms(3) by (auto simp: Int_Un_distrib inf_commute)
  then show ?thesis
    using assms(1) by (simp add: exclusive_def upd_conv_take_nth_drop)
qed

lemma exclusive_thread: "exclusive ts \<Longrightarrow> t \<in> set ts \<Longrightarrow> distinct (fst t)"
  by (auto simp: exclusive_def distinct_concat_iff)

lemma lock_step_exclusive: "lock_step ts ts' \<Longrightarrow> exclusive ts \<Longrightarrow> exclusive ts'"
proof (induction rule: lock_step.induct)
  case (acquire i ts held m es)
  then have "distinct held" "m \<notin> set held"
    using exclusive_thread [OF acquire.prems, of "ts ! i"] nth_mem [of i ts] by force+
  then show ?case
    using acquire by (intro exclusive_update) auto
next
  case (release i ts held m es)
  then have "distinct held"
    using exclusive_thread [OF release.prems, of "ts ! i"] nth_mem [of i ts] by force
  then show ?case
    using release set_remove1_subset [of m held] by (intro exclusive_update) auto
qed

section \<open>Lock order\<close>

text \<open>
  \<open>ordered r held es\<close>: with \<open>held\<close> held, the calls \<open>es\<close> only lock what ranks above everything
  held at that point, only unlock what is held, and leave nothing locked.
\<close>

fun ordered :: "(mutex \<Rightarrow> nat) \<Rightarrow> mutex list \<Rightarrow> lock_event list \<Rightarrow> bool" where
  "ordered r held [] \<longleftrightarrow> held = []"
| "ordered r held (Acq m # es) \<longleftrightarrow> (\<forall>h\<in>set held. r h < r m) \<and> ordered r (m # held) es"
| "ordered r held (Rel m # es) \<longleftrightarrow> m \<in> set held \<and> ordered r (remove1 m held) es"

definition all_ordered :: "(mutex \<Rightarrow> nat) \<Rightarrow> lock_thread list \<Rightarrow> bool" where
  "all_ordered r ts \<longleftrightarrow> (\<forall>t\<in>set ts. ordered r (fst t) (snd t))"

lemma all_ordered_update: "all_ordered r ts \<Longrightarrow> ordered r h es \<Longrightarrow> all_ordered r (ts[i := (h, es)])"
  by (auto simp: all_ordered_def dest!: set_update_subset_insert [THEN subsetD])

lemma all_ordered_nth: "all_ordered r ts \<Longrightarrow> i < length ts \<Longrightarrow> ts ! i = (h, es) \<Longrightarrow> ordered r h es"
  by (metis all_ordered_def fst_conv nth_mem snd_conv)

lemma lock_step_ordered: "lock_step ts ts' \<Longrightarrow> all_ordered r ts \<Longrightarrow> all_ordered r ts'"
  by (induction rule: lock_step.induct) (auto intro!: all_ordered_update dest: all_ordered_nth)

text \<open>Among the threads that wait, the one that waits for the mutex of highest rank is not blocked.\<close>

lemma all_ordered_progress:
  assumes "all_ordered r ts" "\<not> finished ts"
  shows "\<exists>ts'. lock_step ts ts'"
proof (cases "\<exists>i<length ts. \<exists>h m es. ts ! i = (h, Rel m # es)")
  case True
  then show ?thesis
    using assms(1) by (fastforce dest: all_ordered_nth intro: lock_step.release)
next
  case no_rel: False
  define W where "W = {(i, m). i < length ts \<and> (\<exists>h es. ts ! i = (h, Acq m # es))}"
  have waiting: "\<exists>m h es. (i, m) \<in> W \<and> ts ! i = (h, Acq m # es)" if i: "i < length ts" and calls: "snd (ts ! i) \<noteq> []" for i
  proof -
    obtain h e es where "ts ! i = (h, e # es)" using calls by (cases "ts ! i") (auto simp: neq_Nil_conv)
    then show ?thesis using i no_rel by (cases e) (auto simp: W_def)
  qed
  have "W \<subseteq> (\<lambda>i. (i, case snd (ts ! i) of Acq m # _ \<Rightarrow> m | _ \<Rightarrow> M_lru)) ` {..<length ts}"
    by (force simp: W_def)
  then have fin: "finite W" by (rule finite_subset) simp
  have "W \<noteq> {}" using assms(2) waiting by (fastforce simp: finished_def in_set_conv_nth)
  then have "Max ((r \<circ> snd) ` W) \<in> (r \<circ> snd) ` W" using fin by simp
  then obtain i m where im: "(i, m) \<in> W" "Max ((r \<circ> snd) ` W) = r m" by auto
  have top: "r m' \<le> r m" if "(j, m') \<in> W" for j m'
    using that fin im(2) Max_ge [of "(r \<circ> snd) ` W" "r m'"] by force
  have free: "m \<notin> set (fst t)" if t: "t \<in> set ts" for t
  proof
    assume held: "m \<in> set (fst t)"
    obtain j where j: "j < length ts" "ts ! j = t" using t by (metis in_set_conv_nth)
    have ord: "ordered r (fst t) (snd t)" using assms(1) t by (simp add: all_ordered_def)
    then have "snd t \<noteq> []" using held by (cases "snd t") auto
    then obtain m' h es where "(j, m') \<in> W" "t = (h, Acq m' # es)" using waiting j by blast
    then show False using ord held top by fastforce
  qed
  obtain h es where "i < length ts" "ts ! i = (h, Acq m # es)"
    using im(1) by (auto simp: W_def)
  then show ?thesis
    using free lock_step.acquire by blast
qed

text \<open>Balanced sequences of calls, and the bracket that most of them are.\<close>

definition neutral :: "(mutex \<Rightarrow> nat) \<Rightarrow> mutex list \<Rightarrow> lock_event list \<Rightarrow> bool" where
  "neutral r held es \<longleftrightarrow> (\<forall>fs. ordered r held (es @ fs) = ordered r held fs)"

definition within :: "bool \<Rightarrow> mutex \<Rightarrow> lock_event list \<Rightarrow> lock_event list" where
  "within b m es = (if b then Acq m # es @ [Rel m] else [])"

lemma neutral_Nil [simp]: "neutral r held []"
  by (simp add: neutral_def)

lemma neutral_append: "neutral r held es \<Longrightarrow> neutral r held fs \<Longrightarrow> neutral r held (es @ fs)"
  by (simp add: neutral_def)

lemma neutral_concat: "(\<And>es. es \<in> set ess \<Longrightarrow> neutral r held es) \<Longrightarrow> neutral r held (concat ess)"
  by (induction ess) (simp_all add: neutral_append)

lemma neutral_within: "\<forall>h\<in>set held. r h < r m \<Longrightarrow> neutral r (m # held) es \<Longrightarrow> neutral r held (within b m es)"
  by (auto simp: neutral_def within_def)

lemma neutral_nest:
  "sorted_wrt (\<lambda>a b. r a < r b) ms \<Longrightarrow> \<forall>h\<in>set held. \<forall>m\<in>set ms. r h < r m \<Longrightarrow>
   neutral r (rev ms @ held) es \<Longrightarrow> neutral r held (foldr (within b) ms es)"
  by (induction ms arbitrary: held) (auto intro!: neutral_within)

lemma neutral_ordered: "neutral r [] es \<Longrightarrow> ordered r [] es"
  unfolding neutral_def by (metis append_Nil2 ordered.simps(1))

section \<open>The discipline\<close>

text \<open>
  The lock calls of a thread that runs \<open>ops\<close> from the state \<open>s\<close>, and the threads before their
  first call.
\<close>

definition thread_prog :: "('op \<Rightarrow> 's \<Rightarrow> 's) \<Rightarrow> ('s \<Rightarrow> lock_event list) \<Rightarrow> 'op list \<times> 's \<Rightarrow> lock_event list" where
  "thread_prog exec trace th = drop (length (trace (snd th))) (trace (fold exec (fst th) (snd th)))"

definition start_threads :: "lock_event list list \<Rightarrow> lock_thread list" where
  "start_threads ess = map (Pair []) ess"

lemma exclusive_start: "exclusive (start_threads ess)"
  by (induction ess) (simp_all add: exclusive_def start_threads_def)

primrec run_ok :: "('op \<Rightarrow> 's \<Rightarrow> bool) \<Rightarrow> ('op \<Rightarrow> 's \<Rightarrow> 's) \<Rightarrow> 'op list \<Rightarrow> 's \<Rightarrow> bool" where
  "run_ok allowed exec [] s = True"
| "run_ok allowed exec (op # ops) s = (allowed op s \<and> run_ok allowed exec ops (exec op s))"

text \<open>What threads that cannot block each other promise, in every state they reach.\<close>

definition never_stuck :: "lock_thread list \<Rightarrow> bool" where
  "never_stuck ts0 \<longleftrightarrow> (\<forall>ts. lock_step\<^sup>*\<^sup>* ts0 ts \<longrightarrow>
     exclusive ts \<and> (finished ts \<or> (\<exists>ts'. lock_step ts ts')) \<and>
     (\<exists>ts'. lock_step\<^sup>*\<^sup>* ts ts' \<and> finished ts' \<and> (\<forall>t\<in>set ts'. fst t = [])))"

locale lock_discipline =
  fixes rank :: "mutex \<Rightarrow> nat"
    and inv :: "'s \<Rightarrow> bool"
    and allowed :: "'op \<Rightarrow> 's \<Rightarrow> bool"
    and exec :: "'op \<Rightarrow> 's \<Rightarrow> 's"
    and trace :: "'s \<Rightarrow> lock_event list"
  assumes inv_exec: "inv s \<Longrightarrow> allowed op s \<Longrightarrow> inv (exec op s)"
    and trace_exec: "inv s \<Longrightarrow> allowed op s \<Longrightarrow> \<exists>es. trace (exec op s) = trace s @ es \<and> neutral rank [] es"
begin

lemma trace_run:
  "inv s \<Longrightarrow> run_ok allowed exec ops s \<Longrightarrow> \<exists>es. trace (fold exec ops s) = trace s @ es \<and> neutral rank [] es"
proof (induction ops arbitrary: s)
  case (Cons op ops)
  obtain es where es: "trace (exec op s) = trace s @ es" "neutral rank [] es"
    using Cons.prems trace_exec by auto
  obtain fs where "trace (fold exec ops (exec op s)) = trace (exec op s) @ fs" "neutral rank [] fs"
    using Cons.IH [of "exec op s"] Cons.prems inv_exec by auto
  then show ?case
    using es by (auto intro!: exI [of _ "es @ fs"] neutral_append)
qed simp

lemma prog_ordered: "inv (snd th) \<Longrightarrow> run_ok allowed exec (fst th) (snd th) \<Longrightarrow> ordered rank [] (thread_prog exec trace th)"
  using trace_run [of "snd th" "fst th"] by (auto simp: thread_prog_def neutral_ordered)

lemma reachable_ordered:
  assumes "\<forall>th\<in>set ths. inv (snd th) \<and> run_ok allowed exec (fst th) (snd th)"
    and "lock_step\<^sup>*\<^sup>* (start_threads (map (thread_prog exec trace) ths)) ts"
  shows "all_ordered rank ts \<and> exclusive ts"
  using assms(2)
proof (induction rule: rtranclp_induct)
  case base
  show ?case
    using assms(1) prog_ordered by (auto simp: exclusive_start) (auto simp: start_threads_def all_ordered_def)
next
  case (step ts ts')
  then show ?case by (simp add: lock_step_ordered lock_step_exclusive)
qed

lemma completes: "all_ordered rank ts \<Longrightarrow> \<exists>ts'. lock_step\<^sup>*\<^sup>* ts ts' \<and> finished ts' \<and> (\<forall>t\<in>set ts'. fst t = [])"
proof (induction "calls_left ts" arbitrary: ts rule: less_induct)
  case less
  show ?case
  proof (cases "finished ts")
    case True
    then show ?thesis
      using less.prems by (intro exI [of _ ts]) (auto simp: finished_def all_ordered_def)
  next
    case False
    then obtain ts1 where st: "lock_step ts ts1"
      using less.prems all_ordered_progress by blast
    then have "\<exists>ts'. lock_step\<^sup>*\<^sup>* ts1 ts' \<and> finished ts' \<and> (\<forall>t\<in>set ts'. fst t = [])"
      using less lock_step_calls lock_step_ordered by (metis lessI)
    then show ?thesis
      using st by (meson converse_rtranclp_into_rtranclp)
  qed
qed

lemma threads_never_stuck:
  assumes "\<forall>th\<in>set ths. inv (snd th) \<and> run_ok allowed exec (fst th) (snd th)"
  shows "never_stuck (start_threads (map (thread_prog exec trace) ths))"
  unfolding never_stuck_def using reachable_ordered [OF assms] all_ordered_progress completes by blast

end

section \<open>The lock calls of the cache operations\<close>

datatype thread_op =
    Cache_Op cache_op
  | Log_Event int ptr
  | Get_Audit_Log

fun thread_exec :: "thread_op \<Rightarrow> 'z cache_st_scheme \<Rightarrow> 'z cache_st_scheme" where
  "thread_exec (Cache_Op op) s = cache_exec op s"
| "thread_exec (Log_Event ty p) s = PerlUpb_ObjCache_LogEvent ty p s"
| "thread_exec Get_Audit_Log s = snd (PerlUpb_ObjCache_GetAuditLog s)"

definition log_calls :: "'z cache_st_scheme \<Rightarrow> lock_event list" where
  "log_calls s = within (use_ithreads s \<and> init (global_audit_log s)) M_audit []"

lemma init_audit_push [simp]: "init (audit_push e l) = init l"
  by (simp add: audit_push_def Let_def)

lemma init_log [simp]: "init (global_audit_log (PerlUpb_ObjCache_LogEvent ty p s)) = init (global_audit_log s)"
  by (simp add: log_audit)

lemma LogEvent_calls [simp]: "lock_trace (PerlUpb_ObjCache_LogEvent ty p s) = lock_trace s @ log_calls s"
  by (simp add: PerlUpb_ObjCache_LogEvent_def Let_def log_calls_def within_def)

lemma log_calls_cong [simp]:
  "log_calls (LOCK_AND_PROFILE m s) = log_calls s" "log_calls (MUTEX_UNLOCK m s) = log_calls s"
  "log_calls (set_cache reg h s) = log_calls s" "log_calls (PerlUpb_ObjCache_LogEvent ty p s) = log_calls s"
  using lock_frames [of s m] by (simp_all add: log_calls_def same_cache_def)

lemma evict_key_calls:
  "lock_trace (evict_key reg k s) = lock_trace s @ within (use_ithreads s) (M_stripe (get_stripe k)) (log_calls s)"
  "log_calls (evict_key reg k s) = log_calls s" "use_ithreads (evict_key reg k s) = use_ithreads s"
  by (simp_all add: evict_key_def Let_def within_def log_calls_def)

lemma evict_loop_calls:
  "lock_trace (snd (evict_loop reg ks s)) = lock_trace s @
     concat (map (\<lambda>k. within (use_ithreads s) (M_stripe (get_stripe k)) (log_calls s))
       (take (length ks - unat (max_cache_capacity reg)) ks)) \<and>
   use_ithreads (snd (evict_loop reg ks s)) = use_ithreads s"
proof (induction ks arbitrary: s)
  case (Cons k ks)
  show ?case
  proof (cases "length (k # ks) > unat (max_cache_capacity reg)")
    case True
    then have "length (k # ks) - unat (max_cache_capacity reg) = Suc (length ks - unat (max_cache_capacity reg))"
      by simp
    then show ?thesis
      using True Cons.IH [of "evict_key reg k s"] by (simp add: evict_key_calls)
  qed simp
qed simp

text \<open>In a ready interpreter an operation stays ready and makes these calls.\<close>

lemma Add_calls:
  assumes "ready s" "p \<noteq> NULL" "sv_rok v = Some a"
  shows "lock_trace (snd (PerlUpb_ObjCache_Add p (Some v) s)) = lock_trace s @
    within (use_ithreads s) (M_stripe (get_stripe p)) [] @ log_calls (ensure_mutexes_init s) @
    within (use_ithreads s) M_lru (concat (map
      (\<lambda>k. within (use_ithreads s) (M_stripe (get_stripe k)) (log_calls (ensure_mutexes_init s)))
      (take (Suc (length (lru s)) - cap s) (lru s @ [p]))))"
  using assms
  by (auto elim!: readyE simp: PerlUpb_ObjCache_Add_def ready_Registry_Get bind_xs_def case_prod_beta Let_def
      evict_loop_calls within_def log_calls_def)

lemma Get_calls:
  assumes "ready s" "p \<noteq> NULL"
  shows "lock_trace (snd (PerlUpb_ObjCache_Get p s)) = lock_trace s @
    within (use_ithreads s) (M_stripe (get_stripe p)) (log_calls (ensure_mutexes_init s))"
  using assms
  by (auto elim!: readyE simp: PerlUpb_ObjCache_Get_def ready_Registry_Get Let_def case_prod_beta within_def
      log_calls_def split: option.split)

lemma Delete_calls:
  assumes "ready s" "p \<noteq> NULL"
  shows "lock_trace (PerlUpb_ObjCache_Delete p s) = lock_trace s @ within (use_ithreads s) (M_stripe (get_stripe p))
    (if map_of (hash s) p = None then [] else log_calls (ensure_mutexes_init s))"
  using assms
  by (auto elim!: readyE simp: PerlUpb_ObjCache_Delete_def ready_Registry_Get Let_def case_prod_beta within_def
      cache_of_def log_calls_def ready_def split: option.split)

lemma SetCapacity_calls:
  "ready s \<Longrightarrow> lock_trace (snd (PerlUpb_ObjCache_SetCapacity c s)) = lock_trace s @ within (use_ithreads s) M_lru []"
  by (simp add: SetCapacity_ready within_def)

lemma fold_lock_calls:
  "lock_trace (fold (\<lambda>i. LOCK_AND_PROFILE (f i)) is s) = lock_trace s @ (if use_ithreads s then map (Acq \<circ> f) is else [])"
  "lock_trace (fold (\<lambda>i. MUTEX_UNLOCK (f i)) is s) = lock_trace s @ (if use_ithreads s then map (Rel \<circ> f) is else [])"
  by (induction "is" arbitrary: s) auto

lemma nest_eq: "foldr (within True) ms es = map Acq ms @ es @ map Rel (rev ms)"
  by (induction ms) (simp_all add: within_def)

lemma Clear_calls:
  assumes "ready s"
  shows "lock_trace (snd (PerlUpb_ObjCache_Clear s)) = lock_trace s @
    (if use_ithreads s then foldr (within True) (map M_stripe [0..<NUM_CACHE_STRIPES] @ [M_lru, M_audit]) [] else [])"
  using assms fold_lock_fields [of "ensure_mutexes_init s" M_stripe "[0..<NUM_CACHE_STRIPES]"]
  by (auto elim!: readyE simp: PerlUpb_ObjCache_Clear_def ready_Registry_Get bind_xs_def then_xs_def frame_def Let_def
      fold_lock_calls nest_eq rev_map within_def)

text \<open>Computations that return and only allocate.\<close>

definition allocates :: "('z cache_st_scheme, 'a) xs \<Rightarrow> bool" where
  "allocates m \<longleftrightarrow> (\<forall>s. \<exists>x h n. m s = (Inr x, s\<lparr>heap := h, next_addr := n\<rparr>))"

lemma allocates_ret: "allocates (ret x)"
  unfolding allocates_def by (metis perl_st.surjective perl_st.update_convs(1,2) ret_apply)

lemma allocates_alloc: "allocates (alloc r)"
  by (auto simp: allocates_def alloc_apply)

lemma allocates_bind: "allocates m \<Longrightarrow> (\<And>x. allocates (k x)) \<Longrightarrow> allocates (bind_xs m k)"
proof -
  assume m: "allocates m" and k: "\<And>x. allocates (k x)"
  have "\<exists>y h n. bind_xs m k s = (Inr y, s\<lparr>heap := h, next_addr := n\<rparr>)" for s
  proof -
    obtain x h n where 1: "m s = (Inr x, s\<lparr>heap := h, next_addr := n\<rparr>)"
      using m unfolding allocates_def by blast
    obtain y h' n' where "k x (s\<lparr>heap := h, next_addr := n\<rparr>) = (Inr y, s\<lparr>heap := h, next_addr := n\<rparr>\<lparr>heap := h', next_addr := n'\<rparr>)"
      using k [of x] unfolding allocates_def by blast
    then have "bind_xs m k s = (Inr y, s\<lparr>heap := h', next_addr := n'\<rparr>)" using 1 by (simp add: bind_xs_def)
    then show ?thesis by blast
  qed
  then show ?thesis by (simp add: allocates_def)
qed

lemma allocates_foldr:
  "allocates (foldr (\<lambda>e k. bind_xs (alloc (hv e)) (\<lambda>a. bind_xs k (\<lambda>as. ret (a # as)))) es (ret []))"
  by (induction es) (simp_all add: allocates_ret allocates_bind allocates_alloc del: ret_apply)

lemma allocates_then: "allocates m \<Longrightarrow> \<exists>x h n. bind_xs m k s = k x (s\<lparr>heap := h, next_addr := n\<rparr>)"
proof -
  assume "allocates m"
  then obtain x h n where "m s = (Inr x, s\<lparr>heap := h, next_addr := n\<rparr>)"
    unfolding allocates_def by blast
  then have "bind_xs m k s = k x (s\<lparr>heap := h, next_addr := n\<rparr>)" by (rule bind_xs_Inr)
  then show ?thesis by blast
qed

lemma GetAuditLog_calls:
  "lock_trace (snd (PerlUpb_ObjCache_GetAuditLog s)) = lock_trace s @ within (use_ithreads s) M_audit []"
  "ready (snd (PerlUpb_ObjCache_GetAuditLog s)) = ready s"
proof -
  let ?s = "MUTEX_LOCK M_audit (ensure_mutexes_init s)"
  let ?hv = "\<lambda>e. hv_store ''timestamp'' (newSViv (of_int (ae_timestamp e)))
      (hv_store ''ptr'' (newSVpv (fmt_ptr (ae_ptr e))) (hv_store ''type'' (newSViv (of_int (ae_type e))) newHV))"
  obtain as h n where "PerlUpb_ObjCache_GetAuditLog s =
      bind_xs (alloc (newAV (map newRV as))) (\<lambda>av. then_xs (modify_xs (MUTEX_UNLOCK M_audit)) (ret (newRV av)))
        (?s\<lparr>heap := h, next_addr := n\<rparr>)"
    using allocates_then [OF allocates_foldr [of ?hv "audit_read (global_audit_log ?s)"],
        of "\<lambda>as. bind_xs (alloc (newAV (map newRV as))) (\<lambda>av. then_xs (modify_xs (MUTEX_UNLOCK M_audit)) (ret (newRV av)))" ?s]
    by (auto simp: PerlUpb_ObjCache_GetAuditLog_def Let_def)
  then have *: "\<exists>h n. snd (PerlUpb_ObjCache_GetAuditLog s) = MUTEX_UNLOCK M_audit (?s\<lparr>heap := h, next_addr := n\<rparr>)"
    by (auto simp: bind_xs_def alloc_apply)
  then show "lock_trace (snd (PerlUpb_ObjCache_GetAuditLog s)) = lock_trace s @ within (use_ithreads s) M_audit []"
    by (auto simp: within_def)
  show "ready (snd (PerlUpb_ObjCache_GetAuditLog s)) = ready s"
    using * by (auto simp: ready_def)
qed

text \<open>The contract of one operation: it appends a balanced sequence of calls and the interpreter stays ready.\<close>

definition disciplined :: "(mutex \<Rightarrow> nat) \<Rightarrow> 'z cache_st_scheme \<Rightarrow> 'z cache_st_scheme \<Rightarrow> bool" where
  "disciplined r s t \<longleftrightarrow> ready t \<and> (\<exists>es. lock_trace t = lock_trace s @ es \<and> neutral r [] es)"

text \<open>A rank that puts the audit mutex on top, and the queue's mutex below or above all stripes.\<close>

definition ranks_audit_top :: "(mutex \<Rightarrow> nat) \<Rightarrow> bool" where
  "ranks_audit_top r \<longleftrightarrow> (\<forall>i < NUM_CACHE_STRIPES. r (M_stripe i) < r M_audit) \<and> r M_lru < r M_audit"

definition lru_first :: "mutex \<Rightarrow> nat" where
  "lru_first m = (case m of M_lru \<Rightarrow> 0 | M_stripe i \<Rightarrow> Suc i | M_audit \<Rightarrow> Suc NUM_CACHE_STRIPES)"

definition stripes_first :: "mutex \<Rightarrow> nat" where
  "stripes_first m = (case m of M_stripe i \<Rightarrow> i | M_lru \<Rightarrow> NUM_CACHE_STRIPES | M_audit \<Rightarrow> Suc NUM_CACHE_STRIPES)"

lemma ranks_audit_top [simp]: "ranks_audit_top lru_first" "ranks_audit_top stripes_first"
  by (simp_all add: ranks_audit_top_def lru_first_def stripes_first_def)

lemma stripe_below_audit [simp]: "ranks_audit_top r \<Longrightarrow> r (M_stripe (get_stripe p)) < r M_audit"
  by (simp add: ranks_audit_top_def get_stripe_bound)

lemma neutral_log: "\<forall>h\<in>set held. r h < r M_audit \<Longrightarrow> neutral r held (log_calls s)"
  by (simp add: log_calls_def neutral_within)

lemma disciplined_trans: "disciplined r s t \<Longrightarrow> disciplined r t u \<Longrightarrow> disciplined r s u"
  by (auto simp: disciplined_def intro: neutral_append)

lemma disciplined_refl: "ready s \<Longrightarrow> disciplined r s s"
  by (auto simp: disciplined_def intro!: exI [of _ "[]"])

lemma disciplinedI: "ready t \<Longrightarrow> lock_trace t = lock_trace s @ es \<Longrightarrow> neutral r [] es \<Longrightarrow> disciplined r s t"
  by (auto simp: disciplined_def)

lemma disciplined_Get: "ready s \<Longrightarrow> ranks_audit_top r \<Longrightarrow> disciplined r s (snd (PerlUpb_ObjCache_Get p s))"
proof (cases "p = NULL")
  case False
  assume "ready s" "ranks_audit_top r"
  then show ?thesis
    using False by (intro disciplinedI [OF _ Get_calls]) (simp_all add: Get_spec(2) neutral_within neutral_log)
qed (simp add: PerlUpb_ObjCache_Get_def disciplined_refl)

lemma disciplined_Delete: "ready s \<Longrightarrow> ranks_audit_top r \<Longrightarrow> disciplined r s (PerlUpb_ObjCache_Delete p s)"
proof (cases "p = NULL")
  case False
  assume "ready s" "ranks_audit_top r"
  then show ?thesis
    using False by (intro disciplinedI [OF _ Delete_calls]) (simp_all add: Delete_spec(1) neutral_within neutral_log)
qed (simp add: disciplined_refl)

lemma disciplined_Add:
  assumes "ready s" "ranks_audit_top r"
    and order: "Suc (length (lru s)) \<le> cap s \<or> (\<forall>k. r M_lru < r (M_stripe (get_stripe k)))"
  shows "disciplined r s (snd (PerlUpb_ObjCache_Add p v s))"
proof (cases "p = NULL \<or> Option.bind v sv_rok = None")
  case False
  then obtain w a where v: "v = Some w" "sv_rok w = Some a" and p: "p \<noteq> NULL"
    by (cases v) auto
  have "ready (snd (PerlUpb_ObjCache_Add p (Some w) s))"
    using Add_spec [OF assms(1) p v(2)] by (metis snd_conv)
  moreover have "neutral r [M_lru] (concat (map (\<lambda>k. within (use_ithreads s) (M_stripe (get_stripe k))
      (log_calls (ensure_mutexes_init s))) (take (Suc (length (lru s)) - cap s) (lru s @ [p]))))"
  proof (rule neutral_concat)
    fix es
    assume "es \<in> set (map (\<lambda>k. within (use_ithreads s) (M_stripe (get_stripe k)) (log_calls (ensure_mutexes_init s)))
      (take (Suc (length (lru s)) - cap s) (lru s @ [p])))"
    then obtain k where es: "es = within (use_ithreads s) (M_stripe (get_stripe k)) (log_calls (ensure_mutexes_init s))"
      and "k \<in> set (take (Suc (length (lru s)) - cap s) (lru s @ [p]))" by (auto simp del: take_append)
    then have "\<not> Suc (length (lru s)) \<le> cap s" by (cases "Suc (length (lru s)) - cap s") auto
    then show "neutral r [M_lru] es"
      using order assms(2) unfolding es by (intro neutral_within neutral_log) (auto simp: ranks_audit_top_def get_stripe_bound)
  qed
  then have "neutral r [] (within (use_ithreads s) (M_stripe (get_stripe p)) [] @ log_calls (ensure_mutexes_init s) @
      within (use_ithreads s) M_lru (concat (map
        (\<lambda>k. within (use_ithreads s) (M_stripe (get_stripe k)) (log_calls (ensure_mutexes_init s)))
        (take (Suc (length (lru s)) - cap s) (lru s @ [p])))))"
    by (intro neutral_append neutral_within neutral_log) simp_all
  ultimately show ?thesis
    unfolding v(1) by (intro disciplinedI [OF _ Add_calls [OF assms(1) p v(2)]])
qed (use assms in \<open>simp add: Add_ignored disciplined_refl\<close>)

lemma disciplined_cleanups:
  "ready s \<Longrightarrow> ranks_audit_top r \<Longrightarrow> disciplined r s (fold wrapper_cleanup ms s)"
proof (induction ms arbitrary: s)
  case (Cons m ms)
  have "disciplined r s (wrapper_cleanup m s)"
    using Cons.prems by (simp add: wrapper_cleanup_def disciplined_refl disciplined_Delete)
  then show ?case
    using Cons disciplined_trans by (metis disciplined_def fold_simps(2))
qed (simp add: disciplined_refl)

lemma disciplined_dies: "ready s \<Longrightarrow> ranks_audit_top r \<Longrightarrow> disciplined r s (sv_dies a s)"
proof (cases "heap s a")
  case (Some x)
  assume "ready s" "ranks_audit_top r"
  then have "disciplined r s (fold wrapper_cleanup (filter (\<lambda>m. mg_vtbl m = Wrapper_vtbl) (ref_magic x)) s)"
    by (rule disciplined_cleanups)
  then show ?thesis
    using Some by (auto simp: sv_dies_def Let_def disciplined_def ready_def split: option.splits)
qed (simp add: sv_dies_def disciplined_refl)

lemma disciplined_Clear: "ready s \<Longrightarrow> disciplined stripes_first s (snd (PerlUpb_ObjCache_Clear s))"
proof (rule disciplinedI [OF _ Clear_calls])
  assume "ready s"
  then show "ready (snd (PerlUpb_ObjCache_Clear s))" using Clear_spec by (metis snd_conv)
  have "neutral stripes_first [] (foldr (within True) (map M_stripe [0..<NUM_CACHE_STRIPES] @ [M_lru, M_audit]) [])"
    by (rule neutral_nest) (auto simp: stripes_first_def sorted_wrt_append sorted_wrt_map)
  then show "neutral stripes_first []
      (if use_ithreads s then foldr (within True) (map M_stripe [0..<NUM_CACHE_STRIPES] @ [M_lru, M_audit]) [] else [])"
    by simp
qed

lemma disciplined_SetCapacity: "ready s \<Longrightarrow> disciplined r s (snd (PerlUpb_ObjCache_SetCapacity c s))"
  by (rule disciplinedI [OF _ SetCapacity_calls]) (auto simp: SetCapacity_ready ready_def neutral_within split: option.splits)

lemma disciplined_alloc: "ready s \<Longrightarrow> disciplined r s (snd (alloc x s))"
  by (rule disciplinedI [of _ _ "[]"]) (simp_all add: alloc_def ready_def)

lemma disciplined_LogEvent: "ready s \<Longrightarrow> disciplined r s (PerlUpb_ObjCache_LogEvent ty p s)"
  by (rule disciplinedI [OF _ LogEvent_calls]) (simp_all add: ready_def neutral_log)

lemma disciplined_GetAuditLog: "ready s \<Longrightarrow> disciplined r s (snd (PerlUpb_ObjCache_GetAuditLog s))"
  by (rule disciplinedI [OF _ GetAuditLog_calls(1)]) (simp_all add: GetAuditLog_calls(2) neutral_within)

lemma disciplined_exec:
  assumes "ready s" "ranks_audit_top r" "op = Cache_Op Op_Clear \<Longrightarrow> r = stripes_first"
    and "\<And>p v. op = Cache_Op (Op_Add p v) \<Longrightarrow>
      Suc (length (lru s)) \<le> cap s \<or> (\<forall>k. r M_lru < r (M_stripe (get_stripe k)))"
  shows "disciplined r s (thread_exec op s)"
proof (cases op)
  case (Cache_Op c)
  then show ?thesis
    using assms by (cases c) (auto simp: disciplined_Add disciplined_Get disciplined_Delete disciplined_Clear
        disciplined_SetCapacity disciplined_alloc disciplined_dies PerlUpb_ObjCache_DeleteEntry_def disciplined_refl
        split: option.split)
qed (use assms in \<open>simp_all add: disciplined_LogEvent disciplined_GetAuditLog\<close>)

section \<open>Which threads cannot block each other\<close>

definition no_clear :: "thread_op \<Rightarrow> 'z cache_st_scheme \<Rightarrow> bool" where
  "no_clear op s \<longleftrightarrow> (case op of Cache_Op Op_Clear \<Rightarrow> False | _ \<Rightarrow> True)"

definition no_eviction :: "thread_op \<Rightarrow> 'z cache_st_scheme \<Rightarrow> bool" where
  "no_eviction op s \<longleftrightarrow> (case op of Cache_Op (Op_Add p v) \<Rightarrow> length (lru s) < cap s | _ \<Rightarrow> True)"

interpretation without_clear: lock_discipline lru_first ready no_clear thread_exec lock_trace
proof unfold_locales
  fix s :: "'a cache_st_scheme" and op
  assume "ready s" "no_clear op s"
  then have "disciplined lru_first s (thread_exec op s)"
    by (intro disciplined_exec) (auto simp: no_clear_def lru_first_def)
  then show "ready (thread_exec op s)"
    "\<exists>es. lock_trace (thread_exec op s) = lock_trace s @ es \<and> neutral lru_first [] es"
    by (auto simp: disciplined_def)
qed

interpretation without_eviction: lock_discipline stripes_first ready no_eviction thread_exec lock_trace
proof unfold_locales
  fix s :: "'a cache_st_scheme" and op
  assume "ready s" "no_eviction op s"
  then have "disciplined stripes_first s (thread_exec op s)"
    by (intro disciplined_exec) (auto simp: no_eviction_def)
  then show "ready (thread_exec op s)"
    "\<exists>es. lock_trace (thread_exec op s) = lock_trace s @ es \<and> neutral stripes_first [] es"
    by (auto simp: disciplined_def)
qed

lemma run_ok_no_clear: "Cache_Op Op_Clear \<notin> set ops \<Longrightarrow> run_ok no_clear thread_exec ops s"
  by (induction ops arbitrary: s) (auto simp: no_clear_def split: thread_op.split cache_op.split)

abbreviation cache_threads :: "(thread_op list \<times> 'z cache_st_scheme) list \<Rightarrow> lock_thread list" where
  "cache_threads ths \<equiv> start_threads (map (thread_prog thread_exec lock_trace) ths)"

text \<open>
  C10: The mutexes of the cache cannot deadlock: whatever any number of threads do with the cache,
  each on its own interpreter, as long as none of them calls \<open>PerlUpb_ObjCache_Clear\<close>, no
  interleaving of their lock calls leads to a state in which a thread is left and none can go
  on; no mutex is ever held twice; and from every state on the way all threads can still run
  to their end, with every mutex released. The same holds with \<open>PerlUpb_ObjCache_Clear\<close> as
  long as no \<open>PerlUpb_ObjCache_Add\<close> meets a full queue.
\<close>

theorem cache_threads_never_stuck:
  assumes "\<forall>th\<in>set ths. ready (snd th)"
    and "(\<forall>th\<in>set ths. Cache_Op Op_Clear \<notin> set (fst th)) \<or>
      (\<forall>th\<in>set ths. run_ok no_eviction thread_exec (fst th) (snd th))"
  shows "never_stuck (cache_threads ths)"
  using assms(2)
proof
  assume "\<forall>th\<in>set ths. Cache_Op Op_Clear \<notin> set (fst th)"
  then show ?thesis
    using assms(1) by (intro without_clear.threads_never_stuck) (simp add: run_ok_no_clear)
next
  assume "\<forall>th\<in>set ths. run_ok no_eviction thread_exec (fst th) (snd th)"
  then show ?thesis
    using assms(1) by (intro without_eviction.threads_never_stuck) simp
qed

text \<open>An interpreter with a full cache of capacity one.\<close>

definition full_cache :: cache_st where
  "full_cache = fold cache_exec [Op_SetCapacity 1, Op_Alloc newHV, Op_Add 16 (Some (newRV 0))] cache_boot"

lemma full_cache_facts:
  "ready full_cache" "use_ithreads full_cache" "lru full_cache = [16]" "cap full_cache = 1"
  "init (global_audit_log (ensure_mutexes_init full_cache))"
proof -
  let ?s = "fold cache_exec [Op_SetCapacity 1, Op_Alloc newHV] cache_boot"
  have s: "ready ?s" "use_ithreads ?s" "lru ?s = []" "cap ?s = 1" "init (global_audit_log ?s)" "cache_mutexes_init ?s"
    by (simp_all add: cache_boot_def perl_boot_def PerlUpb_ObjCache_Init_def PerlUpb_Registry_Get_def
        PerlUpb_Registry_Init_def PerlUpb_ObjCache_SetCapacity_def bind_xs_def then_xs_def ensure_mutexes_init_def
        alloc_def ready_def lock_defs newHV_def)
  have full: "full_cache = snd (PerlUpb_ObjCache_Add 16 (Some (newRV 0)) ?s)"
    by (simp add: full_cache_def)
  obtain t where "PerlUpb_ObjCache_Add 16 (Some (newRV 0)) ?s = (Inr (), t)" "ready t" "frame ?s t"
    "lru t = last_n (cap ?s) (lru ?s @ [16])"
    using Add_spec [OF s(1), of 16 "newRV 0" 0] by (auto simp: newRV_def)
  then show "ready full_cache" "use_ithreads full_cache" "lru full_cache = [16]" "cap full_cache = 1"
    unfolding full using s(2,3,4) by (simp_all add: frame_def last_n_def)
  have "init (global_audit_log full_cache)"
    unfolding full using s
    by (auto elim!: readyE simp: PerlUpb_ObjCache_Add_def PerlUpb_Registry_Get_def bind_xs_def case_prod_beta Let_def
        newRV_def ensure_mutexes_init_def simp del: fold_simps)
  then show "init (global_audit_log (ensure_mutexes_init full_cache))"
    by (simp add: ensure_mutexes_init_def)
qed

text \<open>The lock calls of an \<open>Add\<close> that evicts there, and of a \<open>Clear\<close>.\<close>

lemma full_cache_progs:
  "thread_prog thread_exec lock_trace ([Cache_Op (Op_Add 32 (Some (newRV 0)))], full_cache) =
     [Acq (M_stripe 2), Rel (M_stripe 2), Acq M_audit, Rel M_audit, Acq M_lru,
      Acq (M_stripe 1), Acq M_audit, Rel M_audit, Rel (M_stripe 1), Rel M_lru]"
  "thread_prog thread_exec lock_trace ([Cache_Op Op_Clear], full_cache) =
     map (Acq \<circ> M_stripe) [0..<16] @ [Acq M_lru, Acq M_audit, Rel M_audit, Rel M_lru] @ map (Rel \<circ> M_stripe) (rev [0..<16])"
proof -
  have stripes: "get_stripe 16 = 1" "get_stripe 32 = 2" by code_simp+
  show "thread_prog thread_exec lock_trace ([Cache_Op (Op_Add 32 (Some (newRV 0)))], full_cache) =
     [Acq (M_stripe 2), Rel (M_stripe 2), Acq M_audit, Rel M_audit, Acq M_lru,
      Acq (M_stripe 1), Acq M_audit, Rel M_audit, Rel (M_stripe 1), Rel M_lru]"
    using full_cache_facts Add_calls [of full_cache 32 "newRV 0" 0]
    by (simp add: thread_prog_def newRV_def log_calls_def within_def stripes)
  show "thread_prog thread_exec lock_trace ([Cache_Op Op_Clear], full_cache) =
     map (Acq \<circ> M_stripe) [0..<16] @ [Acq M_lru, Acq M_audit, Rel M_audit, Rel M_lru] @ map (Rel \<circ> M_stripe) (rev [0..<16])"
    using full_cache_facts Clear_calls [of full_cache]
    by (simp add: thread_prog_def nest_eq rev_map within_def NUM_CACHE_STRIPES_def del: upt_Suc upt_conv_Cons)
qed

theorem cache_threads_never_stuck_witness:
  "never_stuck (cache_threads
     [([Cache_Op (Op_Add 32 (Some (newRV 0))), Cache_Op (Op_Get 16)], full_cache),
      ([Cache_Op (Op_Get 16), Get_Audit_Log, Cache_Op (Op_Dies 0)], full_cache)])"
  using cache_threads_never_stuck
    [of "[([Cache_Op (Op_Add 32 (Some (newRV 0))), Cache_Op (Op_Get 16)], full_cache),
      ([Cache_Op (Op_Get 16), Get_Audit_Log, Cache_Op (Op_Dies 0)], full_cache)]"]
  by (simp add: full_cache_facts)

text \<open>
  C29: An evicting \<open>PerlUpb_ObjCache_Add\<close> in one thread and a \<open>PerlUpb_ObjCache_Clear\<close> in another
  can deadlock: \<open>Add\<close> holds the mutex of the queue while it locks the stripe of the key it
  evicts, \<open>Clear\<close> holds all stripes while it locks the queue. There is an interleaving after
  which neither thread can ever go on.
\<close>

theorem add_clear_deadlock:
  "\<exists>ts. lock_step\<^sup>*\<^sup>*
       (cache_threads [([Cache_Op (Op_Add 32 (Some (newRV 0)))], full_cache), ([Cache_Op Op_Clear], full_cache)]) ts \<and>
     \<not> (\<exists>ts'. lock_step ts ts') \<and> list_all (\<lambda>t. snd t \<noteq> []) ts"
proof -
  let ?ts0 = "cache_threads [([Cache_Op (Op_Add 32 (Some (newRV 0)))], full_cache), ([Cache_Op Op_Clear], full_cache)]"
  define ts where "ts =
    [([M_lru], [Acq (M_stripe 1), Acq M_audit, Rel M_audit, Rel (M_stripe 1), Rel M_lru]),
     (map M_stripe (rev [0..<16]), [Acq M_lru, Acq M_audit, Rel M_audit, Rel M_lru] @ map (Rel \<circ> M_stripe) (rev [0..<16]))]"
  have "run_schedule (replicate 5 0 @ replicate 16 1) ?ts0 = Some ts"
    unfolding list.map full_cache_progs ts_def by code_simp
  then have "lock_step\<^sup>*\<^sup>* ?ts0 ts" by (rule run_schedule_reaches)
  moreover have "thread_step i ts = None" if "i < length ts" for i
  proof -
    have "i = 0 \<or> i = 1" using that by (auto simp: ts_def)
    moreover have "thread_step 0 ts = None" "thread_step 1 ts = None" unfolding ts_def by code_simp+
    ultimately show ?thesis by blast
  qed
  then have "\<not> (\<exists>ts'. lock_step ts ts')" by (auto simp: lock_step_iff)
  moreover have "list_all (\<lambda>t. snd t \<noteq> []) ts" by (simp add: ts_def)
  ultimately show ?thesis by blast
qed

end
