(* ===== verification/Module.thy ===== *)
theory Module
  imports Utils
begin

text \<open>
  Loading the module (\<open>xs/protobuf.c\<close>): the entry points Perl calls on the object cache, and
  \<open>boot_Protobuf\<close>, which brings the interpreter into the state that the other theories
  start from.
\<close>

section \<open>State\<close>

text \<open>
  \<open>cpu_features\<close> is the global of \<open>utils.c\<close>; \<open>cpuid_leaves\<close> is what the processor answers
  (see \<open>PerlUpb_InitCpuFeatures\<close>); \<open>xsubs\<close> lists the names bound by \<open>newXS\<close>, newest first.
\<close>

record module_st = cache_st +
  cpu_features :: u32
  cpuid_leaves :: "bool \<times> u32 option \<times> u32 option"
  xsubs :: "string list"

section \<open>Entry points\<close>

text \<open>An entry point takes the argument stack and gives back the list of its results.\<close>

definition croak_xs_usage :: "string \<Rightarrow> string \<Rightarrow> ('s, 'a) xs" where
  "croak_xs_usage name params = croak ''Usage: %s(%s)'' [CStr name, CStr params]"

definition XS_Protobuf_Internal_get_cache_audit_log :: "sv list \<Rightarrow> ('z cache_st_scheme, sv list) xs" where
  "XS_Protobuf_Internal_get_cache_audit_log items =
     (if items \<noteq> [] then croak_xs_usage ''Protobuf::Internal::get_cache_audit_log'' ''()''
      else bind_xs PerlUpb_ObjCache_GetAuditLog (\<lambda>result. ret [result]))"

definition XS_Protobuf_Internal_set_cache_capacity :: "str_num \<Rightarrow> sv list \<Rightarrow> ('z cache_st_scheme, sv list) xs" where
  "XS_Protobuf_Internal_set_cache_capacity N items =
     (case items of
        [v] \<Rightarrow> then_xs (PerlUpb_ObjCache_SetCapacity (SvUV N v)) (ret [])
      | _ \<Rightarrow> croak_xs_usage ''Protobuf::Internal::set_cache_capacity'' ''capacity'')"

definition XS_Protobuf_Internal_get_cache_capacity :: "sv list \<Rightarrow> ('z cache_st_scheme, sv list) xs" where
  "XS_Protobuf_Internal_get_cache_capacity items =
     (if items \<noteq> [] then croak_xs_usage ''Protobuf::Internal::get_cache_capacity'' ''()''
      else bind_xs PerlUpb_ObjCache_GetCapacity (\<lambda>capacity. ret [newSVuv capacity]))"

definition XS_Protobuf_Internal_clear_cache :: "sv list \<Rightarrow> ('z cache_st_scheme, sv list) xs" where
  "XS_Protobuf_Internal_clear_cache items =
     (if items \<noteq> [] then croak_xs_usage ''Protobuf::Internal::clear_cache'' ''()''
      else then_xs PerlUpb_ObjCache_Clear (ret []))"

section \<open>Loading\<close>

definition newXS :: "string \<Rightarrow> ('z module_st_scheme, unit) xs" where
  "newXS name = modify_xs (\<lambda>s. s\<lparr>xsubs := name # xsubs s\<rparr>)"

definition PerlUpb_Protobuf_InitModule :: "('z module_st_scheme, unit) xs" where
  "PerlUpb_Protobuf_InitModule =
     then_xs (modify_xs PerlUpb_Registry_Init)
     (then_xs PerlUpb_ObjCache_Init
     (then_xs (modify_xs (\<lambda>s. case cpuid_leaves s of
        (x86, leaf1, leaf7) \<Rightarrow> s\<lparr>cpu_features := PerlUpb_InitCpuFeatures x86 leaf1 leaf7 (cpu_features s)\<rparr>))
     (then_xs (newXS ''Protobuf::Internal::get_cache_audit_log'')
     (then_xs (newXS ''Protobuf::Internal::set_cache_capacity'')
     (then_xs (newXS ''Protobuf::Internal::get_cache_capacity'')
     (newXS ''Protobuf::Internal::clear_cache''))))))"

definition boot_Protobuf :: "sv list \<Rightarrow> ('z module_st_scheme, sv list) xs" where
  "boot_Protobuf items = then_xs PerlUpb_Protobuf_InitModule (ret [PL_sv_yes])"

definition get_descriptor_proto_fds :: sv where
  "get_descriptor_proto_fds = PL_sv_undef"

section \<open>What loading establishes\<close>

text \<open>
  An interpreter before or after the module is loaded: it is running, and if the
  registry exists so does its structure. Perl code may have filled the two package
  variables already.
\<close>

definition running :: "'z cache_st_scheme \<Rightarrow> bool" where
  "running s \<longleftrightarrow> \<not> PL_dirty s \<and> (registry_iok s \<longrightarrow> registry s \<noteq> None) \<and>
     (case registry s of None \<Rightarrow> True | Some reg \<Rightarrow>
        (reg_obj_cache reg \<longrightarrow> obj_cache_hv s \<noteq> None) \<and> (reg_obj_lru reg \<longrightarrow> obj_lru_av s \<noteq> None))"

lemma Registry_Init_running:
  assumes "running s"
  obtains reg where "registry (PerlUpb_Registry_Init s) = Some reg" "registry_iok (PerlUpb_Registry_Init s)"
    "running (PerlUpb_Registry_Init s)"
proof (cases "registry_iok s")
  case True
  then show ?thesis using assms that by (auto simp: PerlUpb_Registry_Init_def running_def)
next
  case False
  then show ?thesis using assms that by (simp add: PerlUpb_Registry_Init_def running_def)
qed

lemma ObjCache_Init_running:
  assumes "running s" "registry_iok s" "registry s = Some reg"
  shows "\<exists>t. PerlUpb_ObjCache_Init s = (Inr (), t) \<and> ready t \<and> heap t = heap s \<and>
    obj_cache_hv t = Some (case obj_cache_hv s of None \<Rightarrow> [] | Some h \<Rightarrow> h) \<and>
    obj_lru_av t = Some (case obj_lru_av s of None \<Rightarrow> [] | Some l \<Rightarrow> l) \<and>
    max_cache_capacity (the (registry t)) = max_cache_capacity reg \<and> cache_st.more t = cache_st.more s"
  using assms
  by (auto simp: PerlUpb_ObjCache_Init_def PerlUpb_Registry_Get_def running_def ready_def bind_xs_def then_xs_def Let_def
      split: option.splits)

lemma boot_eq:
  assumes "PerlUpb_ObjCache_Init (PerlUpb_Registry_Init s) = (Inr (), t)"
  shows "\<exists>f. boot_Protobuf items s = (Inr [PL_sv_yes], t\<lparr>cpu_features := f,
    xsubs := map (\<lambda>n. ''Protobuf::Internal::'' @ n) [''clear_cache'', ''get_cache_capacity'', ''set_cache_capacity'', ''get_cache_audit_log''] @ xsubs t\<rparr>)"
  using assms by (cases "cpuid_leaves t") (auto simp: boot_Protobuf_def PerlUpb_Protobuf_InitModule_def newXS_def bind_xs_def then_xs_def)

text \<open>
  C16: Loading the module from any running interpreter, also one that loads it a second time,
  succeeds and establishes the precondition \<open>ready\<close> of the cache and of every wrapper
  operation; it keeps the heap and the entries of a cache that exists; and the four entry
  points are bound. The capacity is then the default of 100000 or what was set before, and
  one set through its entry point is the one reported.
\<close>

theorem boot_makes_ready:
  assumes "running s"
  shows "\<exists>t. boot_Protobuf items s = (Inr [PL_sv_yes], t) \<and> ready t \<and> heap t = heap s \<and>
    obj_cache_hv t = Some (case obj_cache_hv s of None \<Rightarrow> [] | Some h \<Rightarrow> h) \<and>
    {''Protobuf::Internal::get_cache_audit_log'', ''Protobuf::Internal::set_cache_capacity'',
     ''Protobuf::Internal::get_cache_capacity'', ''Protobuf::Internal::clear_cache''} \<subseteq> set (xsubs t) \<and>
    max_cache_capacity (the (registry t)) = (if registry_iok s then max_cache_capacity (the (registry s)) else 100000) \<and>
    (\<forall>w. \<exists>u. XS_Protobuf_Internal_set_cache_capacity N [newSVuv w] t = (Inr [], u) \<and>
       XS_Protobuf_Internal_get_cache_capacity [] u = (Inr [newSVuv w], u))"
proof -
  let ?i = "PerlUpb_Registry_Init s"
  from Registry_Init_running [OF assms] obtain reg where reg: "registry ?i = Some reg" "registry_iok ?i" "running ?i" .
  from ObjCache_Init_running [OF reg(3,2,1)] obtain t where t: "PerlUpb_ObjCache_Init ?i = (Inr (), t)" "ready t" "heap t = heap ?i"
    "obj_cache_hv t = Some (case obj_cache_hv ?i of None \<Rightarrow> [] | Some h \<Rightarrow> h)"
    "max_cache_capacity (the (registry t)) = max_cache_capacity reg" by blast
  from boot_eq [OF t(1)] obtain f xs where b: "boot_Protobuf items s = (Inr [PL_sv_yes], t\<lparr>cpu_features := f, xsubs := xs\<rparr>)"
    "xs = map (\<lambda>n. ''Protobuf::Internal::'' @ n) [''clear_cache'', ''get_cache_capacity'', ''set_cache_capacity'', ''get_cache_audit_log''] @ xsubs t"
    by blast
  let ?t = "t\<lparr>cpu_features := f, xsubs := xs\<rparr>"
  have r: "ready ?t" by (rule iffD2 [OF ready_cong t(2)]) simp_all
  have i: "heap ?i = heap s" "obj_cache_hv ?i = obj_cache_hv s"
    "max_cache_capacity reg = (if registry_iok s then max_cache_capacity (the (registry s)) else 100000)"
    using reg(1) by (auto simp: PerlUpb_Registry_Init_def)
  have "\<exists>u. XS_Protobuf_Internal_set_cache_capacity N [newSVuv w] ?t = (Inr [], u) \<and>
      XS_Protobuf_Internal_get_cache_capacity [] u = (Inr [newSVuv w], u)" for w
  proof -
    let ?e = "ensure_mutexes_init ?t"
    have "ready ?e" using r by simp
    then show ?thesis
      by (elim readyE) (auto simp: XS_Protobuf_Internal_set_cache_capacity_def XS_Protobuf_Internal_get_cache_capacity_def
          PerlUpb_ObjCache_SetCapacity_def PerlUpb_ObjCache_GetCapacity_def PerlUpb_Registry_Get_def bind_xs_def then_xs_def Let_def)
  qed
  then show ?thesis using b t(3-5) i r by (intro exI [of _ ?t]) auto
qed

definition cold_boot :: module_st where
  "cold_boot = cache_st.extend perl_boot
     \<lparr>cpu_features = 0, cpuid_leaves = (True, Some 0x80000, None), xsubs = []\<rparr>"

theorem boot_makes_ready_witness:
  "\<exists>t. boot_Protobuf [] cold_boot = (Inr [PL_sv_yes], t) \<and> ready t \<and> max_cache_capacity (the (registry t)) = 100000"
proof -
  have "running cold_boot" "\<not> registry_iok cold_boot"
    by (simp_all add: running_def cold_boot_def cache_st.extend_def perl_boot_def)
  then show ?thesis using boot_makes_ready [of cold_boot "[]" ex_num] by auto
qed

end
