(* ===== verification/Protoc_Names.thy ===== *)
theory Protoc_Names
  imports Utils
begin

text \<open>
  The name helpers of the compiler plugin (\<open>protoc/helpers.cc\<close>), and their agreement with
  the names the XS layer computes at run time (\<open>get_file_module\<close> and \<open>capitalize_path\<close> of
  \<open>xs/protobuf/utils.c\<close>): the two sides are written separately, and generated code only
  works when they give the same classes.
\<close>

section \<open>Helpers\<close>

definition ConsumePrefix :: "string \<Rightarrow> string \<Rightarrow> bool \<times> string" where
  "ConsumePrefix s pre =
     (if length pre \<le> length s \<and> take (length pre) s = pre then (True, drop (length pre) s) else (False, s))"

lemma dropWhile_smaller: "dropWhile P s = x # rest \<Longrightarrow> length rest < length s"
  using length_dropWhile_le [of P s] by simp

function SplitString :: "string \<Rightarrow> char \<Rightarrow> string list" where
  "SplitString s delim =
     (if s = [] then []
      else case dropWhile (\<lambda>c. c \<noteq> delim) s of
          [] \<Rightarrow> [s]
        | _ # rest \<Rightarrow> takeWhile (\<lambda>c. c \<noteq> delim) s # SplitString rest delim)"
  by auto

termination by (relation "measure (length \<circ> fst)") (auto dest: dropWhile_smaller)

declare SplitString.simps [simp del]

definition capital :: "string \<Rightarrow> string" where
  "capital segment = (case segment of [] \<Rightarrow> [] | c # cs \<Rightarrow> upcase c # cs)"

definition ToCamelCase :: "string \<Rightarrow> string" where
  "ToCamelCase s = concat (map capital (filter (\<lambda>segment. segment \<noteq> []) (SplitString s (CHR ''_''))))"

definition isupper :: "char \<Rightarrow> bool" where
  "isupper c \<longleftrightarrow> 65 \<le> (of_char c :: nat) \<and> (of_char c :: nat) \<le> 90"

definition tolower :: "char \<Rightarrow> char" where
  "tolower c = (if isupper c then char_of (of_char c + 32 :: nat) else c)"

text \<open>\<open>prev\<close> is the character before, \<open>None\<close> at the start.\<close>

fun snake_loop :: "char option \<Rightarrow> string \<Rightarrow> string" where
  "snake_loop prev [] = []"
| "snake_loop prev (c # cs) =
     (if isupper c
      then (if prev \<noteq> None \<and> prev \<noteq> Some (CHR ''_'') then ''_'' else []) @ [tolower c]
      else [c]) @ snake_loop (Some c) cs"

definition ToSnakeCase :: "string \<Rightarrow> string" where
  "ToSnakeCase s = snake_loop None s"

definition GetDefaultHost :: "string \<Rightarrow> string" where
  "GetDefaultHost proto_pkg =
     (let (cloud, sub1) = ConsumePrefix proto_pkg ''google.cloud.'';
          (ok, sub) = (if cloud then (True, sub1) else ConsumePrefix sub1 ''google.'')
      in if ok \<and> CHR ''.'' \<in> set sub
         then takeWhile (\<lambda>c. c \<noteq> CHR ''.'') sub @ ''.googleapis.com:443''
         else ''localhost:443'')"

fun capitalize_segments :: "bool \<Rightarrow> string list \<Rightarrow> string" where
  "capitalize_segments first [] = []"
| "capitalize_segments first (segment # segments) =
     (if first then [] else ''::'') @ capital segment @ capitalize_segments False segments"

definition CapitalizePackage :: "string \<Rightarrow> string" where
  "CapitalizePackage s = capitalize_segments True (SplitString s (CHR ''.''))"

section \<open>Joining\<close>

fun join :: "string \<Rightarrow> string list \<Rightarrow> string" where
  "join sep [] = []"
| "join sep [x] = x"
| "join sep (x # y # ys) = x @ sep @ join sep (y # ys)"

lemma join_Cons: "ys \<noteq> [] \<Longrightarrow> join sep (x # ys) = x @ sep @ join sep ys"
  by (cases ys) simp_all

lemma join_append: "xs \<noteq> [] \<Longrightarrow> ys \<noteq> [] \<Longrightarrow> join sep (xs @ ys) = join sep xs @ sep @ join sep ys"
  by (induction sep xs rule: join.induct) (simp_all add: join_Cons)

text \<open>A name of one or more characters without the separator.\<close>

definition segment_ok :: "char \<Rightarrow> string \<Rightarrow> bool" where
  "segment_ok d s \<longleftrightarrow> s \<noteq> [] \<and> d \<notin> set s"

lemma cut_at:
  assumes "d \<notin> set x"
  shows "dropWhile (\<lambda>c. c \<noteq> d) x = []" "takeWhile (\<lambda>c. c \<noteq> d) x = x"
    "dropWhile (\<lambda>c. c \<noteq> d) (x @ d # rest) = d # rest" "takeWhile (\<lambda>c. c \<noteq> d) (x @ d # rest) = x"
  using assms by (induction x) auto

lemma split_first:
  assumes "segment_ok d x"
  shows "SplitString x d = [x]" "SplitString (x @ d # rest) d = x # SplitString rest d"
  using assms cut_at [of d x] by (auto simp: segment_ok_def SplitString.simps [of x] SplitString.simps [of "x @ d # rest"]
      simp del: dropWhile_eq_Nil_conv)

lemma split_join: "list_all (segment_ok d) xs \<Longrightarrow> SplitString (join [d] xs) d = xs"
  by (induction "[d]" xs rule: join.induct) (simp_all add: split_first, simp add: SplitString.simps)

lemma join_nonempty: "list_all (segment_ok d) xs \<Longrightarrow> join sep xs = [] \<longleftrightarrow> xs = []"
  by (induction sep xs rule: join.induct) (auto simp: segment_ok_def)

lemma capitalize_segments_join: "capitalize_segments True xs = join ''::'' (map capital xs)"
proof -
  have "capitalize_segments False xs = concat (map (\<lambda>s. ''::'' @ capital s) xs)" for xs by (induction xs) auto
  moreover have "join sep (x # xs) = x @ concat (map (\<lambda>s. sep @ s) xs)" for x :: string and xs sep by (induction xs arbitrary: x) auto
  ultimately show ?thesis by (cases xs) (simp_all add: comp_def)
qed

lemma CapitalizePackage_join: "list_all (segment_ok (CHR ''.'')) xs \<Longrightarrow> CapitalizePackage (join ''.'' xs) = join ''::'' (map capital xs)"
  by (simp add: CapitalizePackage_def split_join capitalize_segments_join)

section \<open>Agreement with the run-time names\<close>

lemma capitalize_loop_plain:
  "CHR ''.'' \<notin> set x \<Longrightarrow> prev \<noteq> None \<Longrightarrow> prev \<noteq> Some (CHR ''.'') \<Longrightarrow>
   capitalize_loop prev (x @ rest) = x @ capitalize_loop (if x = [] then prev else Some (last x)) rest"
  by (induction x arbitrary: prev) auto

lemma capitalize_loop_segment:
  assumes "segment_ok (CHR ''.'') x" "prev = None \<or> prev = Some (CHR ''.'')"
  shows "capitalize_loop prev (x @ rest) = capital x @ capitalize_loop (Some (last x)) rest"
  using assms capitalize_loop_plain [of "tl x" "Some (hd x)" rest] by (cases x) (auto simp: segment_ok_def capital_def)

lemma capitalize_loop_join:
  assumes "list_all (segment_ok (CHR ''.'')) xs" "prev = None \<or> prev = Some (CHR ''.'')"
  shows "capitalize_loop prev (join ''.'' xs) = join ''::'' (map capital xs)"
  using assms
proof (induction "''.''" xs arbitrary: prev rule: join.induct)
  case (2 x)
  then show ?case using capitalize_loop_segment [of x prev "[]"] by simp
next
  case (3 x y ys)
  have "last x \<noteq> CHR ''.''" proof
    assume "last x = CHR ''.''"
    moreover have "x \<noteq> []" "CHR ''.'' \<notin> set x" using 3(2) by (simp_all add: segment_ok_def)
    ultimately show False using last_in_set [of x] by simp
  qed
  then show ?case using capitalize_loop_segment [of x prev "''.'' @ join ''.'' (y # ys)"] 3 by simp
qed simp

text \<open>The two camel case conversions: cutting at underscores, and the loop over characters.\<close>

lemma camel_loop_plain:
  "CHR ''_'' \<notin> set x \<Longrightarrow> prev \<noteq> CHR ''_'' \<Longrightarrow>
   camel_loop False prev (x @ rest) = x @ camel_loop False (if x = [] then prev else last x) rest"
  by (induction x arbitrary: prev) auto

lemma camel_loop_restart: "first \<or> prev = CHR ''_'' \<Longrightarrow> camel_loop first prev s = camel_loop True prev s"
proof (induction s arbitrary: prev)
  case (Cons c s)
  then show ?case by (cases "c = CHR ''_''") auto
qed simp

lemma camel_loop_prev: "camel_loop True prev s = camel_loop True prev' s"
proof (induction s arbitrary: prev prev')
  case (Cons c s)
  show ?case using Cons.IH [of c c] by simp
qed simp

lemma camel_loop_camel_case: "first \<or> prev = CHR ''_'' \<Longrightarrow> camel_loop first prev s = ToCamelCase s"
proof (induction s "CHR ''_''" arbitrary: first prev rule: SplitString.induct)
  case (1 s)
  let ?P = "\<lambda>c. c \<noteq> CHR ''_''"
  have first: "camel_loop first prev s = camel_loop True prev s" using 1(2) by (rule camel_loop_restart)
  let ?x = "takeWhile ?P s"
  have x: "CHR ''_'' \<notin> set ?x" using set_takeWhileD by fastforce
  have seg: "camel_loop True prev (?x @ rest) = capital ?x @ camel_loop False (last ?x) rest" if "?x \<noteq> []" for rest
    using that x camel_loop_plain [of "tl ?x" "hd ?x" rest] by (cases ?x) (auto simp: capital_def)
  have lx: "last ?x \<noteq> CHR ''_''" if "?x \<noteq> []" using that x last_in_set by metis
  show ?case
  proof (cases "dropWhile ?P s")
    case Nil
    then have "s = ?x" using takeWhile_dropWhile_id [of ?P s] by (metis append_Nil2)
    then show ?thesis
    proof (cases "s = []")
      case False
      then have "SplitString s (CHR ''_'') = [s]" using Nil by (simp add: SplitString.simps [of s] del: dropWhile_eq_Nil_conv)
      then show ?thesis using False first seg [of "[]"] \<open>s = ?x\<close> by (simp add: ToCamelCase_def)
    qed (simp add: ToCamelCase_def SplitString.simps)
  next
    case (Cons d rest)
    then have d: "d = CHR ''_''" using hd_dropWhile [of ?P s] by (metis list.distinct(1) list.sel(1))
    then have s: "s = ?x @ CHR ''_'' # rest" using Cons takeWhile_dropWhile_id [of ?P s] by simp
    have ne: "s \<noteq> []" using s by (metis append_is_Nil_conv list.distinct(1))
    have split: "SplitString s (CHR ''_'') = ?x # SplitString rest (CHR ''_'')" using Cons ne by (subst SplitString.simps) simp
    have IH: "camel_loop f (CHR ''_'') rest = ToCamelCase rest" for f using 1(1) [OF ne Cons] by simp
    show ?thesis
    proof (cases "?x = []")
      case True
      then have "s = CHR ''_'' # rest" using s by simp
      then show ?thesis using first IH [of True] split True by (simp add: ToCamelCase_def capital_def)
    next
      case False
      have "camel_loop True prev s = capital ?x @ camel_loop False (last ?x) (CHR ''_'' # rest)" using seg [OF False] s by metis
      then show ?thesis using first IH [of False] split False lx by (simp add: ToCamelCase_def)
    qed
  qed
qed

text \<open>
  The class of a message as \<open>PerlUpb_GetMessageStash\<close> computes it, for well-formed names:
  \<open>segs\<close> are the segments of the package and \<open>names\<close> the message's own name after those
  of the messages it is nested in.
\<close>

definition names_ok :: "string list \<Rightarrow> bool" where
  "names_ok names \<longleftrightarrow> names \<noteq> [] \<and> list_all (segment_ok (CHR ''.'')) names \<and> list_all (\<lambda>n. capital n = n) names"

lemma strip_dot_join: "list_all (segment_ok (CHR ''.'')) xs \<Longrightarrow> strip_dot (join ''.'' xs) = join ''.'' xs"
proof (induction "''.''" xs rule: join.induct)
  case (3 x y ys)
  then show ?case by (cases x) (auto simp: strip_dot_def segment_ok_def)
qed (auto simp: strip_dot_def segment_ok_def split: list.splits)

lemma message_class_join:
  assumes "list_all (segment_ok (CHR ''.'')) segs" "names_ok names"
  shows "message_class (join ''.'' (segs @ names)) file (Some (join ''.'' segs)) =
    (if segs = [] then [] else join ''::'' (map capital segs) @ ''::'') @ get_file_module file @ ''::'' @ join ''::'' names"
proof -
  have n: "list_all (segment_ok (CHR ''.'')) names" "names \<noteq> []" "map capital names = names"
    using assms(2) by (auto simp: names_ok_def list_all_iff map_idI)
  have "rel_name (join ''.'' (segs @ names)) (Some (join ''.'' segs)) = join ''.'' names"
  proof (cases "segs = []")
    case True
    then show ?thesis using strip_dot_join [OF n(1)] by (simp add: rel_name_def)
  next
    case False
    have "strip_dot (join ''.'' (segs @ names)) = join ''.'' segs @ ''.'' @ join ''.'' names"
      using strip_dot_join [of "segs @ names"] assms(1) n join_append [OF False n(2)] by simp
    then show ?thesis using False join_nonempty [OF assms(1)] by (simp add: rel_name_def strip_dot_def)
  qed
  then show ?thesis using n join_nonempty [OF n(1)] join_nonempty [OF assms(1)] capitalize_loop_join [OF n(1)] capitalize_loop_join [OF assms(1)]
    by (simp add: message_class_def capitalize_path_def Let_def)
qed

end
