(* ===== verification/Generator.thy ===== *)
theory Generator
  imports Protoc_Names
begin

text \<open>
  The compiler plugin (\<open>protoc/generator.cc\<close>, \<open>protoc/plugin_main.cc\<close>): from a request with
  file descriptors it generates a Perl module and a module of type constraints for each
  requested file. Descriptors are the records below, with the fields that the generator
  reads through upb's accessors; a string stream is the string written to it. Serializing a
  descriptor is upb's and the parameter \<open>ser\<close>.
\<close>

section \<open>Descriptors\<close>

record FieldDescriptorProto =
  fdp_name :: string
  fdp_type_name :: string
  fdp_type :: int

record EnumValueDescriptorProto =
  evp_name :: string
  evp_number :: int

record EnumDescriptorProto =
  enp_name :: string
  enp_value :: "EnumValueDescriptorProto list"

datatype DescriptorProto =
  DescriptorProto (mp_name: string) (mp_field: "FieldDescriptorProto list")
    (mp_enum_type: "EnumDescriptorProto list") (mp_nested_type: "DescriptorProto list")

record MethodDescriptorProto =
  mtp_name :: string
  mtp_input_type :: string
  mtp_output_type :: string

record ServiceDescriptorProto =
  svp_name :: string
  svp_method :: "MethodDescriptorProto list"

record FileDescriptorProto =
  fp_name :: string
  fp_package :: string
  fp_dependency :: "string list"
  fp_message_type :: "DescriptorProto list"
  fp_enum_type :: "EnumDescriptorProto list"
  fp_service :: "ServiceDescriptorProto list"

record CodeGeneratorRequest =
  file_to_generate :: "string list"
  proto_file :: "FileDescriptorProto list"

record CodeGeneratorResponse =
  supported_features :: u64
  minimum_edition :: int
  maximum_edition :: int
  response_file :: "(string \<times> string) list"

record PerlCodeGenerator =
  request :: CodeGeneratorRequest
  file_to_package :: "(string \<times> string) list"
  type_to_perl_class :: "(string \<times> string) list"
  package_name :: string

section \<open>Packages and types\<close>

definition before_last_dot :: "string \<Rightarrow> string" where
  "before_last_dot s = (if CHR ''.'' \<in> set s then rev (tl (dropWhile (\<lambda>c. c \<noteq> CHR ''.'') (rev s))) else s)"

definition GetPerlPackage :: "FileDescriptorProto \<Rightarrow> string" where
  "GetPerlPackage file_proto =
     (let camel_file_segment = ToCamelCase (before_last_dot (after_last_slash (fp_name file_proto)));
          base_package = CapitalizePackage (fp_package file_proto)
      in if base_package \<noteq> [] then base_package @ ''::'' @ camel_file_segment else camel_file_segment)"

definition BuildPackageMap :: "PerlCodeGenerator \<Rightarrow> PerlCodeGenerator" where
  "BuildPackageMap G =
     fold (\<lambda>f G. G\<lparr>file_to_package := kv_store (fp_name f) (GetPerlPackage f) (file_to_package G)\<rparr>) (proto_file (request G)) G"

fun RegisterTypesRecursively :: "DescriptorProto \<Rightarrow> string \<Rightarrow> string \<Rightarrow> PerlCodeGenerator \<Rightarrow> PerlCodeGenerator" where
  "RegisterTypesRecursively (DescriptorProto name fs enums nested) proto_prefix perl_prefix G =
     (let full_proto = proto_prefix @ ''.'' @ name;
          full_perl = perl_prefix @ ''::'' @ name
      in fold (\<lambda>m. RegisterTypesRecursively m full_proto full_perl) nested
           (G\<lparr>type_to_perl_class := kv_store full_proto full_perl (type_to_perl_class G)\<rparr>))"

definition BuildTypeMap :: "PerlCodeGenerator \<Rightarrow> PerlCodeGenerator" where
  "BuildTypeMap G =
     fold (\<lambda>f G.
       let perl_pkg = (case map_of (file_to_package G) (fp_name f) of None \<Rightarrow> [] | Some p \<Rightarrow> p);
           proto_pkg = ''.'' @ fp_package f
       in fold (\<lambda>m. RegisterTypesRecursively m proto_pkg perl_pkg) (fp_message_type f) G) (proto_file (request G)) G"

definition PerlCodeGenerator_new :: "CodeGeneratorRequest \<Rightarrow> PerlCodeGenerator" where
  "PerlCodeGenerator_new req =
     BuildTypeMap (BuildPackageMap \<lparr>request = req, file_to_package = [], type_to_perl_class = [], package_name = []\<rparr>)"

definition ResolvePerlClass :: "PerlCodeGenerator \<Rightarrow> string \<Rightarrow> string" where
  "ResolvePerlClass G proto_type =
     (case map_of (type_to_perl_class G) proto_type of
        Some c \<Rightarrow> c
      | None \<Rightarrow> CapitalizePackage (snd (ConsumePrefix proto_type ''.'')))"

section \<open>Text\<close>

definition line :: "string \<Rightarrow> string" where
  "line s = s @ [CHR 0x0A]"

definition text_lines :: "string list \<Rightarrow> string" where
  "text_lines ls = concat (map line ls)"

definition perl_quote :: "string \<Rightarrow> string" where
  "perl_quote s = [CHR 0x27] @ s @ [CHR 0x27]"

fun dec_nat :: "nat \<Rightarrow> string" where
  "dec_nat n = (if n < 10 then [char_of (48 + n)] else dec_nat (n div 10) @ [char_of (48 + n mod 10)])"

declare dec_nat.simps [simp del]

definition dec_int :: "int \<Rightarrow> string" where
  "dec_int i = (if i < 0 then ''-'' @ dec_nat (nat (- i)) else dec_nat (nat i))"

definition FieldTypeToString :: "int \<Rightarrow> string" where
  "FieldTypeToString ty =
     (if 1 \<le> ty \<and> ty \<le> 18
      then [''Double'', ''Float'', ''Int64'', ''UInt64'', ''Int32'', ''Fixed64'', ''Fixed32'', ''Bool'', ''String'', ''Group'',
            ''Message'', ''Bytes'', ''UInt32'', ''Enum'', ''SFixed32'', ''SFixed64'', ''SInt32'', ''SInt64''] ! nat (ty - 1)
      else ''Unknown'')"

section \<open>The embedded descriptor\<close>

definition b64_table :: string where
  "b64_table = ''ABCDEFGHIJKLMNOPQRSTUVWXYZabcdefghijklmnopqrstuvwxyz0123456789+/''"

definition b64_char :: "u32 \<Rightarrow> char" where
  "b64_char w = b64_table ! unat (w AND 0x3F)"

text \<open>One round of the loop; the second and third byte may be past the end.\<close>

definition b64_quad :: "byte \<Rightarrow> byte option \<Rightarrow> byte option \<Rightarrow> string" where
  "b64_quad a b c =
     (let byte_at = (\<lambda>x k. case x of None \<Rightarrow> 0 | Some y \<Rightarrow> push_bit k (ucast y :: u32));
          val = push_bit 16 (ucast a) OR byte_at b 8 OR byte_at c 0
      in [b64_char (drop_bit 18 val), b64_char (drop_bit 12 val),
          if b = None then CHR ''='' else b64_char (drop_bit 6 val),
          if c = None then CHR ''='' else b64_char val])"

text \<open>\<open>n\<close> is \<open>i / 3\<close>.\<close>

definition b64_wrap :: "nat \<Rightarrow> string" where
  "b64_wrap n = (if (n + 1) mod 18 = 0 then [CHR 0x0A] else [])"

fun b64_loop :: "nat \<Rightarrow> byte list \<Rightarrow> string" where
  "b64_loop n [] = []"
| "b64_loop n [a] = b64_quad a None None @ b64_wrap n"
| "b64_loop n [a, b] = b64_quad a (Some b) None @ b64_wrap n"
| "b64_loop n (a # b # c # bs) = b64_quad a (Some b) (Some c) @ b64_wrap n @ b64_loop (Suc n) bs"

section \<open>The module\<close>

definition PROTOBUF_PERL_VERSION :: string where
  "PROTOBUF_PERL_VERSION = ''0.05''"

definition module_header :: "string \<Rightarrow> string" where
  "module_header pkg = text_lines
     [''package '' @ pkg @ '';'', [], ''use strict;'', ''use warnings;'', [],
      ''our $VERSION = '' @ perl_quote PROTOBUF_PERL_VERSION @ '';'', [],
      ''use Protobuf::Message;'', ''use Protobuf::DescriptorPool;'', ''use Protobuf::Internal qw(:all);'', ''use MIME::Base64;'', [],
      ''BEGIN {'']"

definition require_lines :: "PerlCodeGenerator \<Rightarrow> string list \<Rightarrow> string" where
  "require_lines G deps = concat (map (\<lambda>dep.
     case map_of (file_to_package G) dep of
       None \<Rightarrow> [] | Some p \<Rightarrow> line (''    eval { require '' @ p @ '' };'')) deps)"

definition descriptor_text :: "byte list \<Rightarrow> string" where
  "descriptor_text buf =
     line (''    my $descriptor_b64 = <<'' @ perl_quote ''EOF'' @ '';'') @ b64_loop 0 buf @ text_lines
       [[], ''EOF'',
        ''    Protobuf::DescriptorPool->generated_pool->add_serialized_file(MIME::Base64::decode_base64($descriptor_b64));'',
        ''}'', []]"

definition field_comment :: "FieldDescriptorProto \<Rightarrow> string" where
  "field_comment f = line (''    # Field: '' @ fdp_name f @ '' Type: '' @ dec_int (fdp_type f) @ '' ('' @ fdp_type_name f @ '')'')"

definition field_pod :: "FieldDescriptorProto \<Rightarrow> string" where
  "field_pod f = text_lines
     [''=item * B<'' @ fdp_name f @ ''>'', [],
      ''Type: '' @ FieldTypeToString (fdp_type f) @
        (if fdp_type_name f \<noteq> [] then '' ('' @ fdp_type_name f @ '')'' else []), []]"

definition message_pod :: "string \<Rightarrow> string \<Rightarrow> FieldDescriptorProto list \<Rightarrow> string" where
  "message_pod pkg msg_name fs =
     text_lines
       [''=pod'', [], ''=head1 NAME'', [], pkg @ ''::'' @ msg_name @ '' - Compiled Protocol Buffers message class'', [],
        ''=head1 SYNOPSIS'', [], ''    use '' @ pkg @ '';'', [], ''    my $msg = '' @ pkg @ ''::'' @ msg_name @ ''->new('']
     @ (case fs of [] \<Rightarrow> [] | f # _ \<Rightarrow> line (''        '' @ fdp_name f @ '' => $value,''))
     @ text_lines [''    );'', [], ''=head1 FIELDS'', [], ''=over 4'', []]
     @ concat (map field_pod fs)
     @ text_lines [''=back'', [], ''=cut'', []]"

definition enum_section :: "string \<Rightarrow> EnumDescriptorProto \<Rightarrow> string" where
  "enum_section msg_name e =
     line (''# Enum: '' @ msg_name @ ''::'' @ enp_name e)
     @ concat (map (\<lambda>ev. line (''our $'' @ msg_name @ ''_'' @ evp_name ev @ '' = '' @ dec_int (evp_number ev) @ '';'')) (enp_value e))
     @ text_lines [[], ''=pod'', [], ''=head2 Enum: '' @ msg_name @ ''::'' @ enp_name e, [], ''Values:'', [], ''=over 4'', []]
     @ concat (map (\<lambda>ev. text_lines [''=item * C<'' @ evp_name ev @ ''> => '' @ dec_int (evp_number ev), []]) (enp_value e))
     @ text_lines [''=back'', [], ''=cut'', []]"

definition message_section :: "string \<Rightarrow> DescriptorProto \<Rightarrow> string" where
  "message_section pkg msg =
     text_lines [''# === Message: '' @ pkg @ ''::'' @ mp_name msg @ '' ==='', ''    # Fields for '' @ mp_name msg]
     @ concat (map field_comment (mp_field msg))
     @ line []
     @ message_pod pkg (mp_name msg) (mp_field msg)
     @ concat (map (enum_section (mp_name msg)) (mp_enum_type msg))"

definition method_section :: "PerlCodeGenerator \<Rightarrow> string \<Rightarrow> string \<Rightarrow> MethodDescriptorProto \<Rightarrow> string" where
  "method_section G proto_pkg srv_name m =
     text_lines
       [''sub '' @ ToSnakeCase (mtp_name m) @ '' {'',
        ''    my ($self, $args) = @_;'',
        ''    my $req = ref($args) eq '' @ perl_quote ''HASH'',
        ''        ? '' @ ResolvePerlClass G (mtp_input_type m) @ ''->new($args)'',
        ''        : $args;'',
        ''    return $self->_grpc_client->call({'',
        ''        service        => '' @ perl_quote (proto_pkg @ ''.'' @ srv_name) @ '','',
        ''        method         => '' @ perl_quote (mtp_name m) @ '','',
        ''        request        => $req,'',
        ''        response_class => '' @ perl_quote (ResolvePerlClass G (mtp_output_type m)) @ '','',
        ''    });'',
        ''}'', []]"

definition service_header :: "string \<Rightarrow> string \<Rightarrow> string \<Rightarrow> string" where
  "service_header pkg srv_name default_host =
     text_lines
       [''# === Service Client: '' @ pkg @ ''::'' @ srv_name @ ''Client ==='',
        ''package '' @ pkg @ ''::'' @ srv_name @ ''Client;'', [],
        ''=pod'', [], ''=head1 NAME'', [],
        pkg @ ''::'' @ srv_name @ ''Client - Client stub representing the remote '' @ srv_name @ '' service'', [],
        ''=head1 DESCRIPTION'', [],
        ''This class acts as a local client stub for the remote gRPC service.'',
        ''It delegates call dispatching to an underlying L<Google::gRPC::Client>'',
        ''instance, ensuring type-safe request parsing and response mapping.'', [],
        ''=head1 CONFIGURATION AND ENVIRONMENT'', [],
        ''=head2 target'', [], ''The endpoint target address. Defaults to C<'' @ default_host @ ''>.'', [],
        ''=head2 credentials'', [],
        ''The authentication credentials provider. Defaults to application default credentials via L<Google::Auth>.'', [],
        ''=cut'', []]"

definition service_attributes :: "string \<Rightarrow> string" where
  "service_attributes default_host =
     text_lines
       [''use Moo;'', ''use Google::Auth;'', ''use Google::gRPC::Client;'', [],
        ''has credentials => ( is => '' @ perl_quote ''ro'' @ '', default => sub { Google::Auth->default() } );'',
        ''has target      => ( is => '' @ perl_quote ''ro'' @ '', default => '' @ perl_quote default_host @ '' );'', [],
        ''has _grpc_client => ('',
        ''    is => '' @ perl_quote ''ro'' @ '','',
        ''    lazy => 1,'',
        ''    builder => sub {'',
        ''        my $self = shift;'',
        ''        return Google::gRPC::Client->new('',
        ''            target     => $self->target,'',
        ''            auth_token => $self->credentials->get_token(),'',
        ''        );'',
        ''    }'',
        '');'', []]"

definition service_section :: "PerlCodeGenerator \<Rightarrow> string \<Rightarrow> string \<Rightarrow> ServiceDescriptorProto \<Rightarrow> string" where
  "service_section G proto_pkg default_host srv =
     service_header (package_name G) (svp_name srv) default_host @ service_attributes default_host
     @ concat (map (method_section G proto_pkg (svp_name srv)) (svp_method srv))"

definition GenerateModule :: "(FileDescriptorProto \<Rightarrow> byte list) \<Rightarrow> PerlCodeGenerator \<Rightarrow> FileDescriptorProto \<Rightarrow> string" where
  "GenerateModule ser G file_proto =
     (let pkg = package_name G; proto_pkg = fp_package file_proto; default_host = GetDefaultHost proto_pkg
      in module_header pkg @ require_lines G (fp_dependency file_proto) @ descriptor_text (ser file_proto)
         @ text_lines [''# Message definitions'', []]
         @ concat (map (message_section pkg) (fp_message_type file_proto))
         @ concat (map (service_section G proto_pkg default_host) (fp_service file_proto))
         @ line ''1;'')"

section \<open>The type constraints\<close>

definition PrintEnumTypes :: "EnumDescriptorProto \<Rightarrow> string \<Rightarrow> string" where
  "PrintEnumTypes e current_package = text_lines [''declare '' @ perl_quote (enp_name e) @ '','', ''    as (Int | Str);'', []]"

definition PrintMessageTypes :: "DescriptorProto \<Rightarrow> string \<Rightarrow> string" where
  "PrintMessageTypes msg current_package =
     (let msg_name = mp_name msg; full_perl_class = current_package @ ''::'' @ msg_name
      in text_lines
           [''declare '' @ perl_quote msg_name @ '','', ''    as InstanceOf['' @ perl_quote full_perl_class @ ''];'', [],
            ''coerce '' @ perl_quote msg_name @ '','', ''    from HashRef, via { '' @ perl_quote full_perl_class @ ''->new($_) };'', [],
            ''declare '' @ perl_quote (''Repeated'' @ msg_name) @ '','', ''    as ArrayRef['' @ msg_name @ ''()];'', [],
            ''coerce '' @ perl_quote (''Repeated'' @ msg_name) @ '','',
            ''    from ArrayRef[HashRef], via { [ map { '' @ perl_quote full_perl_class @ ''->new($_) } @$_ ] };'', [],
            ''declare '' @ perl_quote (''MapString'' @ msg_name) @ '','', ''    as HashRef['' @ msg_name @ ''()];'', []])"

fun PrintTypesRecursively :: "DescriptorProto \<Rightarrow> string \<Rightarrow> string" where
  "PrintTypesRecursively (DescriptorProto name fs enums nested) current_package =
     (let full_msg_name = current_package @ ''::'' @ name
      in PrintMessageTypes (DescriptorProto name fs enums nested) current_package
         @ concat (map (\<lambda>e. PrintEnumTypes e full_msg_name) enums)
         @ concat (map (\<lambda>m. PrintTypesRecursively m full_msg_name) nested))"

definition GenerateTypes :: "PerlCodeGenerator \<Rightarrow> FileDescriptorProto \<Rightarrow> string" where
  "GenerateTypes G file_proto =
     text_lines
       [''package '' @ package_name G @ ''::Types;'', [], ''use strict;'', ''use warnings;'', [],
        ''use Type::Library -base;'', ''use Type::Utils -all;'', ''use Types::Standard -types;'', []]
     @ concat (map (\<lambda>e. PrintEnumTypes e (package_name G)) (fp_enum_type file_proto))
     @ concat (map (\<lambda>m. PrintTypesRecursively m (package_name G)) (fp_message_type file_proto))
     @ line ''1;''"

section \<open>The response\<close>

text \<open>Index of the first double slash.\<close>

fun find_double_slash :: "string \<Rightarrow> nat option" where
  "find_double_slash (c # d # cs) =
     (if c = CHR ''/'' \<and> d = CHR ''/'' then Some 0 else map_option Suc (find_double_slash (d # cs)))"
| "find_double_slash cs = None"

lemma find_double_slash_bound: "find_double_slash s = Some i \<Longrightarrow> Suc i < length s"
  by (induction s arbitrary: i rule: find_double_slash.induct) (auto split: if_splits)

function collapse_slashes :: "string \<Rightarrow> string" where
  "collapse_slashes p =
     (case find_double_slash p of
        None \<Rightarrow> p
      | Some i \<Rightarrow> collapse_slashes (take i p @ ''/'' @ drop (i + 2) p))"
  by auto
termination by (relation "measure length") (auto dest: find_double_slash_bound)

declare collapse_slashes.simps [simp del]

definition module_path :: "string \<Rightarrow> string" where
  "module_path pkg = collapse_slashes (map (\<lambda>c. if c = CHR '':'' then CHR ''/'' else c) pkg)"

fun generate_loop ::
    "(FileDescriptorProto \<Rightarrow> byte list) \<Rightarrow> string list \<Rightarrow> PerlCodeGenerator \<Rightarrow> (string \<times> string) list \<times> PerlCodeGenerator" where
  "generate_loop ser [] G = ([], G)"
| "generate_loop ser (name # names) G =
     (case find (\<lambda>f. name = fp_name f) (proto_file (request G)) of
        None \<Rightarrow> generate_loop ser names G
      | Some file_proto \<Rightarrow>
          let G = (case map_of (file_to_package G) name of None \<Rightarrow> G | Some p \<Rightarrow> G\<lparr>package_name := p\<rparr>);
              p = module_path (package_name G);
              (files, G') = generate_loop ser names G
          in ((p @ ''.pm'', GenerateModule ser G file_proto) # (p @ ''/Types.pm'', GenerateTypes G file_proto) # files, G'))"

definition FEATURE_PROTO3_OPTIONAL :: u64 where "FEATURE_PROTO3_OPTIONAL = 1"
definition FEATURE_SUPPORTS_EDITIONS :: u64 where "FEATURE_SUPPORTS_EDITIONS = 2"

definition Generate :: "(FileDescriptorProto \<Rightarrow> byte list) \<Rightarrow> PerlCodeGenerator \<Rightarrow> CodeGeneratorResponse \<times> PerlCodeGenerator" where
  "Generate ser G =
     (let (files, G') = generate_loop ser (file_to_generate (request G)) G
      in (\<lparr>supported_features = FEATURE_PROTO3_OPTIONAL OR FEATURE_SUPPORTS_EDITIONS,
           minimum_edition = 1000, maximum_edition = 1001, response_file = files\<rparr>, G'))"

section \<open>The plugin\<close>

text \<open>
  Reading standard input in blocks: a \<open>read\<close> that gets fewer bytes than it asked for ends
  the loop, and what it got is appended after the loop.
\<close>

function read_stdin :: "byte list \<Rightarrow> byte list" where
  "read_stdin input = (if 4096 \<le> length input then take 4096 input @ read_stdin (drop 4096 input) else input)"
  by auto
termination by (relation "measure length") auto

declare read_stdin.simps [simp del]

text \<open>Exit status, standard output and standard error.\<close>

definition plugin_main ::
    "(byte list \<Rightarrow> CodeGeneratorRequest option) \<Rightarrow> (FileDescriptorProto \<Rightarrow> byte list) \<Rightarrow> (CodeGeneratorResponse \<Rightarrow> byte list) \<Rightarrow>
     byte list \<Rightarrow> int \<times> byte list \<times> string" where
  "plugin_main parse ser serialize_response input =
     (case parse (read_stdin input) of
        None \<Rightarrow> (1, [], line ''Failed to parse CodeGeneratorRequest'')
      | Some req \<Rightarrow> (0, serialize_response (fst (Generate ser (PerlCodeGenerator_new req))), []))"

section \<open>Reading the descriptor back\<close>

text \<open>
  What Perl does with the generated text. \<open>heredoc\<close> is the body of a here-document up to
  the first line that is \<open>EOF\<close>, and the text after it. \<open>decode_base64\<close> is MIME::Base64's:
  characters outside the alphabet are skipped, and nothing is decoded after a padding sign.
\<close>

function heredoc :: "string \<Rightarrow> (string \<times> string) option" where
  "heredoc s =
     (case dropWhile (\<lambda>c. c \<noteq> CHR 0x0A) s of
        [] \<Rightarrow> if s = ''EOF'' then Some ([], []) else None
      | _ # rest \<Rightarrow>
          let l = takeWhile (\<lambda>c. c \<noteq> CHR 0x0A) s
          in if l = ''EOF'' then Some ([], rest) else map_option (\<lambda>(body, r). (line l @ body, r)) (heredoc rest))"
  by auto
termination by (relation "measure length") (auto dest: dropWhile_smaller)

declare heredoc.simps [simp del]

definition b64_index :: "char \<Rightarrow> u32 option" where
  "b64_index c = (if c \<in> set b64_table then Some (of_nat (length (takeWhile (\<lambda>d. d \<noteq> c) b64_table))) else None)"

fun decode_quads :: "u32 list \<Rightarrow> byte list" where
  "decode_quads (w # x # y # z # ws) =
     [ucast (push_bit 2 w OR drop_bit 4 x), ucast (push_bit 4 x OR drop_bit 2 y), ucast (push_bit 6 y OR z)] @ decode_quads ws"
| "decode_quads [w, x, y] = [ucast (push_bit 2 w OR drop_bit 4 x), ucast (push_bit 4 x OR drop_bit 2 y)]"
| "decode_quads [w, x] = [ucast (push_bit 2 w OR drop_bit 4 x)]"
| "decode_quads _ = []"

definition decode_base64 :: "string \<Rightarrow> byte list" where
  "decode_base64 s = decode_quads (List.map_filter b64_index (takeWhile (\<lambda>c. c \<noteq> CHR ''='') s))"

lemma b64_table_facts: "distinct b64_table" "length b64_table = 64" "CHR ''='' \<notin> set b64_table" "CHR 0x0A \<notin> set b64_table"
  by (simp_all add: b64_table_def)

lemma takeWhile_nth_distinct: "distinct xs \<Longrightarrow> n < length xs \<Longrightarrow> takeWhile (\<lambda>d. d \<noteq> xs ! n) xs = take n xs"
proof (induction xs arbitrary: n)
  case (Cons x xs)
  then show ?case by (cases n) auto
qed simp

lemma sextet_bound: "unat (w AND 0x3F :: u32) < 64"
proof -
  have "w AND 0x3F = take_bit 6 w" by (simp add: take_bit_eq_mask mask_eq_exp_minus_1)
  moreover have "unat (take_bit 6 w) < 64" using take_bit_nat_less_exp [of 6 "unat w"] by (simp add: unsigned_take_bit_eq)
  ultimately show ?thesis by simp
qed

lemma b64_char_facts [simp]:
  "b64_index (b64_char w) = Some (w AND 0x3F)" "b64_char w \<noteq> CHR ''=''" "b64_char w \<noteq> CHR 0x0A"
proof -
  have m: "b64_char w \<in> set b64_table" using sextet_bound [of w] b64_table_facts(2) by (simp add: b64_char_def)
  then show "b64_char w \<noteq> CHR ''=''" "b64_char w \<noteq> CHR 0x0A" using b64_table_facts by metis+
  show "b64_index (b64_char w) = Some (w AND 0x3F)"
    using m takeWhile_nth_distinct [OF b64_table_facts(1)] sextet_bound [of w] b64_table_facts(2) by (simp add: b64_index_def b64_char_def)
qed

lemma b64_index_other [simp]: "b64_index (CHR 0x0A) = None"
  using b64_table_facts by (simp add: b64_index_def)

lemma mask6: "(0x3F :: u32) = mask 6"
  by (simp add: mask_eq_exp_minus_1)

lemma decode_quad3:
  fixes a b c :: byte and v :: u32
  assumes v: "v = push_bit 16 (ucast a) OR push_bit 8 (ucast b) OR push_bit 0 (ucast c)"
  shows "(ucast (push_bit 2 (drop_bit 18 v AND 0x3F) OR drop_bit 4 (drop_bit 12 v AND 0x3F)) :: byte) = a"
    "(ucast (push_bit 4 (drop_bit 12 v AND 0x3F) OR drop_bit 2 (drop_bit 6 v AND 0x3F)) :: byte) = b"
    "(ucast (push_bit 6 (drop_bit 6 v AND 0x3F) OR (v AND 0x3F)) :: byte) = c"
proof -
  have bit_v: "bit v n \<longleftrightarrow> n < 24 \<and> (if n < 8 then bit c n else if n < 16 then bit b (n - 8) else bit a (n - 16))" for n
    unfolding v by (auto simp: bit_simps dest: bit_imp_le_length)
  show "(ucast (push_bit 2 (drop_bit 18 v AND 0x3F) OR drop_bit 4 (drop_bit 12 v AND 0x3F)) :: byte) = a"
    unfolding mask6 by (rule bit_word_eqI) (auto simp: bit_simps bit_v Suc_diff_le simp flip: add_2_eq_Suc' Suc_eq_plus1)
  show "(ucast (push_bit 4 (drop_bit 12 v AND 0x3F) OR drop_bit 2 (drop_bit 6 v AND 0x3F)) :: byte) = b"
    unfolding mask6 by (rule bit_word_eqI) (auto simp: bit_simps bit_v)
  show "(ucast (push_bit 6 (drop_bit 6 v AND 0x3F) OR (v AND 0x3F)) :: byte) = c"
    unfolding mask6 by (rule bit_word_eqI) (auto simp: bit_simps bit_v)
qed

lemma decode_quad_step:
  "decode_quads (List.map_filter b64_index (takeWhile (\<lambda>c. c \<noteq> CHR ''='') (b64_quad a None None @ rest))) = [a]"
  "decode_quads (List.map_filter b64_index (takeWhile (\<lambda>c. c \<noteq> CHR ''='') (b64_quad a (Some b) None @ rest))) = [a, b]"
  "decode_quads (List.map_filter b64_index (takeWhile (\<lambda>c. c \<noteq> CHR ''='') (b64_quad a (Some b) (Some c) @ rest))) =
     [a, b, c] @ decode_quads (List.map_filter b64_index (takeWhile (\<lambda>c. c \<noteq> CHR ''='') rest))"
  using decode_quad3 [OF refl, of a 0 0] decode_quad3 [OF refl, of a b 0] decode_quad3 [OF refl, of a b c]
  by (simp_all add: b64_quad_def Let_def List.map_filter_simps)

lemma decode_wrap [simp]:
  "takeWhile (\<lambda>c. c \<noteq> CHR ''='') (b64_wrap n @ rest) = b64_wrap n @ takeWhile (\<lambda>c. c \<noteq> CHR ''='') rest"
  "List.map_filter b64_index (b64_wrap n @ rest) = List.map_filter b64_index rest"
  by (simp_all add: b64_wrap_def List.map_filter_simps)

lemma decode_b64_loop: "decode_base64 (b64_loop n bs @ [CHR 0x0A]) = bs"
  by (induction n bs rule: b64_loop.induct) (simp_all add: decode_base64_def decode_quad_step List.map_filter_simps)

text \<open>No line of the encoding ends the here-document: their lengths are multiples of four.\<close>

lemma heredoc_line:
  assumes "CHR 0x0A \<notin> set l"
  shows "heredoc (l @ CHR 0x0A # rest) =
    (if l = ''EOF'' then Some ([], rest) else map_option (\<lambda>(body, r). (line l @ body, r)) (heredoc rest))"
  using cut_at [OF assms] by (subst heredoc.simps) simp

definition partial_line :: "string \<Rightarrow> bool" where
  "partial_line l \<longleftrightarrow> CHR 0x0A \<notin> set l \<and> 4 dvd length l"

lemma partial_line_quad: "partial_line l \<Longrightarrow> partial_line (l @ b64_quad a b c)"
proof -
  have "CHR 0x0A \<noteq> b64_char w" for w using b64_char_facts(3) [of w] by metis
  then have "CHR 0x0A \<notin> set (b64_quad a b c)" "length (b64_quad a b c) = 4" by (simp_all add: b64_quad_def Let_def)
  then show "partial_line l \<Longrightarrow> partial_line (l @ b64_quad a b c)" by (simp add: partial_line_def)
qed

lemma heredoc_partial:
  "partial_line l \<Longrightarrow> heredoc (l @ CHR 0x0A # rest) = map_option (\<lambda>(body, r). (line l @ body, r)) (heredoc rest)"
proof -
  have "length ''EOF'' = 3" "\<not> (4 :: nat) dvd 3" by simp_all
  then show "partial_line l \<Longrightarrow> heredoc (l @ CHR 0x0A # rest) = map_option (\<lambda>(body, r). (line l @ body, r)) (heredoc rest)"
    using heredoc_line [of l rest] unfolding partial_line_def by metis
qed

lemma heredoc_wrap:
  assumes "partial_line l" "\<And>l'. partial_line l' \<Longrightarrow> heredoc (l' @ s) = Some (l' @ t, rest)"
  shows "heredoc (l @ b64_wrap n @ s) = Some (l @ b64_wrap n @ t, rest)"
  using assms(2) [of "[]"] assms(2) [OF assms(1)] heredoc_partial [OF assms(1), of s]
  by (auto simp: b64_wrap_def line_def partial_line_def)

lemma heredoc_end: "partial_line l \<Longrightarrow> heredoc (l @ text_lines [[], ''EOF''] @ rest) = Some (l @ [CHR 0x0A], rest)"
  using heredoc_partial [of l "''EOF'' @ CHR 0x0A # rest"] heredoc_line [of "''EOF''" rest] by (simp add: text_lines_def line_def)

lemma heredoc_b64:
  "partial_line l \<Longrightarrow> heredoc (l @ b64_loop n bs @ text_lines [[], ''EOF''] @ rest) = Some (l @ b64_loop n bs @ [CHR 0x0A], rest)"
proof (induction n bs arbitrary: l rule: b64_loop.induct)
  case (1 n)
  then show ?case using heredoc_end by simp
next
  case (2 n a)
  show ?case using heredoc_wrap [OF partial_line_quad [OF 2], where s = "text_lines [[], ''EOF''] @ rest"] heredoc_end by simp
next
  case (3 n a b)
  show ?case using heredoc_wrap [OF partial_line_quad [OF 3], where s = "text_lines [[], ''EOF''] @ rest"] heredoc_end by simp
next
  case (4 n a b c bs)
  show ?case using heredoc_wrap [OF partial_line_quad [OF 4(2)] 4(1)] by simp
qed

text \<open>
  C13: The descriptor that a generated module registers is the one of its file: after the line
  that opens the here-document, Perl reads the encoded text to its end and no further (no
  line of it can be taken for the terminator, whatever the bytes), decoding that text gives
  back exactly the serialized descriptor, and the code that follows adds it to the
  generated pool.
\<close>

theorem descriptor_embedding_roundtrip:
  "\<exists>rest body after. GenerateModule ser G f =
      module_header (package_name G) @ require_lines G (fp_dependency f) @
      line (''    my $descriptor_b64 = <<'' @ perl_quote ''EOF'' @ '';'') @ rest \<and>
    heredoc rest = Some (body, after) \<and> decode_base64 body = ser f \<and>
    takeWhile (\<lambda>c. c \<noteq> CHR 0x0A) after =
      ''    Protobuf::DescriptorPool->generated_pool->add_serialized_file(MIME::Base64::decode_base64($descriptor_b64));''"
proof -
  let ?add = "''    Protobuf::DescriptorPool->generated_pool->add_serialized_file(MIME::Base64::decode_base64($descriptor_b64));''"
  obtain tl where gen: "GenerateModule ser G f = module_header (package_name G) @ require_lines G (fp_dependency f) @
      line (''    my $descriptor_b64 = <<'' @ perl_quote ''EOF'' @ '';'') @ b64_loop 0 (ser f) @ text_lines [[], ''EOF''] @ line ?add @ tl"
    by (simp add: GenerateModule_def descriptor_text_def text_lines_def Let_def)
  have "heredoc (b64_loop 0 (ser f) @ text_lines [[], ''EOF''] @ line ?add @ tl) = Some (b64_loop 0 (ser f) @ [CHR 0x0A], line ?add @ tl)"
    using heredoc_b64 [of "[]"] by (simp add: partial_line_def)
  moreover have "takeWhile (\<lambda>c. c \<noteq> CHR 0x0A) (line ?add @ tl) = ?add" by (simp add: line_def)
  ultimately show ?thesis using gen decode_b64_loop [of 0 "ser f"] by blast
qed

section \<open>The classes of types\<close>

text \<open>
  The messages of a descriptor by the names that lead to them, and what the generator
  registers for them.
\<close>

fun msg_paths :: "DescriptorProto \<Rightarrow> string list list" where
  "msg_paths (DescriptorProto name fs enums nested) = [name] # map ((#) name) (concat (map msg_paths nested))"

definition type_entry :: "string \<Rightarrow> string \<Rightarrow> string list \<Rightarrow> string \<times> string" where
  "type_entry proto_prefix perl_prefix names =
     (proto_prefix @ concat (map (\<lambda>n. ''.'' @ n) names), perl_prefix @ concat (map (\<lambda>n. ''::'' @ n) names))"

definition request_types :: "CodeGeneratorRequest \<Rightarrow> (string \<times> string) list" where
  "request_types req = concat (map (\<lambda>f. map (type_entry (''.'' @ fp_package f) (GetPerlPackage f)) (concat (map msg_paths (fp_message_type f))))
     (proto_file req))"

definition put_types :: "(string \<times> string) list \<Rightarrow> PerlCodeGenerator \<Rightarrow> PerlCodeGenerator" where
  "put_types es G = G\<lparr>type_to_perl_class := fold (\<lambda>(k, v). kv_store k v) es (type_to_perl_class G)\<rparr>"

lemma put_types_append: "put_types (xs @ ys) G = put_types ys (put_types xs G)"
  by (simp add: put_types_def)

lemma fold_put_types:
  "(\<And>x G. x \<in> set xs \<Longrightarrow> f x G = put_types (es x) G) \<Longrightarrow> fold f xs G = put_types (concat (map es xs)) G"
  by (induction xs arbitrary: G) (simp_all add: put_types_append, simp add: put_types_def)

lemma type_entry_Cons: "type_entry pp pl (n # ns) = type_entry (pp @ ''.'' @ n) (pl @ ''::'' @ n) ns"
  by (simp add: type_entry_def)

lemma RegisterTypes_put: "RegisterTypesRecursively m pp pl G = put_types (map (type_entry pp pl) (msg_paths m)) G"
proof (induction m pp pl G rule: RegisterTypesRecursively.induct)
  case (1 name fs enums nested pp pl G)
  let ?pp = "pp @ ''.'' @ name" and ?pl = "pl @ ''::'' @ name"
  let ?G = "put_types [(?pp, ?pl)] G"
  have "fold (\<lambda>m. RegisterTypesRecursively m ?pp ?pl) nested ?G = put_types (concat (map (\<lambda>m. map (type_entry ?pp ?pl) (msg_paths m)) nested)) ?G"
    by (rule fold_put_types) (use 1 in blast)
  moreover have "map (type_entry pp pl) (msg_paths (DescriptorProto name fs enums nested)) =
      (?pp, ?pl) # concat (map (\<lambda>m. map (type_entry ?pp ?pl) (msg_paths m)) nested)"
    by (simp add: type_entry_Cons comp_def map_concat) (simp add: type_entry_def)
  ultimately show ?case using put_types_append [of "[(?pp, ?pl)]"] by (simp add: put_types_def Let_def)
qed

lemma map_of_fold_store:
  assumes "distinct (map fst es)" "(k, v) \<in> set es"
  shows "map_of (fold (\<lambda>(k, v). kv_store k v) es m) k = Some v"
proof -
  have "map_of (fold (\<lambda>(k, v). kv_store k v) es m) = map_of m ++ map_of (rev es)" for m
    by (induction es arbitrary: m) (auto simp: map_add_def fun_eq_iff split: option.split)
  moreover have "map_of (rev es) k = Some v" using assms by (simp add: distinct_map rev_map [symmetric])
  ultimately show ?thesis by simp
qed

lemma BuildPackageMap_eq:
  "BuildPackageMap G = G\<lparr>file_to_package := fold (\<lambda>(k, v). kv_store k v) (map (\<lambda>f. (fp_name f, GetPerlPackage f)) (proto_file (request G))) (file_to_package G)\<rparr>"
proof -
  have "fold (\<lambda>f G. G\<lparr>file_to_package := kv_store (fp_name f) (GetPerlPackage f) (file_to_package G)\<rparr>) fs G =
      G\<lparr>file_to_package := fold (\<lambda>(k, v). kv_store k v) (map (\<lambda>f. (fp_name f, GetPerlPackage f)) fs) (file_to_package G)\<rparr>" for fs and G :: PerlCodeGenerator
    by (induction fs arbitrary: G) simp_all
  then show ?thesis by (simp add: BuildPackageMap_def)
qed

lemma package_of_file:
  assumes "distinct (map fp_name (proto_file req))" "f \<in> set (proto_file req)"
  shows "map_of (file_to_package (BuildPackageMap \<lparr>request = req, file_to_package = [], type_to_perl_class = [], package_name = []\<rparr>)) (fp_name f) =
    Some (GetPerlPackage f)"
  using assms by (simp add: BuildPackageMap_eq) (rule map_of_fold_store, auto simp: comp_def)

lemma PerlCodeGenerator_new_eq:
  assumes "distinct (map fp_name (proto_file req))"
  shows "PerlCodeGenerator_new req = put_types (request_types req) (BuildPackageMap \<lparr>request = req, file_to_package = [], type_to_perl_class = [], package_name = []\<rparr>)"
proof -
  let ?G = "BuildPackageMap \<lparr>request = req, file_to_package = [], type_to_perl_class = [], package_name = []\<rparr>"
  let ?es = "\<lambda>f. map (type_entry (''.'' @ fp_package f) (GetPerlPackage f)) (concat (map msg_paths (fp_message_type f)))"
  let ?step = "\<lambda>f G. let perl_pkg = (case map_of (file_to_package G) (fp_name f) of None \<Rightarrow> [] | Some p \<Rightarrow> p); proto_pkg = ''.'' @ fp_package f
    in fold (\<lambda>m. RegisterTypesRecursively m proto_pkg perl_pkg) (fp_message_type f) G"
  have step: "?step f G = put_types (?es f) G" if "file_to_package G = file_to_package ?G" "f \<in> set (proto_file req)" for f G
    using package_of_file [OF assms that(2)] that(1)
    by (simp add: Let_def) (subst fold_put_types, rule RegisterTypes_put, simp add: map_concat comp_def)
  have "fold ?step fs G = put_types (concat (map ?es fs)) G" if "file_to_package G = file_to_package ?G" "set fs \<subseteq> set (proto_file req)" for fs G
    using that
  proof (induction fs arbitrary: G)
    case (Cons f fs)
    then show ?case using step [of G f] Cons.IH [of "put_types (?es f) G"] by (simp add: put_types_append) (simp add: put_types_def)
  qed (simp add: put_types_def)
  from this [of ?G "proto_file req"] show ?thesis by (simp add: PerlCodeGenerator_new_def BuildTypeMap_def request_types_def BuildPackageMap_eq)
qed

lemma resolve_registered:
  assumes "distinct (map fp_name (proto_file req))" "distinct (map fst (request_types req))" "(ty, cls) \<in> set (request_types req)"
  shows "ResolvePerlClass (PerlCodeGenerator_new req) ty = cls"
  using map_of_fold_store [OF assms(2,3)] by (simp add: ResolvePerlClass_def PerlCodeGenerator_new_eq [OF assms(1)] put_types_def)

lemma concat_join: "names \<noteq> [] \<Longrightarrow> concat (map (\<lambda>n. sep @ n) names) = sep @ join sep names"
  by (induction sep names rule: join.induct) simp_all

lemma join_empty: "join sep (x # xs) = [] \<Longrightarrow> x = []"
  by (cases xs) simp_all

text \<open>The two sides cut the file name differently; they agree when its last part has one dot.\<close>

lemma file_module_agrees:
  assumes "after_last_slash file = base @ CHR ''.'' # ext" "CHR ''.'' \<notin> set base" "CHR ''.'' \<notin> set ext"
  shows "ToCamelCase (before_last_dot (after_last_slash file)) = get_file_module file"
proof -
  have "dropWhile (\<lambda>c. c \<noteq> CHR ''.'') (rev ext @ CHR ''.'' # rev base) = CHR ''.'' # rev base"
    using cut_at(3) [of "CHR ''.''" "rev ext"] assms(3) by simp
  then have "before_last_dot (after_last_slash file) = base" using assms(1) by (simp add: before_last_dot_def)
  then show ?thesis using cut_at(4) [OF assms(2)] assms(1) camel_loop_camel_case [of True "CHR 0x00" base] by (simp add: get_file_module_def)
qed

text \<open>
  C7: Generated stubs use the classes that exist at run time: for every message of a file in the
  request, nested ones included, the class that the generator writes for a reference to it
  is the class into which the XS layer blesses objects of that message
  (\<open>PerlUpb_GetMessageStash\<close>). This needs unique file and type names, as \<open>protoc\<close>
  guarantees, a package, message names that begin with a capital, and a single dot in the
  last part of the file name.
\<close>

theorem generated_class_is_runtime_class:
  assumes "distinct (map fp_name (proto_file req))" "distinct (map fst (request_types req))"
    and "f \<in> set (proto_file req)" "m \<in> set (fp_message_type f)" "names \<in> set (msg_paths m)" "names_ok names"
    and "fp_package f = join ''.'' segs" "segs \<noteq> []" "list_all (segment_ok (CHR ''.'')) segs"
    and "after_last_slash (fp_name f) = base @ CHR ''.'' # ext" "CHR ''.'' \<notin> set base" "CHR ''.'' \<notin> set ext"
  shows "ResolvePerlClass (PerlCodeGenerator_new req) (''.'' @ join ''.'' (segs @ names)) =
    message_class (join ''.'' (segs @ names)) (fp_name f) (Some (fp_package f))"
proof -
  have n: "names \<noteq> []" using assms(6) by (simp add: names_ok_def)
  have "type_entry (''.'' @ fp_package f) (GetPerlPackage f) names \<in> set (request_types req)"
    using assms(3-5) by (auto simp: request_types_def)
  moreover have "fst (type_entry (''.'' @ fp_package f) pl names) = ''.'' @ join ''.'' (segs @ names)" for pl
    using assms(7) concat_join [OF n, of "''.''"] join_append [OF assms(8) n] by (simp add: type_entry_def)
  ultimately have "ResolvePerlClass (PerlCodeGenerator_new req) (''.'' @ join ''.'' (segs @ names)) = GetPerlPackage f @ ''::'' @ join ''::'' names"
    using resolve_registered [OF assms(1,2)] concat_join [OF n, of "''::''"] by (simp add: type_entry_def)
  moreover have "GetPerlPackage f = join ''::'' (map capital segs) @ ''::'' @ get_file_module (fp_name f)"
  proof -
    have "join ''::'' (map capital segs) \<noteq> []"
      using assms(8,9) by (cases segs) (auto dest!: join_empty simp: capital_def segment_ok_def split: list.splits)
    then show ?thesis using CapitalizePackage_join [OF assms(9)] file_module_agrees [OF assms(10-12)] assms(7) by (simp add: GetPerlPackage_def)
  qed
  ultimately show ?thesis using message_class_join [OF assms(9,6)] assms(7,8) by simp
qed

section \<open>Output files\<close>

text \<open>The loop that removes double slashes, against a scan that drops every slash before another one.\<close>

fun squeeze :: "string \<Rightarrow> string" where
  "squeeze (c # d # cs) = (if c = CHR ''/'' \<and> d = CHR ''/'' then squeeze (d # cs) else c # squeeze (d # cs))"
| "squeeze cs = cs"

lemma squeeze_step: "find_double_slash s = Some i \<Longrightarrow> squeeze (take i s @ CHR ''/'' # drop (i + 2) s) = squeeze s"
proof (induction s arbitrary: i rule: find_double_slash.induct)
  case (1 c d cs)
  show ?case
  proof (cases "c = CHR ''/'' \<and> d = CHR ''/''")
    case False
    then obtain j where j: "find_double_slash (d # cs) = Some j" "i = Suc j" using 1(2) by auto
    then have IH: "squeeze (take j (d # cs) @ CHR ''/'' # drop (j + 2) (d # cs)) = squeeze (d # cs)" using 1(1) False by blast
    have "d = CHR ''/''" if "j = 0" using j(1) that by (cases cs) (auto split: if_splits)
    then show ?thesis using IH False j(2) by (cases j) auto
  qed (use 1(2) in simp)
qed simp_all

lemma squeeze_id: "find_double_slash s = None \<Longrightarrow> squeeze s = s"
  by (induction s rule: find_double_slash.induct) (auto split: if_splits)

lemma collapse_squeeze: "collapse_slashes s = squeeze s"
proof (induction s rule: collapse_slashes.induct)
  case (1 s)
  then show ?case using squeeze_step [of s] squeeze_id [of s] by (cases "find_double_slash s") (simp_all add: collapse_slashes.simps [of s])
qed

lemma squeeze_plain: "CHR ''/'' \<notin> set x \<Longrightarrow> squeeze (x @ rest) = x @ squeeze rest"
proof (induction x)
  case (Cons c x)
  then show ?case by (cases "x @ rest") auto
qed simp

lemma squeeze_join: "list_all (segment_ok (CHR ''/'')) xs \<Longrightarrow> squeeze (join ''//'' xs) = join ''/'' xs"
proof (induction "''//''" xs rule: join.induct)
  case (2 x)
  then show ?case using squeeze_plain [of x "[]"] by (simp add: segment_ok_def)
next
  case (3 x y ys)
  obtain c cs where j: "join ''//'' (y # ys) = c # cs" "c \<noteq> CHR ''/''"
    using 3(2) by (cases y; cases ys) (auto simp: segment_ok_def)
  then show ?case using 3 squeeze_plain [of x "''//'' @ join ''//'' (y # ys)"] by (simp add: segment_ok_def)
qed simp

lemma map_join: "map f (join sep xs) = join (map f sep) (map (map f) xs)"
  by (induction sep xs rule: join.induct) simp_all

definition class_segment :: "string \<Rightarrow> bool" where
  "class_segment s \<longleftrightarrow> s \<noteq> [] \<and> CHR '':'' \<notin> set s \<and> CHR ''/'' \<notin> set s"

lemma module_path_join: "list_all class_segment xs \<Longrightarrow> module_path (join ''::'' xs) = join ''/'' xs"
proof -
  assume xs: "list_all class_segment xs"
  let ?f = "\<lambda>c. if c = CHR '':'' then CHR ''/'' else c"
  have "map (map ?f) xs = xs" using xs by (auto simp: list_all_iff class_segment_def intro!: map_idI)
  moreover have "list_all (segment_ok (CHR ''/'')) xs" using xs by (auto simp: list_all_iff class_segment_def segment_ok_def)
  ultimately show ?thesis using squeeze_join by (simp add: module_path_def map_join collapse_squeeze)
qed

text \<open>The state in which a file is generated: the package of that file, whatever came before.\<close>

definition for_file :: "CodeGeneratorRequest \<Rightarrow> FileDescriptorProto \<Rightarrow> PerlCodeGenerator" where
  "for_file req f = (PerlCodeGenerator_new req)\<lparr>package_name := GetPerlPackage f\<rparr>"

lemma generate_loop_eq:
  assumes "distinct (map fp_name (proto_file req))" "G\<lparr>package_name := p\<rparr> = (PerlCodeGenerator_new req)\<lparr>package_name := p\<rparr>"
  shows "fst (generate_loop ser names G) = concat (map (\<lambda>name. case find (\<lambda>f. name = fp_name f) (proto_file req) of
      None \<Rightarrow> []
    | Some f \<Rightarrow> [(module_path (GetPerlPackage f) @ ''.pm'', GenerateModule ser (for_file req f) f),
        (module_path (GetPerlPackage f) @ ''/Types.pm'', GenerateTypes (for_file req f) f)]) names)"
  using assms(2)
proof (induction names arbitrary: G)
  case (Cons name names)
  let ?N = "PerlCodeGenerator_new req"
  have G: "request G = req" "file_to_package G = file_to_package ?N" "G\<lparr>package_name := x\<rparr> = ?N\<lparr>package_name := x\<rparr>" for x
  proof -
    show gx: "G\<lparr>package_name := x\<rparr> = ?N\<lparr>package_name := x\<rparr>" for x
      using arg_cong [OF Cons.prems, of "\<lambda>G. G\<lparr>package_name := x\<rparr>"] by simp
    have "request ?N = req" by (simp add: PerlCodeGenerator_new_eq [OF assms(1)] put_types_def BuildPackageMap_eq)
    then show "request G = req" "file_to_package G = file_to_package ?N"
      using arg_cong [OF gx, of request] arg_cong [OF gx, of file_to_package] by simp_all
  qed
  show ?case
  proof (cases "find (\<lambda>f. name = fp_name f) (proto_file req)")
    case None
    then show ?thesis using Cons G(1) by simp
  next
    case (Some f)
    then have f: "f \<in> set (proto_file req)" "name = fp_name f" by (auto simp: find_Some_iff)
    then have pkg: "map_of (file_to_package ?N) name = Some (GetPerlPackage f)"
      using package_of_file [OF assms(1) f(1)] by (simp add: PerlCodeGenerator_new_eq [OF assms(1)] put_types_def)
    have g: "G\<lparr>package_name := GetPerlPackage f\<rparr> = for_file req f" using G(3) by (simp add: for_file_def)
    have "(for_file req f)\<lparr>package_name := p\<rparr> = ?N\<lparr>package_name := p\<rparr>" by (simp add: for_file_def)
    from Cons.IH [OF this] show ?thesis
      using Some G(1,2) pkg g by (simp add: Let_def case_prod_beta) (simp add: for_file_def)
  qed
qed simp

text \<open>
  C27: The response of the generator: it holds exactly two files for each requested file whose
  descriptor is in the request, in the order of the request and nothing for the others. Each
  pair is generated for the package of its own file, independently of the files before
  it, and lies where Perl looks for that package: the path of \<open>A::B::C\<close> is \<open>A/B/C.pm\<close>.
\<close>

theorem generate_response:
  assumes "distinct (map fp_name (proto_file req))"
  shows "response_file (fst (Generate ser (PerlCodeGenerator_new req))) =
      concat (map (\<lambda>name. case find (\<lambda>f. name = fp_name f) (proto_file req) of
        None \<Rightarrow> []
      | Some f \<Rightarrow> [(module_path (GetPerlPackage f) @ ''.pm'', GenerateModule ser (for_file req f) f),
          (module_path (GetPerlPackage f) @ ''/Types.pm'', GenerateTypes (for_file req f) f)]) (file_to_generate req)) \<and>
    (\<forall>segs. list_all class_segment segs \<longrightarrow> module_path (join ''::'' segs) = join ''/'' segs)"
proof -
  have "request (PerlCodeGenerator_new req) = req" by (simp add: PerlCodeGenerator_new_eq [OF assms] put_types_def BuildPackageMap_eq)
  then show ?thesis using generate_loop_eq [OF assms refl, of ser] module_path_join by (simp add: Generate_def case_prod_beta)
qed

lemma read_stdin_all: "read_stdin input = input"
  by (induction input rule: read_stdin.induct) (simp add: read_stdin.simps)

section \<open>Examples\<close>

definition ex_message :: DescriptorProto where
  "ex_message = DescriptorProto ''Outer'' [\<lparr>fdp_name = ''id'', fdp_type_name = [], fdp_type = 5\<rparr>] []
     [DescriptorProto ''Inner'' [] [\<lparr>enp_name = ''Kind'', enp_value = [\<lparr>evp_name = ''A'', evp_number = 0\<rparr>]\<rparr>] []]"

definition ex_file :: "string \<Rightarrow> string \<Rightarrow> FileDescriptorProto" where
  "ex_file name pkg = \<lparr>fp_name = name, fp_package = pkg, fp_dependency = [], fp_message_type = [ex_message], fp_enum_type = [],
     fp_service = [\<lparr>svp_name = ''Echo'', svp_method = [\<lparr>mtp_name = ''SayHello'', mtp_input_type = ''.acme.demo.Outer'',
       mtp_output_type = ''.acme.demo.Outer.Inner''\<rparr>]\<rparr>]\<rparr>"

definition ex_request :: CodeGeneratorRequest where
  "ex_request = \<lparr>file_to_generate = [''acme/my_file.proto''], proto_file = [ex_file ''acme/my_file.proto'' ''acme.demo'']\<rparr>"

lemma ex_request_facts:
  "proto_file ex_request = [ex_file ''acme/my_file.proto'' ''acme.demo'']" "fp_message_type (ex_file n p) = [ex_message]"
  "fp_name (ex_file n p) = n" "fp_package (ex_file n p) = p" "msg_paths ex_message = [[''Outer''], [''Outer'', ''Inner'']]"
  by (simp_all add: ex_request_def ex_file_def ex_message_def)

theorem generated_class_is_runtime_class_witness:
  "ResolvePerlClass (PerlCodeGenerator_new ex_request) ''.acme.demo.Outer.Inner'' =
   message_class ''acme.demo.Outer.Inner'' ''acme/my_file.proto'' (Some ''acme.demo'')"
proof -
  have "distinct (map fst (request_types ex_request))" by (simp add: request_types_def ex_request_facts type_entry_def)
  moreover have "names_ok [''Outer'', ''Inner'']" by (simp add: names_ok_def segment_ok_def capital_def upcase_def char_of_def bit_0)
  moreover have "list_all (segment_ok (CHR ''.'')) [''acme'', ''demo'']" by (simp add: segment_ok_def)
  moreover have "after_last_slash ''acme/my_file.proto'' = ''my_file'' @ CHR ''.'' # ''proto''" by (simp add: after_last_slash_def)
  ultimately show ?thesis
    using generated_class_is_runtime_class [of ex_request "ex_file ''acme/my_file.proto'' ''acme.demo''" ex_message "[''Outer'', ''Inner'']"
        "[''acme'', ''demo'']" "''my_file''" "''proto''"]
    by (simp add: ex_request_facts)
qed

theorem generate_response_witness:
  "map fst (response_file (fst (Generate (\<lambda>_. []) (PerlCodeGenerator_new ex_request)))) =
   [''Acme/Demo/MyFile.pm'', ''Acme/Demo/MyFile/Types.pm'']"
proof -
  have "CapitalizePackage ''acme.demo'' = ''Acme::Demo''"
    using CapitalizePackage_join [of "[''acme'', ''demo'']"] by (simp add: segment_ok_def capital_def upcase_def char_of_def bit_0)
  moreover have "ToCamelCase ''my_file'' = ''MyFile''" using camel_loop_camel_case [of True "CHR 0x00" "''my_file''"] by (simp add: upcase_def char_of_def bit_0)
  ultimately have "GetPerlPackage (ex_file ''acme/my_file.proto'' ''acme.demo'') = ''Acme::Demo::MyFile''"
    by (simp add: GetPerlPackage_def ex_request_facts after_last_slash_def before_last_dot_def)
  moreover have "module_path ''Acme::Demo::MyFile'' = ''Acme/Demo/MyFile''"
    using generate_response [of ex_request, THEN conjunct2, THEN spec, of "[''Acme'', ''Demo'', ''MyFile'']"]
    by (simp add: ex_request_facts class_segment_def)
  ultimately show ?thesis using generate_response [of ex_request "\<lambda>_. []"] by (simp add: ex_request_facts) (simp add: ex_request_def ex_request_facts)
qed

text \<open>
  Without a package the generator registers a type with two leading dots, so a reference to
  it is not found and resolves to a class in no file; with a second dot in the file name
  the generator and the run time cut it in different places.
\<close>

theorem types_without_package_unresolved:
  "ResolvePerlClass (PerlCodeGenerator_new (ex_request\<lparr>proto_file := [ex_file ''my_file.proto'' []]\<rparr>)) ''.Outer'' = ''Outer''"
  "message_class ''Outer'' ''my_file.proto'' (Some []) = ''MyFile::Outer''"
proof -
  let ?r = "ex_request\<lparr>proto_file := [ex_file ''my_file.proto'' []]\<rparr>"
  have "type_to_perl_class (PerlCodeGenerator_new ?r) = fold (\<lambda>(k, v). kv_store k v) (request_types ?r) []"
    by (subst PerlCodeGenerator_new_eq) (simp_all add: put_types_def BuildPackageMap_eq)
  moreover have "CapitalizePackage ''Outer'' = ''Outer''"
    using CapitalizePackage_join [of "[''Outer'']"] by (simp add: segment_ok_def capital_def upcase_def char_of_def bit_0)
  ultimately show "ResolvePerlClass (PerlCodeGenerator_new ?r) ''.Outer'' = ''Outer''"
    by (simp add: ResolvePerlClass_def request_types_def ex_request_facts type_entry_def ConsumePrefix_def)
  show "message_class ''Outer'' ''my_file.proto'' (Some []) = ''MyFile::Outer''"
    by (simp add: message_class_def rel_name_def strip_dot_def capitalize_path_def get_file_module_def after_last_slash_def upcase_def char_of_def bit_0 Let_def)
qed

theorem dotted_file_name_disagrees:
  "GetPerlPackage (ex_file ''v1.api.proto'' ''acme'') = ''Acme::V1.api''"
  "message_class ''acme.Outer'' ''v1.api.proto'' (Some ''acme'') = ''Acme::V1::Outer''"
proof -
  have "CapitalizePackage ''acme'' = ''Acme''"
    using CapitalizePackage_join [of "[''acme'']"] by (simp add: segment_ok_def capital_def upcase_def char_of_def bit_0)
  moreover have "ToCamelCase ''v1.api'' = ''V1.api''" using camel_loop_camel_case [of True "CHR 0x00" "''v1.api''"] by (simp add: upcase_def char_of_def bit_0)
  ultimately show "GetPerlPackage (ex_file ''v1.api.proto'' ''acme'') = ''Acme::V1.api''"
    by (simp add: GetPerlPackage_def ex_request_facts after_last_slash_def before_last_dot_def)
  show "message_class ''acme.Outer'' ''v1.api.proto'' (Some ''acme'') = ''Acme::V1::Outer''"
    by (simp add: message_class_def rel_name_def strip_dot_def capitalize_path_def get_file_module_def after_last_slash_def upcase_def char_of_def bit_0 Let_def)
qed

end
