(* ===== verification/Spec2Isabelle.thy ===== *)
theory Spec2Isabelle
  imports Obj_Cache Names Wire Block_Alloc Arena Utils Unknown_Fields Repeated Map_Field
    Descriptor Message_Access Deep_Copy Fast_Accessors Serialize Extension_Dict Descriptor_Pool
    Descriptor_Containers Attach Cache_Locks Module Generator
begin

text \<open>
  Verification of the C core of the Perl binding for Protocol Buffers (directory
  \<open>src/Protobuf\<close>): the XS layer between Perl and the upb library (\<open>xs/\<close>) and the \<open>protoc\<close>
  plugin that generates Perl modules (\<open>protoc/\<close>).

  \<^bold>\<open>The program.\<close> A Perl object that stands for a message, a repeated field, a map field or a
  descriptor is a blessed hash that holds a pointer to the C object (\<open>_upb_ptr\<close>) and a
  reference to the arena that owns the memory. One wrapper exists per C pointer as long as it
  is in the object cache, a hash of weak references with a bounded queue; the cache and the
  class tables belong to a registry per interpreter, while the mutexes that guard the cache
  are shared by all threads. Accessors convert between Perl scalars and upb values; messages
  are parsed and written through upb's codecs, also framed on file handles. Definitions come
  from descriptor pools, which generated modules fill from a serialized descriptor that the
  plugin embeds in them.

  \<^bold>\<open>Style.\<close> Code that may leave through \<open>croak\<close> or run into undefined behaviour has type
  \<open>('s, 'a) xs\<close>: a function from the state to a result (\<open>Inr\<close>) or a fault (\<open>Inl\<close>, a \<open>Croak\<close> with
  format and arguments, or a \<open>Fault\<close> where the C standard gives no meaning) and the state at
  that point; a \<open>croak\<close> keeps the changes made before it. States are extensible records that
  follow the layers: \<open>perl_st\<close> (heap of referents, \<open>\<at>ISA\<close>), \<open>cache_st\<close> (registry, cache, mutexes,
  audit log), \<open>arena_st\<close> (C structures and arenas), \<open>upb_st\<close> (definitions, messages, arrays, maps,
  handles); the operations of a layer are polymorphic in the extension. Machine integers are
  words of their width. Definitions keep the names of the sources.

  \<^bold>\<open>Theories and sources.\<close> (paths under \<open>src/Protobuf\<close>)
  \<^item> \<open>Prelude\<close>: the result type with its laws, machine types, lemmas on lists and words.
  \<^item> \<open>Perl_Api\<close>, \<open>Perl_Num\<close>: the part of Perl's C interface that is used: scalars with flags,
    references, magic, hashes, arrays; numeric and string coercions.
  \<^item> \<open>Registry\<close> (\<open>xs/protobuf/registry.c\<close>, \<open>port.h\<close>, the mutexes of \<open>obj_cache.c\<close>) and
    \<open>Obj_Cache\<close> (\<open>xs/protobuf/obj_cache.c\<close>): all cache operations and the audit ring buffer.
  \<^item> \<open>Cache_Locks\<close>: the lock calls of those operations run by several threads.
  \<^item> \<open>Names\<close>: name conversion of \<open>xs/protobuf/utils.c\<close> with its AVX2 and SSE paths.
  \<^item> \<open>Wire\<close>: the varint readers and writer, \<open>skip_value\<close> and the scrubbing loop of
    \<open>xs/unknown_fields/set.c\<close> and \<open>xs/message/serialize.c\<close>.
  \<^item> \<open>Block_Alloc\<close> (\<open>xs/protobuf/arena_tmpfs.c\<close>, \<open>arena.h\<close>): the linear allocator with canaries and
    guard pages over a byte memory. \<open>Arena\<close> (\<open>arena.c\<close>, \<open>arena.h\<close>, \<open>arena_tmpfs.c\<close>): arena objects
    and who owns what. \<open>Attach\<close>: \<open>PerlUpb_Arena_AttachMessage\<close>.
  \<^item> \<open>Upb\<close>, \<open>Upb_Array\<close>, \<open>Upb_Message\<close> (\<open>vendor/upb/message\<close>, \<open>vendor/upb/reflection/message.c\<close>): the part
    of upb that the XS layer calls.
  \<^item> \<open>Utils\<close> (the rest of \<open>xs/protobuf/utils.c\<close>, \<open>xs/protobuf/message.c\<close>): classes, wrapper objects,
    64-bit numbers, errors, field vectors.
  \<^item> \<open>Unknown_Fields\<close> (\<open>xs/unknown_fields/set.c\<close>).
  \<^item> \<open>Container_Objects\<close>, \<open>Sv_To_Upb\<close>, \<open>Upb_To_Sv\<close> (\<open>xs/convert/\<close>): conversion in both directions.
  \<^item> \<open>Repeated\<close> (\<open>xs/repeated/\<close>) and \<open>Map_Field\<close> (\<open>xs/map/\<close>): container objects and the map iterator.
  \<^item> \<open>Descriptor\<close> (\<open>xs/descriptor/\<close>), \<open>Descriptor_Containers\<close> (\<open>xs/descriptor_containers/\<close>),
    \<open>Descriptor_Pool\<close> (\<open>xs/descriptor_pool/\<close>).
  \<^item> \<open>Message_Access\<close> (\<open>xs/message/access.c\<close>, \<open>message.c\<close>, \<open>meta.c\<close>, \<open>compare.c\<close>), \<open>Fast_Accessors\<close>
    (\<open>xs/protobuf/fast_accessors.c\<close>), \<open>Serialize\<close> (\<open>xs/message/serialize.c\<close>), \<open>Extension_Dict\<close>
    (\<open>xs/extension_dict/\<close>).
  \<^item> \<open>Deep_Copy\<close>: what \<open>vendor/upb/message/copy.c\<close> leaves in memory when a message object is assigned;
    the content of a message as a tree, and the part of the memory that holds it.
  \<^item> \<open>Module\<close> (\<open>xs/protobuf.c\<close>): entry points and loading.
  \<^item> \<open>Protoc_Names\<close> (\<open>protoc/helpers.cc\<close>) and \<open>Generator\<close> (\<open>protoc/generator.cc\<close>, \<open>plugin_main.cc\<close>).

  \<^bold>\<open>Interfaces.\<close> A component relies on another through a locale, interpreted on the definitions
  of the provider: \<open>plain_copier\<close> (a scalar loop that copies unremarkable characters: the vector
  paths of \<open>Names\<close>), \<open>bounded_log\<close> (the audit buffer), \<open>sequence\<close> (upb arrays under repeated
  fields), \<open>dictionary\<close> (map entries under map fields), \<open>walkable\<close> (descriptor maps under their
  iterator), \<open>deep_cloner\<close> (the recursive call of a deep copy under the loops over elements,
  entries, fields and extensions, interpreted at every depth), \<open>lock_discipline\<close> (cache operations under interleaving, interpreted once for threads
  that never clear the cache and once for threads that never evict).

  \<^bold>\<open>What is shown.\<close>
  \<^item> Cache: hits are live, the size is bounded, eviction is first-in first-out, dead wrappers leave,
    the audit buffer refines a truncated log. Threads cannot deadlock on its mutexes unless one
    clears the cache while another evicts, and then they can.
  \<^item> Memory: arenas are freed once and not leaked in any run of the lifecycle operations;
    the block allocator hands out disjoint blocks, raises no false alarm and detects damage.
  \<^item> Values: what a conversion delivers has the field's type, integers are range-checked,
    a scalar comes back unchanged from a round trip, an array assigned to a repeated field
    arrives element by element.
  \<^item> Containers: repeated fields refine lists, scalar maps refine finite maps, both iterators
    end and are complete.
  \<^item> Messages: set, read and clear with oneofs and presence; a message that is assigned to a field
    is copied in full, into fresh memory, so that it shares nothing with the source; the memoising accessors agree with
    themselves; extensions; unknown fields as a byte log and deletion by tag as a filter;
    listing the fields and reading a handle to its end terminate; framing round-trips.
  \<^item> Names, classes and generated code: the vector paths compute what the scalar loops do, the
    conversions are inverse and stay inside their buffers; the class that the generator writes
    for a type is the one the run time blesses into; the embedded descriptor decodes to what was
    serialized; the response has the right files at the right places.
  \<^item> Loading establishes the state (\<open>ready\<close>) that the theorems on the cache and on wrappers start
    from.
  \<^item> Several theorems record where the code falls short, among them \<open>batch_truncates_integers\<close>,
    \<open>fast_getter_stale\<close>, \<open>delete_tag_loses_groups\<close>, \<open>insert_failure_leaves_gap\<close>, \<open>cache_readd_evicts_itself\<close>,
    \<open>block_alloc_size_wraps\<close>, \<open>tmpfs_arena_leaks\<close>, \<open>cache_in_global_destruction\<close>,
    \<open>types_without_package_unresolved\<close>, \<open>dotted_file_name_disagrees\<close>, and the deadlock of \<open>Cache_Locks\<close>.

  \<^bold>\<open>Bounds and fuel.\<close> \<open>stack_limit\<close> is the depth of recursion on nested values before the C stack
  is exhausted, where the model faults; typing is proved for every depth, and a
  message is copied when it is nested no deeper than that. \<open>ReadVarint\<close> has
  fuel 11, more than the ten rounds that a 64-bit shift allows. The loop over the present
  fields of a message starts with the number of its fields plus one, and the search for the
  next extension with that number plus the length of the auxiliary data plus one, which
  covers every index they visit; a theorem shows that the loops return. \<open>sv_derived_from\<close> follows \<open>\<at>ISA\<close> to depth 100 as Perl does. Answers
  of the environment are lists in the state, consumed by the calls: \<open>mmap\<close>, \<open>mprotect\<close>, \<open>trylock\<close>,
  allocation from an arena, and the length of each read and write on a handle.

  \<^bold>\<open>Parameters.\<close> Code that is not part of the binding is an argument: upb's encoders, decoders and
  comparison (\<open>upb_codec\<close>), parsing of descriptors and building of definitions (\<open>pool_codec\<close>), the
  serializer of the plugin (\<open>ser\<close>), Perl code that is called back (\<open>perl_env\<close>), how Perl reads numbers
  from strings (\<open>str_num\<close>), the tables of functions of descriptor containers (\<open>vtables\<close>).

  \<^bold>\<open>Not modelled.\<close> Reference counts: the death of a referent is an explicit event that may come at
  any point. The memory layout of upb messages, its hash tables, freezing, recursive discarding
  of unknown fields. Output to standard error. The initialisers \<open>PerlUpb_InitX\<close> return true and are
  not called. The Perl modules and XS glue in \<open>lib/\<close>, the tests in \<open>t/\<close>, the vendored codecs and the
  other distributions of the repository are outside; they are Perl, tests or third-party code.
  Data races on the statistics counters are not modelled: \<open>Cache_Locks\<close> interleaves lock calls only.
\<close>

end
